(* ===== verification/Prelude.thy ===== *)
theory Prelude
  imports Main "HOL-Library.Word"
begin

text \<open>
  Shared vocabulary of the development: machine integers, byte buffers, C strings,
  little-endian fields and the lemmas on them that every component uses.

  \<^item> A fixed-size C array is a list whose length is the declared size.  A copy loop or a
    store writes through \<open>blit\<close>, which makes the list \<^emph>\<open>longer\<close> when the
    store leaves the array; the components' invariants fix every length, so their
    preservation lemmas show that no store overruns its buffer.
  \<^item> A \<open>const char*\<close> is the list of bytes from the pointer to the end of the object it
    points into; \<open>cstr\<close> is the C string in it, \<open>terminated\<close> says that it ends there.
    A pointer that may be NULL is an \<open>option\<close>.
  \<^item> \<open>size_t\<close> values are \<open>nat\<close>s; a subtraction the code could wrap is \<open>szsub\<close>.
\<close>

unbundle bit_operations_syntax

type_synonym u8 = "8 word"
type_synonym u16 = "16 word"
type_synonym u32 = "32 word"
type_synonym u64 = "64 word"
type_synonym bytes = "8 word list"

named_theorems buf_simps \<open>lengths and contents of buffers after loads and stores\<close>
named_theorems cstr_simps \<open>C strings in buffers\<close>

section \<open>Definitions\<close>

definition lit :: "string \<Rightarrow> bytes" where
  "lit s = map of_char s @ [0]"

definition cstr :: "bytes \<Rightarrow> bytes" where
  "cstr buf = takeWhile (\<lambda>c. c \<noteq> 0) buf"

definition terminated :: "bytes \<Rightarrow> bool" where
  "terminated buf \<longleftrightarrow> 0 \<in> set buf"

definition blit :: "'a list \<Rightarrow> nat \<Rightarrow> 'a list \<Rightarrow> 'a list" where
  "blit dst off src = take off dst @ src @ drop (off + length src) dst"

text \<open>The bytes a loop \<open>while (src[i] != 0 && i < n) dst[i] = src[i]\<close> copies.\<close>

fun cstr_run :: "nat \<Rightarrow> bytes \<Rightarrow> bytes" where
  "cstr_run 0 src = []"
| "cstr_run (Suc n) [] = []"
| "cstr_run (Suc n) (c # src) = (if c = 0 then [] else c # cstr_run n src)"

definition szsub :: "nat \<Rightarrow> nat \<Rightarrow> nat" where
  "szsub a b = nat ((int a - int b) mod 2 ^ 64)"

fun find_idx :: "('a \<Rightarrow> bool) \<Rightarrow> 'a list \<Rightarrow> nat option" where
  "find_idx P [] = None"
| "find_idx P (x # xs) = (if P x then Some 0 else map_option Suc (find_idx P xs))"

definition le16_bytes :: "u16 \<Rightarrow> bytes" where
  "le16_bytes v = [ucast v, ucast (drop_bit 8 v)]"

definition le32_bytes :: "u32 \<Rightarrow> bytes" where
  "le32_bytes v = [ucast v, ucast (drop_bit 8 v), ucast (drop_bit 16 v), ucast (drop_bit 24 v)]"

definition le32_of :: "bytes \<Rightarrow> u32" where
  "le32_of b = ucast (b ! 0) OR push_bit 8 (ucast (b ! 1))
     OR push_bit 16 (ucast (b ! 2)) OR push_bit 24 (ucast (b ! 3))"

section \<open>Words\<close>

lemma uint_eq_iff [simp]: "uint a = uint b \<longleftrightarrow> a = b"
  by (simp add: word_uint_eq_iff)

lemma unat_drop_bit: "unat (drop_bit n (x :: 'a::len word)) = drop_bit n (unat x)"
  by (simp add: unsigned_drop_bit_eq take_bit_nat_eq_self)

lemma unat_ucast_up:
  assumes "LENGTH('a::len) \<le> LENGTH('b::len)"
  shows "unat (ucast (x :: 'a word) :: 'b word) = unat x"
proof -
  have "unat x < 2 ^ LENGTH('a)" by (rule unsigned_less)
  also have "\<dots> \<le> 2 ^ LENGTH('b)" using assms by simp
  finally show ?thesis by (simp add: unsigned_ucast_eq take_bit_nat_eq_self)
qed

section \<open>Stores into buffers\<close>

lemma length_blit [buf_simps]:
  "off + length src \<le> length dst \<Longrightarrow> length (blit dst off src) = length dst"
  by (simp add: blit_def)

lemma length_blit_overrun:
  "src \<noteq> [] \<Longrightarrow> length (blit dst off src) = length dst \<longleftrightarrow> off + length src \<le> length dst"
  by (cases src) (auto simp: blit_def min_def)

lemma blit_Nil [simp]: "blit dst off [] = dst"
  by (simp add: blit_def)

lemma nth_blit:
  assumes "off + length src \<le> length dst" and "i < length dst"
  shows "blit dst off src ! i = (if off \<le> i \<and> i < off + length src then src ! (i - off) else dst ! i)"
  using assms by (auto simp: blit_def nth_append min_def)

lemma nth_blit_end [buf_simps]: "blit dst 0 (w @ [x]) ! length w = x"
  by (simp add: blit_def nth_append)

lemma take_blit [buf_simps]:
  assumes "off \<le> length dst"
  shows "take (off + length src) (blit dst off src) = take off dst @ src"
  using assms by (simp add: blit_def)

lemma take_blit0 [buf_simps]: "take (length src) (blit dst 0 src) = src"
  by (simp add: blit_def)

lemma take_blit_before [buf_simps]:
  "n \<le> off \<Longrightarrow> off \<le> length dst \<Longrightarrow> take n (blit dst off src) = take n dst"
  by (simp add: blit_def min_def)

lemma blit_blit_append:
  "off \<le> length dst \<Longrightarrow> blit (blit dst off xs) (off + length xs) ys = blit dst off (xs @ ys)"
  by (simp add: blit_def min_def ac_simps)

lemma take_drop_join: "take n (drop m b) @ drop (m + n) b = drop m b"
  by (metis append_take_drop_id drop_drop add.commute)

lemma take_drop_split:
  "c \<le> n \<Longrightarrow> take c (drop k xs) @ take (n - c) (drop (k + c) xs) = take n (drop k xs)"
  using take_add[of c "n - c" "drop k xs"] by (simp add: add.commute)

section \<open>C strings\<close>

lemma lit_terminated [simp, cstr_simps]: "terminated (lit s)"
  by (simp add: lit_def terminated_def)

lemma cstr_no_zero [cstr_simps]: "0 \<notin> set (cstr buf)"
  unfolding cstr_def by (auto dest: set_takeWhileD)

lemma cstr_id [cstr_simps]: "0 \<notin> set s \<Longrightarrow> cstr (s @ 0 # rest) = s"
  by (simp add: cstr_def takeWhile_append takeWhile_eq_all_conv)

lemma cstr_idem [simp]: "cstr (cstr s) = cstr s"
  by (simp add: cstr_def takeWhile_idem)

lemma length_cstr_less: "terminated buf \<Longrightarrow> length (cstr buf) < length buf"
  unfolding terminated_def cstr_def
  by (induction buf) auto

lemma cstr_prefix: "cstr buf = take (length (cstr buf)) buf"
  unfolding cstr_def by (rule takeWhile_eq_take)

lemma nth_cstr_end: "terminated buf \<Longrightarrow> buf ! length (cstr buf) = 0"
  unfolding terminated_def cstr_def
  by (induction buf) auto

lemma cstr_blit [cstr_simps]:
  assumes "0 \<notin> set s"
  shows "cstr (blit dst 0 (s @ [0])) = s"
  using assms cstr_id[of s] by (simp add: blit_def)

lemma cstr_run_eq [cstr_simps]: "cstr_run n src = take n (cstr src)"
  by (induction n src rule: cstr_run.induct) (auto simp: cstr_def)

lemma take_cstr_no_zero [cstr_simps]: "0 \<notin> set (take n (cstr s))"
  using cstr_no_zero[of s] by (auto dest: in_set_takeD)

lemma terminated_blit [cstr_simps]: "terminated (blit dst 0 (s @ [0]))"
  by (simp add: blit_def terminated_def)

section \<open>size\_t subtraction\<close>

lemma szsub_exact [simp]: "b \<le> a \<Longrightarrow> a < 2 ^ 64 \<Longrightarrow> szsub a b = a - b"
  by (simp add: szsub_def)

section \<open>Ring indices\<close>

lemma ring_index_le:
  fixes g i j m :: nat
  assumes "i \<le> j" and "j < m" and "(g + i) mod m = (g + j) mod m"
  shows "i = j"
proof (rule ccontr)
  assume "i \<noteq> j"
  then have "0 < j - i" and "j - i < m" using assms by auto
  moreover have "m dvd (g + j) - (g + i)"
    using assms by (metis add_le_cancel_left mod_eq_dvd_iff_nat)
  ultimately show False using dvd_imp_le by fastforce
qed

lemma ring_index_inj:
  fixes g i j m :: nat
  shows "i < m \<Longrightarrow> j < m \<Longrightarrow> (g + i) mod m = (g + j) mod m \<longleftrightarrow> i = j"
  using ring_index_le[of i j m g] ring_index_le[of j i m g] by (metis nat_le_linear)

section \<open>First index\<close>

lemma find_idx_None [simp]: "find_idx P xs = None \<longleftrightarrow> (\<forall>x \<in> set xs. \<not> P x)"
  by (induction xs) auto

lemma find_idx_SomeD:
  "find_idx P xs = Some i \<Longrightarrow> i < length xs \<and> P (xs ! i) \<and> (\<forall>j < i. \<not> P (xs ! j))"
proof (induction xs arbitrary: i)
  case Nil
  then show ?case by simp
next
  case (Cons x xs)
  then show ?case
    by (auto split: if_splits simp: less_Suc_eq_0_disj)
qed

lemma find_idx_length: "find_idx P xs = Some i \<Longrightarrow> i < length xs"
  by (blast dest: find_idx_SomeD)

lemma find_idx_sat: "find_idx P xs = Some i \<Longrightarrow> P (xs ! i)"
  by (blast dest: find_idx_SomeD)

section \<open>Little-endian fields\<close>

lemma length_le_bytes [simp]:
  "length (le16_bytes v) = 2" "length (le32_bytes w) = 4"
  by (simp_all add: le16_bytes_def le32_bytes_def)

lemma le32_roundtrip [simp]: "le32_of (le32_bytes v) = v"
proof (rule bit_word_eqI)
  fix n assume "n < LENGTH(32)"
  then consider "n < 8" | "8 \<le> n" "n < 16" | "16 \<le> n" "n < 24" | "24 \<le> n" "n < 32"
    by fastforce
  then show "bit (le32_of (le32_bytes v)) n = bit v n"
    by cases (auto simp: le32_of_def le32_bytes_def bit_simps)
qed

lemma le32_bytes_of: "length b = 4 \<Longrightarrow> le32_bytes (le32_of b) = b"
proof -
  assume "length b = 4"
  then obtain b0 b1 b2 b3 where b: "b = [b0, b1, b2, b3]"
    by (auto simp: numeral_eq_Suc length_Suc_conv)
  have "ucast (le32_of b) = b0" "ucast (drop_bit 8 (le32_of b)) = b1"
    "ucast (drop_bit 16 (le32_of b)) = b2" "ucast (drop_bit 24 (le32_of b)) = b3"
    by (rule bit_word_eqI; auto simp: le32_of_def b bit_simps dest: bit_imp_le_length)+
  then show ?thesis by (simp add: le32_bytes_def b)
qed

end
