(* ===== verification/KString.thy ===== *)
theory KString
  imports Prelude
begin

text \<open>
  The freestanding string helpers of \<open>src/kernel/kstring.c\<close>.  Each loop over the
  bytes behind a pointer is a recursion over the list of those bytes; the equation for the
  empty list stands for a read past the end of the object, which the theorems exclude by
  asking for terminated strings.
\<close>

section \<open>Definitions\<close>

fun kstrcmp :: "bytes \<Rightarrow> bytes \<Rightarrow> int" where
  "kstrcmp (a # as) (b # bs) =
     (if a \<noteq> 0 \<and> b \<noteq> 0
      then if a \<noteq> b then uint a - uint b else kstrcmp as bs
      else uint a - uint b)"
| "kstrcmp _ _ = 0"

fun kstrncmp :: "bytes \<Rightarrow> bytes \<Rightarrow> nat \<Rightarrow> int" where
  "kstrncmp as bs 0 = 0"
| "kstrncmp (a # as) (b # bs) (Suc n) =
     (if a \<noteq> b then uint a - uint b
      else if a = 0 \<or> b = 0 then uint a - uint b
      else kstrncmp as bs n)"
| "kstrncmp _ _ (Suc n) = 0"

fun kstrlen :: "bytes \<Rightarrow> nat" where
  "kstrlen [] = 0"
| "kstrlen (c # cs) = (if c = 0 then 0 else Suc (kstrlen cs))"

fun kskip_spaces :: "bytes \<Rightarrow> bytes" where
  "kskip_spaces [] = []"
| "kskip_spaces (c # cs) = (if c = 32 \<or> c = 9 then kskip_spaces cs else c # cs)"

abbreviation is_digit_byte :: "u8 \<Rightarrow> bool" where
  "is_digit_byte c \<equiv> 48 \<le> c \<and> c \<le> 57"

text \<open>The digit loop of \<open>kparse_uint\<close>: cursor, \<open>value\<close> and \<open>has_digits\<close>;
  \<open>None\<close> is the early \<open>return false\<close> on overflow.\<close>

fun kparse_digits :: "bytes \<Rightarrow> u32 \<Rightarrow> bool \<Rightarrow> (bytes \<times> u32 \<times> bool) option" where
  "kparse_digits [] value has_digits = Some ([], value, has_digits)"
| "kparse_digits (c # cs) value has_digits =
     (if is_digit_byte c
      then let digit = ucast (c - 48)
           in if value > (0xFFFFFFFF - digit) div 10 then None
              else kparse_digits cs (value * 10 + digit) True
      else Some (c # cs, value, has_digits))"

text \<open>\<open>Some (value, cursor)\<close> is \<open>return true\<close> with both out-parameters written.\<close>

definition kparse_uint :: "bytes \<Rightarrow> (u32 \<times> bytes) option" where
  "kparse_uint str =
     (case kparse_digits (kskip_spaces str) 0 False of
        None \<Rightarrow> None
      | Some (cursor, value, has_digits) \<Rightarrow> if has_digits then Some (value, cursor) else None)"

section \<open>Comparison and length\<close>

lemma kstrlen_cstr [cstr_simps]: "kstrlen s = length (cstr s)"
  by (induction s) (auto simp: cstr_def)

lemma kstrcmp_eq_0 [cstr_simps]:
  "terminated a \<Longrightarrow> terminated b \<Longrightarrow> kstrcmp a b = 0 \<longleftrightarrow> cstr a = cstr b"
proof (induction a b rule: kstrcmp.induct)
  case (1 a as b bs)
  then show ?case by (auto simp: terminated_def cstr_def unsigned_eq_0_iff)
qed (auto simp: terminated_def)

lemma kstrcmp_antisym: "kstrcmp b a = - kstrcmp a b"
  by (induction a b rule: kstrcmp.induct) auto

lemma kstrncmp_eq_0:
  "terminated a \<Longrightarrow> terminated b \<Longrightarrow>
   kstrncmp a b n = 0 \<longleftrightarrow> take n (cstr a) = take n (cstr b)"
proof (induction a b n rule: kstrncmp.induct)
  case (2 a as b bs n)
  then show ?case by (auto simp: terminated_def cstr_def unsigned_eq_0_iff)
qed (auto simp: terminated_def)

section \<open>Parsing unsigned numbers\<close>

text \<open>The value a run of decimal digits denotes, with no width limit.\<close>

fun dec_value :: "nat \<Rightarrow> bytes \<Rightarrow> nat" where
  "dec_value v [] = v"
| "dec_value v (c # cs) = dec_value (v * 10 + unat (c - 48)) cs"

lemma dec_value_mono: "v \<le> dec_value v cs"
proof (induction cs arbitrary: v)
  case (Cons c cs)
  have "v \<le> v * 10 + unat (c - 48)" by simp
  also have "\<dots> \<le> dec_value (v * 10 + unat (c - 48)) cs" by (rule Cons.IH)
  finally show ?case by simp
qed simp

lemma digit_bound: "is_digit_byte c \<Longrightarrow> unat (c - 48) \<le> 9"
  by unat_arith

lemma overflow_guard:
  fixes v :: u32 and c :: u8
  assumes "is_digit_byte c"
  shows "v > (0xFFFFFFFF - ucast (c - 48)) div 10 \<longleftrightarrow> 2 ^ 32 \<le> unat v * 10 + unat (c - 48)"
    and "unat v * 10 + unat (c - 48) < 2 ^ 32 \<Longrightarrow>
      unat (v * 10 + ucast (c - 48)) = unat v * 10 + unat (c - 48)"
proof -
  let ?d = "ucast (c - 48) :: u32"
  have d: "unat ?d = unat (c - 48)" by (simp add: unat_ucast_up)
  have le: "unat ?d \<le> 9" using digit_bound[OF assms] d by simp
  have "unat (0xFFFFFFFF - ?d) = 2 ^ 32 - 1 - unat ?d"
    using le by (subst unat_sub) (simp_all add: word_le_nat_alt)
  then have "unat ((0xFFFFFFFF - ?d) div 10) = (2 ^ 32 - 1 - unat ?d) div 10"
    by (simp add: unat_div)
  then show "v > (0xFFFFFFFF - ?d) div 10 \<longleftrightarrow> 2 ^ 32 \<le> unat v * 10 + unat (c - 48)"
    using le unfolding word_less_nat_alt d by auto
  show "unat (v * 10 + ?d) = unat v * 10 + unat (c - 48)"
    if "unat v * 10 + unat (c - 48) < 2 ^ 32"
    using that unfolding d[symmetric] by (simp add: unat_word_ariths)
qed

lemma kparse_digits_spec:
  "kparse_digits s v h =
     (let ds = takeWhile is_digit_byte s; n = dec_value (unat v) ds
      in if n < 2 ^ 32 then Some (dropWhile is_digit_byte s, of_nat n, h \<or> ds \<noteq> []) else None)"
proof (induction s v h rule: kparse_digits.induct)
  case (1 v h)
  have "unat v < 2 ^ 32" using unsigned_less[of v] by simp
  then show ?case by simp
next
  case (2 c cs v h)
  show ?case
  proof (cases "is_digit_byte c")
    case False
    have "unat v < 2 ^ 32" using unsigned_less[of v] by simp
    then show ?thesis using False by auto
  next
    case True
    show ?thesis
    proof (cases "2 ^ 32 \<le> unat v * 10 + unat (c - 48)")
      case big: True
      then have "2 ^ 32 \<le> dec_value (unat v * 10 + unat (c - 48)) (takeWhile is_digit_byte cs)"
        using dec_value_mono order_trans by blast
      with True big overflow_guard(1)[OF True, of v] show ?thesis
        by (simp add: Let_def)
    next
      case False
      with True overflow_guard[OF True, of v] "2.IH" show ?thesis
        by (simp add: Let_def)
    qed
  qed
qed

section \<open>Properties\<close>

text \<open>C38: number parsing is exact.  After the leading blanks, the parser accepts
  precisely when there is at least one decimal digit and the number the whole digit run denotes
  fits in 32 bits; it then returns that number and the text after the run.  In particular the
  overflow guard refuses no value that fits and accepts none that would wrap.\<close>

theorem kparse_uint_exact:
  "kparse_uint s =
     (let rest = kskip_spaces s; ds = takeWhile is_digit_byte rest
      in if ds \<noteq> [] \<and> dec_value 0 ds < 2 ^ 32
         then Some (of_nat (dec_value 0 ds), dropWhile is_digit_byte rest) else None)"
  by (simp add: kparse_uint_def kparse_digits_spec Let_def)

end
