(* ===== verification/Fs_Format.thy ===== *)
theory Fs_Format
  imports KString
begin

text \<open>
  The on-disk format of \<open>src/kernel/fs.c\<close>: file slots, packed disk records, the record
  table and the slot header, their byte images, the checksums, and the two directions
  between the mounted file table and the record table (\<open>fs_serialize\<close>,
  \<open>fs_deserialize_current\<close>, \<open>fs_deserialize_legacy\<close>).
\<close>

section \<open>Definitions\<close>

abbreviation FS_MAX_FILES :: nat where "FS_MAX_FILES \<equiv> 32"
abbreviation FS_MAX_FILENAME :: nat where "FS_MAX_FILENAME \<equiv> 32"
abbreviation FS_MAX_FILE_SIZE :: nat where "FS_MAX_FILE_SIZE \<equiv> 8192"
abbreviation FS_DISK_DATA_BYTES :: nat where "FS_DISK_DATA_BYTES \<equiv> 1024"
abbreviation FS_DISK_RECORD_HEAD :: u8 where "FS_DISK_RECORD_HEAD \<equiv> 1"
abbreviation FS_DISK_RECORD_CONTINUATION :: u8 where "FS_DISK_RECORD_CONTINUATION \<equiv> 2"
abbreviation FS_DISK_RECORD_BYTES :: nat where "FS_DISK_RECORD_BYTES \<equiv> 1061"
abbreviation FS_DISK_TABLE_BYTES :: nat where "FS_DISK_TABLE_BYTES \<equiv> 33952"
abbreviation FS_DISK_TABLE_SECTORS :: nat where "FS_DISK_TABLE_SECTORS \<equiv> 67"
abbreviation FS_DISK_TABLE_PAD :: nat where "FS_DISK_TABLE_PAD \<equiv> 352"
abbreviation FS_MAGIC_VAL :: u32 where "FS_MAGIC_VAL \<equiv> 0xBA5EBA11"
abbreviation FS_LEGACY_DISK_VERSION :: u32 where "FS_LEGACY_DISK_VERSION \<equiv> 1"
abbreviation FS_GENERATION_DISK_VERSION :: u32 where "FS_GENERATION_DISK_VERSION \<equiv> 2"
abbreviation FS_CONTENT_DISK_VERSION :: u32 where "FS_CONTENT_DISK_VERSION \<equiv> 3"
abbreviation FS_INTEGRITY_DISK_VERSION :: u32 where "FS_INTEGRITY_DISK_VERSION \<equiv> 4"
abbreviation FS_DISK_VERSION :: u32 where "FS_DISK_VERSION \<equiv> 5"

record fs_file =
  f_in_use :: bool
  f_name :: bytes
  f_size :: nat
  f_data :: bytes

record fs_disk_header =
  h_magic :: u32
  h_version :: u32
  h_table_bytes :: u32
  h_checksum :: u32
  h_generation :: u32
  h_header_checksum :: u32
  h_reserved :: bytes

record fs_disk_record =
  r_in_use :: u8
  r_name :: bytes
  r_size :: u32
  r_data :: bytes

record fs_disk_table =
  t_records :: "fs_disk_record list"
  t_padding :: bytes

text \<open>The packed structs as the compiler lays them out, and read back from memory.\<close>

definition header_bytes :: "fs_disk_header \<Rightarrow> bytes" where
  "header_bytes h = le32_bytes (h_magic h) @ le32_bytes (h_version h) @ le32_bytes (h_table_bytes h)
     @ le32_bytes (h_checksum h) @ le32_bytes (h_generation h) @ le32_bytes (h_header_checksum h)
     @ h_reserved h"

definition header_of_bytes :: "bytes \<Rightarrow> fs_disk_header" where
  "header_of_bytes b = \<lparr>h_magic = le32_of (take 4 b), h_version = le32_of (take 4 (drop 4 b)),
     h_table_bytes = le32_of (take 4 (drop 8 b)), h_checksum = le32_of (take 4 (drop 12 b)),
     h_generation = le32_of (take 4 (drop 16 b)), h_header_checksum = le32_of (take 4 (drop 20 b)),
     h_reserved = drop 24 b\<rparr>"

definition record_bytes :: "fs_disk_record \<Rightarrow> bytes" where
  "record_bytes r = [r_in_use r] @ r_name r @ le32_bytes (r_size r) @ r_data r"

definition record_of_bytes :: "bytes \<Rightarrow> fs_disk_record" where
  "record_of_bytes b = \<lparr>r_in_use = b ! 0, r_name = take FS_MAX_FILENAME (drop 1 b),
     r_size = le32_of (take 4 (drop 33 b)), r_data = take FS_DISK_DATA_BYTES (drop 37 b)\<rparr>"

definition table_bytes :: "fs_disk_table \<Rightarrow> bytes" where
  "table_bytes t = concat (map record_bytes (t_records t)) @ t_padding t"

fun records_of_bytes :: "nat \<Rightarrow> bytes \<Rightarrow> fs_disk_record list" where
  "records_of_bytes 0 b = []"
| "records_of_bytes (Suc n) b =
     record_of_bytes (take FS_DISK_RECORD_BYTES b) # records_of_bytes n (drop FS_DISK_RECORD_BYTES b)"

definition table_of_bytes :: "bytes \<Rightarrow> fs_disk_table" where
  "table_of_bytes b = \<lparr>t_records = records_of_bytes FS_MAX_FILES b,
     t_padding = drop FS_DISK_TABLE_BYTES b\<rparr>"

text \<open>FNV-1a over a byte range; the header checksum skips its own field.\<close>

fun fnv_loop :: "u32 \<Rightarrow> bytes \<Rightarrow> u32" where
  "fnv_loop value [] = value"
| "fnv_loop value (b # bs) = fnv_loop ((value XOR ucast b) * 16777619) bs"

definition fs_checksum :: "bytes \<Rightarrow> u32" where
  "fs_checksum b = fnv_loop 2166136261 b"

definition fs_header_checksum :: "fs_disk_header \<Rightarrow> u32" where
  "fs_header_checksum h =
     fnv_loop 2166136261
       (map (\<lambda>i. if 20 \<le> i \<and> i < 20 + 4 then 0 else header_bytes h ! i) [0..<length (header_bytes h)])"

definition fs_header_is_valid :: "fs_disk_header \<Rightarrow> bool" where
  "fs_header_is_valid h =
     (if h_magic h \<noteq> FS_MAGIC_VAL \<or>
         (h_version h \<noteq> FS_LEGACY_DISK_VERSION \<and> h_version h \<noteq> FS_GENERATION_DISK_VERSION \<and>
          h_version h \<noteq> FS_CONTENT_DISK_VERSION \<and> h_version h \<noteq> FS_INTEGRITY_DISK_VERSION \<and>
          h_version h \<noteq> FS_DISK_VERSION) \<or>
         h_table_bytes h \<noteq> of_nat FS_DISK_TABLE_BYTES
      then False
      else h_version h < FS_INTEGRITY_DISK_VERSION \<or> h_header_checksum h = fs_header_checksum h)"

definition fs_bytes_are_blank :: "bytes \<Rightarrow> bool" where
  "fs_bytes_are_blank b = list_all (\<lambda>x. x = 0) b"

definition fs_header_is_blank :: "fs_disk_header \<Rightarrow> bool" where
  "fs_header_is_blank h = list_all (\<lambda>x. x = 0) (header_bytes h)"

definition fs_header_generation :: "fs_disk_header \<Rightarrow> u32" where
  "fs_header_generation h = (if h_version h = FS_LEGACY_DISK_VERSION then 0 else h_generation h)"

definition fs_generation_is_newer :: "u32 \<Rightarrow> u32 \<Rightarrow> bool" where
  "fs_generation_is_newer lhs rhs = (let distance = lhs - rhs in distance \<noteq> 0 \<and> distance < 0x80000000)"

definition fs_bytes_equal :: "bytes \<Rightarrow> bytes \<Rightarrow> nat \<Rightarrow> bool" where
  "fs_bytes_equal lhs rhs n = list_all (\<lambda>i. lhs ! i = rhs ! i) [0..<n]"

definition fs_disk_records_needed :: "nat \<Rightarrow> nat" where
  "fs_disk_records_needed sz = (if sz = 0 then 1 else (sz + FS_DISK_DATA_BYTES - 1) div FS_DISK_DATA_BYTES)"

text \<open>File names.\<close>

fun valid_name_loop :: "nat \<Rightarrow> bytes \<Rightarrow> bool" where
  "valid_name_loop len [] = False"
| "valid_name_loop len (c # cs) =
     (if c = 0 then True
      else if c = 32 \<or> c = 9 \<or> c = 47 \<or> c = 92 then False
      else if len + 1 \<ge> FS_MAX_FILENAME then False
      else valid_name_loop (len + 1) cs)"

definition fs_is_valid_name :: "bytes option \<Rightarrow> bool" where
  "fs_is_valid_name nm =
     (case nm of None \<Rightarrow> False
      | Some n \<Rightarrow> (case n of [] \<Rightarrow> False | c # _ \<Rightarrow> if c = 0 then False else valid_name_loop 0 n))"

definition fs_copy_name :: "fs_file \<Rightarrow> bytes \<Rightarrow> fs_file" where
  "fs_copy_name file nm =
     file\<lparr>f_name := blit (f_name file) 0 (cstr_run (FS_MAX_FILENAME - 1) nm @ [0])\<rparr>"

definition fs_clear :: "fs_file \<Rightarrow> fs_file" where
  "fs_clear file = file\<lparr>f_in_use := False, f_name := blit (f_name file) 0 [0], f_size := 0,
     f_data := blit (f_data file) 0 [0]\<rparr>"

text \<open>\<open>fs_serialize\<close>: zero the table, then lay out every file as a head record and the
  continuation records its size needs.\<close>

definition zero_record :: fs_disk_record where
  "zero_record = \<lparr>r_in_use = 0, r_name = replicate FS_MAX_FILENAME 0, r_size = 0,
     r_data = replicate FS_DISK_DATA_BYTES 0\<rparr>"

definition zero_table :: fs_disk_table where
  "zero_table = \<lparr>t_records = replicate FS_MAX_FILES zero_record,
     t_padding = replicate FS_DISK_TABLE_PAD 0\<rparr>"

definition write_head :: "fs_file \<Rightarrow> fs_disk_record \<Rightarrow> fs_disk_record" where
  "write_head f r = r\<lparr>r_in_use := FS_DISK_RECORD_HEAD, r_size := of_nat (f_size f),
     r_name := blit (r_name r) 0 (cstr_run (FS_MAX_FILENAME - 1) (f_name f)),
     r_data := blit (r_data r) 0 (take (min (f_size f) FS_DISK_DATA_BYTES) (f_data f))\<rparr>"

definition write_continuation :: "fs_file \<Rightarrow> nat \<Rightarrow> nat \<Rightarrow> fs_disk_record \<Rightarrow> fs_disk_record" where
  "write_continuation f copied chunk r = r\<lparr>r_in_use := FS_DISK_RECORD_CONTINUATION,
     r_size := of_nat chunk, r_data := blit (r_data r) 0 (take chunk (drop copied (f_data f)))\<rparr>"

function serialize_rest ::
  "fs_file \<Rightarrow> nat \<Rightarrow> nat \<Rightarrow> fs_disk_record list \<Rightarrow> nat \<times> fs_disk_record list" where
  "serialize_rest f copied disk_index recs =
     (if copied < f_size f
      then let chunk = min (f_size f - copied) FS_DISK_DATA_BYTES
           in serialize_rest f (copied + chunk) (disk_index + 1)
                (recs[disk_index := write_continuation f copied chunk (recs ! disk_index)])
      else (disk_index, recs))"
  by pat_completeness auto
termination
  by (relation "measure (\<lambda>(f, copied, _, _). f_size f - copied)") auto

declare serialize_rest.simps [simp del]

fun serialize_files ::
  "fs_file list \<Rightarrow> nat \<Rightarrow> fs_disk_record list \<Rightarrow> bool \<times> fs_disk_record list" where
  "serialize_files [] disk_index recs = (True, recs)"
| "serialize_files (f # files) disk_index recs =
     (if \<not> f_in_use f then serialize_files files disk_index recs
      else if fs_disk_records_needed (f_size f) > szsub FS_MAX_FILES disk_index then (False, recs)
      else let recs1 = recs[disk_index := write_head f (recs ! disk_index)];
               (disk_index2, recs2) =
                 serialize_rest f (min (f_size f) FS_DISK_DATA_BYTES) (disk_index + 1) recs1
           in serialize_files files disk_index2 recs2)"

definition serialize_table :: "fs_file list \<Rightarrow> bool \<times> fs_disk_table" where
  "serialize_table files =
     (case serialize_files files 0 (t_records zero_table) of
        (ok, recs) \<Rightarrow> (ok, zero_table\<lparr>t_records := recs\<rparr>))"

text \<open>\<open>fs_deserialize_legacy\<close>: one record per file; validate everything first.\<close>

definition duplicate_head :: "fs_disk_record list \<Rightarrow> nat \<Rightarrow> bool" where
  "duplicate_head recs i =
     list_ex (\<lambda>previous. r_in_use (recs ! previous) = FS_DISK_RECORD_HEAD \<and>
                kstrcmp (r_name (recs ! previous)) (r_name (recs ! i)) = 0) [0..<i]"

definition legacy_record_ok :: "fs_disk_record list \<Rightarrow> nat \<Rightarrow> bool" where
  "legacy_record_ok recs i =
     (let record = recs ! i
      in if r_in_use record = 0 then True
         else if r_in_use record \<noteq> FS_DISK_RECORD_HEAD \<or>
                 unat (r_size record) \<ge> FS_DISK_DATA_BYTES \<or>
                 r_name record ! (FS_MAX_FILENAME - 1) \<noteq> 0 \<or>
                 r_data record ! unat (r_size record) \<noteq> 0 \<or>
                 \<not> fs_is_valid_name (Some (r_name record)) then False
         else \<not> duplicate_head recs i)"

definition load_legacy_record :: "fs_disk_record \<Rightarrow> fs_file \<Rightarrow> fs_file" where
  "load_legacy_record record file =
     (if r_in_use record = 0
      then file\<lparr>f_in_use := False, f_name := blit (f_name file) 0 [0], f_size := 0,
             f_data := blit (f_data file) 0 [0]\<rparr>
      else file\<lparr>f_in_use := True, f_name := blit (f_name file) 0 (cstr (r_name record) @ [0]),
             f_size := unat (r_size record),
             f_data := blit (blit (f_data file) 0 (take (unat (r_size record)) (r_data record)))
                         (unat (r_size record)) [0]\<rparr>)"

definition deserialize_legacy :: "fs_disk_table \<Rightarrow> fs_file list \<Rightarrow> bool \<times> fs_file list" where
  "deserialize_legacy t files =
     (if list_all (legacy_record_ok (t_records t)) [0..<FS_MAX_FILES]
      then (True, map2 load_legacy_record (t_records t) files)
      else (False, files))"

text \<open>\<open>fs_deserialize_current\<close>: extent chains.\<close>

definition fs_disk_continuation_is_valid :: "fs_disk_record \<Rightarrow> nat \<Rightarrow> bool" where
  "fs_disk_continuation_is_valid record expected_size =
     (if r_in_use record \<noteq> FS_DISK_RECORD_CONTINUATION \<or> unat (r_size record) \<noteq> expected_size
      then False
      else list_all (\<lambda>i. r_name record ! i = 0) [0..<FS_MAX_FILENAME])"

text \<open>\<open>for (part = 1; part < needed; part++)\<close>: \<open>None\<close> is \<open>return false\<close>, \<open>Some\<close> the
  value of \<open>remaining\<close> after the loop.\<close>

fun check_continuations :: "fs_disk_record list \<Rightarrow> nat \<Rightarrow> nat \<Rightarrow> nat \<Rightarrow> nat \<Rightarrow> nat option" where
  "check_continuations recs disk_index part 0 remaining = Some remaining"
| "check_continuations recs disk_index part (Suc parts) remaining =
     (let expected = min remaining FS_DISK_DATA_BYTES
      in if \<not> fs_disk_continuation_is_valid (recs ! (disk_index + part)) expected then None
         else check_continuations recs disk_index (part + 1) parts (remaining - expected))"

function validate_current :: "fs_disk_record list \<Rightarrow> nat \<Rightarrow> nat \<Rightarrow> bool" where
  "validate_current recs logical_count disk_index =
     (if disk_index < FS_MAX_FILES
      then let head = recs ! disk_index
           in if r_in_use head = 0 then validate_current recs logical_count (disk_index + 1)
              else if r_in_use head \<noteq> FS_DISK_RECORD_HEAD \<or>
                      unat (r_size head) \<ge> FS_MAX_FILE_SIZE \<or>
                      r_name head ! (FS_MAX_FILENAME - 1) \<noteq> 0 \<or>
                      \<not> fs_is_valid_name (Some (r_name head)) then False
              else if duplicate_head recs disk_index then False
              else let needed = fs_disk_records_needed (unat (r_size head))
                   in if needed > FS_MAX_FILES - disk_index then False
                      else case check_continuations recs disk_index 1 (needed - 1)
                                  (if unat (r_size head) > FS_DISK_DATA_BYTES
                                   then unat (r_size head) - FS_DISK_DATA_BYTES else 0) of
                             None \<Rightarrow> False
                           | Some remaining \<Rightarrow>
                               if remaining \<noteq> 0 \<or> logical_count \<ge> FS_MAX_FILES then False
                               else validate_current recs (logical_count + 1) (disk_index + needed)
      else True)"
  by pat_completeness auto
termination
  by (relation "measure (\<lambda>(_, _, disk_index). FS_MAX_FILES - disk_index)")
    (auto simp: fs_disk_records_needed_def)

declare validate_current.simps [simp del]

text \<open>\<open>for (part = 1; part < needed; part++)\<close> of the copying pass.\<close>

fun load_continuations :: "fs_disk_record list \<Rightarrow> nat \<Rightarrow> nat \<Rightarrow> nat \<Rightarrow> nat \<Rightarrow> bytes \<Rightarrow> bytes" where
  "load_continuations recs disk_index part 0 copied data = data"
| "load_continuations recs disk_index part (Suc parts) copied data =
     (let continuation = recs ! (disk_index + part); chunk = unat (r_size continuation)
      in load_continuations recs disk_index (part + 1) parts (copied + chunk)
           (blit data copied (take chunk (r_data continuation))))"

definition load_current_file :: "fs_disk_record list \<Rightarrow> nat \<Rightarrow> fs_file \<Rightarrow> fs_file" where
  "load_current_file recs disk_index file =
     (let head = recs ! disk_index; sz = unat (r_size head);
          chunk = min sz FS_DISK_DATA_BYTES;
          data1 = blit (f_data file) 0 (take chunk (r_data head));
          data2 = load_continuations recs disk_index 1 (fs_disk_records_needed sz - 1) chunk data1
      in file\<lparr>f_in_use := True, f_name := blit (f_name file) 0 (cstr (r_name head) @ [0]),
           f_size := sz, f_data := blit data2 sz [0]\<rparr>)"

function load_current :: "fs_disk_record list \<Rightarrow> nat \<Rightarrow> nat \<Rightarrow> fs_file list \<Rightarrow> fs_file list" where
  "load_current recs logical_index disk_index files =
     (if disk_index < FS_MAX_FILES
      then let head = recs ! disk_index
           in if r_in_use head = 0 then load_current recs logical_index (disk_index + 1) files
              else load_current recs (logical_index + 1)
                     (disk_index + fs_disk_records_needed (unat (r_size head)))
                     (files[logical_index := load_current_file recs disk_index (files ! logical_index)])
      else files)"
  by pat_completeness auto
termination
  by (relation "measure (\<lambda>(_, _, disk_index, _). FS_MAX_FILES - disk_index)")
    (auto simp: fs_disk_records_needed_def)

declare load_current.simps [simp del]

definition deserialize_current :: "fs_disk_table \<Rightarrow> fs_file list \<Rightarrow> bool \<times> fs_file list" where
  "deserialize_current t files =
     (if validate_current (t_records t) 0 0
      then (True, load_current (t_records t) 0 0 (map fs_clear files))
      else (False, files))"

text \<open>Static storage starts zero-filled.\<close>

definition blank_file :: fs_file where
  "blank_file = \<lparr>f_in_use = False, f_name = replicate FS_MAX_FILENAME 0, f_size = 0,
     f_data = replicate FS_MAX_FILE_SIZE 0\<rparr>"

text \<open>Well-formed structs, and what a file slot shows: its name and its bytes.\<close>

definition wf_record :: "fs_disk_record \<Rightarrow> bool" where
  "wf_record r \<longleftrightarrow> length (r_name r) = FS_MAX_FILENAME \<and> length (r_data r) = FS_DISK_DATA_BYTES"

definition wf_table :: "fs_disk_table \<Rightarrow> bool" where
  "wf_table t \<longleftrightarrow> length (t_records t) = FS_MAX_FILES \<and> list_all wf_record (t_records t)
     \<and> length (t_padding t) = FS_DISK_TABLE_PAD"

definition valid_name :: "bytes \<Rightarrow> bool" where
  "valid_name s \<longleftrightarrow> s \<noteq> [] \<and> length s < FS_MAX_FILENAME \<and> (\<forall>c \<in> set s. c \<notin> {0, 32, 9, 47, 92})"

definition wf_file :: "fs_file \<Rightarrow> bool" where
  "wf_file f \<longleftrightarrow> length (f_name f) = FS_MAX_FILENAME \<and> length (f_data f) = FS_MAX_FILE_SIZE
     \<and> (f_in_use f \<longrightarrow> terminated (f_name f) \<and> valid_name (cstr (f_name f))
          \<and> f_size f < FS_MAX_FILE_SIZE \<and> f_data f ! f_size f = 0)"

definition fview :: "fs_file \<Rightarrow> bytes \<times> bytes" where
  "fview f = (cstr (f_name f), take (f_size f) (f_data f))"

definition fs_listing :: "fs_file list \<Rightarrow> (bytes \<times> bytes) list" where
  "fs_listing files = map fview (filter f_in_use files)"

definition records_used :: "fs_file list \<Rightarrow> nat" where
  "records_used files = sum_list (map (\<lambda>f. fs_disk_records_needed (f_size f)) (filter f_in_use files))"

definition files_inv :: "fs_file list \<Rightarrow> bool" where
  "files_inv files \<longleftrightarrow> length files = FS_MAX_FILES \<and> list_all wf_file files
     \<and> distinct (map fst (fs_listing files))"

section \<open>Byte images\<close>

lemma length_header_bytes [simp]: "length (header_bytes h) = 24 + length (h_reserved h)"
  by (simp add: header_bytes_def)

lemma header_roundtrip [simp]: "header_of_bytes (header_bytes h) = h"
  by (simp add: header_of_bytes_def header_bytes_def)

lemma header_bytes_of:
  assumes "24 \<le> length b"
  shows "header_bytes (header_of_bytes b) = b"
proof -
  have "take 4 b @ take 4 (drop 4 b) @ take 4 (drop 8 b) @ take 4 (drop 12 b) @
      take 4 (drop 16 b) @ take 4 (drop 20 b) @ drop 24 b = b"
    using take_drop_join[of 4 0 b] take_drop_join[of 4 4 b] take_drop_join[of 4 8 b]
      take_drop_join[of 4 12 b] take_drop_join[of 4 16 b] take_drop_join[of 4 20 b] by simp
  then show ?thesis
    using assms by (simp add: header_bytes_def header_of_bytes_def le32_bytes_of)
qed

lemma length_record_bytes [simp]: "wf_record r \<Longrightarrow> length (record_bytes r) = FS_DISK_RECORD_BYTES"
  by (simp add: record_bytes_def wf_record_def)

lemma record_roundtrip [simp]: "wf_record r \<Longrightarrow> record_of_bytes (record_bytes r) = r"
  by (simp add: record_of_bytes_def record_bytes_def wf_record_def)

lemma wf_record_of_bytes: "length b = FS_DISK_RECORD_BYTES \<Longrightarrow> wf_record (record_of_bytes b)"
  by (simp add: wf_record_def record_of_bytes_def)

lemma record_bytes_of:
  assumes "length b = FS_DISK_RECORD_BYTES"
  shows "record_bytes (record_of_bytes b) = b"
proof -
  have "[b ! 0] @ drop 1 b = b" "take 1024 (drop 37 b) = drop 37 b"
    using assms by (cases b; simp)+
  then have "[b ! 0] @ take 32 (drop 1 b) @ take 4 (drop 33 b) @ take 1024 (drop 37 b) = b"
    using take_drop_join[of 32 1 b] take_drop_join[of 4 33 b] by simp
  then show ?thesis
    using assms by (simp add: record_bytes_def record_of_bytes_def le32_bytes_of)
qed

lemma records_roundtrip:
  "list_all wf_record rs \<Longrightarrow> records_of_bytes (length rs) (concat (map record_bytes rs) @ rest) = rs"
  by (induction rs) simp_all

lemma length_records_bytes:
  "list_all wf_record rs \<Longrightarrow> length (concat (map record_bytes rs)) = FS_DISK_RECORD_BYTES * length rs"
  by (induction rs) simp_all

lemma records_of_bytes_props:
  "FS_DISK_RECORD_BYTES * n \<le> length b \<Longrightarrow>
     length (records_of_bytes n b) = n \<and> list_all wf_record (records_of_bytes n b)
     \<and> concat (map record_bytes (records_of_bytes n b)) = take (FS_DISK_RECORD_BYTES * n) b"
proof (induction n arbitrary: b)
  case 0
  then show ?case by simp
next
  case (Suc n)
  then have "take (FS_DISK_RECORD_BYTES * Suc n) b =
      take FS_DISK_RECORD_BYTES b @ take (FS_DISK_RECORD_BYTES * n) (drop FS_DISK_RECORD_BYTES b)"
    by (simp add: take_add)
  with Suc show ?case by (simp add: wf_record_of_bytes record_bytes_of)
qed

lemma length_table_bytes: "wf_table t \<Longrightarrow> length (table_bytes t) = 512 * FS_DISK_TABLE_SECTORS"
  by (simp add: table_bytes_def wf_table_def length_records_bytes)

lemma table_roundtrip: "wf_table t \<Longrightarrow> table_of_bytes (table_bytes t) = t"
  using records_roundtrip[of "t_records t" "t_padding t"]
  by (simp add: table_bytes_def table_of_bytes_def wf_table_def length_records_bytes)

lemma table_bytes_of:
  assumes "length b = 512 * FS_DISK_TABLE_SECTORS"
  shows "wf_table (table_of_bytes b)" and "table_bytes (table_of_bytes b) = b"
  using assms records_of_bytes_props[of 32 b]
  by (simp_all add: table_bytes_def table_of_bytes_def wf_table_def)

section \<open>Names\<close>

lemma valid_name_loop_iff:
  "terminated s \<Longrightarrow> n < FS_MAX_FILENAME \<Longrightarrow> valid_name_loop n s \<longleftrightarrow>
     n + length (cstr s) < FS_MAX_FILENAME \<and> (\<forall>c \<in> set (cstr s). c \<notin> {0, 32, 9, 47, 92})"
  by (induction n s rule: valid_name_loop.induct) (auto simp: terminated_def cstr_def)

lemma fs_is_valid_name_iff [cstr_simps]:
  "terminated s \<Longrightarrow> fs_is_valid_name (Some s) \<longleftrightarrow> valid_name (cstr s)"
  using valid_name_loop_iff[of s 0]
  by (cases s)
    (auto simp: fs_is_valid_name_def valid_name_def cstr_def terminated_def simp del: valid_name_loop.simps)

lemma valid_name_no_zero: "valid_name s \<Longrightarrow> 0 \<notin> set s"
  by (auto simp: valid_name_def)

lemma fs_copy_name_name:
  "terminated nm \<Longrightarrow> length (cstr nm) < FS_MAX_FILENAME \<Longrightarrow> cstr (f_name (fs_copy_name f nm)) = cstr nm"
  by (simp add: fs_copy_name_def cstr_simps)

lemma fs_copy_name_simps [simp]:
  "f_in_use (fs_copy_name f nm) = f_in_use f" "f_size (fs_copy_name f nm) = f_size f"
  "f_data (fs_copy_name f nm) = f_data f" "terminated (f_name (fs_copy_name f nm))"
  "length (f_name f) = FS_MAX_FILENAME \<Longrightarrow> length (f_name (fs_copy_name f nm)) = FS_MAX_FILENAME"
  by (simp_all add: fs_copy_name_def cstr_simps length_blit)

lemma wf_copy_name:
  "wf_file f \<Longrightarrow> terminated nm \<Longrightarrow> valid_name (cstr nm) \<Longrightarrow> wf_file (fs_copy_name f nm)"
  by (auto simp: wf_file_def fs_copy_name_name valid_name_def)

lemma fs_clear_simps [simp]:
  "f_in_use (fs_clear f) = False" "f_size (fs_clear f) = 0"
  "wf_file f \<Longrightarrow> wf_file (fs_clear f)"
  by (simp_all add: fs_clear_def wf_file_def length_blit)

end
