(* ===== verification/Fs_Serial.thy ===== *)
theory Fs_Serial
  imports Fs_Format
begin

text \<open>
  The file table and its serialised form: \<open>fs_serialize\<close> succeeds exactly when the files
  fit the 32-record budget, and \<open>fs_deserialize_current\<close> reads back what it wrote.  Any
  table the two deserialisers accept, whatever bytes the disk held, yields a well-formed
  file table.
\<close>

section \<open>Specification of the record layout\<close>

text \<open>The records a file occupies, as a function of what it shows.\<close>

definition pad0 :: "nat \<Rightarrow> bytes \<Rightarrow> bytes" where
  "pad0 n xs = xs @ replicate (n - length xs) 0"

definition head_record :: "fs_file \<Rightarrow> fs_disk_record" where
  "head_record f = \<lparr>r_in_use = FS_DISK_RECORD_HEAD, r_name = pad0 FS_MAX_FILENAME (cstr (f_name f)),
     r_size = of_nat (f_size f),
     r_data = pad0 FS_DISK_DATA_BYTES (take (min (f_size f) FS_DISK_DATA_BYTES) (f_data f))\<rparr>"

definition continuation_record :: "bytes \<Rightarrow> fs_disk_record" where
  "continuation_record c = \<lparr>r_in_use = FS_DISK_RECORD_CONTINUATION, r_name = replicate FS_MAX_FILENAME 0,
     r_size = of_nat (length c), r_data = pad0 FS_DISK_DATA_BYTES c\<rparr>"

function rest_records :: "fs_file \<Rightarrow> nat \<Rightarrow> fs_disk_record list" where
  "rest_records f copied =
     (if copied < f_size f
      then let chunk = min (f_size f - copied) FS_DISK_DATA_BYTES
           in continuation_record (take chunk (drop copied (f_data f))) # rest_records f (copied + chunk)
      else [])"
  by pat_completeness auto
termination
  by (relation "measure (\<lambda>(f, copied). f_size f - copied)") auto

declare rest_records.simps [simp del]

definition file_records :: "fs_file \<Rightarrow> fs_disk_record list" where
  "file_records f = head_record f # rest_records f (min (f_size f) FS_DISK_DATA_BYTES)"

section \<open>Serialisation lays out every file's records\<close>

lemma blit_zeros: "length xs \<le> n \<Longrightarrow> blit (replicate n 0) 0 xs = pad0 n xs"
  by (simp add: blit_def pad0_def)

lemma length_pad0 [simp]: "length xs \<le> n \<Longrightarrow> length (pad0 n xs) = n"
  by (simp add: pad0_def)

lemma write_head_zero:
  assumes "length (cstr (f_name f)) < FS_MAX_FILENAME"
  shows "write_head f zero_record = head_record f"
  using assms by (simp add: write_head_def head_record_def zero_record_def cstr_simps blit_zeros)

lemma write_continuation_zero:
  assumes "copied + chunk \<le> length (f_data f)" and "chunk \<le> FS_DISK_DATA_BYTES"
  shows "write_continuation f copied chunk zero_record
    = continuation_record (take chunk (drop copied (f_data f)))"
proof -
  have "length (take chunk (drop copied (f_data f))) = chunk" using assms by simp
  then show ?thesis
    using assms(2)
    by (simp only: write_continuation_def continuation_record_def zero_record_def blit_zeros
        fs_disk_record.simps)
qed

lemma length_rest_records: "length (rest_records f copied) = (f_size f - copied + 1023) div 1024"
proof (induction f copied rule: rest_records.induct)
  case (1 f copied)
  show ?case
  proof (cases "copied < f_size f")
    case True
    let ?c = "min (f_size f - copied) 1024"
    from "1.IH"[OF True] have
      "length (rest_records f (copied + ?c)) = (f_size f - (copied + ?c) + 1023) div 1024" by simp
    moreover have "(f_size f - copied + 1023) div 1024 = Suc ((f_size f - (copied + ?c) + 1023) div 1024)"
      using True by (auto simp: min_def)
    ultimately show ?thesis
      using True by (simp add: rest_records.simps[of f copied] Let_def)
  qed (simp add: rest_records.simps[of f copied])
qed

lemma length_file_records [simp]: "length (file_records f) = fs_disk_records_needed (f_size f)"
  by (auto simp: file_records_def length_rest_records fs_disk_records_needed_def min_def)

lemma serialize_rest_eq:
  assumes "f_size f \<le> length (f_data f)" and "length (rest_records f copied) \<le> m"
  shows "serialize_rest f copied (length dn) (dn @ replicate m zero_record) =
    (length dn + length (rest_records f copied),
     dn @ rest_records f copied @ replicate (m - length (rest_records f copied)) zero_record)"
  using assms
proof (induction f copied arbitrary: dn m rule: rest_records.induct)
  case (1 f copied)
  show ?case
  proof (cases "copied < f_size f")
    case True
    let ?c = "min (f_size f - copied) 1024"
    let ?r = "continuation_record (take ?c (drop copied (f_data f)))"
    have rr: "rest_records f copied = ?r # rest_records f (copied + ?c)"
      using True by (subst rest_records.simps) (simp add: Let_def)
    then obtain m' where m: "m = Suc m'" and le: "length (rest_records f (copied + ?c)) \<le> m'"
      using "1.prems"(2) by (cases m) auto
    have w: "write_continuation f copied ?c zero_record = ?r"
      using "1.prems"(1) True by (intro write_continuation_zero) auto
    have IH: "serialize_rest f (copied + ?c) (length (dn @ [?r])) ((dn @ [?r]) @ replicate m' zero_record)
      = (length (dn @ [?r]) + length (rest_records f (copied + ?c)),
         (dn @ [?r]) @ rest_records f (copied + ?c)
           @ replicate (m' - length (rest_records f (copied + ?c))) zero_record)"
      by (rule "1.IH"[OF True]) (use "1.prems"(1) le in auto)
    have "serialize_rest f copied (length dn) (dn @ replicate m zero_record) =
        serialize_rest f (copied + ?c) (length (dn @ [?r])) ((dn @ [?r]) @ replicate m' zero_record)"
      using True w by (subst serialize_rest.simps) (simp add: Let_def m nth_append)
    with IH show ?thesis by (simp add: rr m)
  next
    case False
    then show ?thesis by (simp add: serialize_rest.simps rest_records.simps)
  qed
qed

lemma wf_fileD:
  assumes "wf_file f" and "f_in_use f"
  shows "f_size f \<le> length (f_data f)" and "length (cstr (f_name f)) < FS_MAX_FILENAME"
    and "0 \<notin> set (cstr (f_name f))" and "f_size f < FS_MAX_FILE_SIZE" and "valid_name (cstr (f_name f))"
    and "terminated (f_name f)"
  using assms by (auto simp: wf_file_def valid_name_def)

lemma serialize_files_eq:
  assumes "list_all wf_file files" and "length dn + m = FS_MAX_FILES"
  shows "fst (serialize_files files (length dn) (dn @ replicate m zero_record)) \<longleftrightarrow> records_used files \<le> m"
    and "records_used files \<le> m \<Longrightarrow>
      snd (serialize_files files (length dn) (dn @ replicate m zero_record)) =
        dn @ concat (map file_records (filter f_in_use files)) @ replicate (m - records_used files) zero_record"
  using assms
proof (induction files arbitrary: dn m)
  case Nil
  { case 1 then show ?case by (simp add: records_used_def) }
  { case 2 then show ?case by (simp add: records_used_def) }
next
  case (Cons f files)
  let ?n = "fs_disk_records_needed (f_size f)"
  have step: "serialize_files (f # files) (length dn) (dn @ replicate m zero_record) = (if \<not> f_in_use f then serialize_files files (length dn) (dn @ replicate m zero_record)
      else if ?n > m then (False, dn @ replicate m zero_record)
      else serialize_files files (length (dn @ file_records f))
             ((dn @ file_records f) @ replicate (m - ?n) zero_record))"
    if "list_all wf_file (f # files)" "length dn + m = FS_MAX_FILES" for dn m
  proof (cases "f_in_use f \<and> ?n \<le> m")
    case True
    have wf: "wf_file f" using that by simp
    note f = wf_fileD[OF wf conjunct1[OF True]]
    have "?n = Suc (length (rest_records f (min (f_size f) 1024)))"
      using length_file_records[of f] by (simp add: file_records_def)
    then obtain m' where m: "m = Suc m'" and le: "length (rest_records f (min (f_size f) 1024)) \<le> m'"
      and n: "?n = Suc (length (rest_records f (min (f_size f) 1024)))"
      using True by (cases m) auto
    have "(dn @ replicate m zero_record)[length dn := write_head f ((dn @ replicate m zero_record) ! length dn)]
        = (dn @ [head_record f]) @ replicate m' zero_record"
      using write_head_zero[OF f(2)] by (simp add: m nth_append)
    moreover have "serialize_rest f (min (f_size f) 1024) (length (dn @ [head_record f]))
         ((dn @ [head_record f]) @ replicate m' zero_record)
        = (length (dn @ file_records f), (dn @ file_records f) @ replicate (m - ?n) zero_record)"
      using serialize_rest_eq[OF f(1) le, of "dn @ [head_record f]"] n m
      by (simp add: file_records_def)
    moreover have "szsub FS_MAX_FILES (length dn) = m" using that by simp
    ultimately show ?thesis using True by (simp add: Let_def)
  next
    case False
    moreover have "szsub FS_MAX_FILES (length dn) = m" using that by simp
    ultimately show ?thesis by auto
  qed
  have used: "records_used (f # files) = (if f_in_use f then ?n + records_used files else records_used files)"
    by (simp add: records_used_def)
  { case 1
    show ?case unfolding step[OF 1] used
      using 1 Cons.IH(1)[of dn m] Cons.IH(1)[of "dn @ file_records f" "m - ?n"] by auto }
  { case 2
    show ?case unfolding step[OF 2(2,3)] used
      using 2 Cons.IH(2)[of m dn] Cons.IH(2)[of "m - ?n" "dn @ file_records f"] used by auto }
qed

lemma serialize_table_ok:
  assumes "list_all wf_file files"
  shows "fst (serialize_table files) \<longleftrightarrow> records_used files \<le> FS_MAX_FILES"
    and "records_used files \<le> FS_MAX_FILES \<Longrightarrow> t_records (snd (serialize_table files)) =
      concat (map file_records (filter f_in_use files)) @ replicate (FS_MAX_FILES - records_used files) zero_record"
    and "t_padding (snd (serialize_table files)) = replicate FS_DISK_TABLE_PAD 0"
  using serialize_files_eq[OF assms, of "[]" FS_MAX_FILES]
  by (auto simp: serialize_table_def zero_table_def split: prod.splits)

section \<open>Reading back what was serialised\<close>

lemma wf_head_record: "wf_file f \<Longrightarrow> f_in_use f \<Longrightarrow> wf_record (head_record f)"
  using wf_fileD[of f] by (simp add: wf_record_def head_record_def)

lemma cstr_pad0: "0 \<notin> set s \<Longrightarrow> length s < n \<Longrightarrow> cstr (pad0 n s) = s \<and> terminated (pad0 n s)"
proof -
  assume "0 \<notin> set s" and "length s < n"
  then obtain k where "n - length s = Suc k" by (metis Suc_diff_Suc)
  then show ?thesis using cstr_id[of s "replicate k 0"] \<open>0 \<notin> set s\<close>
    by (simp add: pad0_def terminated_def)
qed

lemma head_record_name:
  assumes "wf_file f" and "f_in_use f"
  shows "cstr (r_name (head_record f)) = cstr (f_name f)" and "terminated (r_name (head_record f))"
    and "r_name (head_record f) ! 31 = 0" and "unat (r_size (head_record f)) = f_size f"
    and "r_in_use (head_record f) = 1"
proof -
  note f = wf_fileD[OF assms]
  show "cstr (r_name (head_record f)) = cstr (f_name f)" "terminated (r_name (head_record f))"
    using cstr_pad0[OF f(3,2)] by (simp_all add: head_record_def)
  show "r_name (head_record f) ! 31 = 0"
    using f(2) by (simp add: head_record_def pad0_def nth_append)
  show "unat (r_size (head_record f)) = f_size f"
    using f(4) by (simp add: head_record_def unat_of_nat)
  show "r_in_use (head_record f) = 1" by (simp add: head_record_def)
qed

lemma rest_records_step:
  assumes "copied < f_size f"
  shows "rest_records f copied =
    continuation_record (take (min (f_size f - copied) 1024) (drop copied (f_data f)))
      # rest_records f (copied + min (f_size f - copied) 1024)"
  using assms by (subst rest_records.simps) (simp add: Let_def)

lemma rest_records_done: "f_size f \<le> copied \<Longrightarrow> rest_records f copied = []"
  by (subst rest_records.simps) simp

lemma rest_records_in_use: "r \<in> set (rest_records f copied) \<Longrightarrow> r_in_use r = 2 \<and> (f_size f \<le> length (f_data f) \<longrightarrow> wf_record r)"
proof (induction f copied rule: rest_records.induct)
  case (1 f copied)
  show ?case
  proof (cases "copied < f_size f")
    case True
    with "1.prems" "1.IH"[OF True] show ?thesis
      by (auto simp: rest_records_step continuation_record_def wf_record_def)
  qed (use "1.prems" in \<open>simp add: rest_records_done\<close>)
qed

lemma continuation_record_valid:
  assumes "length c \<le> FS_DISK_DATA_BYTES"
  shows "fs_disk_continuation_is_valid (continuation_record c) (length c)"
    and "unat (r_size (continuation_record c)) = length c"
    and "take (length c) (r_data (continuation_record c)) = c"
  using assms
  by (simp_all add: fs_disk_continuation_is_valid_def continuation_record_def unat_of_nat list_all_iff pad0_def)

lemma nth_drop_eq: "drop i xs = y # ys \<Longrightarrow> xs ! i = y \<and> drop (Suc i) xs = ys"
  by (metis Cons_nth_drop_Suc drop_all list.inject list.simps(3) not_le)

lemma check_continuations_serialized:
  assumes "drop (disk_index + part) recs = rest_records f copied @ tail"
    and "f_size f \<le> length (f_data f)"
  shows "check_continuations recs disk_index part (length (rest_records f copied)) (f_size f - copied) = Some 0"
  using assms
proof (induction f copied arbitrary: part rule: rest_records.induct)
  case (1 f copied)
  show ?case
  proof (cases "copied < f_size f")
    case True
    let ?c = "min (f_size f - copied) 1024" and ?b = "take (min (f_size f - copied) 1024) (drop copied (f_data f))"
    have lb: "length ?b = ?c" using True "1.prems"(2) by auto
    from "1.prems"(1) True have nd: "recs ! (disk_index + part) = continuation_record ?b"
      "drop (disk_index + (part + 1)) recs = rest_records f (copied + ?c) @ tail"
      using nth_drop_eq[of "disk_index + part" recs] by (simp_all add: rest_records_step)
    have "fs_disk_continuation_is_valid (recs ! (disk_index + part)) ?c"
      using continuation_record_valid(1)[of ?b] lb nd(1) by simp
    moreover note "1.IH"[OF True refl nd(2) "1.prems"(2)]
    moreover have "f_size f - copied - ?c = f_size f - (copied + ?c)" by simp
    ultimately show ?thesis
      using True by (simp add: rest_records_step Let_def min.commute)
  qed (simp add: rest_records_done)
qed

lemma load_continuations_serialized:
  assumes "drop (disk_index + part) recs = rest_records f copied @ tail"
    and "f_size f \<le> length (f_data f)" and "copied \<le> f_size f" and "f_size f \<le> length data"
  shows "load_continuations recs disk_index part (length (rest_records f copied)) copied data
    = blit data copied (take (f_size f - copied) (drop copied (f_data f)))"
  using assms
proof (induction f copied arbitrary: part data rule: rest_records.induct)
  case (1 f copied)
  show ?case
  proof (cases "copied < f_size f")
    case True
    let ?c = "min (f_size f - copied) 1024" and ?b = "take (min (f_size f - copied) 1024) (drop copied (f_data f))"
    have lb: "length ?b = ?c" using True "1.prems"(2) by auto
    from "1.prems"(1) True have nd: "recs ! (disk_index + part) = continuation_record ?b"
      "drop (disk_index + (part + 1)) recs = rest_records f (copied + ?c) @ tail"
      using nth_drop_eq[of "disk_index + part" recs] by (simp_all add: rest_records_step)
    have cr: "unat (r_size (continuation_record ?b)) = ?c" "take ?c (r_data (continuation_record ?b)) = ?b"
      using continuation_record_valid(2,3)[of ?b] lb by simp_all
    let ?rest = "take (f_size f - (copied + ?c)) (drop (copied + ?c) (f_data f))"
    have "load_continuations recs disk_index (part + 1) (length (rest_records f (copied + ?c))) (copied + ?c)
        (blit data copied ?b) = blit (blit data copied ?b) (copied + ?c) ?rest"
      using "1.prems" True lb by (intro "1.IH"[OF True refl nd(2)]) (auto simp: length_blit)
    also have "\<dots> = blit data copied (?b @ ?rest)"
      using blit_blit_append[of copied data ?b ?rest] "1.prems" lb by simp
    also have "?b @ ?rest = take (f_size f - copied) (drop copied (f_data f))"
      using take_drop_split[of ?c "f_size f - copied" copied "f_data f"] by simp
    finally show ?thesis
      using True cr nd(1) by (simp add: rest_records_step Let_def)
  qed (use "1.prems" in \<open>simp add: rest_records_done\<close>)
qed

lemma load_current_file_serialized:
  assumes drop: "drop disk_index recs = file_records f @ tail"
    and f: "wf_file f" "f_in_use f" and g: "wf_file g"
  shows "load_current_file recs disk_index g = g\<lparr>f_in_use := True,
      f_name := blit (f_name g) 0 (cstr (f_name f) @ [0]), f_size := f_size f,
      f_data := blit (f_data g) 0 (take (f_size f) (f_data f) @ [0])\<rparr>"
proof -
  note fD = wf_fileD[OF f] and hr = head_record_name[OF f]
  let ?c = "min (f_size f) 1024"
  from drop have head: "recs ! disk_index = head_record f"
    and rest: "drop (disk_index + 1) recs = rest_records f ?c @ tail"
    using nth_drop_eq[of disk_index recs] by (simp_all add: file_records_def)
  have len: "fs_disk_records_needed (f_size f) - 1 = length (rest_records f ?c)"
    using length_file_records[of f] by (simp add: file_records_def)
  have hd_data: "take ?c (r_data (head_record f)) = take ?c (f_data f)"
    using fD(1) by (simp add: head_record_def pad0_def)
  have lc: "length (take ?c (f_data f)) = ?c" using fD(1) by simp
  have lg: "f_size f < length (f_data g)" using g fD(4) by (simp add: wf_file_def)
  have "load_continuations recs disk_index 1 (length (rest_records f ?c)) ?c (blit (f_data g) 0 (take ?c (f_data f)))
      = blit (blit (f_data g) 0 (take ?c (f_data f))) ?c (take (f_size f - ?c) (drop ?c (f_data f)))"
    using rest fD(1) lg lc by (intro load_continuations_serialized) (auto simp: length_blit)
  also have "\<dots> = blit (f_data g) 0 (take ?c (f_data f) @ take (f_size f - ?c) (drop ?c (f_data f)))"
    using blit_blit_append[of 0 "f_data g" "take ?c (f_data f)"] lc by simp
  also have "take ?c (f_data f) @ take (f_size f - ?c) (drop ?c (f_data f)) = take (f_size f) (f_data f)"
    using take_drop_split[of ?c "f_size f" 0 "f_data f"] by simp
  finally have data2: "load_continuations recs disk_index 1 (length (rest_records f ?c)) ?c
      (blit (f_data g) 0 (take ?c (f_data f))) = blit (f_data g) 0 (take (f_size f) (f_data f))" .
  have "blit (blit (f_data g) 0 (take (f_size f) (f_data f))) (f_size f) [0]
      = blit (f_data g) 0 (take (f_size f) (f_data f) @ [0])"
    using blit_blit_append[of 0 "f_data g" "take (f_size f) (f_data f)" "[0]"] fD(1) by simp
  then show ?thesis
    unfolding load_current_file_def head Let_def hr(1,4) len hd_data data2 by simp
qed

lemma loaded_file_props:
  assumes f: "wf_file f" "f_in_use f" and g: "wf_file g"
    and h: "h = g\<lparr>f_in_use := True, f_name := blit (f_name g) 0 (cstr (f_name f) @ [0]),
      f_size := f_size f, f_data := blit (f_data g) 0 (take (f_size f) (f_data f) @ [0])\<rparr>"
  shows "f_in_use h" and "wf_file h" and "fview h = fview f"
proof -
  note fD = wf_fileD[OF f]
  have ld: "length (take (f_size f) (f_data f)) = f_size f" using fD(1) by simp
  have nm: "cstr (f_name h) = cstr (f_name f)" "terminated (f_name h)"
    using h fD(3) by (simp_all add: cstr_simps)
  have "take (f_size f) (f_data h) = take (f_size f) (f_data f)"
    using h ld by (simp add: blit_def)
  moreover have "f_data h ! f_size f = 0"
    using h ld by (simp add: blit_def nth_append)
  ultimately show "f_in_use h" "wf_file h" "fview h = fview f"
    using h g fD nm ld by (auto simp: wf_file_def fview_def length_blit)
qed

lemma head_of_file_records:
  assumes "r \<in> set (file_records f)" and "r_in_use r = FS_DISK_RECORD_HEAD"
  shows "r = head_record f"
  using assms by (auto simp: file_records_def dest: rest_records_in_use)

lemma no_duplicate_serialized:
  assumes recs: "recs = concat (map file_records pre) @ file_records f @ tail"
    and wf: "\<forall>g \<in> set (f # pre). wf_file g \<and> f_in_use g"
    and names: "cstr (f_name f) \<notin> set (map (cstr \<circ> f_name) pre)"
  shows "\<not> duplicate_head recs (length (concat (map file_records pre)))"
proof
  let ?n = "length (concat (map file_records pre))"
  assume "duplicate_head recs ?n"
  then obtain i where i: "i < ?n" "r_in_use (recs ! i) = FS_DISK_RECORD_HEAD"
    and eq: "kstrcmp (r_name (recs ! i)) (r_name (recs ! ?n)) = 0"
    by (auto simp: duplicate_head_def list_ex_iff)
  have "recs ! i \<in> set (concat (map file_records pre))"
    using i(1) nth_mem[of i "concat (map file_records pre)"]
    by (simp add: recs nth_append del: length_concat set_concat)
  then obtain g where g: "g \<in> set pre" "recs ! i = head_record g"
    using i(2) head_of_file_records by auto
  have "recs ! ?n = head_record f" by (simp add: recs nth_append file_records_def del: length_concat)
  then show False
    using eq g wf names head_record_name[of f] head_record_name[of g]
    by (simp add: kstrcmp_eq_0) (metis comp_apply image_eqI)
qed

lemma zero_record_simps [simp]: "r_in_use zero_record = 0"
  by (simp add: zero_record_def)

lemma validate_zeros:
  assumes "\<forall>i < FS_MAX_FILES. disk_index \<le> i \<longrightarrow> r_in_use (recs ! i) = 0"
  shows "validate_current recs logical disk_index" and "load_current recs logical disk_index files = files"
  using assms
proof (induction "FS_MAX_FILES - disk_index" arbitrary: disk_index)
  case 0
  { case 1 with 0 show ?case by (simp add: validate_current.simps) }
  { case 2 with 0 show ?case by (simp add: load_current.simps) }
next
  case (Suc n)
  { case 1 with Suc show ?case by (simp add: validate_current.simps[of recs logical disk_index] Let_def) }
  { case 2 with Suc show ?case by (simp add: load_current.simps[of recs logical disk_index] Let_def) }
qed

lemma needed_bounds [simp]: "0 < fs_disk_records_needed n"
  by (auto simp: fs_disk_records_needed_def div_greater_zero_iff)

lemma validate_step:
  assumes "disk_index < FS_MAX_FILES" and "r_in_use (recs ! disk_index) \<noteq> 0"
  shows "validate_current recs logical disk_index \<longleftrightarrow>
    (let head = recs ! disk_index; sz = unat (r_size head); needed = fs_disk_records_needed sz
     in r_in_use head = FS_DISK_RECORD_HEAD \<and> sz < FS_MAX_FILE_SIZE \<and> r_name head ! 31 = 0
        \<and> fs_is_valid_name (Some (r_name head)) \<and> \<not> duplicate_head recs disk_index
        \<and> disk_index + needed \<le> FS_MAX_FILES
        \<and> check_continuations recs disk_index 1 (needed - 1) (sz - FS_DISK_DATA_BYTES) = Some 0
        \<and> logical < FS_MAX_FILES
        \<and> validate_current recs (logical + 1) (disk_index + needed))"
proof -
  have rem: "(if n > FS_DISK_DATA_BYTES then n - FS_DISK_DATA_BYTES else 0) = n - FS_DISK_DATA_BYTES" for n :: nat
    by simp
  have bud: "needed > FS_MAX_FILES - disk_index \<longleftrightarrow> \<not> disk_index + needed \<le> FS_MAX_FILES" for needed
    using assms(1) by linarith
  show ?thesis
    using assms
    by (subst validate_current.simps) (auto simp: Let_def rem bud split: option.splits if_splits)
qed

lemma validate_serialized:
  assumes "recs = concat (map file_records pre) @ concat (map file_records fs) @ replicate m zero_record"
    and "length recs = FS_MAX_FILES"
    and "\<forall>g \<in> set (pre @ fs). wf_file g \<and> f_in_use g"
    and "distinct (map (cstr \<circ> f_name) (pre @ fs))"
  shows "validate_current recs (length pre) (length (concat (map file_records pre)))"
  using assms
proof (induction fs arbitrary: pre)
  case Nil
  then have "\<forall>i < FS_MAX_FILES. length (concat (map file_records pre)) \<le> i \<longrightarrow> r_in_use (recs ! i) = 0"
    by (auto simp: nth_append simp del: length_concat)
  then show ?case by (rule validate_zeros)
next
  case (Cons f fs)
  let ?n = "length (concat (map file_records pre))"
  let ?tail = "concat (map file_records fs) @ replicate m zero_record"
  have recs: "recs = concat (map file_records pre) @ file_records f @ ?tail" using Cons.prems(1) by simp
  have wf: "wf_file f" "f_in_use f" using Cons.prems(3) by auto
  note fD = wf_fileD[OF wf] and hr = head_record_name[OF wf]
  have drop: "drop ?n recs = file_records f @ ?tail" by (simp add: recs del: length_concat)
  then have head: "recs ! ?n = head_record f"
    and rest: "drop (?n + 1) recs = rest_records f (min (f_size f) 1024) @ ?tail"
    using nth_drop_eq[of ?n recs] by (simp_all add: file_records_def del: length_concat)
  have len: "?n + fs_disk_records_needed (f_size f) \<le> FS_MAX_FILES"
    using Cons.prems(2) by (simp add: recs del: length_concat)
  have needed: "fs_disk_records_needed (f_size f) - 1 = length (rest_records f (min (f_size f) 1024))"
    using length_file_records[of f] by (simp add: file_records_def)
  have lt: "?n < FS_MAX_FILES"
    using len needed_bounds[of "f_size f"] by linarith
  have "length pre \<le> ?n"
    by (induction pre) (simp_all add: file_records_def)
  then have cnt: "length pre < FS_MAX_FILES" using lt by simp
  have dup: "\<not> duplicate_head recs ?n"
    using Cons.prems(3,4) by (intro no_duplicate_serialized[OF recs]) auto
  have chk: "check_continuations recs ?n 1 (fs_disk_records_needed (f_size f) - 1)
      (f_size f - FS_DISK_DATA_BYTES) = Some 0"
  proof -
    have "f_size f - min (f_size f) 1024 = f_size f - FS_DISK_DATA_BYTES" by simp
    then show ?thesis using check_continuations_serialized[OF rest fD(1)] unfolding needed by metis
  qed
  have "validate_current recs (length (pre @ [f])) (length (concat (map file_records (pre @ [f]))))"
    using Cons.prems by (intro Cons.IH) simp_all
  then have next_ok: "validate_current recs (length pre + 1) (?n + fs_disk_records_needed (f_size f))"
    by simp
  show ?case
    using validate_step[of ?n recs "length pre"] lt hr fD dup len chk cnt next_ok
    by (simp add: head Let_def fs_is_valid_name_iff del: length_concat)
qed

lemma load_serialized:
  assumes "recs = concat (map file_records pre) @ concat (map file_records fs) @ replicate m zero_record"
    and "length recs = FS_MAX_FILES"
    and "\<forall>g \<in> set (pre @ fs). wf_file g \<and> f_in_use g"
    and "list_all wf_file files" and "length pre + length fs \<le> length files"
  shows "\<exists>gs. load_current recs (length pre) (length (concat (map file_records pre))) files
      = take (length pre) files @ gs @ drop (length pre + length fs) files
    \<and> list_all2 (\<lambda>g f. f_in_use g \<and> wf_file g \<and> fview g = fview f) gs fs"
  using assms
proof (induction fs arbitrary: pre files)
  case Nil
  then have "\<forall>i < FS_MAX_FILES. length (concat (map file_records pre)) \<le> i \<longrightarrow> r_in_use (recs ! i) = 0"
    by (auto simp: nth_append simp del: length_concat)
  then have "load_current recs (length pre) (length (concat (map file_records pre))) files = files"
    by (rule validate_zeros)
  then show ?case by simp
next
  case (Cons f fs)
  let ?n = "length (concat (map file_records pre))" and ?k = "length pre"
  let ?tail = "concat (map file_records fs) @ replicate m zero_record"
  have recs: "recs = concat (map file_records pre) @ file_records f @ ?tail" using Cons.prems(1) by simp
  have wf: "wf_file f" "f_in_use f" using Cons.prems(3) by auto
  note hr = head_record_name[OF wf]
  have drop: "drop ?n recs = file_records f @ ?tail" by (simp add: recs del: length_concat)
  then have head: "recs ! ?n = head_record f"
    using nth_drop_eq[of ?n recs] by (simp_all add: file_records_def del: length_concat)
  have len: "?n + fs_disk_records_needed (f_size f) \<le> FS_MAX_FILES"
    using Cons.prems(2) by (simp add: recs del: length_concat)
  have lt: "?n < FS_MAX_FILES"
    using len needed_bounds[of "f_size f"] by linarith
  have k: "?k < length files" using Cons.prems(5) by simp
  then have gk: "wf_file (files ! ?k)" using Cons.prems(4) by (simp add: list_all_length)
  define h where "h = load_current_file recs ?n (files ! ?k)"
  note h = loaded_file_props[OF wf gk h_def[unfolded load_current_file_serialized[OF drop wf gk]]]
  have wf': "list_all wf_file (files[?k := h])"
    using Cons.prems(4) h(2) k by (auto simp: list_all_length nth_list_update)
  obtain gs where gs: "load_current recs (length (pre @ [f])) (length (concat (map file_records (pre @ [f]))))
        (files[?k := h]) = take (length (pre @ [f])) (files[?k := h]) @ gs
          @ drop (length (pre @ [f]) + length fs) (files[?k := h])"
    and all: "list_all2 (\<lambda>g f. f_in_use g \<and> wf_file g \<and> fview g = fview f) gs fs"
    using Cons.IH[of "pre @ [f]" "files[?k := h]"] Cons.prems wf' by auto
  have "load_current recs ?k ?n files =
      load_current recs (length (pre @ [f])) (length (concat (map file_records (pre @ [f])))) (files[?k := h])"
    using lt hr by (simp add: load_current.simps[of recs ?k ?n] head Let_def h_def)
  also note gs
  also have "take (length (pre @ [f])) (files[?k := h]) = take ?k files @ [h]"
    using k by (simp add: take_Suc_conv_app_nth)
  also have "drop (length (pre @ [f]) + length fs) (files[?k := h]) = drop (?k + length (f # fs)) files"
    by simp
  finally show ?case using all h by (intro exI[of _ "h # gs"]) simp
qed

lemma validate_serialized_all:
  assumes "recs = concat (map file_records fs) @ replicate m zero_record"
    and "length recs = FS_MAX_FILES" and "\<forall>g \<in> set fs. wf_file g \<and> f_in_use g"
    and "distinct (map (cstr \<circ> f_name) fs)"
  shows "validate_current recs 0 0"
proof -
  have "validate_current recs (length ([] :: fs_file list)) (length (concat (map file_records [])))"
    by (rule validate_serialized[of recs "[]" fs m]) (use assms in \<open>simp_all only: append_Nil list.map concat.simps\<close>)
  then show ?thesis by simp
qed

lemma load_serialized_all:
  assumes "recs = concat (map file_records fs) @ replicate m zero_record"
    and "length recs = FS_MAX_FILES" and "\<forall>g \<in> set fs. wf_file g \<and> f_in_use g"
    and "list_all wf_file files" and "length fs \<le> length files"
  shows "\<exists>gs. load_current recs 0 0 files = gs @ drop (length fs) files
    \<and> list_all2 (\<lambda>g f. f_in_use g \<and> wf_file g \<and> fview g = fview f) gs fs"
  using load_serialized[of recs "[]" fs m files] assms
  by (simp only: append_Nil list.map concat.simps list.size add_0 take_0)

text \<open>The round trip: a file table within budget comes back with the same names and bytes.\<close>

lemma count_used: "length (filter f_in_use files) \<le> records_used files"
  unfolding records_used_def
  by (induction files) (auto simp: Suc_le_eq intro: order.strict_trans1 add_strict_increasing)

lemma length_concat_records:
  "length (concat (map file_records (filter f_in_use files))) = records_used files"
  by (induction files) (simp_all add: records_used_def)

lemma fs_roundtrip:
  assumes inv: "files_inv files" and fit: "records_used files \<le> FS_MAX_FILES"
    and g: "list_all wf_file gfiles" "length gfiles = FS_MAX_FILES"
    and ser: "serialize_table files = (True, t)"
  obtains gfiles' where "deserialize_current t gfiles = (True, gfiles')"
    and "fs_listing gfiles' = fs_listing files" and "files_inv gfiles'"
proof -
  let ?fs = "filter f_in_use files"
  from inv have wf: "list_all wf_file files" by (simp add: files_inv_def)
  have recs: "t_records t = concat (map file_records ?fs) @ replicate (FS_MAX_FILES - records_used files) zero_record"
    using serialize_table_ok(2)[OF wf fit] ser by simp
  have len: "length (t_records t) = FS_MAX_FILES"
    using fit by (simp add: recs length_concat_records del: length_concat)
  have used: "\<forall>f \<in> set ?fs. wf_file f \<and> f_in_use f" using wf by (simp add: list_all_iff)
  have dist: "distinct (map (cstr \<circ> f_name) ?fs)"
    using inv by (simp add: files_inv_def fs_listing_def fview_def comp_def)
  have val: "validate_current (t_records t) 0 0"
    by (rule validate_serialized_all[OF recs len used dist])
  let ?cl = "map fs_clear gfiles"
  have cl: "list_all wf_file ?cl" using g(1) by (simp add: list_all_iff)
  have cnt: "length ?fs \<le> FS_MAX_FILES" using count_used[of files] fit by simp
  obtain gs where load: "load_current (t_records t) 0 0 ?cl = gs @ drop (length ?fs) ?cl"
    and gs: "list_all2 (\<lambda>g f. f_in_use g \<and> wf_file g \<and> fview g = fview f) gs ?fs"
    using load_serialized_all[OF recs len used cl] cnt g(2) by auto
  have all: "list_all (\<lambda>g. f_in_use g \<and> wf_file g) gs" and views: "map fview gs = map fview ?fs"
    using gs by (auto simp: list_all2_conv_all_nth list_all_length intro: nth_equalityI)
  have "filter f_in_use gs = gs" using all by (simp add: filter_id_conv list_all_iff)
  moreover have "filter f_in_use (drop (length ?fs) ?cl) = []"
    by (auto simp: filter_empty_conv dest!: in_set_dropD)
  ultimately have listing: "fs_listing (gs @ drop (length ?fs) ?cl) = fs_listing files"
    using views by (simp add: fs_listing_def)
  have "length gs = length ?fs" using gs by (rule list_all2_lengthD)
  then have "files_inv (gs @ drop (length ?fs) ?cl)"
    using listing inv all cl cnt g(2)
    by (auto simp: files_inv_def list_all_iff dest!: in_set_dropD)
  then show thesis
    using that[of "gs @ drop (length ?fs) ?cl"] val load listing by (simp add: deserialize_current_def)
qed

end
