(* ===== verification/Fs_Robust.thy ===== *)
theory Fs_Robust
  imports Fs_Serial
begin

text \<open>
  Robustness of the two deserialisers: whatever 34304 bytes the disk returned, an accepted
  table yields a well-formed file table within the record budget, and a rejected one leaves
  the mounted table alone.
\<close>

section \<open>Updating one slot of the file table\<close>

lemma listing_append: "fs_listing (xs @ ys) = fs_listing xs @ fs_listing ys"
  by (simp add: fs_listing_def)

lemma listing_Cons: "fs_listing (f # fs) = (if f_in_use f then fview f # fs_listing fs else fs_listing fs)"
  by (simp add: fs_listing_def)

lemma listing_split:
  "k < length files \<Longrightarrow> fs_listing files =
     fs_listing (take k files) @ (if f_in_use (files ! k) then [fview (files ! k)] else [])
       @ fs_listing (drop (Suc k) files)"
  by (subst id_take_nth_drop[of k files]) (simp_all add: listing_append listing_Cons)

lemma listing_update:
  "k < length files \<Longrightarrow> fs_listing (files[k := h]) =
     fs_listing (take k files) @ (if f_in_use h then [fview h] else []) @ fs_listing (drop (Suc k) files)"
  by (simp add: upd_conv_take_nth_drop listing_append listing_Cons)

lemma records_append: "records_used (xs @ ys) = records_used xs + records_used ys"
  by (simp add: records_used_def)

lemma records_Cons:
  "records_used (f # fs) = (if f_in_use f then fs_disk_records_needed (f_size f) else 0) + records_used fs"
  by (simp add: records_used_def)

lemma records_update:
  assumes "k < length files"
  shows "records_used (files[k := h]) + (if f_in_use (files ! k) then fs_disk_records_needed (f_size (files ! k)) else 0)
    = records_used files + (if f_in_use h then fs_disk_records_needed (f_size h) else 0)"
proof -
  have "records_used files = records_used (take k files @ files ! k # drop (Suc k) files)"
    using id_take_nth_drop[OF assms] by simp
  then show ?thesis
    using assms by (simp add: upd_conv_take_nth_drop records_append records_Cons)
qed

lemma listing_names:
  "set (map fst (fs_listing files)) = (\<lambda>f. cstr (f_name f)) ` {f \<in> set files. f_in_use f}"
  by (auto simp: fs_listing_def fview_def image_iff)

lemma fst_fview [simp]: "fst (fview f) = cstr (f_name f)"
  by (simp add: fview_def)

lemma distinct_insert_file:
  assumes "k < length files" and "\<not> f_in_use (files ! k)"
    and "distinct (map fst (fs_listing files))"
    and "\<forall>f \<in> set files. f_in_use f \<longrightarrow> cstr (f_name f) \<noteq> cstr (f_name h)"
  shows "distinct (map fst (fs_listing (files[k := h])))"
proof -
  have "cstr (f_name h) \<notin> set (map fst (fs_listing files))"
    using assms(4) unfolding listing_names by auto
  then show ?thesis
    using assms(1-3) by (auto simp: listing_update listing_split)
qed

section \<open>The current format\<close>

lemma length_load_continuations:
  assumes "check_continuations recs disk_index part n remaining = Some 0"
    and "copied + remaining \<le> length data"
  shows "length (load_continuations recs disk_index part n copied data) = length data"
  using assms
proof (induction n arbitrary: part remaining copied data)
  case (Suc n)
  let ?c = "recs ! (disk_index + part)" and ?e = "min remaining FS_DISK_DATA_BYTES"
  from Suc.prems(1) have sz: "unat (r_size ?c) = ?e"
    and chk: "check_continuations recs disk_index (part + 1) n (remaining - ?e) = Some 0"
    by (auto simp: Let_def fs_disk_continuation_is_valid_def split: if_splits)
  have len: "length (blit data copied (take ?e (r_data ?c))) = length data"
    using Suc.prems(2) by (intro length_blit) auto
  have "length (load_continuations recs disk_index (part + 1) n (copied + ?e)
      (blit data copied (take ?e (r_data ?c)))) = length (blit data copied (take ?e (r_data ?c)))"
    using Suc.prems(2) by (intro Suc.IH[OF chk]) (simp add: len)
  then show ?case using sz len by (simp add: Let_def)
qed simp

lemma name_31_terminated: "length nm = FS_MAX_FILENAME \<Longrightarrow> nm ! 31 = 0 \<Longrightarrow> terminated nm"
  using nth_mem[of 31 nm] by (simp add: terminated_def)

lemma load_current_file_wf:
  assumes head: "sz = unat (r_size (recs ! disk_index))" "sz < FS_MAX_FILE_SIZE"
      "valid_name (cstr (r_name (recs ! disk_index)))"
    and chk: "check_continuations recs disk_index 1 (fs_disk_records_needed sz - 1) (sz - FS_DISK_DATA_BYTES) = Some 0"
    and g: "wf_file g"
  shows "wf_file (load_current_file recs disk_index g)"
    and "f_in_use (load_current_file recs disk_index g)"
    and "cstr (f_name (load_current_file recs disk_index g)) = cstr (r_name (recs ! disk_index))"
    and "f_size (load_current_file recs disk_index g) = sz"
proof -
  let ?h = "load_current_file recs disk_index g" and ?nm = "cstr (r_name (recs ! disk_index))"
  let ?c = "min sz FS_DISK_DATA_BYTES"
  define d1 where "d1 = blit (f_data g) 0 (take ?c (r_data (recs ! disk_index)))"
  define d2 where "d2 = load_continuations recs disk_index 1 (fs_disk_records_needed sz - 1) ?c d1"
  have h: "?h = g\<lparr>f_in_use := True, f_name := blit (f_name g) 0 (?nm @ [0]), f_size := sz, f_data := blit d2 sz [0]\<rparr>"
    unfolding load_current_file_def Let_def d1_def d2_def head(1) by simp
  have ld1: "length d1 = FS_MAX_FILE_SIZE"
    using g head(2) by (simp add: d1_def wf_file_def length_blit)
  have ld2: "length d2 = FS_MAX_FILE_SIZE"
    unfolding d2_def using head(2) ld1 by (subst length_load_continuations[OF chk]) auto
  have nm: "0 \<notin> set ?nm" "length ?nm < FS_MAX_FILENAME"
    using head(3) by (auto simp: valid_name_def)
  show name: "cstr (f_name ?h) = ?nm" using nm(1) by (simp add: h cstr_blit)
  show "f_in_use ?h" "f_size ?h = sz" by (simp_all add: h)
  have "blit d2 sz [0] ! sz = 0" using ld2 head(2) by (simp add: nth_blit)
  then show "wf_file ?h"
    using g nm head name ld2 by (simp add: wf_file_def h length_blit terminated_blit)
qed

definition loaded_from :: "fs_disk_record list \<Rightarrow> nat \<Rightarrow> nat \<Rightarrow> fs_file list \<Rightarrow> bool" where
  "loaded_from recs logical disk_index files \<longleftrightarrow> files_inv files \<and> records_used files \<le> disk_index
     \<and> (\<forall>k < FS_MAX_FILES. f_in_use (files ! k) \<longrightarrow> k < logical)
     \<and> (\<forall>f \<in> set files. f_in_use f \<longrightarrow> (\<exists>j < disk_index. r_in_use (recs ! j) = FS_DISK_RECORD_HEAD
          \<and> terminated (r_name (recs ! j)) \<and> cstr (r_name (recs ! j)) = cstr (f_name f)))"

lemma load_current_step:
  assumes recs: "length recs = FS_MAX_FILES" "list_all wf_record recs"
    and di: "disk_index < FS_MAX_FILES" and used: "r_in_use (recs ! disk_index) \<noteq> 0"
    and val: "validate_current recs logical disk_index"
    and l: "loaded_from recs logical disk_index files"
  defines "h \<equiv> load_current_file recs disk_index (files ! logical)"
  shows "loaded_from recs (logical + 1) (disk_index + fs_disk_records_needed (unat (r_size (recs ! disk_index))))
    (files[logical := h])"
proof -
  let ?head = "recs ! disk_index" and ?sz = "unat (r_size (recs ! disk_index))"
  let ?n = "fs_disk_records_needed (unat (r_size (recs ! disk_index)))"
  note v = validate_step[OF di used, of logical, unfolded Let_def, THEN iffD1, OF val]
  have wfr: "wf_record ?head" using recs di by (simp add: list_all_length)
  have trm: "terminated (r_name ?head)"
    using v wfr by (intro name_31_terminated) (auto simp: wf_record_def)
  have nm: "valid_name (cstr (r_name ?head))" using v trm by (simp add: fs_is_valid_name_iff)
  have inv: "files_inv files" using l by (simp add: loaded_from_def)
  have k: "logical < length files" using v inv by (simp add: files_inv_def)
  have g: "wf_file (files ! logical)" and free: "\<not> f_in_use (files ! logical)"
    using l k inv by (auto simp: loaded_from_def files_inv_def list_all_length)
  have chk: "check_continuations recs disk_index 1 (?n - 1) (?sz - FS_DISK_DATA_BYTES) = Some 0"
    and sz: "?sz < FS_MAX_FILE_SIZE" using v by auto
  note h = load_current_file_wf[OF refl sz nm chk g, folded h_def]
  have new: "\<forall>f \<in> set files. f_in_use f \<longrightarrow> cstr (f_name f) \<noteq> cstr (f_name h)"
  proof (intro ballI impI)
    fix f assume "f \<in> set files" and "f_in_use f"
    then obtain j where j: "j < disk_index" "r_in_use (recs ! j) = FS_DISK_RECORD_HEAD"
      "terminated (r_name (recs ! j))" "cstr (r_name (recs ! j)) = cstr (f_name f)"
      using l by (auto simp: loaded_from_def)
    moreover have "\<not> duplicate_head recs disk_index" using v by simp
    ultimately have "kstrcmp (r_name (recs ! j)) (r_name ?head) \<noteq> 0"
      by (auto simp: duplicate_head_def list_ex_iff)
    then show "cstr (f_name f) \<noteq> cstr (f_name h)"
      using j trm h(3) by (simp add: kstrcmp_eq_0)
  qed
  have "files_inv (files[logical := h])"
    using inv k h(1) distinct_insert_file[OF k free _ new]
    by (auto simp: files_inv_def list_all_length nth_list_update)
  moreover have "records_used (files[logical := h]) \<le> disk_index + ?n"
    using records_update[OF k, of h] free h(2,4) l by (simp add: loaded_from_def)
  moreover have "\<forall>f \<in> set (files[logical := h]). f_in_use f \<longrightarrow> (\<exists>j < disk_index + ?n.
      r_in_use (recs ! j) = FS_DISK_RECORD_HEAD \<and> terminated (r_name (recs ! j))
      \<and> cstr (r_name (recs ! j)) = cstr (f_name f))"
  proof (intro ballI impI)
    fix f assume "f \<in> set (files[logical := h])" and u: "f_in_use f"
    then consider "f = h" | "f \<in> set files" using set_update_subset_insert by fastforce
    then show "\<exists>j < disk_index + ?n. r_in_use (recs ! j) = FS_DISK_RECORD_HEAD
        \<and> terminated (r_name (recs ! j)) \<and> cstr (r_name (recs ! j)) = cstr (f_name f)"
    proof cases
      case 1
      then show ?thesis using v trm h(3) needed_bounds[of ?sz] by (intro exI[of _ disk_index]) simp
    next
      case 2
      then obtain j where "j < disk_index" "r_in_use (recs ! j) = FS_DISK_RECORD_HEAD"
        "terminated (r_name (recs ! j))" "cstr (r_name (recs ! j)) = cstr (f_name f)"
        using l u unfolding loaded_from_def by blast
      then show ?thesis by (intro exI[of _ j]) simp
    qed
  qed
  moreover have "\<forall>j < FS_MAX_FILES. f_in_use (files[logical := h] ! j) \<longrightarrow> j < logical + 1"
    using l inv by (auto simp: loaded_from_def files_inv_def nth_list_update less_Suc_eq)
  ultimately show ?thesis by (simp add: loaded_from_def)
qed

lemma load_current_sound:
  assumes "length recs = FS_MAX_FILES" and "list_all wf_record recs"
    and "validate_current recs logical disk_index" and "loaded_from recs logical disk_index files"
    and "disk_index \<le> FS_MAX_FILES"
  shows "files_inv (load_current recs logical disk_index files)
    \<and> records_used (load_current recs logical disk_index files) \<le> FS_MAX_FILES"
  using assms
proof (induction recs logical disk_index files rule: load_current.induct)
  case (1 recs logical disk_index files)
  show ?case
  proof (cases "disk_index < FS_MAX_FILES")
    case di: True
    show ?thesis
    proof (cases "r_in_use (recs ! disk_index) = 0")
      case True
      have "validate_current recs logical (disk_index + 1)"
        using "1.prems" True di by (simp add: validate_current.simps[of recs logical disk_index] Let_def)
      moreover have "loaded_from recs logical (disk_index + 1) files"
        using "1.prems"(4) unfolding loaded_from_def by (meson le_add1 less_le_trans le_trans)
      ultimately show ?thesis
        using "1.IH"(1)[OF di refl True] "1.prems" True di
        by (simp add: load_current.simps[of recs logical disk_index] Let_def)
    next
      case False
      note v = validate_step[OF di False, of logical, unfolded Let_def, THEN iffD1, OF "1.prems"(3)]
      note l = load_current_step[OF "1.prems"(1,2) di False "1.prems"(3,4)]
      show ?thesis
        using "1.IH"(2)[OF di refl False "1.prems"(1,2) _ l] v False di
        by (simp add: load_current.simps[of recs logical disk_index] Let_def)
    qed
  next
    case False
    then show ?thesis
      using "1.prems" by (simp add: load_current.simps loaded_from_def)
  qed
qed

lemma deserialize_current_sound:
  assumes t: "wf_table t" and files: "length files = FS_MAX_FILES" "list_all wf_file files"
    and d: "deserialize_current t files = (ok, files')"
  shows "ok \<Longrightarrow> files_inv files' \<and> records_used files' \<le> FS_MAX_FILES" and "\<not> ok \<Longrightarrow> files' = files"
proof -
  let ?cl = "map fs_clear files"
  have none: "fs_listing ?cl = []" "records_used ?cl = 0"
    by (simp_all add: fs_listing_def records_used_def)
  have "loaded_from (t_records t) 0 0 ?cl"
    using files none by (auto simp: loaded_from_def files_inv_def list_all_iff)
  moreover assume ok
  ultimately show "files_inv files' \<and> records_used files' \<le> FS_MAX_FILES"
    using d t load_current_sound[of "t_records t" 0 0 ?cl]
    by (auto simp: deserialize_current_def wf_table_def split: if_splits)
next
  show "\<not> ok \<Longrightarrow> files' = files"
    using d by (auto simp: deserialize_current_def split: if_splits)
qed

section \<open>The legacy format\<close>

lemma load_legacy_wf:
  assumes r: "wf_record r" and g: "wf_file g"
    and ok: "r_in_use r \<noteq> 0 \<Longrightarrow> unat (r_size r) < FS_DISK_DATA_BYTES \<and> valid_name (cstr (r_name r))"
  shows "wf_file (load_legacy_record r g)"
    and "f_in_use (load_legacy_record r g) \<longleftrightarrow> r_in_use r \<noteq> 0"
    and "r_in_use r \<noteq> 0 \<Longrightarrow> cstr (f_name (load_legacy_record r g)) = cstr (r_name r)"
    and "r_in_use r \<noteq> 0 \<Longrightarrow> f_size (load_legacy_record r g) = unat (r_size r)"
proof -
  let ?h = "load_legacy_record r g"
  show "f_in_use ?h \<longleftrightarrow> r_in_use r \<noteq> 0" by (simp add: load_legacy_record_def)
  show nm: "cstr (f_name ?h) = cstr (r_name r)" "f_size ?h = unat (r_size r)" if "r_in_use r \<noteq> 0"
    using that cstr_no_zero[of "r_name r"] by (simp_all add: load_legacy_record_def cstr_blit)
  show "wf_file ?h"
  proof (cases "r_in_use r = 0")
    case True
    then show ?thesis using g by (simp add: wf_file_def load_legacy_record_def length_blit)
  next
    case False
    let ?d = "blit (f_data g) 0 (take (unat (r_size r)) (r_data r))"
    have ld: "length ?d = FS_MAX_FILE_SIZE"
      using g r ok[OF False] by (subst length_blit) (auto simp: wf_file_def wf_record_def)
    then have "length (blit ?d (unat (r_size r)) [0]) = FS_MAX_FILE_SIZE"
      "blit ?d (unat (r_size r)) [0] ! unat (r_size r) = 0"
      using ok[OF False] by (simp_all add: length_blit nth_blit)
    then show ?thesis
      using False g ok[OF False] nm(1)[OF False]
      by (auto simp: wf_file_def load_legacy_record_def length_blit terminated_blit valid_name_def)
  qed
qed

lemma records_small:
  assumes "\<forall>f \<in> set files. f_in_use f \<longrightarrow> f_size f < FS_DISK_DATA_BYTES"
  shows "records_used files \<le> length files"
  using assms
proof (induction files)
  case (Cons f files)
  have "f_in_use f \<Longrightarrow> fs_disk_records_needed (f_size f) = 1"
    using Cons.prems by (auto simp: fs_disk_records_needed_def)
  then show ?case using Cons by (auto simp: records_Cons)
qed (simp add: records_used_def)

lemma distinct_listing:
  assumes "\<And>i j. i < j \<Longrightarrow> j < length files \<Longrightarrow> f_in_use (files ! i) \<Longrightarrow> f_in_use (files ! j) \<Longrightarrow>
      cstr (f_name (files ! i)) \<noteq> cstr (f_name (files ! j))"
  shows "distinct (map fst (fs_listing files))"
  using assms
proof (induction files)
  case (Cons f files)
  have "distinct (map fst (fs_listing files))"
    using Cons.prems[of "Suc _" "Suc _"] by (intro Cons.IH) auto
  moreover have "cstr (f_name f) \<noteq> cstr (f_name g)" if "f_in_use f" "g \<in> set files" "f_in_use g" for g
  proof -
    from that(2) obtain j where "j < length files" "g = files ! j" by (metis in_set_conv_nth)
    then show ?thesis using that Cons.prems[of 0 "Suc j"] by simp
  qed
  then have "f_in_use f \<Longrightarrow> cstr (f_name f) \<notin> set (map fst (fs_listing files))"
    unfolding listing_names by blast
  ultimately show ?case by (simp add: listing_Cons)
qed (simp add: fs_listing_def)

lemma deserialize_legacy_sound:
  assumes t: "wf_table t" and files: "length files = FS_MAX_FILES" "list_all wf_file files"
    and d: "deserialize_legacy t files = (ok, files')"
  shows "ok \<Longrightarrow> files_inv files' \<and> records_used files' \<le> FS_MAX_FILES" and "\<not> ok \<Longrightarrow> files' = files"
proof -
  let ?recs = "t_records t"
  assume ok
  with d have all: "\<forall>i < FS_MAX_FILES. legacy_record_ok ?recs i"
    and f': "files' = map2 load_legacy_record ?recs files"
    by (auto simp: deserialize_legacy_def list_all_iff split: if_splits)
  have lr: "length ?recs = FS_MAX_FILES" and wr: "\<And>i. i < FS_MAX_FILES \<Longrightarrow> wf_record (?recs ! i)"
    using t by (auto simp: wf_table_def list_all_length)
  have len: "length files' = FS_MAX_FILES" using f' lr files(1) by simp
  have nth: "files' ! i = load_legacy_record (?recs ! i) (files ! i)" if "i < FS_MAX_FILES" for i
    using that f' lr files(1) by simp
  have rec: "unat (r_size (?recs ! i)) < FS_DISK_DATA_BYTES \<and> valid_name (cstr (r_name (?recs ! i)))
      \<and> terminated (r_name (?recs ! i)) \<and> r_in_use (?recs ! i) = FS_DISK_RECORD_HEAD \<and> \<not> duplicate_head ?recs i"
    if "i < FS_MAX_FILES" "r_in_use (?recs ! i) \<noteq> 0" for i
  proof -
    have *: "legacy_record_ok ?recs i" using all that by blast
    then have "terminated (r_name (?recs ! i))"
      using that wr[OF that(1)] name_31_terminated
      by (auto simp: legacy_record_ok_def Let_def wf_record_def split: if_splits)
    with * show ?thesis
      using that by (auto simp: legacy_record_ok_def Let_def fs_is_valid_name_iff split: if_splits)
  qed
  have wf: "wf_file (files ! i)" if "i < FS_MAX_FILES" for i
    using that files by (simp add: list_all_length)
  note h = load_legacy_wf[OF wr wf]
  have "wf_file (files' ! i)" if "i < FS_MAX_FILES" for i
    using that h(1)[OF that that] rec[OF that] by (simp add: nth)
  then have wf': "list_all wf_file files'" by (simp add: list_all_length len)
  have "distinct (map fst (fs_listing files'))"
  proof (rule distinct_listing)
    fix i j assume ij: "i < j" "j < length files'" and u: "f_in_use (files' ! i)" "f_in_use (files' ! j)"
    then have b: "i < FS_MAX_FILES" "j < FS_MAX_FILES" using len by simp_all
    have ui: "r_in_use (?recs ! i) \<noteq> 0" and uj: "r_in_use (?recs ! j) \<noteq> 0"
      using u b by (simp_all add: nth load_legacy_record_def split: if_splits)
    have "kstrcmp (r_name (?recs ! i)) (r_name (?recs ! j)) \<noteq> 0"
      using rec[OF b(2) uj] rec[OF b(1) ui] ij(1) by (auto simp: duplicate_head_def list_ex_iff)
    then show "cstr (f_name (files' ! i)) \<noteq> cstr (f_name (files' ! j))"
      using rec[OF b(2) uj] rec[OF b(1) ui] h(3)[OF b(1) b(1) _ ui] h(3)[OF b(2) b(2) _ uj]
      by (simp add: nth[OF b(1)] nth[OF b(2)] kstrcmp_eq_0)
  qed
  moreover have "\<forall>f \<in> set files'. f_in_use f \<longrightarrow> f_size f < FS_DISK_DATA_BYTES"
  proof (intro ballI impI)
    fix f assume "f \<in> set files'" and u: "f_in_use f"
    then obtain i where i: "i < FS_MAX_FILES" "f = files' ! i" by (metis in_set_conv_nth len)
    then have ui: "r_in_use (?recs ! i) \<noteq> 0"
      using u by (simp add: nth load_legacy_record_def split: if_splits)
    then show "f_size f < FS_DISK_DATA_BYTES"
      using i rec[OF i(1) ui] h(4)[OF i(1) i(1) _ ui] by (simp add: nth)
  qed
  ultimately show "files_inv files' \<and> records_used files' \<le> FS_MAX_FILES"
    using wf' len records_small[of files'] by (simp add: files_inv_def)
next
  show "\<not> ok \<Longrightarrow> files' = files"
    using d by (auto simp: deserialize_legacy_def split: if_splits)
qed

section \<open>The serialised table\<close>

lemma wf_write_head: "wf_record r \<Longrightarrow> wf_record (write_head f r)"
  by (simp add: wf_record_def write_head_def length_blit cstr_run_eq)

lemma wf_write_continuation:
  "wf_record r \<Longrightarrow> chunk \<le> FS_DISK_DATA_BYTES \<Longrightarrow> wf_record (write_continuation f copied chunk r)"
  by (simp add: wf_record_def write_continuation_def length_blit)

lemma wf_list_update:
  "list_all wf_record recs \<Longrightarrow> (wf_record (recs ! i) \<Longrightarrow> wf_record r) \<Longrightarrow> list_all wf_record (recs[i := r])"
  by (cases "i < length recs") (auto simp: list_all_length nth_list_update list_update_beyond)

lemma wf_serialize_rest:
  "list_all wf_record recs \<Longrightarrow> serialize_rest f copied i recs = (j, recs') \<Longrightarrow>
     length recs' = length recs \<and> list_all wf_record recs'"
proof (induction f copied i recs rule: serialize_rest.induct)
  case (1 f copied i recs)
  show ?case
    using 1 serialize_rest.simps[of f copied i recs]
    by (auto simp: Let_def wf_list_update wf_write_continuation split: if_splits)
qed

lemma wf_serialize_files:
  "list_all wf_record recs \<Longrightarrow> serialize_files files i recs = (ok, recs') \<Longrightarrow>
     length recs' = length recs \<and> list_all wf_record recs'"
proof (induction files i recs rule: serialize_files.induct)
  case (2 f files i recs)
  let ?recs1 = "recs[i := write_head f (recs ! i)]"
  obtain j recs2 where rest: "serialize_rest f (min (f_size f) FS_DISK_DATA_BYTES) (i + 1) ?recs1 = (j, recs2)"
    by fastforce
  have "list_all wf_record ?recs1" using 2(3) by (rule wf_list_update) (rule wf_write_head)
  note rest_wf = wf_serialize_rest[OF this rest]
  show ?case
    using 2 rest rest_wf by (auto simp: Let_def split: if_splits)
qed simp

lemma wf_serialize_table: "wf_table (snd (serialize_table files))"
proof -
  obtain ok recs where s: "serialize_files files 0 (t_records zero_table) = (ok, recs)" by fastforce
  have "list_all wf_record (t_records zero_table)"
    by (simp add: zero_table_def zero_record_def wf_record_def list_all_iff)
  from wf_serialize_files[OF this s] have "length recs = FS_MAX_FILES" "list_all wf_record recs"
    by (simp_all add: zero_table_def)
  then show ?thesis by (simp add: serialize_table_def s wf_table_def) (simp add: zero_table_def)
qed

section \<open>Properties\<close>

text \<open>C31: what is serialised is read back.  A well-formed file table
  whose files need at most 32 records is always serialised; the bytes of the record table,
  deserialised over any well-formed mounted view, give back the same files in the same order
  with the same names and contents, and a well-formed view.\<close>

theorem fs_serialize_roundtrip:
  assumes "files_inv files" and "records_used files \<le> FS_MAX_FILES"
    and "list_all wf_file gfiles" and "length gfiles = FS_MAX_FILES"
  shows "\<exists>t gfiles'. serialize_table files = (True, t)
    \<and> deserialize_current (table_of_bytes (table_bytes t)) gfiles = (True, gfiles')
    \<and> fs_listing gfiles' = fs_listing files \<and> files_inv gfiles'"
proof -
  obtain ok t where t: "serialize_table files = (ok, t)" by fastforce
  have "wf_table t" using wf_serialize_table[of files] t by simp
  then have "table_of_bytes (table_bytes t) = t" by (rule table_roundtrip)
  moreover have "ok" using serialize_table_ok(1)[of files] assms t by (simp add: files_inv_def)
  ultimately show ?thesis using fs_roundtrip[OF assms] t by metis
qed

text \<open>A file table with one file in use, for concrete instances.\<close>

definition one_file :: "bytes \<Rightarrow> bytes \<Rightarrow> fs_file list" where
  "one_file nm content =
     (fs_copy_name blank_file nm)\<lparr>f_in_use := True, f_size := length content,
        f_data := blit (f_data blank_file) 0 content\<rparr> # replicate 31 blank_file"

lemma wf_blank_file: "wf_file blank_file"
  by (simp add: wf_file_def blank_file_def)

lemma one_file_inv:
  "files_inv (one_file (lit ''notes'') [1, 0, 255])" "records_used (one_file (lit ''notes'') [1, 0, 255]) = 1"
  "fs_listing (one_file (lit ''notes'') [1, 0, 255]) = [(map of_char ''notes'', [1, 0, 255])]"
  using wf_blank_file
  by (simp_all add: one_file_def files_inv_def wf_file_def blank_file_def fs_listing_def fview_def
      records_used_def fs_disk_records_needed_def fs_copy_name_def cstr_run_eq lit_def cstr_def blit_def
      terminated_def valid_name_def filter_replicate list_all_iff nth_append)

theorem fs_serialize_roundtrip_witness:
  "\<exists>t gfiles'. serialize_table (one_file (lit ''notes'') [1, 0, 255]) = (True, t)
    \<and> deserialize_current (table_of_bytes (table_bytes t)) (replicate 32 blank_file) = (True, gfiles')
    \<and> fs_listing gfiles' = [(map of_char ''notes'', [1, 0, 255])]"
  using fs_serialize_roundtrip[OF one_file_inv(1), of "replicate 32 blank_file"] wf_blank_file
  by (auto simp: one_file_inv list_all_iff)

text \<open>C32: loading a table is safe on arbitrary media, in the current format and in
  the legacy format of versions 1 to 4.  Whatever the 67 table sectors hold, a table that is
  accepted yields a well-formed view (names valid and distinct, sizes and terminators inside every
  buffer, at most 32 records in use) and a table that is rejected leaves the mounted view untouched.\<close>

theorem fs_deserialize_robust:
  assumes "length b = 512 * FS_DISK_TABLE_SECTORS"
    and "length files = FS_MAX_FILES" and "list_all wf_file files"
  shows "(case deserialize_current (table_of_bytes b) files of (ok, files') \<Rightarrow>
      if ok then files_inv files' \<and> records_used files' \<le> FS_MAX_FILES else files' = files)
    \<and> (case deserialize_legacy (table_of_bytes b) files of (ok, files') \<Rightarrow>
      if ok then files_inv files' \<and> records_used files' \<le> FS_MAX_FILES else files' = files)"
  using deserialize_current_sound[OF table_bytes_of(1)[OF assms(1)] assms(2,3)]
    deserialize_legacy_sound[OF table_bytes_of(1)[OF assms(1)] assms(2,3)]
  by (auto split: prod.splits)

theorem fs_deserialize_robust_witness:
  "(case deserialize_current (table_of_bytes (replicate 34304 1)) (replicate 32 blank_file) of (ok, files') \<Rightarrow>
      if ok then files_inv files' \<and> records_used files' \<le> FS_MAX_FILES else files' = replicate 32 blank_file)
    \<and> (case deserialize_legacy (table_of_bytes (replicate 34304 0)) (replicate 32 blank_file) of (ok, files') \<Rightarrow>
      if ok then files_inv files' \<and> records_used files' \<le> FS_MAX_FILES else files' = replicate 32 blank_file)"
  using fs_deserialize_robust[of "replicate 34304 1" "replicate 32 blank_file"]
    fs_deserialize_robust[of "replicate 34304 0" "replicate 32 blank_file"] wf_blank_file
  by (simp add: list_all_iff)

end
