(* ===== verification/Syslog.thy ===== *)
theory Syslog
  imports KString
begin

text \<open>
  The kernel log of \<open>src/kernel/syslog.c\<close>: a ring of 64 messages of at most 79 bytes,
  and the projection of its newest entries into a text buffer (the virtual file
  \<open>system.log\<close>).  The copy of each message to the emulator's debug port is output only
  and is not part of the state.
\<close>

section \<open>Definitions\<close>

abbreviation SYSLOG_CAPACITY :: nat where "SYSLOG_CAPACITY \<equiv> 64"
abbreviation SYSLOG_MESSAGE_LEN :: nat where "SYSLOG_MESSAGE_LEN \<equiv> 80"

record syslog =
  g_entries :: "bytes list"
  g_start :: nat
  g_count :: nat

definition copy_message :: "bytes \<Rightarrow> bytes \<Rightarrow> bytes" where
  "copy_message dest src = blit dest 0 (cstr_run (SYSLOG_MESSAGE_LEN - 1) src @ [0])"

definition syslog_init :: "syslog \<Rightarrow> syslog" where
  "syslog_init s = s\<lparr>g_start := 0, g_count := 0,
     g_entries := map (\<lambda>e. blit e 0 [0]) (g_entries s)\<rparr>"

definition syslog_write :: "bytes option \<Rightarrow> syslog \<Rightarrow> syslog" where
  "syslog_write message s =
     (case message of
        None \<Rightarrow> s
      | Some msg \<Rightarrow>
          let (index, s1) =
            (if g_count s < SYSLOG_CAPACITY
             then ((g_start s + g_count s) mod SYSLOG_CAPACITY, s\<lparr>g_count := g_count s + 1\<rparr>)
             else (g_start s, s\<lparr>g_start := (g_start s + 1) mod SYSLOG_CAPACITY\<rparr>))
          in s1\<lparr>g_entries := (g_entries s1)[index := copy_message (g_entries s1 ! index) msg]\<rparr>)"

definition syslog_length :: "syslog \<Rightarrow> nat" where
  "syslog_length s = g_count s"

definition syslog_entry :: "syslog \<Rightarrow> nat \<Rightarrow> bytes option" where
  "syslog_entry s index =
     (if index \<ge> g_count s then None
      else Some (g_entries s ! ((g_start s + index) mod SYSLOG_CAPACITY)))"

text \<open>The bytes of an entry up to its terminator; a NULL entry has none.\<close>

definition entry_text :: "syslog \<Rightarrow> nat \<Rightarrow> bytes" where
  "entry_text s i = (case syslog_entry s i of None \<Rightarrow> [] | Some m \<Rightarrow> cstr m)"

text \<open>\<open>while (first > 0)\<close>: walk back over the newest entries that still fit.\<close>

fun copy_first :: "syslog \<Rightarrow> nat \<Rightarrow> nat \<Rightarrow> nat \<Rightarrow> nat" where
  "copy_first s available 0 required = 0"
| "copy_first s available (Suc first) required =
     (let len = length (entry_text s first)
      in if len + 1 > szsub available required then Suc first
         else copy_first s available first (required + len + 1))"

text \<open>\<open>for (i = first; i < g_count; i++)\<close>: append an entry and its newline to what has
  been written, never beyond \<open>available\<close> bytes.\<close>

definition copy_entry :: "nat \<Rightarrow> bytes \<Rightarrow> bytes \<Rightarrow> bytes" where
  "copy_entry available written msg =
     (let w = written @ take (available - length written) msg
      in if length w < available then w @ [10] else w)"

definition copy_entries :: "syslog \<Rightarrow> nat \<Rightarrow> nat \<Rightarrow> bytes" where
  "copy_entries s available first =
     foldl (copy_entry available) [] (map (entry_text s) [first..<g_count s])"

definition syslog_copy_text :: "syslog \<Rightarrow> bytes option \<Rightarrow> nat \<Rightarrow> nat \<times> bytes option" where
  "syslog_copy_text s buffer capacity =
     (case buffer of
        None \<Rightarrow> (0, None)
      | Some buf \<Rightarrow>
          if capacity = 0 then (0, Some buf)
          else
            let available = capacity - 1;
                first = copy_first s available (g_count s) 0;
                written = copy_entries s available first;
                written = (if written = [] \<and> g_count s \<noteq> 0 \<and> available \<noteq> 0
                           then take available (entry_text s (g_count s - 1))
                           else written)
            in (length written, Some (blit buf 0 (written @ [0]))))"

text \<open>Well-formed ring, and the messages it holds, oldest first.\<close>

definition syslog_inv :: "syslog \<Rightarrow> bool" where
  "syslog_inv s \<longleftrightarrow> length (g_entries s) = SYSLOG_CAPACITY
     \<and> (\<forall>e \<in> set (g_entries s). length e = SYSLOG_MESSAGE_LEN \<and> terminated e)
     \<and> g_start s < SYSLOG_CAPACITY \<and> g_count s \<le> SYSLOG_CAPACITY"

definition syslog_view :: "syslog \<Rightarrow> bytes list" where
  "syslog_view s = map (entry_text s) [0..<g_count s]"

definition syslog_boot :: syslog where
  "syslog_boot = \<lparr>g_entries = replicate SYSLOG_CAPACITY (replicate SYSLOG_MESSAGE_LEN 0),
     g_start = 0, g_count = 0\<rparr>"

section \<open>The ring\<close>

lemma syslog_boot_inv [simp]: "syslog_inv syslog_boot"
  by (simp add: syslog_inv_def syslog_boot_def terminated_def)

lemma copy_message_props:
  assumes "length dest = SYSLOG_MESSAGE_LEN"
  shows "length (copy_message dest src) = SYSLOG_MESSAGE_LEN"
    and "terminated (copy_message dest src)"
    and "cstr (copy_message dest src) = take 79 (cstr src)"
  using assms
  by (simp_all add: copy_message_def cstr_simps buf_simps)

lemma syslog_write_inv: "syslog_inv s \<Longrightarrow> syslog_inv (syslog_write m s)"
  by (auto simp: syslog_write_def syslog_inv_def Let_def copy_message_props
      dest!: set_update_subset_insert [THEN subsetD] split: option.splits)

lemma syslog_init_inv: "syslog_inv s \<Longrightarrow> syslog_inv (syslog_init s)"
  by (auto simp: syslog_init_def syslog_inv_def length_blit terminated_def blit_def)

lemma length_syslog_view [simp]: "length (syslog_view s) = g_count s"
  by (simp add: syslog_view_def)

lemma entry_text_eq:
  "i < g_count s \<Longrightarrow> entry_text s i = cstr (g_entries s ! ((g_start s + i) mod SYSLOG_CAPACITY))"
  by (simp add: entry_text_def syslog_entry_def)

lemma entry_text_length:
  assumes "syslog_inv s"
  shows "length (entry_text s i) < SYSLOG_MESSAGE_LEN"
proof (cases "i < g_count s")
  case True
  have "(g_start s + i) mod SYSLOG_CAPACITY < length (g_entries s)"
    using assms by (simp add: syslog_inv_def)
  then have "g_entries s ! ((g_start s + i) mod SYSLOG_CAPACITY) \<in> set (g_entries s)"
    by (rule nth_mem)
  then have "length (cstr (g_entries s ! ((g_start s + i) mod SYSLOG_CAPACITY))) < SYSLOG_MESSAGE_LEN"
    using assms length_cstr_less unfolding syslog_inv_def by metis
  with True show ?thesis by (simp add: entry_text_eq)
next
  case False
  then show ?thesis by (simp add: entry_text_def syslog_entry_def)
qed

lemma syslog_write_view:
  assumes inv: "syslog_inv s"
  shows "syslog_view (syslog_write (Some m) s) =
    (let l = syslog_view s @ [take 79 (cstr m)] in drop (length l - SYSLOG_CAPACITY) l)"
proof (cases "g_count s < SYSLOG_CAPACITY")
  case True
  let ?s' = "syslog_write (Some m) s"
  let ?i = "(g_start s + g_count s) mod SYSLOG_CAPACITY"
  have count: "g_count ?s' = Suc (g_count s)" and start: "g_start ?s' = g_start s"
    and entries: "g_entries ?s' = (g_entries s)[?i := copy_message (g_entries s ! ?i) m]"
    using True by (simp_all add: syslog_write_def)
  have len: "length (g_entries s ! ?i) = SYSLOG_MESSAGE_LEN" and il: "?i < length (g_entries s)"
    using inv by (simp_all add: syslog_inv_def)
  have "entry_text ?s' j = entry_text s j" if "j < g_count s" for j
    using that True ring_index_inj[of j 64 "g_count s" "g_start s"]
    by (simp add: entry_text_eq count start entries)
  moreover have "entry_text ?s' (g_count s) = take 79 (cstr m)"
    using len il by (simp add: entry_text_eq count start entries copy_message_props)
  ultimately have "syslog_view ?s' = syslog_view s @ [take 79 (cstr m)]"
    by (simp add: syslog_view_def count)
  then show ?thesis using True by simp
next
  case False
  let ?s' = "syslog_write (Some m) s"
  from False inv have full: "g_count s = SYSLOG_CAPACITY" and sl: "g_start s < SYSLOG_CAPACITY"
    by (simp_all add: syslog_inv_def)
  have count: "g_count ?s' = SYSLOG_CAPACITY" and start: "g_start ?s' = (g_start s + 1) mod SYSLOG_CAPACITY"
    and entries: "g_entries ?s' = (g_entries s)[g_start s := copy_message (g_entries s ! g_start s) m]"
    using full by (simp_all add: syslog_write_def)
  have len: "length (g_entries s ! g_start s) = SYSLOG_MESSAGE_LEN"
    and il: "g_start s < length (g_entries s)"
    using inv by (simp_all add: syslog_inv_def)
  have old: "entry_text ?s' j = entry_text s (Suc j)" if "j < 63" for j
  proof -
    have "(g_start s + Suc j) mod SYSLOG_CAPACITY \<noteq> g_start s"
      using that sl ring_index_inj[of "Suc j" 64 0 "g_start s"] by simp
    moreover have "(g_start ?s' + j) mod SYSLOG_CAPACITY = (g_start s + Suc j) mod SYSLOG_CAPACITY"
      unfolding start by (simp add: mod_add_left_eq)
    ultimately show ?thesis
      using that by (simp add: entry_text_eq count full entries)
  qed
  have "(g_start ?s' + 63) mod SYSLOG_CAPACITY = g_start s"
    unfolding start using sl by (simp add: mod_add_left_eq)
  then have new: "entry_text ?s' 63 = take 79 (cstr m)"
    using len il by (simp add: entry_text_eq count entries copy_message_props)
  obtain n where n: "SYSLOG_CAPACITY = Suc n" "n = 63" by simp
  have "map (entry_text ?s') [0..<n] = map (entry_text s) [Suc 0..<Suc n]"
    unfolding map_Suc_upt[symmetric] map_map by (rule map_cong) (auto simp: n(2) old)
  then have "syslog_view ?s' = drop 1 (syslog_view s) @ [take 79 (cstr m)]"
    using new unfolding syslog_view_def count full drop_map drop_upt n(1) n(2)[symmetric] by simp
  then show ?thesis using full by simp
qed

section \<open>The text projection\<close>

abbreviation log_text :: "bytes list \<Rightarrow> bytes" where
  "log_text ms \<equiv> concat (map (\<lambda>m. m @ [10]) ms)"

lemma copy_first_spec:
  assumes "required \<le> available" and "available < 2 ^ 64"
  shows "copy_first s available n required \<le> n
    \<and> required + length (log_text (map (entry_text s) [copy_first s available n required..<n])) \<le> available
    \<and> (copy_first s available n required = 0 \<or>
       required + length (log_text (map (entry_text s) [copy_first s available n required - 1..<n])) > available)"
  using assms(1)
proof (induction n arbitrary: required)
  case 0
  then show ?case by simp
next
  case (Suc n)
  let ?len = "length (entry_text s n)"
  show ?case
  proof (cases "?len + 1 > available - required")
    case True
    with Suc.prems assms(2) show ?thesis by (simp add: Let_def)
  next
    case False
    let ?k = "copy_first s available n (required + ?len + 1)"
    from False Suc.prems have "required + ?len + 1 \<le> available" by simp
    note IH = Suc.IH[OF this]
    have "copy_first s available (Suc n) required = ?k"
      using False Suc.prems assms(2) by (simp add: Let_def)
    moreover have "[j..<Suc n] = [j..<n] @ [n]" if "j \<le> n" for j
      using that by simp
    ultimately show ?thesis using IH by (auto simp: algebra_simps)
  qed
qed

lemma copy_entries_fit:
  "length w + length (log_text ms) \<le> available \<Longrightarrow> foldl (copy_entry available) w ms = w @ log_text ms"
  by (induction ms arbitrary: w) (auto simp: copy_entry_def Let_def)

lemma copy_entries_eq:
  assumes "length (log_text (map (entry_text s) [k..<g_count s])) \<le> available"
  shows "copy_entries s available k = log_text (drop k (syslog_view s))"
  using assms copy_entries_fit[of "[]" "map (entry_text s) [k..<g_count s]" available]
  by (simp add: copy_entries_def syslog_view_def drop_map)

lemma copy_entries_bound: "length w \<le> available \<Longrightarrow> length (foldl (copy_entry available) w ms) \<le> available"
  by (induction ms arbitrary: w) (auto simp: copy_entry_def Let_def)

lemma syslog_copy_text_bound:
  assumes "syslog_copy_text s (Some buf) cap = (n, buf')" and "0 < cap" and "length buf = cap"
  shows "n < cap \<and> length (the buf') = cap \<and> the buf' ! n = 0"
proof -
  define w where "w = (let w = copy_entries s (cap - 1) (copy_first s (cap - 1) (g_count s) 0)
    in if w = [] \<and> g_count s \<noteq> 0 \<and> cap - 1 \<noteq> 0 then take (cap - 1) (entry_text s (g_count s - 1)) else w)"
  have "length (copy_entries s (cap - 1) k) \<le> cap - 1" for k
    using copy_entries_bound[of "[]" "cap - 1"] by (simp add: copy_entries_def)
  then have "length w \<le> cap - 1" by (simp add: w_def Let_def)
  then have "length w < cap" using assms(2) by linarith
  moreover have "(n, buf') = (length w, Some (blit buf 0 (w @ [0])))"
    using assms(1,2) unfolding w_def by (simp only: syslog_copy_text_def Let_def option.case) simp
  ultimately show ?thesis using assms(3) by (simp add: length_blit nth_blit_end)
qed

lemma log_text_no_zero: "0 \<notin> set (log_text (map (entry_text s) is))"
  using cstr_no_zero by (auto simp: entry_text_def split: option.splits)

lemma syslog_copy_text_newest:
  assumes inv: "syslog_inv s" and cap: "SYSLOG_MESSAGE_LEN < capacity" "capacity < 2 ^ 64"
    and buf: "length buf = capacity"
  obtains k buf' where "syslog_copy_text s (Some buf) capacity =
      (length (log_text (drop k (syslog_view s))), Some buf')"
    and "cstr buf' = log_text (drop k (syslog_view s))" and "length buf' = capacity"
    and "length (log_text (drop k (syslog_view s))) < capacity"
    and "k = 0 \<or> length (log_text (drop (k - 1) (syslog_view s))) \<ge> capacity"
proof -
  let ?a = "capacity - 1" and ?n = "g_count s"
  let ?k = "copy_first s ?a ?n 0"
  let ?w = "log_text (drop ?k (syslog_view s))"
  have drop_eq: "map (entry_text s) [j..<?n] = drop j (syslog_view s)" for j
    by (simp add: syslog_view_def drop_map)
  note spec = copy_first_spec[of 0 ?a s ?n]
  have a: "?a < 2 ^ 64" using cap by simp
  from spec a have fit: "length ?w \<le> ?a" by (simp add: drop_eq)
  from spec a have maxi: "?k = 0 \<or> length (log_text (drop (?k - 1) (syslog_view s))) > ?a"
    by (simp add: drop_eq)
  have w: "copy_entries s ?a ?k = ?w"
    using fit by (intro copy_entries_eq) (simp add: drop_eq)
  have ne: "?w = [] \<Longrightarrow> ?n = 0"
  proof (rule ccontr)
    assume "?w = []" and "?n \<noteq> 0"
    then have "?k \<ge> ?n" using spec a by (cases "drop ?k (syslog_view s)") auto
    with spec a have k: "?k = ?n" by simp
    then have "drop (?k - 1) (syslog_view s) = [entry_text s (?n - 1)]"
      using \<open>?n \<noteq> 0\<close> drop_eq[of "?n - 1"] by (cases ?n) simp_all
    then show False
      using maxi k \<open>?n \<noteq> 0\<close> entry_text_length[OF inv, of "?n - 1"] cap by simp
  qed
  have "0 \<notin> set ?w" using log_text_no_zero[of s "[?k..<?n]"] by (simp add: drop_eq)
  then have "cstr (blit buf 0 (?w @ [0])) = ?w" by (rule cstr_blit)
  moreover have "length (blit buf 0 (?w @ [0])) = capacity"
    using fit buf cap by (simp add: length_blit)
  moreover have "syslog_copy_text s (Some buf) capacity = (length ?w, Some (blit buf 0 (?w @ [0])))"
    using cap ne w by (auto simp: syslog_copy_text_def Let_def)
  ultimately show thesis using fit maxi cap by (intro that) auto
qed

section \<open>Properties\<close>

text \<open>C35: the ring buffer implements a bounded log.  Every write
  keeps the ring well formed and appends the message, cut to 79 characters, at the newest end;
  once 64 messages are held the oldest one is dropped and nothing else moves.\<close>

theorem syslog_ring_is_bounded_log:
  assumes "syslog_inv s"
  shows "syslog_inv (syslog_write (Some m) s) \<and> syslog_view (syslog_write (Some m) s) =
      (let l = syslog_view s @ [take 79 (cstr m)] in drop (length l - SYSLOG_CAPACITY) l)"
  using syslog_write_inv[OF assms] syslog_write_view[OF assms] by blast

theorem syslog_ring_is_bounded_log_witness:
  "syslog_inv (syslog_write (Some (lit ''boot'')) syslog_boot)
   \<and> syslog_view (syslog_write (Some (lit ''boot'')) syslog_boot) = [map of_char ''boot'']"
  using syslog_ring_is_bounded_log[OF syslog_boot_inv, of "lit ''boot''"]
  by (simp add: syslog_view_def syslog_boot_def lit_def cstr_def)

text \<open>C36: the text copied out for \<open>system.log\<close> is the newest messages,
  one per line, as many as fit: the copy starts at some message \<open>k\<close>, the reported length and
  the terminated buffer agree, the buffer keeps its size, and one more message would not have
  fitted.\<close>

theorem syslog_text_is_newest:
  assumes "syslog_inv s" and "SYSLOG_MESSAGE_LEN < capacity" and "capacity < 2 ^ 64"
    and "length buf = capacity"
  shows "\<exists>k buf'. syslog_copy_text s (Some buf) capacity = (length (log_text (drop k (syslog_view s))), Some buf')
    \<and> cstr buf' = log_text (drop k (syslog_view s)) \<and> length buf' = capacity
    \<and> length (log_text (drop k (syslog_view s))) < capacity
    \<and> (k = 0 \<or> capacity \<le> length (log_text (drop (k - 1) (syslog_view s))))"
  using syslog_copy_text_newest[OF assms] by metis

theorem syslog_text_is_newest_witness:
  "\<exists>k buf'. syslog_copy_text (syslog_write (Some (lit ''boot'')) syslog_boot) (Some (replicate 8192 7)) 8192
      = (length (log_text (drop k (syslog_view (syslog_write (Some (lit ''boot'')) syslog_boot)))), Some buf')
    \<and> length buf' = 8192"
  using syslog_text_is_newest[of "syslog_write (Some (lit ''boot'')) syslog_boot" 8192 "replicate 8192 7"]
  by (auto simp: syslog_write_inv)

end
