(* ===== verification/Ata.thy ===== *)
theory Ata
  imports Syslog
begin

text \<open>
  The ATA PIO driver of \<open>src/kernel/ata.c\<close>.  The drive sits behind the x86 port
  instructions (\<open>inb\<close>, \<open>outb\<close>, \<open>rep insw\<close>, \<open>rep outsw\<close>); it is hardware, so
  the four instructions are a parameter of the model.  \<open>'d\<close> is the state of the drive;
  the driver's log messages go to the kernel log it is paired with.
\<close>

section \<open>Definitions\<close>

record 'd ports =
  p_inb :: "nat \<Rightarrow> 'd \<Rightarrow> u8 \<times> 'd"
  p_outb :: "nat \<Rightarrow> u8 \<Rightarrow> 'd \<Rightarrow> 'd"
  p_insw :: "nat \<Rightarrow> nat \<Rightarrow> 'd \<Rightarrow> bytes \<times> 'd"
  p_outsw :: "nat \<Rightarrow> bytes \<Rightarrow> 'd \<Rightarrow> 'd"

record 'd io =
  io_dev :: 'd
  io_log :: syslog

datatype ata_init_result = ATA_INIT_ERROR | ATA_INIT_READY | ATA_INIT_NO_DEVICE
datatype ata_write_result = ATA_WRITE_FAILED | ATA_WRITE_COMPLETE | ATA_WRITE_UNCERTAIN

abbreviation ATA_DATA :: nat where "ATA_DATA \<equiv> 0x1F0"
abbreviation ATA_SECTOR_CNT :: nat where "ATA_SECTOR_CNT \<equiv> 0x1F2"
abbreviation ATA_LBA_LOW :: nat where "ATA_LBA_LOW \<equiv> 0x1F3"
abbreviation ATA_LBA_MID :: nat where "ATA_LBA_MID \<equiv> 0x1F4"
abbreviation ATA_LBA_HIGH :: nat where "ATA_LBA_HIGH \<equiv> 0x1F5"
abbreviation ATA_DRIVE_HEAD :: nat where "ATA_DRIVE_HEAD \<equiv> 0x1F6"
abbreviation ATA_STATUS :: nat where "ATA_STATUS \<equiv> 0x1F7"
abbreviation ATA_COMMAND :: nat where "ATA_COMMAND \<equiv> 0x1F7"
abbreviation CMD_READ_PIO :: u8 where "CMD_READ_PIO \<equiv> 0x20"
abbreviation CMD_WRITE_PIO :: u8 where "CMD_WRITE_PIO \<equiv> 0x30"
abbreviation CMD_IDENTIFY :: u8 where "CMD_IDENTIFY \<equiv> 0xEC"
abbreviation CMD_CACHE_FLUSH :: u8 where "CMD_CACHE_FLUSH \<equiv> 0xE7"
abbreviation STATUS_BSY :: u8 where "STATUS_BSY \<equiv> 0x80"
abbreviation STATUS_DF :: u8 where "STATUS_DF \<equiv> 0x20"
abbreviation STATUS_DRQ :: u8 where "STATUS_DRQ \<equiv> 0x08"
abbreviation STATUS_ERR :: u8 where "STATUS_ERR \<equiv> 0x01"
abbreviation ATA_TIMEOUT :: nat where "ATA_TIMEOUT \<equiv> 10000000"

definition klog :: "string \<Rightarrow> 'd io \<Rightarrow> 'd io" where
  "klog msg s = s\<lparr>io_log := syslog_write (Some (lit msg)) (io_log s)\<rparr>"

definition inb :: "'d ports \<Rightarrow> nat \<Rightarrow> 'd io \<Rightarrow> u8 \<times> 'd io" where
  "inb P port s = (let (v, d) = p_inb P port (io_dev s) in (v, s\<lparr>io_dev := d\<rparr>))"

definition outb :: "'d ports \<Rightarrow> nat \<Rightarrow> u8 \<Rightarrow> 'd io \<Rightarrow> 'd io" where
  "outb P port v s = s\<lparr>io_dev := p_outb P port v (io_dev s)\<rparr>"

definition insw :: "'d ports \<Rightarrow> nat \<Rightarrow> nat \<Rightarrow> 'd io \<Rightarrow> bytes \<times> 'd io" where
  "insw P port n s = (let (b, d) = p_insw P port n (io_dev s) in (b, s\<lparr>io_dev := d\<rparr>))"

definition outsw :: "'d ports \<Rightarrow> nat \<Rightarrow> bytes \<Rightarrow> 'd io \<Rightarrow> 'd io" where
  "outsw P port b s = s\<lparr>io_dev := p_outsw P port b (io_dev s)\<rparr>"

definition ata_status_failed :: "u8 \<Rightarrow> 'd io \<Rightarrow> bool \<times> 'd io" where
  "ata_status_failed status s =
     (if status AND STATUS_DF \<noteq> 0 then (True, klog ''ATA: Device fault'' s)
      else if status AND STATUS_ERR \<noteq> 0 then (True, klog ''ATA: Command error'' s)
      else (False, s))"

fun wait_not_busy :: "'d ports \<Rightarrow> nat \<Rightarrow> 'd io \<Rightarrow> bool \<times> 'd io" where
  "wait_not_busy P 0 s = (False, klog ''ATA: Timeout waiting for BSY to clear'' s)"
| "wait_not_busy P (Suc timeout) s =
     (let (status, s1) = inb P ATA_STATUS s
      in if status = 0 \<or> status = 0xFF then (False, s1)
         else if status AND STATUS_BSY = 0
              then let (failed, s2) = ata_status_failed status s1 in (\<not> failed, s2)
              else wait_not_busy P timeout s1)"

definition ata_wait_not_busy :: "'d ports \<Rightarrow> 'd io \<Rightarrow> bool \<times> 'd io" where
  "ata_wait_not_busy P s = wait_not_busy P ATA_TIMEOUT s"

fun wait_drq :: "'d ports \<Rightarrow> nat \<Rightarrow> 'd io \<Rightarrow> bool \<times> 'd io" where
  "wait_drq P 0 s = (False, klog ''ATA: Timeout waiting for DRQ to set'' s)"
| "wait_drq P (Suc timeout) s =
     (let (status, s1) = inb P ATA_STATUS s
      in if status = 0 \<or> status = 0xFF then (False, s1)
         else if status AND STATUS_BSY = 0
              then let (failed, s2) = ata_status_failed status s1
                   in if failed then (False, s2)
                      else if status AND STATUS_DRQ \<noteq> 0 then (True, s2)
                      else wait_drq P timeout s2
              else wait_drq P timeout s1)"

definition ata_wait_drq :: "'d ports \<Rightarrow> 'd io \<Rightarrow> bool \<times> 'd io" where
  "ata_wait_drq P s = wait_drq P ATA_TIMEOUT s"

definition delay_400ns :: "'d ports \<Rightarrow> 'd io \<Rightarrow> 'd io" where
  "delay_400ns P s = snd (inb P ATA_STATUS (snd (inb P ATA_STATUS
     (snd (inb P ATA_STATUS (snd (inb P ATA_STATUS s)))))))"

definition ata_select_drive :: "'d ports \<Rightarrow> 'd io \<Rightarrow> 'd io" where
  "ata_select_drive P s = delay_400ns P (outb P ATA_DRIVE_HEAD 0xE0 s)"

definition ata_select_lba :: "'d ports \<Rightarrow> u32 \<Rightarrow> 'd io \<Rightarrow> 'd io" where
  "ata_select_lba P lba s =
     delay_400ns P (outb P ATA_DRIVE_HEAD (ucast (0xE0 OR (drop_bit 24 lba AND 0x0F))) s)"

definition ata_valid_request :: "u32 \<Rightarrow> u8 \<Rightarrow> bytes option \<Rightarrow> bool" where
  "ata_valid_request lba count buffer =
     (if buffer = None \<or> count = 0 then False
      else let final_lba = (ucast lba :: u64) + ucast count - 1 in final_lba \<le> 0x0FFFFFFF)"

definition ata_init :: "'d ports \<Rightarrow> 'd io \<Rightarrow> ata_init_result \<times> 'd io" where
  "ata_init P s =
     (let (status, s) = inb P ATA_STATUS s
      in if status = 0xFF then (ATA_INIT_NO_DEVICE, s)
         else
           let s = ata_select_drive P s;
               s = outb P 0x80 0 s;
               s = outb P ATA_SECTOR_CNT 0 s;
               s = outb P ATA_LBA_LOW 0 s;
               s = outb P ATA_LBA_MID 0 s;
               s = outb P ATA_LBA_HIGH 0 s;
               s = outb P ATA_COMMAND CMD_IDENTIFY s;
               (status, s) = inb P ATA_STATUS s
           in if status = 0 then (ATA_INIT_NO_DEVICE, s)
              else
                let (ok, s) = ata_wait_not_busy P s
                in if \<not> ok then (ATA_INIT_ERROR, s)
                   else
                     let (mid, s) = inb P ATA_LBA_MID s;
                         (foreign, s) = (if mid \<noteq> 0 then (True, s)
                                         else let (high, s) = inb P ATA_LBA_HIGH s in (high \<noteq> 0, s))
                     in if foreign then (ATA_INIT_ERROR, klog ''ATA: Unsupported non-ATA device'' s)
                        else
                          let (ok, s) = ata_wait_drq P s
                          in if \<not> ok then (ATA_INIT_ERROR, s)
                             else
                               let (tmp, s) = insw P ATA_DATA 256 s;
                                   (ok, s) = ata_wait_not_busy P s
                               in (if ok then ATA_INIT_READY else ATA_INIT_ERROR, s))"

definition ata_command :: "'d ports \<Rightarrow> u32 \<Rightarrow> u8 \<Rightarrow> u8 \<Rightarrow> 'd io \<Rightarrow> 'd io" where
  "ata_command P lba count cmd s =
     (let s = ata_select_lba P lba s;
          s = outb P ATA_SECTOR_CNT count s;
          s = outb P ATA_LBA_LOW (ucast lba) s;
          s = outb P ATA_LBA_MID (ucast (drop_bit 8 lba)) s;
          s = outb P ATA_LBA_HIGH (ucast (drop_bit 16 lba)) s
      in outb P ATA_COMMAND cmd s)"

fun ata_read_sectors :: "'d ports \<Rightarrow> nat \<Rightarrow> nat \<Rightarrow> bytes \<Rightarrow> 'd io \<Rightarrow> bool \<times> bytes \<times> 'd io" where
  "ata_read_sectors P i 0 buffer s = (True, buffer, s)"
| "ata_read_sectors P i (Suc n) buffer s =
     (let (ok, s) = ata_wait_drq P s
      in if \<not> ok then (False, buffer, s)
         else let (words, s) = insw P ATA_DATA 256 s
              in ata_read_sectors P (i + 1) n (blit buffer (i * 512) words) s)"

definition ata_read :: "'d ports \<Rightarrow> u32 \<Rightarrow> u8 \<Rightarrow> bytes option \<Rightarrow> 'd io \<Rightarrow> bool \<times> bytes option \<times> 'd io" where
  "ata_read P lba count buffer s =
     (case buffer of
        None \<Rightarrow> (False, None, s)
      | Some buf \<Rightarrow>
          if \<not> ata_valid_request lba count buffer then (False, buffer, s)
          else
            let (ok, s) = ata_wait_not_busy P s
            in if \<not> ok then (False, buffer, s)
               else
                 let s = ata_command P lba count CMD_READ_PIO s;
                     (ok, buf, s) = ata_read_sectors P 0 (unat count) buf s
                 in if \<not> ok then (False, Some buf, s)
                    else let (ok, s) = ata_wait_not_busy P s in (ok, Some buf, s))"

fun ata_write_sectors ::
  "'d ports \<Rightarrow> nat \<Rightarrow> nat \<Rightarrow> bool \<Rightarrow> bytes \<Rightarrow> 'd io \<Rightarrow> ata_write_result option \<times> 'd io" where
  "ata_write_sectors P i 0 transferred buffer s = (None, s)"
| "ata_write_sectors P i (Suc n) transferred buffer s =
     (let (ok, s) = ata_wait_drq P s
      in if \<not> ok then (Some (if transferred then ATA_WRITE_UNCERTAIN else ATA_WRITE_FAILED), s)
         else ata_write_sectors P (i + 1) n True buffer
                (outsw P ATA_DATA (take 512 (drop (i * 512) buffer)) s))"

definition ata_write :: "'d ports \<Rightarrow> u32 \<Rightarrow> u8 \<Rightarrow> bytes option \<Rightarrow> 'd io \<Rightarrow> ata_write_result \<times> 'd io" where
  "ata_write P lba count buffer s =
     (case buffer of
        None \<Rightarrow> (ATA_WRITE_FAILED, s)
      | Some buf \<Rightarrow>
          if \<not> ata_valid_request lba count buffer then (ATA_WRITE_FAILED, s)
          else
            let (ok, s) = ata_wait_not_busy P s
            in if \<not> ok then (ATA_WRITE_FAILED, s)
               else
                 let s = ata_command P lba count CMD_WRITE_PIO s;
                     (early, s) = ata_write_sectors P 0 (unat count) False buf s
                 in case early of
                      Some r \<Rightarrow> (r, s)
                    | None \<Rightarrow>
                        let (ok, s) = ata_wait_not_busy P s
                        in if \<not> ok then (ATA_WRITE_UNCERTAIN, s)
                           else
                             let s = outb P ATA_COMMAND CMD_CACHE_FLUSH s;
                                 (ok, s) = ata_wait_not_busy P s
                             in (if ok then ATA_WRITE_COMPLETE else ATA_WRITE_UNCERTAIN, s))"

end
