(* ===== verification/Block_Device.thy ===== *)
theory Block_Device
  imports Ata
begin

text \<open>
  What the filesystem asks of the rest of the kernel: the three ATA entry points and the
  kernel log.  A value of \<open>fs_env\<close> bundles those operations over a state \<open>'w\<close>; the
  locale \<open>block_device\<close> states what the ATA driver promises about the sectors behind
  them (\<open>src/kernel/include/ata.h\<close>): a successful read returns the sectors and no read
  changes them, a completed write has stored every sector, a failed write none, and an
  uncertain write touches nothing outside the requested range.
\<close>

section \<open>Definitions\<close>

record 'w fs_env =
  env_ata_init :: "'w \<Rightarrow> ata_init_result \<times> 'w"
  env_ata_read :: "nat \<Rightarrow> nat \<Rightarrow> bytes \<Rightarrow> 'w \<Rightarrow> bool \<times> bytes \<times> 'w"
  env_ata_write :: "nat \<Rightarrow> nat \<Rightarrow> bytes \<Rightarrow> 'w \<Rightarrow> ata_write_result \<times> 'w"
  env_syslog_write :: "bytes \<Rightarrow> 'w \<Rightarrow> 'w"
  env_syslog_copy_text :: "bytes \<Rightarrow> nat \<Rightarrow> 'w \<Rightarrow> nat \<times> bytes"

definition sectors :: "(nat \<Rightarrow> bytes) \<Rightarrow> nat \<Rightarrow> nat \<Rightarrow> bytes" where
  "sectors m lba n = concat (map m [lba..<lba + n])"

definition store_sectors :: "(nat \<Rightarrow> bytes) \<Rightarrow> nat \<Rightarrow> nat \<Rightarrow> bytes \<Rightarrow> nat \<Rightarrow> bytes" where
  "store_sectors m lba n buf = (\<lambda>l. if lba \<le> l \<and> l < lba + n then take 512 (drop ((l - lba) * 512) buf) else m l)"

definition lba_range :: "nat \<Rightarrow> nat \<Rightarrow> bool" where
  "lba_range lba n \<longleftrightarrow> 0 < n \<and> n < 256 \<and> lba + n \<le> 2 ^ 28"

section \<open>Sector ranges\<close>

lemma length_sectors: "\<forall>l. length (m l) = 512 \<Longrightarrow> length (sectors m lba n) = 512 * n"
  by (induction n) (simp_all add: sectors_def)

lemma sectors_cong: "(\<And>l. lba \<le> l \<Longrightarrow> l < lba + n \<Longrightarrow> m l = m' l) \<Longrightarrow> sectors m lba n = sectors m' lba n"
  unfolding sectors_def by (rule arg_cong[where f = concat]) (rule map_cong, auto)

lemma sectors_one [simp]: "sectors m lba 1 = m lba" "sectors m lba (Suc 0) = m lba"
  by (simp_all add: sectors_def)

lemma sectors_Suc: "sectors m lba (Suc n) = m lba @ sectors m (Suc lba) n"
  by (simp add: sectors_def upt_conv_Cons del: upt_Suc)

lemma store_sectors_0 [simp]: "store_sectors m lba 0 buf = m"
  by (rule ext) (auto simp: store_sectors_def)

lemma sectors_store_same:
  "length buf = 512 * n \<Longrightarrow> sectors (store_sectors m lba n buf) lba n = buf"
proof (induction n arbitrary: lba buf m)
  case 0
  then show ?case by (simp add: sectors_def)
next
  case (Suc n)
  have "sectors (store_sectors m lba (Suc n) buf) (Suc lba) n =
      sectors (store_sectors m (Suc lba) n (drop 512 buf)) (Suc lba) n"
    by (rule sectors_cong) (auto simp: store_sectors_def Suc_diff_le algebra_simps)
  also have "\<dots> = drop 512 buf" using Suc.prems by (intro Suc.IH) simp
  finally show ?case by (simp add: sectors_Suc store_sectors_def)
qed

lemma sectors_store_other:
  "lba' + n' \<le> lba \<or> lba + n \<le> lba' \<Longrightarrow> sectors (store_sectors m lba n buf) lba' n' = sectors m lba' n'"
  by (rule sectors_cong) (auto simp: store_sectors_def)

section \<open>The contract\<close>

locale block_device =
  fixes E :: "'w fs_env" and media :: "'w \<Rightarrow> nat \<Rightarrow> bytes" and dev_ok :: "'w \<Rightarrow> bool"
  assumes sector_length: "dev_ok w \<Longrightarrow> length (media w l) = 512"
    and init_keeps: "dev_ok w \<Longrightarrow> env_ata_init E w = (r, w') \<Longrightarrow> dev_ok w' \<and> media w' = media w"
    and read_keeps: "dev_ok w \<Longrightarrow> lba_range lba n \<Longrightarrow> length buf = 512 * n \<Longrightarrow> env_ata_read E lba n buf w = (ok, buf', w') \<Longrightarrow>
      dev_ok w' \<and> media w' = media w \<and> length buf' = length buf"
    and read_ok: "dev_ok w \<Longrightarrow> lba_range lba n \<Longrightarrow> length buf = 512 * n \<Longrightarrow> env_ata_read E lba n buf w = (True, buf', w') \<Longrightarrow>
      buf' = sectors (media w) lba n"
    and write_keeps: "dev_ok w \<Longrightarrow> lba_range lba n \<Longrightarrow> length buf = 512 * n \<Longrightarrow> env_ata_write E lba n buf w = (wr, w') \<Longrightarrow>
      dev_ok w' \<and> (\<forall>l. l < lba \<or> lba + n \<le> l \<longrightarrow> media w' l = media w l)"
    and write_complete: "dev_ok w \<Longrightarrow> lba_range lba n \<Longrightarrow> length buf = 512 * n \<Longrightarrow>
      env_ata_write E lba n buf w = (ATA_WRITE_COMPLETE, w') \<Longrightarrow> media w' = store_sectors (media w) lba n buf"
    and write_failed: "dev_ok w \<Longrightarrow> lba_range lba n \<Longrightarrow> length buf = 512 * n \<Longrightarrow>
      env_ata_write E lba n buf w = (ATA_WRITE_FAILED, w') \<Longrightarrow> media w' = media w"
    and log_keeps: "dev_ok w \<Longrightarrow> dev_ok (env_syslog_write E msg w) \<and> media (env_syslog_write E msg w) = media w"
    and log_text: "env_syslog_copy_text E buf cap w = (n, buf') \<Longrightarrow> 0 < cap \<Longrightarrow> length buf = cap \<Longrightarrow>
      n < cap \<and> length buf' = cap \<and> buf' ! n = 0"
begin

lemma length_media [simp]: "dev_ok w \<Longrightarrow> length (sectors (media w) lba n) = 512 * n"
  by (rule length_sectors) (simp add: sector_length)

end

end
