(* ===== verification/Fs_Commit.thy ===== *)
theory Fs_Commit
  imports Fs_Robust Block_Device
begin

text \<open>
  The transactional half of \<open>src/kernel/fs.c\<close>: the mounted state, the two-slot commit
  protocol with read-back of uncertain writes, slot selection and loading at mount time, and
  \<open>fs_commit_changes\<close>.  The state passes through every call as an \<open>fs_state\<close>; the
  kernel services (ATA driver, kernel log) are the environment \<open>E\<close>, and the state of the
  drive and the log is the field \<open>world\<close>.
\<close>

section \<open>Definitions\<close>

abbreviation FS_STORAGE_LBA :: nat where "FS_STORAGE_LBA \<equiv> 2048"
abbreviation FS_SLOT_COUNT :: u8 where "FS_SLOT_COUNT \<equiv> 2"
abbreviation FS_SLOT_SECTORS :: nat where "FS_SLOT_SECTORS \<equiv> 68"

datatype fs_backend_status = FS_BACKEND_UNINITIALIZED | FS_BACKEND_PERSISTENT
  | FS_BACKEND_VOLATILE_NO_DRIVE | FS_BACKEND_VOLATILE_CORRUPT | FS_BACKEND_VOLATILE_IO_ERROR

datatype fs_legacy_upgrade_status = FS_LEGACY_UPGRADE_UNAVAILABLE | FS_LEGACY_UPGRADE_AVAILABLE
  | FS_LEGACY_UPGRADE_OUTCOME_UNCERTAIN

datatype fs_disk_load_result = FS_DISK_LOADED | FS_DISK_LOADED_IO_ERROR | FS_DISK_LOADED_CORRUPT
  | FS_DISK_NO_DRIVE | FS_DISK_BLANK | FS_DISK_CORRUPT | FS_DISK_IO_ERROR

datatype fs_slot_load_result = FS_SLOT_LOADED | FS_SLOT_CORRUPT | FS_SLOT_IO_ERROR
datatype fs_sync_result = FS_SYNC_COMMITTED | FS_SYNC_FAILED | FS_SYNC_UNCERTAIN
datatype fs_reconcile_result = FS_RECONCILE_MATCH | FS_RECONCILE_MISMATCH | FS_RECONCILE_IO_ERROR
datatype fs_compare_result = FS_COMPARE_EQUAL | FS_COMPARE_DIFFERENT | FS_COMPARE_IO_ERROR

record 'w fs_state =
  FILES :: "fs_file list"
  g_disk_table :: fs_disk_table
  g_mutation_backup :: fs_file
  g_active_slot :: u8
  g_active_generation :: u32
  g_loaded_version :: u32
  g_backend_status :: fs_backend_status
  g_legacy_upgrade_status :: fs_legacy_upgrade_status
  g_self_test_active :: bool
  g_virtual_system_log :: fs_file
  g_system_log_is_virtual :: bool
  world :: 'w

definition fs_say :: "'w fs_env \<Rightarrow> string \<Rightarrow> 'w fs_state \<Rightarrow> 'w fs_state" where
  "fs_say E msg s = s\<lparr>world := env_syslog_write E (lit msg) (world s)\<rparr>"

definition disk_init :: "'w fs_env \<Rightarrow> 'w fs_state \<Rightarrow> ata_init_result \<times> 'w fs_state" where
  "disk_init E s = (let (r, w) = env_ata_init E (world s) in (r, s\<lparr>world := w\<rparr>))"

definition disk_read :: "'w fs_env \<Rightarrow> nat \<Rightarrow> nat \<Rightarrow> bytes \<Rightarrow> 'w fs_state \<Rightarrow> bool \<times> bytes \<times> 'w fs_state" where
  "disk_read E lba n buf s = (let (ok, buf', w) = env_ata_read E lba n buf (world s) in (ok, buf', s\<lparr>world := w\<rparr>))"

definition disk_write :: "'w fs_env \<Rightarrow> nat \<Rightarrow> nat \<Rightarrow> bytes \<Rightarrow> 'w fs_state \<Rightarrow> ata_write_result \<times> 'w fs_state" where
  "disk_write E lba n buf s = (let (r, w) = env_ata_write E lba n buf (world s) in (r, s\<lparr>world := w\<rparr>))"

definition fs_copy_file :: "fs_file \<Rightarrow> fs_file \<Rightarrow> fs_file" where
  "fs_copy_file destination source = destination\<lparr>f_in_use := f_in_use source,
     f_name := blit (f_name destination) 0 (take FS_MAX_FILENAME (f_name source)), f_size := f_size source,
     f_data := blit (f_data destination) 0 (take FS_MAX_FILE_SIZE (f_data source))\<rparr>"

definition fs_loaded_result :: "bool \<Rightarrow> bool \<Rightarrow> fs_disk_load_result" where
  "fs_loaded_result saw_io_error saw_corruption =
     (if saw_io_error then FS_DISK_LOADED_IO_ERROR
      else if saw_corruption then FS_DISK_LOADED_CORRUPT else FS_DISK_LOADED)"

definition fs_slot_header_lba :: "u8 \<Rightarrow> nat" where
  "fs_slot_header_lba slot = FS_STORAGE_LBA + unat slot * FS_SLOT_SECTORS"

definition fs_serialize :: "'w fs_state \<Rightarrow> bool \<times> 'w fs_state" where
  "fs_serialize s = (let (ok, t) = serialize_table (FILES s) in (ok, s\<lparr>g_disk_table := t\<rparr>))"

definition fs_deserialize_legacy :: "'w fs_state \<Rightarrow> bool \<times> 'w fs_state" where
  "fs_deserialize_legacy s =
     (let (ok, files) = deserialize_legacy (g_disk_table s) (FILES s) in (ok, s\<lparr>FILES := files\<rparr>))"

definition fs_deserialize_current :: "'w fs_state \<Rightarrow> bool \<times> 'w fs_state" where
  "fs_deserialize_current s =
     (let (ok, files) = deserialize_current (g_disk_table s) (FILES s) in (ok, s\<lparr>FILES := files\<rparr>))"

text \<open>\<open>ata_read\<close> into the static table buffer.\<close>

definition read_table :: "'w fs_env \<Rightarrow> nat \<Rightarrow> 'w fs_state \<Rightarrow> bool \<times> 'w fs_state" where
  "read_table E lba s =
     (let (ok, buf, s) = disk_read E lba FS_DISK_TABLE_SECTORS (table_bytes (g_disk_table s)) s
      in (ok, s\<lparr>g_disk_table := table_of_bytes buf\<rparr>))"

definition fs_load_slot :: "'w fs_env \<Rightarrow> u8 \<Rightarrow> fs_disk_header \<Rightarrow> 'w fs_state \<Rightarrow> fs_slot_load_result \<times> 'w fs_state" where
  "fs_load_slot E slot header s =
     (let (ok, s) = read_table E (fs_slot_header_lba slot + 1) s
      in if \<not> ok then (FS_SLOT_IO_ERROR, s)
         else if h_checksum header \<noteq> fs_checksum (table_bytes (g_disk_table s))
              then (FS_SLOT_CORRUPT, fs_say E ''FS: rejected slot with corrupt checksum'' s)
         else
           let (deserialized, s) =
             (if h_version header \<ge> FS_DISK_VERSION then fs_deserialize_current s else fs_deserialize_legacy s)
           in if \<not> deserialized then (FS_SLOT_CORRUPT, fs_say E ''FS: rejected slot with invalid records'' s)
              else (FS_SLOT_LOADED,
                    s\<lparr>g_active_slot := slot, g_active_generation := fs_header_generation header,
                      g_loaded_version := h_version header\<rparr>))"

text \<open>The \<open>for\<close> loops over the table sectors.  The contents of the uninitialised stack
  buffers are never used unless the read succeeded; zeroes stand for them.\<close>

fun reconcile_sectors :: "'w fs_env \<Rightarrow> nat \<Rightarrow> nat list \<Rightarrow> 'w fs_state \<Rightarrow> fs_reconcile_result \<times> 'w fs_state" where
  "reconcile_sectors E target_lba [] s = (FS_RECONCILE_MATCH, s)"
| "reconcile_sectors E target_lba (sector # rest) s =
     (let (ok, observed, s) = disk_read E (target_lba + 1 + sector) 1 (replicate 512 0) s
      in if \<not> ok then (FS_RECONCILE_IO_ERROR, s)
         else if \<not> fs_bytes_equal observed (drop (sector * 512) (table_bytes (g_disk_table s))) 512
              then (FS_RECONCILE_MISMATCH, s)
         else reconcile_sectors E target_lba rest s)"

definition fs_reconcile_table :: "'w fs_env \<Rightarrow> nat \<Rightarrow> 'w fs_state \<Rightarrow> fs_reconcile_result \<times> 'w fs_state" where
  "fs_reconcile_table E target_lba s = reconcile_sectors E target_lba [0..<FS_DISK_TABLE_SECTORS] s"

definition fs_reconcile_slot ::
  "'w fs_env \<Rightarrow> nat \<Rightarrow> fs_disk_header \<Rightarrow> 'w fs_state \<Rightarrow> fs_reconcile_result \<times> 'w fs_state" where
  "fs_reconcile_slot E target_lba expected_header s =
     (let (ok, observed, s) = disk_read E target_lba 1 (replicate 512 0) s
      in if \<not> ok then (FS_RECONCILE_IO_ERROR, s)
         else if \<not> fs_bytes_equal observed (header_bytes expected_header) 512 then (FS_RECONCILE_MISMATCH, s)
         else fs_reconcile_table E target_lba s)"

fun compare_sectors :: "'w fs_env \<Rightarrow> nat \<Rightarrow> nat \<Rightarrow> nat list \<Rightarrow> 'w fs_state \<Rightarrow> fs_compare_result \<times> 'w fs_state" where
  "compare_sectors E first_lba second_lba [] s = (FS_COMPARE_EQUAL, s)"
| "compare_sectors E first_lba second_lba (sector # rest) s =
     (let (ok1, first_sector, s) = disk_read E (first_lba + sector) 1 (replicate 512 0) s
      in if \<not> ok1 then (FS_COMPARE_IO_ERROR, s)
         else
           let (ok2, second_sector, s) = disk_read E (second_lba + sector) 1 (replicate 512 0) s
           in if \<not> ok2 then (FS_COMPARE_IO_ERROR, s)
              else if \<not> fs_bytes_equal first_sector second_sector 512 then (FS_COMPARE_DIFFERENT, s)
              else compare_sectors E first_lba second_lba rest s)"

definition fs_compare_slot_tables :: "'w fs_env \<Rightarrow> u8 \<Rightarrow> u8 \<Rightarrow> 'w fs_state \<Rightarrow> fs_compare_result \<times> 'w fs_state" where
  "fs_compare_slot_tables E first_slot second_slot s =
     compare_sectors E (fs_slot_header_lba first_slot + 1) (fs_slot_header_lba second_slot + 1)
       [0..<FS_DISK_TABLE_SECTORS] s"

definition fs_accept_commit :: "u8 \<Rightarrow> u32 \<Rightarrow> 'w fs_state \<Rightarrow> 'w fs_state" where
  "fs_accept_commit target_slot next_generation s =
     s\<lparr>g_active_slot := target_slot, g_active_generation := next_generation,
       g_loaded_version := FS_DISK_VERSION\<rparr>"

definition commit_header :: "fs_disk_table \<Rightarrow> u32 \<Rightarrow> fs_disk_header" where
  "commit_header t next_generation =
     (let header = \<lparr>h_magic = FS_MAGIC_VAL, h_version = FS_DISK_VERSION,
            h_table_bytes = of_nat FS_DISK_TABLE_BYTES, h_checksum = fs_checksum (table_bytes t),
            h_generation = next_generation, h_header_checksum = 0, h_reserved = replicate 488 0\<rparr>
      in header\<lparr>h_header_checksum := fs_header_checksum header\<rparr>)"

text \<open>The two halves of \<open>fs_sync_to_disk_verified\<close>: write the table, then publish it with the
  header sector.  \<open>Some r\<close> is an early \<open>return r\<close>.\<close>

definition sync_table :: "'w fs_env \<Rightarrow> bool \<Rightarrow> nat \<Rightarrow> 'w fs_state \<Rightarrow> fs_sync_result option \<times> 'w fs_state" where
  "sync_table E verify target_lba s =
     (let (table_write, s) = disk_write E (target_lba + 1) FS_DISK_TABLE_SECTORS (table_bytes (g_disk_table s)) s
      in if table_write = ATA_WRITE_FAILED
         then (Some FS_SYNC_FAILED, fs_say E ''FS: Disk sync failed (write data)'' s)
         else if table_write = ATA_WRITE_UNCERTAIN \<or> verify
         then
           let (reconciliation, s) = fs_reconcile_table E target_lba s
           in if reconciliation = FS_RECONCILE_IO_ERROR
              then (Some FS_SYNC_UNCERTAIN, fs_say E ''FS: data write status is uncertain and read-back failed'' s)
              else if reconciliation = FS_RECONCILE_MISMATCH
              then (Some FS_SYNC_FAILED, fs_say E ''FS: Disk sync failed (data read-back mismatch)'' s)
              else (None, if table_write = ATA_WRITE_UNCERTAIN
                          then fs_say E ''FS: reconciled uncertain data write'' s else s)
         else (None, s))"

definition sync_header :: "'w fs_env \<Rightarrow> bool \<Rightarrow> u8 \<Rightarrow> nat \<Rightarrow> u32 \<Rightarrow> 'w fs_state \<Rightarrow> fs_sync_result \<times> 'w fs_state" where
  "sync_header E verify target_slot target_lba next_generation s =
     (let header = commit_header (g_disk_table s) next_generation;
          (header_write, s) = disk_write E target_lba 1 (header_bytes header) s
      in if header_write = ATA_WRITE_FAILED
         then (FS_SYNC_FAILED, fs_say E ''FS: Disk sync failed (commit header)'' s)
         else if header_write = ATA_WRITE_UNCERTAIN \<or> verify
         then
           let (reconciliation, s) = fs_reconcile_slot E target_lba header s
           in if reconciliation = FS_RECONCILE_IO_ERROR
              then (FS_SYNC_UNCERTAIN, fs_say E ''FS: commit status is uncertain and read-back failed'' s)
              else if reconciliation = FS_RECONCILE_MISMATCH
              then (FS_SYNC_FAILED, fs_say E ''FS: Disk sync failed (commit read-back mismatch)'' s)
              else (FS_SYNC_COMMITTED, fs_accept_commit target_slot next_generation
                     (if header_write = ATA_WRITE_UNCERTAIN
                      then fs_say E ''FS: reconciled uncertain commit header'' s else s))
         else (FS_SYNC_COMMITTED, fs_accept_commit target_slot next_generation s))"

definition fs_sync_to_disk_verified :: "'w fs_env \<Rightarrow> bool \<Rightarrow> 'w fs_state \<Rightarrow> fs_sync_result \<times> 'w fs_state" where
  "fs_sync_to_disk_verified E require_verified_readback s =
     (let (init_result, s) = disk_init E s
      in if init_result \<noteq> ATA_INIT_READY
         then (FS_SYNC_FAILED,
               fs_say E (if init_result = ATA_INIT_NO_DEVICE then ''FS: Disk sync failed (no ATA drive)''
                         else ''FS: Disk sync failed (ATA initialization error)'') s)
         else
           let target_slot = (if g_active_slot s < FS_SLOT_COUNT then g_active_slot s XOR 1 else 0);
               target_lba = fs_slot_header_lba target_slot;
               next_generation = g_active_generation s + 1;
               (ok, s) = fs_serialize s
           in if \<not> ok then (FS_SYNC_FAILED, fs_say E ''FS: Disk sync failed (record table full)'' s)
              else
                let (early, s) = sync_table E require_verified_readback target_lba s
                in case early of
                     Some r \<Rightarrow> (r, s)
                   | None \<Rightarrow> sync_header E require_verified_readback target_slot target_lba next_generation s)"

definition fs_sync_to_disk :: "'w fs_env \<Rightarrow> 'w fs_state \<Rightarrow> fs_sync_result \<times> 'w fs_state" where
  "fs_sync_to_disk E s = fs_sync_to_disk_verified E False s"

text \<open>Mounting.  One turn of the header loop: validity, header, and the two flags it may raise.\<close>

definition scan_header :: "'w fs_env \<Rightarrow> u8 \<Rightarrow> 'w fs_state \<Rightarrow> (bool \<times> fs_disk_header \<times> bool \<times> bool) \<times> 'w fs_state" where
  "scan_header E slot s =
     (let (ok, buf, s) = disk_read E (fs_slot_header_lba slot) 1 (replicate 512 0) s; header = header_of_bytes buf
      in if ok then ((fs_header_is_valid header, header,
                      \<not> fs_header_is_valid header \<and> \<not> fs_header_is_blank header, False), s)
         else ((False, header, False, True), s))"

text \<open>Whether both snapshots are valid but their order cannot be trusted: the flags
  \<open>legacy_order_is_ambiguous\<close>, \<open>protected_order_is_ambiguous\<close> and a read error.\<close>

definition slot_order_ambiguity ::
  "'w fs_env \<Rightarrow> bool \<Rightarrow> fs_disk_header \<Rightarrow> bool \<Rightarrow> fs_disk_header \<Rightarrow> 'w fs_state \<Rightarrow> (bool \<times> bool \<times> bool) \<times> 'w fs_state" where
  "slot_order_ambiguity E valid0 h0 valid1 h1 s =
     (let both_legacy = (valid0 \<and> valid1 \<and> h_version h0 < FS_INTEGRITY_DISK_VERSION \<and> h_version h1 < FS_INTEGRITY_DISK_VERSION);
          both_integrity_protected =
            (valid0 \<and> valid1 \<and> h_version h0 \<ge> FS_INTEGRITY_DISK_VERSION \<and> h_version h1 \<ge> FS_INTEGRITY_DISK_VERSION);
          first_generation = (if valid0 then fs_header_generation h0 else 0);
          second_generation = (if valid1 then fs_header_generation h1 else 0);
          ((legacy, protected, io), s) =
            (if both_legacy \<or> (both_integrity_protected \<and> first_generation = second_generation)
             then
               let (comparison, s) = fs_compare_slot_tables E 0 1 s
               in if comparison = FS_COMPARE_IO_ERROR then ((False, False, True), s)
                  else if comparison = FS_COMPARE_DIFFERENT
                  then if both_legacy
                       then ((True, False, False), fs_say E ''FS: legacy snapshots differ; generation order is untrusted'' s)
                       else ((False, True, False), fs_say E ''FS: equal integrity-protected generations differ'' s)
                  else ((False, False, False), s)
             else ((False, False, False), s))
      in if both_integrity_protected \<and> first_generation - second_generation = 0x80000000
         then ((legacy, True, io), fs_say E ''FS: integrity-protected generation order is ambiguous'' s)
         else ((legacy, protected, io), s))"

definition second_slot_first :: "bool \<Rightarrow> fs_disk_header \<Rightarrow> bool \<Rightarrow> fs_disk_header \<Rightarrow> bool" where
  "second_slot_first valid0 h0 valid1 h1 =
     (let first_integrity_protected = (valid0 \<and> h_version h0 \<ge> FS_INTEGRITY_DISK_VERSION);
          second_integrity_protected = (valid1 \<and> h_version h1 \<ge> FS_INTEGRITY_DISK_VERSION)
      in valid1 \<and> (\<not> valid0 \<or> (second_integrity_protected \<and> \<not> first_integrity_protected) \<or>
           (second_integrity_protected = first_integrity_protected \<and>
            fs_generation_is_newer (fs_header_generation h1) (fs_header_generation h0))))"

definition scan_blank_table :: "'w fs_env \<Rightarrow> u8 \<Rightarrow> bool \<times> bool \<Rightarrow> 'w fs_state \<Rightarrow> (bool \<times> bool) \<times> 'w fs_state" where
  "scan_blank_table E slot flags s =
     (let (saw_io_error, saw_nonblank) = flags; (ok, s) = read_table E (fs_slot_header_lba slot + 1) s
      in if \<not> ok then ((True, saw_nonblank), s)
         else ((saw_io_error, saw_nonblank \<or> \<not> fs_bytes_are_blank (table_bytes (g_disk_table s))), s))"

definition no_slot_loaded :: "'w fs_env \<Rightarrow> bool \<Rightarrow> bool \<Rightarrow> 'w fs_state \<Rightarrow> fs_disk_load_result \<times> 'w fs_state" where
  "no_slot_loaded E saw_io_error saw_corrupt s =
     (if saw_io_error then (FS_DISK_IO_ERROR, s)
      else if saw_corrupt then (FS_DISK_CORRUPT, s)
      else
        let (flags, s) = scan_blank_table E 0 (False, False) s;
            ((saw_blank_table_io_error, saw_nonblank_table), s) = scan_blank_table E 1 flags s
        in (if saw_blank_table_io_error then FS_DISK_IO_ERROR
            else if saw_nonblank_table then FS_DISK_CORRUPT else FS_DISK_BLANK, s))"

definition mark_legacy_upgrade :: "bool \<Rightarrow> 'w fs_state \<Rightarrow> 'w fs_state" where
  "mark_legacy_upgrade legacy_order_is_ambiguous s =
     (if legacy_order_is_ambiguous then s\<lparr>g_legacy_upgrade_status := FS_LEGACY_UPGRADE_AVAILABLE\<rparr> else s)"

text \<open>Try the preferred slot, then the other one.\<close>

definition load_slots ::
  "'w fs_env \<Rightarrow> u8 \<Rightarrow> bool \<Rightarrow> fs_disk_header \<Rightarrow> u8 \<Rightarrow> bool \<Rightarrow> fs_disk_header \<Rightarrow> bool \<Rightarrow> bool \<Rightarrow> bool \<Rightarrow> bool
   \<Rightarrow> 'w fs_state \<Rightarrow> fs_disk_load_result \<times> 'w fs_state" where
  "load_slots E first valid_first h_first second valid_second h_second io nonblank_invalid legacy ambiguous s =
     (let (r1, s) = (if valid_first then (let (r, s) = fs_load_slot E first h_first s in (Some r, s)) else (None, s))
      in if r1 = Some FS_SLOT_LOADED
         then (fs_loaded_result io (nonblank_invalid \<or> ambiguous), mark_legacy_upgrade legacy s)
         else
           let corrupt = (r1 = Some FS_SLOT_CORRUPT); io = (io \<or> r1 = Some FS_SLOT_IO_ERROR);
               (r2, s) = (if valid_second then (let (r, s) = fs_load_slot E second h_second s in (Some r, s)) else (None, s))
           in if r2 = Some FS_SLOT_LOADED
              then (fs_loaded_result io (corrupt \<or> nonblank_invalid \<or> ambiguous),
                    mark_legacy_upgrade legacy (fs_say E ''FS: recovered previous committed slot'' s))
              else no_slot_loaded E (io \<or> r2 = Some FS_SLOT_IO_ERROR)
                     (corrupt \<or> r2 = Some FS_SLOT_CORRUPT \<or> nonblank_invalid) s)"

definition fs_load_from_disk :: "'w fs_env \<Rightarrow> 'w fs_state \<Rightarrow> fs_disk_load_result \<times> 'w fs_state" where
  "fs_load_from_disk E s =
     (let s = s\<lparr>g_legacy_upgrade_status := FS_LEGACY_UPGRADE_UNAVAILABLE\<rparr>; (init_result, s) = disk_init E s
      in if init_result = ATA_INIT_NO_DEVICE then (FS_DISK_NO_DRIVE, s)
         else if init_result \<noteq> ATA_INIT_READY then (FS_DISK_IO_ERROR, s)
         else
           let s = s\<lparr>g_active_slot := FS_SLOT_COUNT, g_active_generation := 0, g_loaded_version := 0\<rparr>;
               ((valid0, h0, bad0, io0), s) = scan_header E 0 s;
               ((valid1, h1, bad1, io1), s) = scan_header E 1 s;
               ((legacy, protected, io), s) = slot_order_ambiguity E valid0 h0 valid1 h1 s
           in if second_slot_first valid0 h0 valid1 h1
              then load_slots E 1 valid1 h1 0 valid0 h0 (io0 \<or> io1 \<or> io) (bad0 \<or> bad1) legacy (legacy \<or> protected) s
              else load_slots E 0 valid0 h0 1 valid1 h1 (io0 \<or> io1 \<or> io) (bad0 \<or> bad1) legacy (legacy \<or> protected) s)"

definition fs_commit_changes :: "'w fs_env \<Rightarrow> 'w fs_state \<Rightarrow> bool \<times> 'w fs_state" where
  "fs_commit_changes E s =
     (let (ok, s) = fs_serialize s
      in if \<not> ok then (False, s)
         else if g_backend_status s \<noteq> FS_BACKEND_PERSISTENT then (True, s)
         else
           let (result, s) = fs_sync_to_disk E s
           in if result = FS_SYNC_COMMITTED then (True, s)
              else
                let s = s\<lparr>g_backend_status := FS_BACKEND_VOLATILE_IO_ERROR\<rparr>
                in if result = FS_SYNC_UNCERTAIN
                   then (True, fs_say E ''FS: commit outcome uncertain; mutation retained on a volatile volume'' s)
                   else (False, fs_say E ''FS: persistence failed; continuing on a volatile volume'' s))"

end
