(* ===== verification/Fs_Durable.thy ===== *)
theory Fs_Durable
  imports Fs_Commit
begin

text \<open>
  What the two slots on disk mean, and what the commit protocol does to them.  Everything here
  is proved from the contract \<open>block_device\<close> of the ATA driver, so it holds under any
  sequence of device faults.
\<close>

section \<open>Definitions\<close>

text \<open>The header and the table a slot holds, and the listing it commits, if any.\<close>

definition slot_header :: "(nat \<Rightarrow> bytes) \<Rightarrow> u8 \<Rightarrow> fs_disk_header" where
  "slot_header m slot = header_of_bytes (m (fs_slot_header_lba slot))"

definition slot_table :: "(nat \<Rightarrow> bytes) \<Rightarrow> u8 \<Rightarrow> bytes" where
  "slot_table m slot = sectors m (fs_slot_header_lba slot + 1) FS_DISK_TABLE_SECTORS"

definition deserialize_as :: "u32 \<Rightarrow> fs_disk_table \<Rightarrow> fs_file list \<Rightarrow> bool \<times> fs_file list" where
  "deserialize_as v t files = (if v \<ge> FS_DISK_VERSION then deserialize_current t files else deserialize_legacy t files)"

definition blank_files :: "fs_file list" where
  "blank_files = replicate FS_MAX_FILES blank_file"

definition slot_listing :: "(nat \<Rightarrow> bytes) \<Rightarrow> u8 \<Rightarrow> (bytes \<times> bytes) list option" where
  "slot_listing m slot =
     (let h = slot_header m slot; b = slot_table m slot;
          (ok, files) = deserialize_as (h_version h) (table_of_bytes b) blank_files
      in if fs_header_is_valid h \<and> h_checksum h = fs_checksum b \<and> ok then Some (fs_listing files) else None)"

text \<open>The mount-time order of the two slots is beyond doubt and prefers \<open>slot\<close>.\<close>

definition both_legacy :: "fs_disk_header \<Rightarrow> fs_disk_header \<Rightarrow> bool" where
  "both_legacy h0 h1 \<longleftrightarrow> fs_header_is_valid h0 \<and> fs_header_is_valid h1
     \<and> h_version h0 < FS_INTEGRITY_DISK_VERSION \<and> h_version h1 < FS_INTEGRITY_DISK_VERSION"

definition both_protected :: "fs_disk_header \<Rightarrow> fs_disk_header \<Rightarrow> bool" where
  "both_protected h0 h1 \<longleftrightarrow> fs_header_is_valid h0 \<and> fs_header_is_valid h1
     \<and> h_version h0 \<ge> FS_INTEGRITY_DISK_VERSION \<and> h_version h1 \<ge> FS_INTEGRITY_DISK_VERSION"

definition order_ambiguous :: "(nat \<Rightarrow> bytes) \<Rightarrow> bool" where
  "order_ambiguous m \<longleftrightarrow>
     (let h0 = slot_header m 0; h1 = slot_header m 1
      in (slot_table m 0 \<noteq> slot_table m 1 \<and>
            (both_legacy h0 h1 \<or> (both_protected h0 h1 \<and> fs_header_generation h0 = fs_header_generation h1)))
         \<or> (both_protected h0 h1 \<and> fs_header_generation h0 - fs_header_generation h1 = 0x80000000))"

definition header_damaged :: "fs_disk_header \<Rightarrow> bool" where
  "header_damaged h \<longleftrightarrow> \<not> fs_header_is_valid h \<and> \<not> fs_header_is_blank h"

definition preferred_slot :: "(nat \<Rightarrow> bytes) \<Rightarrow> u8" where
  "preferred_slot m =
     (if second_slot_first (fs_header_is_valid (slot_header m 0)) (slot_header m 0)
           (fs_header_is_valid (slot_header m 1)) (slot_header m 1) then 1 else 0)"

definition trusted_order :: "(nat \<Rightarrow> bytes) \<Rightarrow> u8 \<Rightarrow> bool" where
  "trusted_order m slot \<longleftrightarrow> preferred_slot m = slot \<and> \<not> order_ambiguous m
     \<and> \<not> header_damaged (slot_header m 0) \<and> \<not> header_damaged (slot_header m 1)"

text \<open>The slot that \<open>g_active_slot\<close> names really is the newest one the state knows of.\<close>

definition active_ok :: "(nat \<Rightarrow> bytes) \<Rightarrow> 'w fs_state \<Rightarrow> bool" where
  "active_ok m s \<longleftrightarrow>
     (if g_active_slot s < FS_SLOT_COUNT
      then fs_header_is_valid (slot_header m (g_active_slot s))
           \<and> fs_header_generation (slot_header m (g_active_slot s)) = g_active_generation s
      else fs_header_is_blank (slot_header m 1))"

definition target_slot :: "'w fs_state \<Rightarrow> u8" where
  "target_slot s = (if g_active_slot s < FS_SLOT_COUNT then g_active_slot s XOR 1 else 0)"

text \<open>The disk commits \<open>L\<close> in the active slot.\<close>

definition committed :: "(nat \<Rightarrow> bytes) \<Rightarrow> 'w fs_state \<Rightarrow> (bytes \<times> bytes) list \<Rightarrow> bool" where
  "committed m s L \<longleftrightarrow> g_active_slot s < FS_SLOT_COUNT \<and> slot_listing m (g_active_slot s) = Some L
     \<and> fs_header_generation (slot_header m (g_active_slot s)) = g_active_generation s
     \<and> h_version (slot_header m (g_active_slot s)) = g_loaded_version s
     \<and> trusted_order m (g_active_slot s)"

text \<open>Steps that read the disk or write the log: only \<open>world\<close> changes, and no sector does.\<close>

definition quiet :: "('w \<Rightarrow> nat \<Rightarrow> bytes) \<Rightarrow> ('w \<Rightarrow> bool) \<Rightarrow> 'w fs_state \<Rightarrow> 'w fs_state \<Rightarrow> bool" where
  "quiet media dev_ok s s' \<longleftrightarrow> s' = s\<lparr>world := world s'\<rparr> \<and> dev_ok (world s') \<and> media (world s') = media (world s)"

text \<open>Steps that write sectors of \<open>R\<close> at most.\<close>

definition touches ::
  "('w \<Rightarrow> nat \<Rightarrow> bytes) \<Rightarrow> ('w \<Rightarrow> bool) \<Rightarrow> nat set \<Rightarrow> 'w fs_state \<Rightarrow> 'w fs_state \<Rightarrow> bool" where
  "touches media dev_ok R s s' \<longleftrightarrow> s' = s\<lparr>world := world s'\<rparr> \<and> dev_ok (world s')
     \<and> (\<forall>l. l \<notin> R \<longrightarrow> media (world s') l = media (world s) l)"

text \<open>The same, for steps that also reuse the static table buffer.\<close>

definition reworks ::
  "('w \<Rightarrow> nat \<Rightarrow> bytes) \<Rightarrow> ('w \<Rightarrow> bool) \<Rightarrow> nat set \<Rightarrow> 'w fs_state \<Rightarrow> 'w fs_state \<Rightarrow> bool" where
  "reworks media dev_ok R s s' \<longleftrightarrow> s' = s\<lparr>g_disk_table := g_disk_table s', world := world s'\<rparr> \<and> dev_ok (world s')
     \<and> (wf_table (g_disk_table s) \<longrightarrow> wf_table (g_disk_table s'))
     \<and> (\<forall>l. l \<notin> R \<longrightarrow> media (world s') l = media (world s) l)"

definition slot_sectors :: "u8 \<Rightarrow> nat set" where
  "slot_sectors slot = {fs_slot_header_lba slot ..< fs_slot_header_lba slot + FS_SLOT_SECTORS}"

section \<open>Slots and sectors\<close>

lemma slot_cases: "(slot :: u8) < 2 \<longleftrightarrow> slot = 0 \<or> slot = 1"
  by unat_arith

lemma slot_lba [simp]: "fs_slot_header_lba 0 = 2048" "fs_slot_header_lba 1 = 2116"
  by (simp_all add: fs_slot_header_lba_def)

lemma target_slot_less: "target_slot s < 2"
  by (auto simp: target_slot_def slot_cases)

lemma slot_ranges:
  assumes "slot < 2"
  shows "lba_range (fs_slot_header_lba slot) 1" "lba_range (fs_slot_header_lba slot + 1) FS_DISK_TABLE_SECTORS"
    "lba_range (Suc (fs_slot_header_lba slot)) FS_DISK_TABLE_SECTORS"
    "n < FS_DISK_TABLE_SECTORS \<Longrightarrow> lba_range (fs_slot_header_lba slot + 1 + n) 1"
  using assms by (auto simp: slot_cases lba_range_def)

lemma fs_bytes_equal_iff:
  "fs_bytes_equal a b n \<longleftrightarrow> (\<forall>i < n. a ! i = b ! i)"
  by (auto simp: fs_bytes_equal_def list_all_iff)

lemma fs_bytes_equal_take:
  assumes "length a = n" and "n \<le> length b"
  shows "fs_bytes_equal a b n \<longleftrightarrow> a = take n b"
  using assms by (auto simp: fs_bytes_equal_iff list_eq_iff_nth_eq)

lemma sectors_eqI:
  assumes "length b = 512 * n" and "\<And>i. i < n \<Longrightarrow> m (lba + i) = take 512 (drop (i * 512) b)"
  shows "sectors m lba n = b"
  using assms
proof (induction n arbitrary: lba b)
  case (Suc n)
  have "sectors m (Suc lba) n = drop 512 b"
  proof (rule Suc.IH)
    show "m (Suc lba + i) = take 512 (drop (i * 512) (drop 512 b))" if "i < n" for i
      using Suc.prems(2)[of "Suc i"] that by (simp add: add.commute)
  qed (use Suc.prems(1) in simp)
  then show ?case using Suc.prems(2)[of 0] by (simp add: sectors_Suc)
qed (simp add: sectors_def)

lemma sectors_eqD:
  assumes "sectors m lba n = sectors m' lba' n" and "\<forall>l. length (m l) = 512" and "\<forall>l. length (m' l) = 512"
    and "i < n"
  shows "m (lba + i) = m' (lba' + i)"
  using assms
proof (induction n arbitrary: lba lba' i)
  case (Suc n)
  then have "m lba = m' lba'" and rest: "sectors m (Suc lba) n = sectors m' (Suc lba') n"
    by (simp_all add: sectors_Suc)
  then show ?case using Suc.IH[OF rest, of "i - 1"] Suc.prems by (cases i) auto
qed simp

lemma slot_cong:
  assumes "\<And>l. fs_slot_header_lba slot \<le> l \<Longrightarrow> l < fs_slot_header_lba slot + FS_SLOT_SECTORS \<Longrightarrow> m' l = m l"
  shows "slot_header m' slot = slot_header m slot" "slot_table m' slot = slot_table m slot"
    "slot_listing m' slot = slot_listing m slot"
proof -
  show h: "slot_header m' slot = slot_header m slot" using assms by (simp add: slot_header_def)
  show t: "slot_table m' slot = slot_table m slot"
    unfolding slot_table_def by (rule sectors_cong) (use assms in auto)
  show "slot_listing m' slot = slot_listing m slot" by (simp add: slot_listing_def h t)
qed

section \<open>Steps that leave the disk alone\<close>

lemma quiet_refl: "dev_ok (world s) \<Longrightarrow> quiet media dev_ok s s"
  by (simp add: quiet_def)

lemma quiet_trans: "quiet media dev_ok s t \<Longrightarrow> quiet media dev_ok t u \<Longrightarrow> quiet media dev_ok s u"
  unfolding quiet_def by (metis fs_state.fold_congs(12) fs_state.surjective fs_state.update_convs(12))

lemma quietD:
  assumes "quiet media dev_ok s s'"
  shows "FILES s' = FILES s" "g_disk_table s' = g_disk_table s" "g_mutation_backup s' = g_mutation_backup s"
    "g_active_slot s' = g_active_slot s" "g_active_generation s' = g_active_generation s"
    "g_loaded_version s' = g_loaded_version s" "g_backend_status s' = g_backend_status s"
    "g_legacy_upgrade_status s' = g_legacy_upgrade_status s" "g_self_test_active s' = g_self_test_active s"
    "g_virtual_system_log s' = g_virtual_system_log s" "g_system_log_is_virtual s' = g_system_log_is_virtual s"
    "dev_ok (world s')" "media (world s') = media (world s)"
proof -
  obtain w where s': "s' = s\<lparr>world := w\<rparr>" using assms unfolding quiet_def by blast
  show "FILES s' = FILES s" "g_disk_table s' = g_disk_table s" "g_mutation_backup s' = g_mutation_backup s"
    "g_active_slot s' = g_active_slot s" "g_active_generation s' = g_active_generation s"
    "g_loaded_version s' = g_loaded_version s" "g_backend_status s' = g_backend_status s"
    "g_legacy_upgrade_status s' = g_legacy_upgrade_status s" "g_self_test_active s' = g_self_test_active s"
    "g_virtual_system_log s' = g_virtual_system_log s" "g_system_log_is_virtual s' = g_system_log_is_virtual s"
    by (simp_all add: s')
  show "dev_ok (world s')" "media (world s') = media (world s)" using assms by (simp_all add: quiet_def)
qed

lemma quiet_touches: "quiet media dev_ok s s' \<Longrightarrow> touches media dev_ok R s s'"
  by (simp add: quiet_def touches_def)

lemma touches_trans:
  assumes "touches media dev_ok R s t" and "touches media dev_ok Q t u" and "R \<union> Q \<subseteq> S"
  shows "touches media dev_ok S s u"
proof -
  obtain w v where t: "t = s\<lparr>world := w\<rparr>" and u: "u = t\<lparr>world := v\<rparr>"
    using assms(1,2) unfolding touches_def by blast
  have "media (world u) l = media (world s) l" if "l \<notin> S" for l
    using that assms by (metis touches_def UnI1 UnI2 subsetD)
  then show ?thesis using assms(2) by (simp add: touches_def t u)
qed

lemmas touches_quiet = touches_trans[OF _ quiet_touches]

lemma touchesD:
  assumes "touches media dev_ok R s s'"
  shows "FILES s' = FILES s" "g_disk_table s' = g_disk_table s" "g_mutation_backup s' = g_mutation_backup s"
    "g_active_slot s' = g_active_slot s" "g_active_generation s' = g_active_generation s"
    "g_loaded_version s' = g_loaded_version s" "g_backend_status s' = g_backend_status s"
    "g_legacy_upgrade_status s' = g_legacy_upgrade_status s" "g_self_test_active s' = g_self_test_active s"
    "g_virtual_system_log s' = g_virtual_system_log s" "g_system_log_is_virtual s' = g_system_log_is_virtual s"
    "dev_ok (world s')" "l \<notin> R \<Longrightarrow> media (world s') l = media (world s) l"
proof -
  obtain w where s': "s' = s\<lparr>world := w\<rparr>" using assms unfolding touches_def by blast
  show "FILES s' = FILES s" "g_disk_table s' = g_disk_table s" "g_mutation_backup s' = g_mutation_backup s"
    "g_active_slot s' = g_active_slot s" "g_active_generation s' = g_active_generation s"
    "g_loaded_version s' = g_loaded_version s" "g_backend_status s' = g_backend_status s"
    "g_legacy_upgrade_status s' = g_legacy_upgrade_status s" "g_self_test_active s' = g_self_test_active s"
    "g_virtual_system_log s' = g_virtual_system_log s" "g_system_log_is_virtual s' = g_system_log_is_virtual s"
    by (simp_all add: s')
  show "dev_ok (world s')" "l \<notin> R \<Longrightarrow> media (world s') l = media (world s) l"
    using assms by (simp_all add: touches_def)
qed

lemma touches_reworks: "touches media dev_ok R s s' \<Longrightarrow> R \<subseteq> S \<Longrightarrow> reworks media dev_ok S s s'"
proof -
  assume t: "touches media dev_ok R s s'" and sub: "R \<subseteq> S"
  obtain w where s': "s' = s\<lparr>world := w\<rparr>" using t unfolding touches_def by blast
  show ?thesis using t sub by (auto simp: touches_def reworks_def s')
qed

lemma reworks_trans:
  assumes "reworks media dev_ok R s t" and "reworks media dev_ok Q t u" and "R \<union> Q \<subseteq> S"
  shows "reworks media dev_ok S s u"
proof -
  obtain w v t' u' where t: "t = s\<lparr>g_disk_table := t', world := w\<rparr>" and u: "u = t\<lparr>g_disk_table := u', world := v\<rparr>"
    using assms(1,2) unfolding reworks_def by blast
  have "media (world u) l = media (world s) l" if "l \<notin> S" for l
    using that assms by (metis reworks_def UnI1 UnI2 subsetD)
  then show ?thesis using assms(1,2) by (simp add: reworks_def t u)
qed

lemma reworksD:
  assumes "reworks media dev_ok R s s'"
  shows "FILES s' = FILES s" "g_mutation_backup s' = g_mutation_backup s"
    "g_active_slot s' = g_active_slot s" "g_active_generation s' = g_active_generation s"
    "g_loaded_version s' = g_loaded_version s" "g_backend_status s' = g_backend_status s"
    "g_legacy_upgrade_status s' = g_legacy_upgrade_status s" "g_self_test_active s' = g_self_test_active s"
    "g_virtual_system_log s' = g_virtual_system_log s" "g_system_log_is_virtual s' = g_system_log_is_virtual s"
    "dev_ok (world s')" "l \<notin> R \<Longrightarrow> media (world s') l = media (world s) l"
    "wf_table (g_disk_table s) \<Longrightarrow> wf_table (g_disk_table s')"
proof -
  obtain t w where s': "s' = s\<lparr>g_disk_table := t, world := w\<rparr>" using assms unfolding reworks_def by blast
  show "FILES s' = FILES s" "g_mutation_backup s' = g_mutation_backup s"
    "g_active_slot s' = g_active_slot s" "g_active_generation s' = g_active_generation s"
    "g_loaded_version s' = g_loaded_version s" "g_backend_status s' = g_backend_status s"
    "g_legacy_upgrade_status s' = g_legacy_upgrade_status s" "g_self_test_active s' = g_self_test_active s"
    "g_virtual_system_log s' = g_virtual_system_log s" "g_system_log_is_virtual s' = g_system_log_is_virtual s"
    by (simp_all add: s')
  show "dev_ok (world s')" "l \<notin> R \<Longrightarrow> media (world s') l = media (world s) l"
    "wf_table (g_disk_table s) \<Longrightarrow> wf_table (g_disk_table s')"
    using assms by (simp_all add: reworks_def)
qed

context block_device
begin

lemma quiet_say: "dev_ok (world s) \<Longrightarrow> quiet media dev_ok s (fs_say E msg s)"
  using log_keeps by (simp add: quiet_def fs_say_def)

lemma quiet_init: "dev_ok (world s) \<Longrightarrow> disk_init E s = (r, s') \<Longrightarrow> quiet media dev_ok s s'"
  using init_keeps by (auto simp: quiet_def disk_init_def split: prod.splits)

lemma disk_read_spec:
  assumes "dev_ok (world s)" and "lba_range lba n" and "length buf = 512 * n" and "disk_read E lba n buf s = (ok, buf', s')"
  shows "quiet media dev_ok s s' \<and> length buf' = 512 * n \<and> (ok \<longrightarrow> buf' = sectors (media (world s)) lba n)"
proof -
  obtain w where r: "env_ata_read E lba n buf (world s) = (ok, buf', w)" and s': "s' = s\<lparr>world := w\<rparr>"
    using assms(4) by (auto simp: disk_read_def split: prod.splits)
  show ?thesis
    using read_keeps[OF assms(1-3) r] read_ok[OF assms(1-3)] r assms(3) by (cases ok) (auto simp: s' quiet_def)
qed

lemma disk_write_spec:
  assumes "dev_ok (world s)" and "lba_range lba n" and "length buf = 512 * n" and "disk_write E lba n buf s = (r, s')"
  shows "s' = s\<lparr>world := world s'\<rparr>" and "dev_ok (world s')"
    and "l < lba \<or> lba + n \<le> l \<Longrightarrow> media (world s') l = media (world s) l"
    and "r = ATA_WRITE_COMPLETE \<Longrightarrow> sectors (media (world s')) lba n = buf"
    and "r = ATA_WRITE_FAILED \<Longrightarrow> media (world s') = media (world s)"
proof -
  obtain w where w: "env_ata_write E lba n buf (world s) = (r, w)" and s': "s' = s\<lparr>world := w\<rparr>"
    using assms(4) by (auto simp: disk_write_def split: prod.splits)
  show "s' = s\<lparr>world := world s'\<rparr>" by (simp add: s')
  show "dev_ok (world s')" "l < lba \<or> lba + n \<le> l \<Longrightarrow> media (world s') l = media (world s) l"
    using write_keeps[OF assms(1-3) w] by (auto simp: s')
  show "r = ATA_WRITE_COMPLETE \<Longrightarrow> sectors (media (world s')) lba n = buf"
    using write_complete[OF assms(1-3)] w sectors_store_same[OF assms(3)] by (simp add: s')
  show "r = ATA_WRITE_FAILED \<Longrightarrow> media (world s') = media (world s)"
    using write_failed[OF assms(1-3)] w by (simp add: s')
qed

lemma reconcile_sectors_spec:
  assumes "dev_ok (world s)" and "slot < 2" and "\<forall>i \<in> set is. i < FS_DISK_TABLE_SECTORS" and "wf_table (g_disk_table s)"
    and "reconcile_sectors E (fs_slot_header_lba slot) is s = (r, s')"
  shows "quiet media dev_ok s s' \<and> (r = FS_RECONCILE_MATCH \<longrightarrow>
    (\<forall>i \<in> set is. media (world s) (fs_slot_header_lba slot + 1 + i) = take 512 (drop (i * 512) (table_bytes (g_disk_table s)))))"
  using assms
proof (induction "is" arbitrary: s)
  case Nil
  then show ?case by (auto simp: quiet_refl)
next
  case (Cons i "is")
  obtain ok obs s1 where rd: "disk_read E (fs_slot_header_lba slot + 1 + i) 1 (replicate 512 0) s = (ok, obs, s1)"
    by (metis prod_cases3)
  have "lba_range (fs_slot_header_lba slot + 1 + i) 1" using Cons.prems slot_ranges(4) by auto
  note rdx = disk_read_spec[OF Cons.prems(1) this _ rd]
  have q1: "quiet media dev_ok s s1" and len: "length obs = 512"
    and obs: "ok \<Longrightarrow> obs = media (world s) (fs_slot_header_lba slot + 1 + i)" using rdx by auto
  note d1 = quietD[OF q1]
  have "512 \<le> length (drop (i * 512) (table_bytes (g_disk_table s)))"
    using Cons.prems length_table_bytes[OF Cons.prems(4)] by auto
  note eq = fs_bytes_equal_take[OF len this]
  have IH: "reconcile_sectors E (fs_slot_header_lba slot) is s1 = (r, s') \<Longrightarrow> quiet media dev_ok s1 s' \<and>
    (r = FS_RECONCILE_MATCH \<longrightarrow> (\<forall>i \<in> set is. media (world s1) (fs_slot_header_lba slot + 1 + i)
       = take 512 (drop (i * 512) (table_bytes (g_disk_table s1)))))"
    using Cons.prems d1 by (intro Cons.IH) auto
  show ?case
    using Cons.prems(5) rd q1 IH obs eq d1 by (auto simp del: mult_numeral_1 intro: quiet_trans split: if_splits)
qed

lemma reconcile_table_spec:
  assumes "dev_ok (world s)" and "slot < 2" and "wf_table (g_disk_table s)"
    and "fs_reconcile_table E (fs_slot_header_lba slot) s = (r, s')"
  shows "quiet media dev_ok s s' \<and>
    (r = FS_RECONCILE_MATCH \<longrightarrow> slot_table (media (world s)) slot = table_bytes (g_disk_table s))"
proof -
  have "sectors m (lba + 1) FS_DISK_TABLE_SECTORS = b"
    if "\<forall>i \<in> {0..<FS_DISK_TABLE_SECTORS}. m (lba + 1 + i) = take 512 (drop (i * 512) b)" "length b = 512 * FS_DISK_TABLE_SECTORS"
    for m lba and b :: bytes
    using that by (intro sectors_eqI) auto
  then show ?thesis
    using reconcile_sectors_spec[OF assms(1,2) _ assms(3), of "[0..<FS_DISK_TABLE_SECTORS]" r s'] assms(4)
      length_table_bytes[OF assms(3)]
    by (simp add: fs_reconcile_table_def slot_table_def del: upt_rec_numeral)
qed

lemma reconcile_slot_spec:
  assumes "dev_ok (world s)" and "slot < 2" and "wf_table (g_disk_table s)" and "length (header_bytes h) = 512"
    and "fs_reconcile_slot E (fs_slot_header_lba slot) h s = (r, s')"
  shows "quiet media dev_ok s s' \<and> (r = FS_RECONCILE_MATCH \<longrightarrow>
    slot_table (media (world s)) slot = table_bytes (g_disk_table s) \<and> slot_header (media (world s)) slot = h)"
proof -
  obtain ok obs s1 where rd: "disk_read E (fs_slot_header_lba slot) 1 (replicate 512 0) s = (ok, obs, s1)"
    by (metis prod_cases3)
  note rdx = disk_read_spec[OF assms(1) slot_ranges(1)[OF assms(2)] _ rd]
  have q1: "quiet media dev_ok s s1" and len: "length obs = 512"
    and obs: "ok \<Longrightarrow> obs = media (world s) (fs_slot_header_lba slot)" using rdx by auto
  note d1 = quietD[OF q1]
  have eq: "fs_bytes_equal obs (header_bytes h) 512 \<longleftrightarrow> obs = header_bytes h"
    using fs_bytes_equal_take[OF len, of "header_bytes h"] assms(4) by simp
  have rec: "fs_reconcile_table E (fs_slot_header_lba slot) s1 = (r, s') \<Longrightarrow> quiet media dev_ok s1 s' \<and>
      (r = FS_RECONCILE_MATCH \<longrightarrow> slot_table (media (world s1)) slot = table_bytes (g_disk_table s1))"
    using reconcile_table_spec[of s1 slot r s'] assms d1 by simp
  show ?thesis
    using assms(5) rd q1 rec obs eq d1
    by (auto simp: fs_reconcile_slot_def slot_header_def intro: quiet_trans split: if_splits)
qed

lemma touches_write:
  assumes "dev_ok (world s)" and "lba_range lba n" and "length buf = 512 * n" and "disk_write E lba n buf s = (r, s')"
  shows "touches media dev_ok {lba..<lba + n} s s'"
  using disk_write_spec[OF assms] by (auto simp: touches_def)

lemma touches_say:
  assumes "touches media dev_ok R s t"
  shows "touches media dev_ok R s (fs_say E msg t) \<and> media (world (fs_say E msg t)) = media (world t)"
  using touches_quiet[OF assms quiet_say[OF touchesD(12)[OF assms]], of "{}"]
    quietD(13)[OF quiet_say[OF touchesD(12)[OF assms]]] by auto

lemma sync_table_spec:
  assumes "dev_ok (world s)" and "slot < 2" and "wf_table (g_disk_table s)"
    and "sync_table E verify (fs_slot_header_lba slot) s = (early, s')"
  shows "touches media dev_ok (slot_sectors slot) s s' \<and> early \<noteq> Some FS_SYNC_COMMITTED
    \<and> (early = None \<longrightarrow> slot_table (media (world s')) slot = table_bytes (g_disk_table s))"
proof -
  let ?lba = "fs_slot_header_lba slot" and ?b = "table_bytes (g_disk_table s)"
  obtain r1 s1 where w: "disk_write E (?lba + 1) FS_DISK_TABLE_SECTORS ?b s = (r1, s1)" by fastforce
  note wx = disk_write_spec[OF assms(1) slot_ranges(2)[OF assms(2)] length_table_bytes[OF assms(3)] w]
  have t1: "touches media dev_ok (slot_sectors slot) s s1"
    using wx(1-3) by (auto simp: touches_def slot_sectors_def)
  note d1 = touchesD[OF t1]
  obtain r2 s2 where rc: "fs_reconcile_table E ?lba s1 = (r2, s2)" by fastforce
  have q2: "quiet media dev_ok s1 s2"
    and m2: "r2 = FS_RECONCILE_MATCH \<Longrightarrow> slot_table (media (world s1)) slot = ?b"
    using reconcile_table_spec[of s1 slot r2 s2] rc assms d1 by auto
  note d2 = quietD[OF q2]
  have t2: "touches media dev_ok (slot_sectors slot) s s2" using touches_quiet[OF t1 q2, of "{}"] by auto
  have c1: "r1 = ATA_WRITE_COMPLETE \<Longrightarrow> slot_table (media (world s1)) slot = ?b" using wx(4) by (simp add: slot_table_def)
  have cases: "r1 = ATA_WRITE_FAILED \<or> r1 = ATA_WRITE_UNCERTAIN \<or> r1 = ATA_WRITE_COMPLETE" by (cases r1) auto
  have "r2 = FS_RECONCILE_IO_ERROR \<or> r2 = FS_RECONCILE_MISMATCH \<or> r2 = FS_RECONCILE_MATCH" by (cases r2) auto
  then show ?thesis
    using assms(4) cases t1 t2 touches_say m2 c1 d2(13)
    by (auto simp: sync_table_def w[simplified] rc slot_table_def split: if_splits)
qed

lemma sync_header_spec:
  assumes "dev_ok (world s)" and "slot < 2" and "wf_table (g_disk_table s)"
    and "slot_table (media (world s)) slot = table_bytes (g_disk_table s)"
    and "sync_header E verify slot (fs_slot_header_lba slot) gen s = (r, s')"
  shows "\<exists>t. touches media dev_ok (slot_sectors slot) s t \<and>
    (if r = FS_SYNC_COMMITTED
     then s' = fs_accept_commit slot gen t \<and> slot_table (media (world t)) slot = table_bytes (g_disk_table s)
          \<and> slot_header (media (world t)) slot = commit_header (g_disk_table s) gen
     else s' = t)"
proof -
  let ?lba = "fs_slot_header_lba slot" and ?h = "commit_header (g_disk_table s) gen"
  have len: "length (header_bytes ?h) = 512" by (simp add: commit_header_def Let_def)
  obtain r1 s1 where w: "disk_write E ?lba 1 (header_bytes ?h) s = (r1, s1)" by fastforce
  note wx = disk_write_spec[OF assms(1) slot_ranges(1)[OF assms(2)] _ w]
  have t1: "touches media dev_ok (slot_sectors slot) s s1"
    using wx(1-3) len by (auto simp: touches_def slot_sectors_def)
  note d1 = touchesD[OF t1]
  have tab: "slot_table (media (world s1)) slot = table_bytes (g_disk_table s)"
    unfolding assms(4)[symmetric] slot_table_def by (rule sectors_cong) (use wx(3) len in auto)
  have c1: "r1 = ATA_WRITE_COMPLETE \<Longrightarrow> slot_header (media (world s1)) slot = ?h"
    using wx(4) len by (simp add: slot_header_def)
  obtain r2 s2 where rc: "fs_reconcile_slot E ?lba ?h s1 = (r2, s2)" by fastforce
  have q2: "quiet media dev_ok s1 s2"
    and m2: "r2 = FS_RECONCILE_MATCH \<Longrightarrow> slot_header (media (world s1)) slot = ?h"
    using reconcile_slot_spec[of s1 slot ?h r2 s2] rc assms d1 len by auto
  note d2 = quietD[OF q2]
  have t2: "touches media dev_ok (slot_sectors slot) s s2" using touches_quiet[OF t1 q2, of "{}"] by auto
  have cases: "r1 = ATA_WRITE_FAILED \<or> r1 = ATA_WRITE_UNCERTAIN \<or> r1 = ATA_WRITE_COMPLETE" by (cases r1) auto
  have "r2 = FS_RECONCILE_IO_ERROR \<or> r2 = FS_RECONCILE_MISMATCH \<or> r2 = FS_RECONCILE_MATCH" by (cases r2) auto
  then show ?thesis
    using assms(5) cases t1 t2 touches_say[OF t1] touches_say[OF t2] m2 c1 d2(13) tab
    by (auto simp: sync_header_def Let_def w[simplified] rc split: if_splits)
      (rule exI[of _ "fs_say E ''FS: reconciled uncertain commit header'' s2"], simp)
qed

text \<open>The whole protocol: only the target slot is written, and success means that it holds the
  serialised view under a fresh header.\<close>

lemma reworks_say: "reworks media dev_ok R s t \<Longrightarrow> reworks media dev_ok R s (fs_say E msg t)"
  using reworks_trans[OF _ touches_reworks[OF quiet_touches[OF quiet_say], of _ "{}" "{}"]] reworksD(11) by fastforce

lemma reworks_serialize:
  assumes "dev_ok (world s)" and "fs_serialize s = (ok, s')"
  shows "reworks media dev_ok R s s'" and "ok = fst (serialize_table (FILES s))"
    and "g_disk_table s' = snd (serialize_table (FILES s))" and "media (world s') = media (world s)"
  using assms wf_serialize_table[of "FILES s"] by (auto simp: fs_serialize_def reworks_def split: prod.splits)

lemma sync_spec:
  assumes "dev_ok (world s)" and "fs_sync_to_disk_verified E verify s = (r, s')"
  shows "\<exists>u. reworks media dev_ok (slot_sectors (target_slot s)) s u \<and>
    (if r = FS_SYNC_COMMITTED
     then s' = fs_accept_commit (target_slot s) (g_active_generation s + 1) u \<and> fst (serialize_table (FILES s))
          \<and> slot_table (media (world u)) (target_slot s) = table_bytes (snd (serialize_table (FILES s)))
          \<and> slot_header (media (world u)) (target_slot s)
              = commit_header (snd (serialize_table (FILES s))) (g_active_generation s + 1)
     else s' = u)"
proof -
  let ?slot = "target_slot s" and ?R = "slot_sectors (target_slot s)" and ?t = "snd (serialize_table (FILES s))"
  let ?g = "g_active_generation s + 1"
  obtain r1 s1 where init: "disk_init E s = (r1, s1)" by fastforce
  note q1 = quiet_init[OF assms(1) init] and d1 = quietD[OF quiet_init[OF assms(1) init]]
  have w1: "reworks media dev_ok ?R s s1" using touches_reworks[OF quiet_touches[OF q1]] by blast
  have tgt: "(if g_active_slot s1 < FS_SLOT_COUNT then g_active_slot s1 XOR 1 else 0) = ?slot"
    by (simp add: target_slot_def d1)
  obtain ok s2 where ser: "fs_serialize s1 = (ok, s2)" by fastforce
  note sx = reworks_serialize[OF d1(12) ser]
  have w2: "reworks media dev_ok ?R s s2" using reworks_trans[OF w1 sx(1)] by blast
  have tab2: "g_disk_table s2 = ?t" and ok: "ok = fst (serialize_table (FILES s))" using sx d1 by simp_all
  obtain early s3 where st: "sync_table E verify (fs_slot_header_lba ?slot) s2 = (early, s3)" by fastforce
  have t3: "touches media dev_ok ?R s2 s3" and nc: "early \<noteq> Some FS_SYNC_COMMITTED"
    and tab: "early = None \<Longrightarrow> slot_table (media (world s3)) ?slot = table_bytes ?t"
    using sync_table_spec[OF reworksD(11)[OF w2] target_slot_less _ st] wf_serialize_table tab2 by simp_all
  have w3: "reworks media dev_ok ?R s s3" using reworks_trans[OF w2 touches_reworks[OF t3]] by blast
  have tab3: "g_disk_table s3 = ?t" using touchesD(2)[OF t3] tab2 by simp
  have unfold: "(r, s') = (if r1 \<noteq> ATA_INIT_READY then (FS_SYNC_FAILED,
               fs_say E (if r1 = ATA_INIT_NO_DEVICE then ''FS: Disk sync failed (no ATA drive)''
                         else ''FS: Disk sync failed (ATA initialization error)'') s1)
      else if \<not> ok then (FS_SYNC_FAILED, fs_say E ''FS: Disk sync failed (record table full)'' s2)
      else case early of Some r \<Rightarrow> (r, s3)
        | None \<Rightarrow> sync_header E verify ?slot (fs_slot_header_lba ?slot) ?g s3)"
    using assms(2)[symmetric]
    by (simp only: fs_sync_to_disk_verified_def init ser tgt d1(5) st Let_def prod.case)
  show ?thesis
  proof (cases "r1 = ATA_INIT_READY \<and> ok \<and> early = None")
    case True
    then have "sync_header E verify ?slot (fs_slot_header_lba ?slot) ?g s3 = (r, s')" using unfold by simp
    from sync_header_spec[OF reworksD(11)[OF w3] target_slot_less _ _ this] True tab tab3 wf_serialize_table
    obtain u where u: "touches media dev_ok ?R s3 u" "if r = FS_SYNC_COMMITTED
         then s' = fs_accept_commit ?slot ?g u \<and> slot_table (media (world u)) ?slot = table_bytes ?t
            \<and> slot_header (media (world u)) ?slot = commit_header ?t ?g else s' = u"
      by auto
    have "reworks media dev_ok ?R s u" using reworks_trans[OF w3 touches_reworks[OF u(1)]] by blast
    then show ?thesis using u True ok by (intro exI[of _ u]) auto
  next
    case False
    then have "r \<noteq> FS_SYNC_COMMITTED \<and> reworks media dev_ok ?R s s'"
      using unfold nc w3 reworks_say[OF w1] reworks_say[OF w2] by (auto split: if_splits option.splits)
    then show ?thesis by auto
  qed
qed

end

end
