(* ===== verification/Fs_Slots.thy ===== *)
theory Fs_Slots
  imports Fs_Durable
begin

section \<open>A fresh header is valid and newer than the one it replaces\<close>

lemma nth_skip_field:
  "length a = n \<Longrightarrow> length b = k \<Longrightarrow> length c = k \<Longrightarrow> \<not> (n \<le> i \<and> i < n + k) \<Longrightarrow> (a @ b @ d) ! i = (a @ c @ d) ! i"
  by (auto simp: nth_append)

lemma fs_header_checksum_own [simp]: "fs_header_checksum (h\<lparr>h_header_checksum := c\<rparr>) = fs_header_checksum h"
proof -
  obtain a where a: "length a = 20" "\<And>c. header_bytes (h\<lparr>h_header_checksum := c\<rparr>) = a @ le32_bytes c @ h_reserved h"
    by (rule that[of "le32_bytes (h_magic h) @ le32_bytes (h_version h) @ le32_bytes (h_table_bytes h)
     @ le32_bytes (h_checksum h) @ le32_bytes (h_generation h)"]) (simp_all add: header_bytes_def)
  have h: "header_bytes h = a @ le32_bytes (h_header_checksum h) @ h_reserved h"
    using a(2)[of "h_header_checksum h"] by simp
  have "header_bytes (h\<lparr>h_header_checksum := c\<rparr>) ! i = header_bytes h ! i" if "\<not> (20 \<le> i \<and> i < 20 + 4)" for i
    unfolding h a(2) by (rule nth_skip_field[OF a(1) _ _ that]) simp_all
  then show ?thesis by (auto simp: fs_header_checksum_def intro!: arg_cong[where f = "fnv_loop _"])
qed

lemma commit_header_simps [simp]:
  "h_version (commit_header t g) = FS_DISK_VERSION" "h_checksum (commit_header t g) = fs_checksum (table_bytes t)"
  "fs_header_generation (commit_header t g) = g"
  by (simp_all add: commit_header_def Let_def fs_header_generation_def)

lemma commit_header_valid [simp]: "fs_header_is_valid (commit_header t g)"
proof -
  have "\<exists>h. commit_header t g = h\<lparr>h_header_checksum := fs_header_checksum h\<rparr> \<and> h_magic h = FS_MAGIC_VAL
      \<and> h_version h = FS_DISK_VERSION \<and> h_table_bytes h = of_nat FS_DISK_TABLE_BYTES"
    unfolding commit_header_def Let_def by (rule exI, rule conjI, rule refl) simp
  then obtain h where h: "commit_header t g = h\<lparr>h_header_checksum := fs_header_checksum h\<rparr>"
    "h_magic h = FS_MAGIC_VAL" "h_version h = FS_DISK_VERSION" "h_table_bytes h = of_nat FS_DISK_TABLE_BYTES" by blast
  show ?thesis unfolding h(1) fs_header_is_valid_def using h(2-4) by simp
qed

lemma blank_header_invalid: "fs_header_is_blank h \<Longrightarrow> \<not> fs_header_is_valid h"
proof -
  assume b: "fs_header_is_blank h"
  then have "le32_bytes (h_magic h) = replicate 4 0"
    by (simp add: fs_header_is_blank_def header_bytes_def le32_bytes_def numeral_eq_Suc)
  then have "h_magic h = le32_of (replicate 4 0)" by (metis le32_roundtrip)
  then have "h_magic h = 0" by (simp add: le32_of_def)
  then show ?thesis by (simp add: fs_header_is_valid_def)
qed

lemma generation_step:
  "fs_generation_is_newer (g + 1) g" "\<not> fs_generation_is_newer g (g + 1)" "g - (g + 1) \<noteq> 0x80000000"
  "(g + 1) - g \<noteq> 0x80000000" "(g + 1 :: u32) \<noteq> g"
  by (simp_all add: fs_generation_is_newer_def Let_def)

lemma xor_one_slot: "(0 :: u8) XOR 1 = 1" "(1 :: u8) XOR 1 = 0"
  by simp_all

lemma slots_apart: "l \<in> slot_sectors 0 \<Longrightarrow> l \<notin> slot_sectors 1" "l \<in> slot_sectors 1 \<Longrightarrow> l \<notin> slot_sectors 0"
  by (auto simp: slot_sectors_def)

lemma slot_frame:
  assumes "\<And>l. l \<in> slot_sectors slot \<Longrightarrow> m' l = m l"
  shows "slot_header m' slot = slot_header m slot" "slot_table m' slot = slot_table m slot"
    "slot_listing m' slot = slot_listing m slot"
  using slot_cong[of slot m' m] assms by (auto simp: slot_sectors_def)

lemma trusted_commit:
  assumes act: "active_ok m s" and frame: "\<And>l. l \<notin> slot_sectors (target_slot s) \<Longrightarrow> m' l = m l"
    and h: "slot_header m' (target_slot s) = commit_header t (g_active_generation s + 1)"
  shows "trusted_order m' (target_slot s)"
proof -
  have other0: "target_slot s = 0 \<Longrightarrow> slot_header m' 1 = slot_header m 1"
    using slot_frame(1)[of 1 m' m] frame slots_apart by metis
  have other1: "target_slot s = 1 \<Longrightarrow> slot_header m' 0 = slot_header m 0"
    using slot_frame(1)[of 0 m' m] frame slots_apart by metis
  consider "g_active_slot s = 0" | "g_active_slot s = 1" | "\<not> g_active_slot s < 2" by (auto simp: slot_cases)
  then show ?thesis
  proof cases
    case 1
    then have t: "target_slot s = 1" by (simp add: target_slot_def)
    show ?thesis
      using act h other1[OF t] generation_step[of "g_active_generation s"] 1
      by (simp add: t trusted_order_def preferred_slot_def second_slot_first_def order_ambiguous_def
          both_legacy_def both_protected_def header_damaged_def active_ok_def not_le)
  next
    case 2
    then have t: "target_slot s = 0" by (simp add: target_slot_def)
    show ?thesis
      using act h other0[OF t] generation_step[of "g_active_generation s"] 2
      by (simp add: t trusted_order_def preferred_slot_def second_slot_first_def order_ambiguous_def
          both_legacy_def both_protected_def header_damaged_def active_ok_def)
  next
    case 3
    then have t: "target_slot s = 0" by (simp add: target_slot_def)
    have "fs_header_is_blank (slot_header m 1)" using act 3 by (simp add: active_ok_def)
    with blank_header_invalid[OF this] show ?thesis
      using h other0[OF t]
      by (simp add: t trusted_order_def preferred_slot_def second_slot_first_def order_ambiguous_def
          both_legacy_def both_protected_def header_damaged_def)
  qed
qed

lemma blank_files_wf [simp]: "list_all wf_file blank_files" "length blank_files = FS_MAX_FILES"
  using wf_blank_file by (simp_all add: blank_files_def list_all_iff)

lemma listing_commit:
  assumes inv: "files_inv files" and ok: "fst (serialize_table files)"
    and h: "slot_header m slot = commit_header (snd (serialize_table files)) g"
    and t: "slot_table m slot = table_bytes (snd (serialize_table files))"
  shows "slot_listing m slot = Some (fs_listing files)"
proof -
  let ?t = "snd (serialize_table files)"
  have fit: "records_used files \<le> FS_MAX_FILES" using serialize_table_ok(1) inv ok by (auto simp: files_inv_def)
  have ser: "serialize_table files = (True, ?t)" using ok by (metis prod.collapse)
  obtain files' where "deserialize_current ?t blank_files = (True, files')" "fs_listing files' = fs_listing files"
    using fs_roundtrip[OF inv fit blank_files_wf ser] by metis
  then show ?thesis
    by (simp add: slot_listing_def h t deserialize_as_def table_roundtrip wf_serialize_table)
qed

end
