(* ===== verification/Fs_Mount.thy ===== *)
theory Fs_Mount
  imports Fs_Slots
begin

text \<open>
  Mounting: what \<open>fs_load_slot\<close> and \<open>fs_load_from_disk\<close> return, in terms of the contents of
  the two slots.  The listing a table holds does not depend on the view it is loaded over, the
  loader never changes a sector, and a load it reports as trusted is the listing of the slot
  that the slot order prefers.
\<close>

section \<open>A table holds one listing\<close>

definition same_view :: "fs_file \<Rightarrow> fs_file \<Rightarrow> bool" where
  "same_view f g \<longleftrightarrow> f_in_use f = f_in_use g \<and> (f_in_use f \<longrightarrow> fview f = fview g)"

lemma same_view_listing: "list_all2 same_view fs gs \<Longrightarrow> fs_listing fs = fs_listing gs"
  by (induction rule: list_all2_induct) (auto simp: fs_listing_def same_view_def)

lemma load_continuations_agree:
  assumes "check_continuations recs di part n remaining = Some 0" and "list_all wf_record recs"
    and "di + part + n \<le> length recs"
    and "copied + remaining \<le> length d" and "copied + remaining \<le> length d'" and "take copied d = take copied d'"
  shows "take (copied + remaining) (load_continuations recs di part n copied d)
       = take (copied + remaining) (load_continuations recs di part n copied d')"
  using assms
proof (induction n arbitrary: part remaining copied d d')
  case (Suc n)
  let ?c = "recs ! (di + part)" and ?e = "min remaining FS_DISK_DATA_BYTES"
  from Suc.prems(1) have sz: "unat (r_size ?c) = ?e"
    and chk: "check_continuations recs di (part + 1) n (remaining - ?e) = Some 0"
    by (auto simp: Let_def fs_disk_continuation_is_valid_def split: if_splits)
  have "length (r_data ?c) = FS_DISK_DATA_BYTES"
    using Suc.prems(2,3) by (auto simp: list_all_length wf_record_def)
  then have lx: "length (take ?e (r_data ?c)) = ?e" by simp
  have len: "length (blit x copied (take ?e (r_data ?c))) = length x" if "copied + remaining \<le> length x" for x
    using that by (intro length_blit) auto
  have "take (copied + ?e) (blit x copied (take ?e (r_data ?c))) = take copied x @ take ?e (r_data ?c)"
    if "copied + remaining \<le> length x" for x
    using that lx by (simp add: blit_def)
  then have "take (copied + ?e) (blit d copied (take ?e (r_data ?c))) = take (copied + ?e) (blit d' copied (take ?e (r_data ?c)))"
    using Suc.prems(4-6) by simp
  then have "take (copied + ?e + (remaining - ?e)) (load_continuations recs di (part + 1) n (copied + ?e) (blit d copied (take ?e (r_data ?c))))
       = take (copied + ?e + (remaining - ?e)) (load_continuations recs di (part + 1) n (copied + ?e) (blit d' copied (take ?e (r_data ?c))))"
    using Suc.prems(2-5) len by (intro Suc.IH[OF chk]) auto
  then show ?case using sz by (simp add: Let_def)
qed simp

lemma load_current_file_same:
  assumes recs: "list_all wf_record recs" "di + fs_disk_records_needed sz \<le> length recs"
    and head: "sz = unat (r_size (recs ! di))" "sz < FS_MAX_FILE_SIZE" "valid_name (cstr (r_name (recs ! di)))"
    and chk: "check_continuations recs di 1 (fs_disk_records_needed sz - 1) (sz - FS_DISK_DATA_BYTES) = Some 0"
    and g: "wf_file g" "wf_file g'"
  shows "same_view (load_current_file recs di g) (load_current_file recs di g')"
proof -
  let ?c = "min sz FS_DISK_DATA_BYTES" and ?n = "fs_disk_records_needed sz - 1"
  let ?d1 = "\<lambda>g. blit (f_data g) 0 (take ?c (r_data (recs ! di)))"
  let ?d2 = "\<lambda>g. load_continuations recs di 1 ?n ?c (?d1 g)"
  have len: "length (r_data (recs ! di)) = FS_DISK_DATA_BYTES" and n: "0 < fs_disk_records_needed sz"
    using recs needed_bounds[of sz] by (auto simp: list_all_length wf_record_def fs_disk_records_needed_def)
  have ld: "length (?d1 g) = FS_MAX_FILE_SIZE" "length (?d1 g') = FS_MAX_FILE_SIZE"
    using g head(2) len by (simp_all add: wf_file_def length_blit)
  have room: "di + 1 + ?n \<le> length recs" using recs(2) n by linarith
  have "take ?c (?d1 g) = take ?c (?d1 g')" using len by (simp add: blit_def)
  then have "take (?c + (sz - FS_DISK_DATA_BYTES)) (?d2 g) = take (?c + (sz - FS_DISK_DATA_BYTES)) (?d2 g')"
    using ld head(2) by (intro load_continuations_agree[OF chk recs(1) room]) auto
  then have d2: "take sz (?d2 g) = take sz (?d2 g')" by (simp add: min_def split: if_splits)
  have l2: "length (?d2 h) = FS_MAX_FILE_SIZE" if "length (?d1 h) = FS_MAX_FILE_SIZE" for h
    using that head(2) by (subst length_load_continuations[OF chk]) auto
  have t: "take (f_size (load_current_file recs di h)) (f_data (load_current_file recs di h)) = take sz (?d2 h)"
    if "length (?d1 h) = FS_MAX_FILE_SIZE" for h
    using l2[OF that] head(1,2) by (simp add: load_current_file_def Let_def blit_def)
  show ?thesis
    using load_current_file_wf(2,3)[OF head chk g(1)] load_current_file_wf(2,3)[OF head chk g(2)] t[OF ld(1)] t[OF ld(2)] d2
    by (simp add: same_view_def fview_def)
qed

lemma load_current_same:
  assumes "length recs = FS_MAX_FILES" and "list_all wf_record recs" and "validate_current recs logical di"
    and "list_all wf_file fs" and "list_all wf_file gs" and "list_all2 same_view fs gs" and "length fs = FS_MAX_FILES"
  shows "list_all2 same_view (load_current recs logical di fs) (load_current recs logical di gs)"
  using assms
proof (induction recs logical di fs arbitrary: gs rule: load_current.induct)
  case (1 recs logical di fs)
  consider "\<not> di < FS_MAX_FILES" | "di < FS_MAX_FILES" "r_in_use (recs ! di) = 0" | "di < FS_MAX_FILES" "r_in_use (recs ! di) \<noteq> 0"
    by blast
  then show ?case
  proof cases
    case 1
    then show ?thesis using "1.prems" by (simp add: load_current.simps)
  next
    case 2
    have "validate_current recs logical (di + 1)"
      using "1.prems"(3) 2 by (simp add: validate_current.simps[of recs logical di] Let_def)
    then show ?thesis
      using "1.IH"(1)[OF 2(1) refl 2(2)] "1.prems" 2 by (simp add: load_current.simps[of recs logical di] Let_def)
  next
    case 3
    let ?sz = "unat (r_size (recs ! di))" and ?lf = "load_current_file recs di"
    note v = validate_step[OF 3, of logical, unfolded Let_def, THEN iffD1, OF "1.prems"(3)]
    have wfr: "wf_record (recs ! di)" using "1.prems"(1,2) 3 by (simp add: list_all_length)
    have nm: "valid_name (cstr (r_name (recs ! di)))"
      using v wfr name_31_terminated by (auto simp: wf_record_def fs_is_valid_name_iff)
    have chk: "check_continuations recs di 1 (fs_disk_records_needed ?sz - 1) (?sz - FS_DISK_DATA_BYTES) = Some 0"
      and sz: "?sz < FS_MAX_FILE_SIZE" and room: "di + fs_disk_records_needed ?sz \<le> length recs"
      using v "1.prems"(1) by auto
    have len: "length gs = length fs" using "1.prems"(6) list_all2_lengthD by fastforce
    have k: "logical < length fs" using v "1.prems"(7) by simp
    have g: "wf_file (fs ! logical)" "wf_file (gs ! logical)" using "1.prems"(4,5) k len by (auto simp: list_all_length)
    have wf: "wf_file (?lf (fs ! logical))" "wf_file (?lf (gs ! logical))"
      using load_current_file_wf(1)[OF refl sz nm chk] g by auto
    have "same_view (?lf (fs ! logical)) (?lf (gs ! logical))"
      by (rule load_current_file_same[OF "1.prems"(2) room refl sz nm chk g])
    then have "list_all2 same_view (fs[logical := ?lf (fs ! logical)]) (gs[logical := ?lf (gs ! logical)])"
      using "1.prems"(6) by (intro list_all2_update_cong)
    moreover have "list_all wf_file (fs[logical := ?lf (fs ! logical)])" "list_all wf_file (gs[logical := ?lf (gs ! logical)])"
      using "1.prems"(4,5) wf k len by (simp_all add: list_all_length nth_list_update)
    ultimately have "list_all2 same_view (load_current recs (logical + 1) (di + fs_disk_records_needed ?sz) (fs[logical := ?lf (fs ! logical)]))
        (load_current recs (logical + 1) (di + fs_disk_records_needed ?sz) (gs[logical := ?lf (gs ! logical)]))"
      using v "1.prems"(1,2,7) by (intro "1.IH"(2)[OF 3(1) refl 3(2)]) auto
    then show ?thesis using 3 by (simp add: load_current.simps[of recs logical di] Let_def)
  qed
qed

lemma clear_same: "list_all2 same_view (map fs_clear fs) (map fs_clear gs)" if "length fs = length gs"
  using that by (simp add: list_all2_conv_all_nth same_view_def)

lemma legacy_same:
  assumes "wf_record r" and "wf_file f" and "wf_file g" and "r_in_use r \<noteq> 0 \<Longrightarrow> unat (r_size r) < FS_DISK_DATA_BYTES"
  shows "same_view (load_legacy_record r f) (load_legacy_record r g)"
proof (cases "r_in_use r = 0")
  case False
  let ?sz = "unat (r_size r)"
  have sz: "?sz < FS_DISK_DATA_BYTES" "length (take ?sz (r_data r)) = ?sz" using assms(1,4) False by (auto simp: wf_record_def)
  have "cstr (blit x 0 (cstr (r_name r) @ [0])) = cstr (r_name r)" for x
    by (rule cstr_blit) (simp add: cstr_no_zero)
  moreover have "take ?sz (blit (blit x 0 (take ?sz (r_data r))) ?sz [0]) = take ?sz (r_data r)" if "length x = FS_MAX_FILE_SIZE" for x
    using that sz by (simp add: blit_def)
  ultimately show ?thesis using False assms(2,3) by (simp add: same_view_def load_legacy_record_def fview_def wf_file_def)
qed (simp add: load_legacy_record_def same_view_def)

text \<open>Whether a table is accepted, and the listing it gives, depend on the table only.\<close>

lemma deserialize_same:
  assumes t: "wf_table t" and f: "length fs = FS_MAX_FILES" "list_all wf_file fs" and g: "length gs = FS_MAX_FILES" "list_all wf_file gs"
  shows "fst (deserialize_as v t fs) = fst (deserialize_as v t gs)
    \<and> (fst (deserialize_as v t fs) \<longrightarrow> fs_listing (snd (deserialize_as v t fs)) = fs_listing (snd (deserialize_as v t gs)))"
proof (cases "v \<ge> FS_DISK_VERSION")
  case True
  have "list_all2 same_view (load_current (t_records t) 0 0 (map fs_clear fs)) (load_current (t_records t) 0 0 (map fs_clear gs))"
    if "validate_current (t_records t) 0 0"
    using t f g that by (intro load_current_same clear_same) (auto simp: wf_table_def list_all_iff)
  then show ?thesis using True by (simp add: deserialize_as_def deserialize_current_def same_view_listing)
next
  case False
  have "list_all2 same_view (map2 load_legacy_record (t_records t) fs) (map2 load_legacy_record (t_records t) gs)"
    if ok: "list_all (legacy_record_ok (t_records t)) [0..<FS_MAX_FILES]"
  proof (rule list_all2I)
    have len: "length (t_records t) = FS_MAX_FILES" using t by (simp add: wf_table_def)
    show "length (map2 load_legacy_record (t_records t) fs) = length (map2 load_legacy_record (t_records t) gs)"
      using len f g by simp
    have "same_view (load_legacy_record (t_records t ! i) (fs ! i)) (load_legacy_record (t_records t ! i) (gs ! i))"
      if i: "i < FS_MAX_FILES" for i
    proof (rule legacy_same)
      show "wf_record (t_records t ! i)" using t i by (simp add: wf_table_def list_all_length)
      show "wf_file (fs ! i)" "wf_file (gs ! i)" using f g i by (simp_all add: list_all_length)
      have "legacy_record_ok (t_records t) i" using ok i by (simp add: list_all_iff del: upt_rec_numeral)
      then show "r_in_use (t_records t ! i) \<noteq> 0 \<Longrightarrow> unat (r_size (t_records t ! i)) < FS_DISK_DATA_BYTES"
        by (auto simp: legacy_record_ok_def Let_def split: if_splits)
    qed
    then show "\<forall>x \<in> set (zip (map2 load_legacy_record (t_records t) fs) (map2 load_legacy_record (t_records t) gs)). case_prod same_view x"
      using len f g by (auto simp: set_zip)
  qed
  then show ?thesis using False by (simp add: deserialize_as_def deserialize_legacy_def same_view_listing del: upt_rec_numeral)
qed

section \<open>Loading a slot\<close>

definition files_ok :: "fs_file list \<Rightarrow> bool" where
  "files_ok files \<longleftrightarrow> length files = FS_MAX_FILES \<and> list_all wf_file files"

lemma deserialize_as_sound:
  assumes "wf_table t" and "files_ok files" and "deserialize_as v t files = (ok, files')"
  shows "if ok then files_inv files' \<and> records_used files' \<le> FS_MAX_FILES else files' = files"
  using assms deserialize_current_sound[of t files ok files'] deserialize_legacy_sound[of t files ok files']
  by (auto simp: deserialize_as_def files_ok_def split: if_splits)

lemma sectors_shift: "(\<And>i. i < n \<Longrightarrow> m (a + i) = m' (b + i)) \<Longrightarrow> sectors m a n = sectors m' b n"
proof (induction n arbitrary: a b)
  case (Suc n)
  have "sectors m (Suc a) n = sectors m' (Suc b) n" using Suc.prems[of "Suc _"] by (intro Suc.IH) simp
  then show ?case using Suc.prems[of 0] by (simp add: sectors_Suc)
qed (simp add: sectors_def)

context block_device
begin

lemma length_slot_table: "dev_ok w \<Longrightarrow> length (slot_table (media w) slot) = 512 * FS_DISK_TABLE_SECTORS"
  by (simp add: slot_table_def)

lemma read_table_spec:
  assumes "dev_ok (world s)" and "slot < 2" and "wf_table (g_disk_table s)"
    and "read_table E (fs_slot_header_lba slot + 1) s = (ok, s')"
  shows "reworks media dev_ok {} s s' \<and> wf_table (g_disk_table s')
    \<and> (ok \<longrightarrow> g_disk_table s' = table_of_bytes (slot_table (media (world s)) slot)
          \<and> table_bytes (g_disk_table s') = slot_table (media (world s)) slot)"
proof -
  obtain buf u where rd: "disk_read E (fs_slot_header_lba slot + 1) FS_DISK_TABLE_SECTORS (table_bytes (g_disk_table s)) s = (ok, buf, u)"
    and s': "s' = u\<lparr>g_disk_table := table_of_bytes buf\<rparr>"
    using assms(4) by (auto simp: read_table_def split: prod.splits)
  note spec = disk_read_spec[OF assms(1) slot_ranges(2)[OF assms(2)] length_table_bytes[OF assms(3)] rd]
  then have q: "quiet media dev_ok s u" and len: "length buf = 512 * FS_DISK_TABLE_SECTORS"
    and buf: "ok \<Longrightarrow> buf = slot_table (media (world s)) slot" by (auto simp: slot_table_def)
  obtain w where u: "u = s\<lparr>world := w\<rparr>" using q unfolding quiet_def by blast
  show ?thesis
    using table_bytes_of[OF len] buf q by (auto simp: s' u reworks_def quiet_def)
qed

lemma load_slot_spec:
  assumes "dev_ok (world s)" and "slot < 2" and "wf_table (g_disk_table s)" and "files_ok (FILES s)"
    and h: "h = slot_header (media (world s)) slot" "fs_header_is_valid h"
    and "fs_load_slot E slot h s = (r, s')"
  shows "\<exists>u. reworks media dev_ok {} s u \<and> wf_table (g_disk_table u) \<and>
    (if r = FS_SLOT_LOADED
     then s' = u\<lparr>FILES := FILES s', g_active_slot := slot, g_active_generation := fs_header_generation h,
                 g_loaded_version := h_version h\<rparr>
          \<and> files_inv (FILES s') \<and> records_used (FILES s') \<le> FS_MAX_FILES
          \<and> slot_listing (media (world s)) slot = Some (fs_listing (FILES s'))
     else s' = u) \<and> (r = FS_SLOT_CORRUPT \<longrightarrow> slot_listing (media (world s)) slot = None)"
proof -
  let ?m = "media (world s)" and ?b = "slot_table (media (world s)) slot"
  obtain ok s1 where rd: "read_table E (fs_slot_header_lba slot + 1) s = (ok, s1)" by fastforce
  note spec = read_table_spec[OF assms(1-3) rd]
  then have w1: "reworks media dev_ok {} s s1" and wf1: "wf_table (g_disk_table s1)" by auto
  note d1 = reworksD[OF w1]
  obtain dok files where de: "deserialize_as (h_version h) (g_disk_table s1) (FILES s1) = (dok, files)" by fastforce
  have de': "(if h_version h \<ge> FS_DISK_VERSION then fs_deserialize_current s1 else fs_deserialize_legacy s1)
      = (dok, s1\<lparr>FILES := files\<rparr>)"
    using de by (auto simp: deserialize_as_def fs_deserialize_current_def fs_deserialize_legacy_def)
  have sound: "if dok then files_inv files \<and> records_used files \<le> FS_MAX_FILES else files = FILES s1"
    using deserialize_as_sound[OF wf1 _ de] assms(4) d1(1) by simp
  then have same: "\<not> dok \<Longrightarrow> s1\<lparr>FILES := files\<rparr> = s1" by simp
  have list: "slot_listing ?m slot = (if h_checksum h = fs_checksum ?b \<and> dok then Some (fs_listing files) else None)" if ok
  proof -
    have t: "g_disk_table s1 = table_of_bytes ?b" using spec that by simp
    have "dok = fst (deserialize_as (h_version h) (table_of_bytes ?b) blank_files)
      \<and> (dok \<longrightarrow> fs_listing files = fs_listing (snd (deserialize_as (h_version h) (table_of_bytes ?b) blank_files)))"
      using deserialize_same[OF wf1 _ _ blank_files_wf(2,1), of "FILES s1" "h_version h"] assms(4) d1(1) de t
      by (simp add: files_ok_def)
    then show ?thesis using h by (auto simp: slot_listing_def Let_def split: prod.splits)
  qed
  have unfold: "(r, s') = (if \<not> ok then (FS_SLOT_IO_ERROR, s1)
      else if h_checksum h \<noteq> fs_checksum (table_bytes (g_disk_table s1))
        then (FS_SLOT_CORRUPT, fs_say E ''FS: rejected slot with corrupt checksum'' s1)
      else if \<not> dok then (FS_SLOT_CORRUPT, fs_say E ''FS: rejected slot with invalid records'' (s1\<lparr>FILES := files\<rparr>))
      else (FS_SLOT_LOADED, s1\<lparr>FILES := files, g_active_slot := slot, g_active_generation := fs_header_generation h,
                      g_loaded_version := h_version h\<rparr>))"
    using assms(7)[symmetric] by (simp only: fs_load_slot_def rd prod.case Let_def de')
  have say: "reworks media dev_ok {} s (fs_say E msg s1) \<and> wf_table (g_disk_table (fs_say E msg s1))" for msg
    using reworks_say[OF w1] wf1 by (simp add: fs_say_def)
  have tb: "ok \<Longrightarrow> table_bytes (g_disk_table s1) = ?b" using spec by blast
  show ?thesis
  proof (cases "r = FS_SLOT_LOADED")
    case True
    then show ?thesis
      using unfold w1 wf1 list sound tb by (intro exI[of _ s1]) (auto split: if_splits)
  next
    case False
    then show ?thesis
      using unfold w1 wf1 list say same tb by (intro exI[of _ s']) (auto split: if_splits)
  qed
qed

end

end
