(* ===== verification/Fs_Load.thy ===== *)
theory Fs_Load
  imports Fs_Mount
begin

text \<open>
  The outcome of \<open>fs_load_from_disk\<close> on arbitrary media under arbitrary read faults.
\<close>

section \<open>Definitions\<close>

definition is_loaded :: "fs_disk_load_result \<Rightarrow> bool" where
  "is_loaded r \<longleftrightarrow> r = FS_DISK_LOADED \<or> r = FS_DISK_LOADED_IO_ERROR \<or> r = FS_DISK_LOADED_CORRUPT"

lemma is_loaded_simps [simp]:
  "is_loaded FS_DISK_LOADED" "is_loaded FS_DISK_LOADED_IO_ERROR" "is_loaded FS_DISK_LOADED_CORRUPT"
  "\<not> is_loaded FS_DISK_NO_DRIVE" "\<not> is_loaded FS_DISK_BLANK" "\<not> is_loaded FS_DISK_CORRUPT" "\<not> is_loaded FS_DISK_IO_ERROR"
  by (simp_all add: is_loaded_def)

text \<open>The mounted view is the committed content of \<open>slot\<close>.\<close>

definition slot_mounted :: "(nat \<Rightarrow> bytes) \<Rightarrow> u8 \<Rightarrow> 'w fs_state \<Rightarrow> bool" where
  "slot_mounted m slot s \<longleftrightarrow> slot < FS_SLOT_COUNT \<and> g_active_slot s = slot \<and> files_inv (FILES s) \<and> records_used (FILES s) \<le> FS_MAX_FILES
     \<and> slot_listing m slot = Some (fs_listing (FILES s))
     \<and> g_active_generation s = fs_header_generation (slot_header m slot) \<and> g_loaded_version s = h_version (slot_header m slot)"

text \<open>What mounting may change: no sector, and of the state the view, the slot bookkeeping and
  the table buffer only.\<close>

definition mounts :: "('w \<Rightarrow> nat \<Rightarrow> bytes) \<Rightarrow> ('w \<Rightarrow> bool) \<Rightarrow> 'w fs_state \<Rightarrow> 'w fs_state \<Rightarrow> bool" where
  "mounts media dev_ok s s' \<longleftrightarrow> s' = s\<lparr>FILES := FILES s', g_disk_table := g_disk_table s', g_active_slot := g_active_slot s',
       g_active_generation := g_active_generation s', g_loaded_version := g_loaded_version s',
       g_legacy_upgrade_status := g_legacy_upgrade_status s', world := world s'\<rparr>
     \<and> dev_ok (world s') \<and> media (world s') = media (world s) \<and> (wf_table (g_disk_table s) \<longrightarrow> wf_table (g_disk_table s'))"

section \<open>Frame\<close>

lemma mountsI:
  assumes "g_mutation_backup s' = g_mutation_backup s" "g_backend_status s' = g_backend_status s"
    "g_self_test_active s' = g_self_test_active s" "g_virtual_system_log s' = g_virtual_system_log s"
    "g_system_log_is_virtual s' = g_system_log_is_virtual s"
    "dev_ok (world s')" "media (world s') = media (world s)" "wf_table (g_disk_table s) \<Longrightarrow> wf_table (g_disk_table s')"
  shows "mounts media dev_ok s s'"
  using assms by (simp add: mounts_def)

lemma mountsD:
  assumes "mounts media dev_ok s s'"
  shows "g_mutation_backup s' = g_mutation_backup s" "g_backend_status s' = g_backend_status s"
    "g_self_test_active s' = g_self_test_active s" "g_virtual_system_log s' = g_virtual_system_log s"
    "g_system_log_is_virtual s' = g_system_log_is_virtual s"
    "dev_ok (world s')" "media (world s') = media (world s)" "wf_table (g_disk_table s) \<Longrightarrow> wf_table (g_disk_table s')"
proof -
  show "dev_ok (world s')" "media (world s') = media (world s)" "wf_table (g_disk_table s) \<Longrightarrow> wf_table (g_disk_table s')"
    using assms by (simp_all add: mounts_def)
  obtain fs t a g v l w where s': "s' = s\<lparr>FILES := fs, g_disk_table := t, g_active_slot := a,
       g_active_generation := g, g_loaded_version := v, g_legacy_upgrade_status := l, world := w\<rparr>"
    using assms unfolding mounts_def by blast
  show "g_mutation_backup s' = g_mutation_backup s" "g_backend_status s' = g_backend_status s"
    "g_self_test_active s' = g_self_test_active s" "g_virtual_system_log s' = g_virtual_system_log s"
    "g_system_log_is_virtual s' = g_system_log_is_virtual s"
    by (simp_all add: s')
qed

lemma mounts_trans:
  assumes "mounts media dev_ok s t" and "mounts media dev_ok t u"
  shows "mounts media dev_ok s u"
  by (rule mountsI) (simp_all add: mountsD[OF assms(1)] mountsD[OF assms(2)])

lemma reworks_mounts:
  assumes "reworks media dev_ok {} s t"
  shows "mounts media dev_ok s t"
  by (rule mountsI) (use reworksD[OF assms] in auto)

lemma quiet_mounts: "quiet media dev_ok s t \<Longrightarrow> mounts media dev_ok s t"
  using reworks_mounts touches_reworks[OF quiet_touches] by blast

section \<open>The steps of a load\<close>

context block_device
begin

lemma scan_header_spec:
  assumes "dev_ok (world s)" and "slot < 2" and "scan_header E slot s = ((valid, h, bad, io), s')"
  shows "quiet media dev_ok s s' \<and> (valid \<longrightarrow> h = slot_header (media (world s)) slot \<and> fs_header_is_valid h)
    \<and> (\<not> io \<longrightarrow> h = slot_header (media (world s)) slot \<and> valid = fs_header_is_valid h \<and> bad = header_damaged h)"
proof -
  obtain ok buf u where rd: "disk_read E (fs_slot_header_lba slot) 1 (replicate 512 0) s = (ok, buf, u)"
    by (metis prod_cases3)
  have "quiet media dev_ok s u" "ok \<Longrightarrow> header_of_bytes buf = slot_header (media (world s)) slot"
    using disk_read_spec[OF assms(1) slot_ranges(1)[OF assms(2)] _ rd] by (auto simp: slot_header_def)
  then show ?thesis
    using assms(3) rd by (auto simp: scan_header_def Let_def header_damaged_def split: if_splits)
qed

lemma compare_sectors_spec:
  assumes "dev_ok (world s)" and "\<forall>i \<in> set is. lba_range (a + i) 1 \<and> lba_range (b + i) 1"
    and "compare_sectors E a b is s = (r, s')"
  shows "quiet media dev_ok s s' \<and>
    (r = FS_COMPARE_EQUAL \<longrightarrow> (\<forall>i \<in> set is. media (world s) (a + i) = media (world s) (b + i))) \<and>
    (r = FS_COMPARE_DIFFERENT \<longrightarrow> (\<exists>i \<in> set is. media (world s) (a + i) \<noteq> media (world s) (b + i)))"
  using assms
proof (induction "is" arbitrary: s)
  case Nil
  then show ?case by (auto simp: quiet_refl)
next
  case (Cons i "is")
  obtain ok1 b1 s1 where r1: "disk_read E (a + i) 1 (replicate 512 0) s = (ok1, b1, s1)" by (metis prod_cases3)
  have q1: "quiet media dev_ok s s1" and l1: "length b1 = 512" and m1: "ok1 \<Longrightarrow> b1 = media (world s) (a + i)"
    using disk_read_spec[OF Cons.prems(1) _ _ r1] Cons.prems(2) by auto
  obtain ok2 b2 s2 where r2: "disk_read E (b + i) 1 (replicate 512 0) s1 = (ok2, b2, s2)" by (metis prod_cases3)
  have q2: "quiet media dev_ok s1 s2" and l2: "length b2 = 512" and m2: "ok2 \<Longrightarrow> b2 = media (world s) (b + i)"
    using disk_read_spec[OF quietD(12)[OF q1] _ _ r2] Cons.prems(2) quietD(13)[OF q1] by auto
  have eq: "fs_bytes_equal b1 b2 512 \<longleftrightarrow> b1 = b2" using fs_bytes_equal_take[OF l1, of b2] l2 by simp
  note d = quietD[OF quiet_trans[OF q1 q2]]
  have IH: "compare_sectors E a b is s2 = (r, s') \<Longrightarrow> quiet media dev_ok s2 s' \<and>
    (r = FS_COMPARE_EQUAL \<longrightarrow> (\<forall>i \<in> set is. media (world s) (a + i) = media (world s) (b + i))) \<and>
    (r = FS_COMPARE_DIFFERENT \<longrightarrow> (\<exists>i \<in> set is. media (world s) (a + i) \<noteq> media (world s) (b + i)))"
    using Cons.IH[of s2] Cons.prems(2) d by simp
  have q2': "quiet media dev_ok s s2" by (rule quiet_trans[OF q1 q2])
  show ?case
    using Cons.prems(3) r1 r2 q1 q2' IH m1 m2 eq
    by (cases ok1; cases ok2; cases "b1 = b2") (auto intro: quiet_trans)
qed

lemma compare_tables_spec:
  assumes "dev_ok (world s)" and "fs_compare_slot_tables E 0 1 s = (r, s')"
  shows "quiet media dev_ok s s' \<and>
    (r = FS_COMPARE_EQUAL \<longrightarrow> slot_table (media (world s)) 0 = slot_table (media (world s)) 1) \<and>
    (r = FS_COMPARE_DIFFERENT \<longrightarrow> slot_table (media (world s)) 0 \<noteq> slot_table (media (world s)) 1)"
proof -
  let ?m = "media (world s)" and ?a = "fs_slot_header_lba 0 + 1" and ?b = "fs_slot_header_lba 1 + 1"
  have rng: "\<forall>i \<in> set [0..<FS_DISK_TABLE_SECTORS]. lba_range (?a + i) 1 \<and> lba_range (?b + i) 1"
    by (auto simp: lba_range_def)
  have spec: "quiet media dev_ok s s'"
    "r = FS_COMPARE_EQUAL \<Longrightarrow> \<forall>i < FS_DISK_TABLE_SECTORS. ?m (?a + i) = ?m (?b + i)"
    "r = FS_COMPARE_DIFFERENT \<Longrightarrow> \<exists>i < FS_DISK_TABLE_SECTORS. ?m (?a + i) \<noteq> ?m (?b + i)"
    using compare_sectors_spec[OF assms(1) rng] assms(2)
    by (auto simp: fs_compare_slot_tables_def simp del: upt_rec_numeral slot_lba)
  have len: "\<forall>l. length (?m l) = 512" using assms(1) sector_length by simp
  show ?thesis
    using spec sectors_shift[of FS_DISK_TABLE_SECTORS ?m ?a ?m ?b]
      sectors_eqD[OF _ len len, of ?a FS_DISK_TABLE_SECTORS ?b]
    unfolding slot_table_def by metis
qed

lemma ambiguity_spec:
  assumes "dev_ok (world s)" and "slot_order_ambiguity E v0 h0 v1 h1 s = ((legacy, protected, io), s')"
  shows "quiet media dev_ok s s'"
    and "legacy \<Longrightarrow> v0 \<and> v1"
    and "\<lbrakk>\<not> io; h0 = slot_header (media (world s)) 0; v0 = fs_header_is_valid h0; h1 = slot_header (media (world s)) 1;
      v1 = fs_header_is_valid h1\<rbrakk> \<Longrightarrow> (legacy \<or> protected) = order_ambiguous (media (world s))"
proof -
  obtain c s1 where cmp: "fs_compare_slot_tables E 0 1 s = (c, s1)" by fastforce
  note cx = compare_tables_spec[OF assms(1) cmp]
  have q1: "quiet media dev_ok s s1" using cx by simp
  have say: "quiet media dev_ok s (fs_say E msg t)" if "quiet media dev_ok s t" for msg t
    using quiet_trans[OF that quiet_say] quietD(12)[OF that] by blast
  have cases: "c = FS_COMPARE_EQUAL \<or> c = FS_COMPARE_DIFFERENT \<or> c = FS_COMPARE_IO_ERROR" by (cases c) auto
  show "quiet media dev_ok s s'"
    using assms cmp q1 say quiet_refl[of dev_ok s media, OF assms(1)]
    by (auto simp: slot_order_ambiguity_def Let_def split: if_splits)
  show "legacy \<Longrightarrow> v0 \<and> v1"
    using assms(2) cmp by (auto simp: slot_order_ambiguity_def Let_def split: if_splits)
  assume "\<not> io" "h0 = slot_header (media (world s)) 0" "v0 = fs_header_is_valid h0"
    "h1 = slot_header (media (world s)) 1" "v1 = fs_header_is_valid h1"
  then show "(legacy \<or> protected) = order_ambiguous (media (world s))"
    using assms(2) cmp cx cases
    by (auto simp: slot_order_ambiguity_def order_ambiguous_def both_legacy_def both_protected_def Let_def
        not_le split: if_splits)
qed

lemma scan_blank_spec:
  assumes "dev_ok (world s)" and "slot < 2" and "wf_table (g_disk_table s)" and "scan_blank_table E slot (io, nb) s = ((io', nb'), s')"
  shows "reworks media dev_ok {} s s' \<and> wf_table (g_disk_table s') \<and> (io \<longrightarrow> io') \<and> (nb \<longrightarrow> nb')
    \<and> (\<not> io' \<and> \<not> nb' \<longrightarrow> fs_bytes_are_blank (slot_table (media (world s)) slot))"
proof -
  obtain ok s1 where rd: "read_table E (fs_slot_header_lba slot + 1) s = (ok, s1)" by fastforce
  note spec = read_table_spec[OF assms(1-3) rd]
  have "reworks media dev_ok {} s s1" "wf_table (g_disk_table s1)"
    "ok \<Longrightarrow> table_bytes (g_disk_table s1) = slot_table (media (world s)) slot" using spec by blast+
  then show ?thesis
    using assms(4) by (cases ok) (auto simp: scan_blank_table_def Let_def rd[simplified])
qed

lemma no_slot_loaded_spec:
  assumes "dev_ok (world s)" and "wf_table (g_disk_table s)" and "no_slot_loaded E io bad s = (r, s')"
  shows "reworks media dev_ok {} s s' \<and> \<not> is_loaded r \<and> r \<noteq> FS_DISK_NO_DRIVE \<and> (r = FS_DISK_BLANK \<longrightarrow> \<not> io \<and> \<not> bad
    \<and> fs_bytes_are_blank (slot_table (media (world s)) 0) \<and> fs_bytes_are_blank (slot_table (media (world s)) 1))"
proof -
  obtain io1 nb1 s1 where s1: "scan_blank_table E 0 (False, False) s = ((io1, nb1), s1)" by (metis prod.collapse)
  obtain io2 nb2 s2 where s2: "scan_blank_table E 1 (io1, nb1) s1 = ((io2, nb2), s2)" by (metis prod.collapse)
  have x1: "reworks media dev_ok {} s s1" "wf_table (g_disk_table s1)"
    "\<not> io1 \<and> \<not> nb1 \<longrightarrow> fs_bytes_are_blank (slot_table (media (world s)) 0)"
    using scan_blank_spec[OF assms(1) _ assms(2) s1] by simp_all
  have m1: "media (world s1) = media (world s)" using reworksD(12)[OF x1(1)] by auto
  have x2: "reworks media dev_ok {} s1 s2" "io1 \<longrightarrow> io2" "nb1 \<longrightarrow> nb2"
    "\<not> io2 \<and> \<not> nb2 \<longrightarrow> fs_bytes_are_blank (slot_table (media (world s)) 1)"
    using scan_blank_spec[OF reworksD(11)[OF x1(1)] _ x1(2) s2] m1 by simp_all
  have x3: "reworks media dev_ok {} s s2" using reworks_trans[OF x1(1) x2(1)] by simp
  have r0: "reworks media dev_ok {} s s" using assms(1) by (simp add: reworks_def)
  show ?thesis
    using assms(3) x1 x2 x3 r0 by (auto simp: no_slot_loaded_def s1 s2 is_loaded_def split: if_splits)
qed

lemma mark_legacy_simps [simp]:
  "FILES (mark_legacy_upgrade b s) = FILES s" "g_active_slot (mark_legacy_upgrade b s) = g_active_slot s"
  "g_active_generation (mark_legacy_upgrade b s) = g_active_generation s"
  "g_loaded_version (mark_legacy_upgrade b s) = g_loaded_version s" "world (mark_legacy_upgrade b s) = world s"
  by (simp_all add: mark_legacy_upgrade_def)

lemma mounts_mark:
  assumes "mounts media dev_ok s t"
  shows "mounts media dev_ok s (mark_legacy_upgrade b t)"
  by (rule mountsI) (use mountsD[OF assms] in \<open>simp_all add: mark_legacy_upgrade_def\<close>)

lemma load_slot_mounted:
  assumes "dev_ok (world s)" and "slot < 2" and "wf_table (g_disk_table s)" and "files_ok (FILES s)"
    and "h = slot_header (media (world s)) slot" "fs_header_is_valid h"
    and "fs_load_slot E slot h s = (r, s')"
  shows "mounts media dev_ok s s' \<and> (r = FS_SLOT_LOADED \<longrightarrow> slot_mounted (media (world s)) slot s')
    \<and> g_legacy_upgrade_status s' = g_legacy_upgrade_status s
    \<and> (r \<noteq> FS_SLOT_LOADED \<longrightarrow> reworks media dev_ok {} s s' \<and> wf_table (g_disk_table s'))"
proof -
  from load_slot_spec[OF assms] obtain u where u: "reworks media dev_ok {} s u" "wf_table (g_disk_table u)"
    "if r = FS_SLOT_LOADED
     then s' = u\<lparr>FILES := FILES s', g_active_slot := slot, g_active_generation := fs_header_generation h,
                 g_loaded_version := h_version h\<rparr>
          \<and> files_inv (FILES s') \<and> records_used (FILES s') \<le> FS_MAX_FILES
          \<and> slot_listing (media (world s)) slot = Some (fs_listing (FILES s'))
     else s' = u" by auto
  note m = reworks_mounts[OF u(1)]
  show ?thesis
  proof (cases "r = FS_SLOT_LOADED")
    case True
    then obtain fs where s': "s' = u\<lparr>FILES := fs, g_active_slot := slot, g_active_generation := fs_header_generation h,
                 g_loaded_version := h_version h\<rparr>" using u(3) by auto
    have "mounts media dev_ok s s'" by (rule mountsI) (use mountsD[OF m] u(2) in \<open>auto simp: s'\<close>)
    moreover have "slot_mounted (media (world s)) slot s'" using u(3) True assms(2,5) by (simp add: slot_mounted_def s')
    ultimately show ?thesis using True reworksD(7)[OF u(1)] by (simp add: s')
  next
    case False
    then show ?thesis using u m reworksD(7)[OF u(1)] by simp
  qed
qed

lemma try_slot:
  assumes "dev_ok (world s)" and "slot < 2" and "wf_table (g_disk_table s)" and "files_ok (FILES s)"
    and "valid \<longrightarrow> h = slot_header (media (world s)) slot \<and> fs_header_is_valid h"
    and "(if valid then (let (r, s) = fs_load_slot E slot h s in (Some r, s)) else (None, s)) = (r, s')"
  shows "mounts media dev_ok s s'" and "r = Some FS_SLOT_LOADED \<Longrightarrow> slot_mounted (media (world s)) slot s'"
    and "g_legacy_upgrade_status s' = g_legacy_upgrade_status s" and "r = None \<longleftrightarrow> \<not> valid"
    and "r \<noteq> Some FS_SLOT_LOADED \<Longrightarrow> reworks media dev_ok {} s s'" and "wf_table (g_disk_table s')"
    and "r = Some FS_SLOT_LOADED \<or> r = Some FS_SLOT_CORRUPT \<or> r = Some FS_SLOT_IO_ERROR \<or> r = None"
proof -
  have "mounts media dev_ok s s' \<and> (r = Some FS_SLOT_LOADED \<longrightarrow> slot_mounted (media (world s)) slot s')
    \<and> g_legacy_upgrade_status s' = g_legacy_upgrade_status s \<and> (r = None \<longleftrightarrow> \<not> valid)
    \<and> (r \<noteq> Some FS_SLOT_LOADED \<longrightarrow> reworks media dev_ok {} s s')"
  proof (cases valid)
    case True
    then obtain q where "fs_load_slot E slot h s = (q, s')" "r = Some q"
      using assms(6) by (auto simp: Let_def split: prod.splits)
    with load_slot_mounted[OF assms(1-4) _ _ this(1)] assms(5) True show ?thesis by auto
  next
    case False
    then show ?thesis
      using assms(1,6) mountsI[of s s dev_ok media] by (auto simp: reworks_def)
  qed
  then show "mounts media dev_ok s s'" "r = Some FS_SLOT_LOADED \<Longrightarrow> slot_mounted (media (world s)) slot s'"
    "g_legacy_upgrade_status s' = g_legacy_upgrade_status s" "r = None \<longleftrightarrow> \<not> valid"
    "r \<noteq> Some FS_SLOT_LOADED \<Longrightarrow> reworks media dev_ok {} s s'" by auto
  then show "wf_table (g_disk_table s')" using mountsD(8) assms(3) by blast
  show "r = Some FS_SLOT_LOADED \<or> r = Some FS_SLOT_CORRUPT \<or> r = Some FS_SLOT_IO_ERROR \<or> r = None"
    by (cases r; cases "the r") auto
qed

lemma mounted_say: "slot_mounted m slot (fs_say E msg s) = slot_mounted m slot s"
  by (simp add: slot_mounted_def fs_say_def)

lemma mounted_mark: "slot_mounted m slot (mark_legacy_upgrade b s) = slot_mounted m slot s"
  by (simp add: slot_mounted_def)

lemma mounts_say: "mounts media dev_ok s t \<Longrightarrow> mounts media dev_ok s (fs_say E msg t)"
  using mounts_trans quiet_mounts quiet_say mountsD(6) by blast

lemma mark_none: "mark_legacy_upgrade False s = s"
  by (simp add: mark_legacy_upgrade_def)

lemma say_legacy: "g_legacy_upgrade_status (fs_say E msg s) = g_legacy_upgrade_status s"
  by (simp add: fs_say_def)

lemma load_slots_spec:
  assumes "dev_ok (world s)" and "first < 2" and "second < 2" and "wf_table (g_disk_table s)" and "files_ok (FILES s)"
    and "v1 \<longrightarrow> h1 = slot_header (media (world s)) first \<and> fs_header_is_valid h1"
    and "v2 \<longrightarrow> h2 = slot_header (media (world s)) second \<and> fs_header_is_valid h2" and "v2 \<longrightarrow> v1"
    and eq: "load_slots E first v1 h1 second v2 h2 io nb legacy amb s = (r, s')"
  shows "mounts media dev_ok s s'"
    and "is_loaded r \<Longrightarrow> slot_mounted (media (world s)) first s' \<or> slot_mounted (media (world s)) second s'"
    and "r = FS_DISK_LOADED \<Longrightarrow> slot_mounted (media (world s)) first s' \<and> \<not> io \<and> \<not> nb \<and> \<not> amb"
    and "\<not> is_loaded r \<Longrightarrow> reworks media dev_ok {} s s'"
    and "r = FS_DISK_BLANK \<Longrightarrow> \<not> io \<and> \<not> nb \<and> \<not> v1 \<and> \<not> v2
      \<and> fs_bytes_are_blank (slot_table (media (world s)) 0) \<and> fs_bytes_are_blank (slot_table (media (world s)) 1)"
    and "g_legacy_upgrade_status s' = FS_LEGACY_UPGRADE_AVAILABLE \<Longrightarrow>
      g_legacy_upgrade_status s = FS_LEGACY_UPGRADE_AVAILABLE \<or> is_loaded r"
    and "\<not> legacy \<Longrightarrow> g_legacy_upgrade_status s' = g_legacy_upgrade_status s"
proof -
  let ?m = "media (world s)"
  obtain r1 s1 where t1: "(if v1 then (let (r, s) = fs_load_slot E first h1 s in (Some r, s)) else (None, s)) = (r1, s1)"
    by (metis prod.collapse)
  note x1 = try_slot[OF assms(1,2,4,5,6) t1]
  note d1 = mountsD[OF x1(1)]
  obtain r2 s2 where t2: "(if v2 then (let (r, s) = fs_load_slot E second h2 s1 in (Some r, s)) else (None, s1)) = (r2, s2)"
    by (metis prod.collapse)
  have f1: "files_ok (FILES s1)" if "r1 \<noteq> Some FS_SLOT_LOADED" using reworksD(1)[OF x1(5)[OF that]] assms(5) by simp
  have v2': "v2 \<longrightarrow> h2 = slot_header (media (world s1)) second \<and> fs_header_is_valid h2" using assms(7) d1(7) by auto
  have x2: "mounts media dev_ok s1 s2" "r2 = Some FS_SLOT_LOADED \<Longrightarrow> slot_mounted ?m second s2"
    "g_legacy_upgrade_status s2 = g_legacy_upgrade_status s1" "r2 = None \<longleftrightarrow> \<not> v2"
    "r2 \<noteq> Some FS_SLOT_LOADED \<Longrightarrow> reworks media dev_ok {} s1 s2" "wf_table (g_disk_table s2)"
    "r2 = Some FS_SLOT_LOADED \<or> r2 = Some FS_SLOT_CORRUPT \<or> r2 = Some FS_SLOT_IO_ERROR \<or> r2 = None"
    if n: "r1 \<noteq> Some FS_SLOT_LOADED"
    using try_slot[OF d1(6) assms(3) x1(6) f1[OF n] v2' t2, unfolded d1(7)] by blast+
  obtain r3 s3 where t3: "no_slot_loaded E ((io \<or> r1 = Some FS_SLOT_IO_ERROR) \<or> r2 = Some FS_SLOT_IO_ERROR)
      (r1 = Some FS_SLOT_CORRUPT \<or> r2 = Some FS_SLOT_CORRUPT \<or> nb) s2 = (r3, s3)" by fastforce
  have unfold: "(r, s') = (if r1 = Some FS_SLOT_LOADED then (fs_loaded_result io (nb \<or> amb), mark_legacy_upgrade legacy s1)
      else if r2 = Some FS_SLOT_LOADED
        then (fs_loaded_result (io \<or> r1 = Some FS_SLOT_IO_ERROR) (r1 = Some FS_SLOT_CORRUPT \<or> nb \<or> amb),
              mark_legacy_upgrade legacy (fs_say E ''FS: recovered previous committed slot'' s2))
      else (r3, s3))"
    using eq[symmetric] by (simp only: load_slots_def Let_def t1[unfolded Let_def] t2[unfolded Let_def] t3 prod.case)
  consider (first) "r1 = Some FS_SLOT_LOADED" | (second) "r1 \<noteq> Some FS_SLOT_LOADED" "r2 = Some FS_SLOT_LOADED"
    | (none) "r1 \<noteq> Some FS_SLOT_LOADED" "r2 \<noteq> Some FS_SLOT_LOADED" by blast
  then have "mounts media dev_ok s s'
    \<and> (is_loaded r \<longrightarrow> slot_mounted ?m first s' \<or> slot_mounted ?m second s')
    \<and> (r = FS_DISK_LOADED \<longrightarrow> slot_mounted ?m first s' \<and> \<not> io \<and> \<not> nb \<and> \<not> amb)
    \<and> (\<not> is_loaded r \<longrightarrow> reworks media dev_ok {} s s')
    \<and> (r = FS_DISK_BLANK \<longrightarrow> \<not> io \<and> \<not> nb \<and> \<not> v1 \<and> \<not> v2
      \<and> fs_bytes_are_blank (slot_table ?m 0) \<and> fs_bytes_are_blank (slot_table ?m 1))
    \<and> (g_legacy_upgrade_status s' = FS_LEGACY_UPGRADE_AVAILABLE \<longrightarrow>
      g_legacy_upgrade_status s = FS_LEGACY_UPGRADE_AVAILABLE \<or> is_loaded r)
    \<and> (\<not> legacy \<longrightarrow> g_legacy_upgrade_status s' = g_legacy_upgrade_status s)"
  proof cases
    case first
    then show ?thesis
      using unfold x1 by (auto simp: fs_loaded_result_def is_loaded_def mounts_mark mounted_mark mark_none split: if_splits)
  next
    case second
    have "v1" using x2(4)[OF second(1)] second(2) assms(8) by auto
    then have "r1 = Some FS_SLOT_IO_ERROR \<or> r1 = Some FS_SLOT_CORRUPT" using x1(4,7) second(1) by auto
    then show ?thesis
      using unfold second x2[OF second(1)] mounts_trans[OF x1(1)] x1(3)
      by (auto simp: fs_loaded_result_def is_loaded_def mounts_mark mounted_mark mounts_say mounted_say mark_none say_legacy split: if_splits)
  next
    case none
    have rw: "reworks media dev_ok {} s s2" using reworks_trans[OF x1(5)[OF none(1)] x2(5)[OF none(1,2)]] by simp
    have m2: "media (world s2) = ?m" using reworksD(12)[OF rw] by auto
    note x3 = no_slot_loaded_spec[OF reworksD(11)[OF rw] x2(6)[OF none(1)] t3]
    have rw3: "reworks media dev_ok {} s s3" using reworks_trans[OF rw, of "{}" s3 "{}"] x3 by simp
    show ?thesis
      using unfold none x3 rw3 reworks_mounts[OF rw3] reworksD(7)[OF rw3] m2 x1(4,7) x2(4,7)[OF none(1)] by auto
  qed
  then show "mounts media dev_ok s s'"
    "is_loaded r \<Longrightarrow> slot_mounted ?m first s' \<or> slot_mounted ?m second s'"
    "r = FS_DISK_LOADED \<Longrightarrow> slot_mounted ?m first s' \<and> \<not> io \<and> \<not> nb \<and> \<not> amb"
    "\<not> is_loaded r \<Longrightarrow> reworks media dev_ok {} s s'"
    "r = FS_DISK_BLANK \<Longrightarrow> \<not> io \<and> \<not> nb \<and> \<not> v1 \<and> \<not> v2
      \<and> fs_bytes_are_blank (slot_table ?m 0) \<and> fs_bytes_are_blank (slot_table ?m 1)"
    "g_legacy_upgrade_status s' = FS_LEGACY_UPGRADE_AVAILABLE \<Longrightarrow>
      g_legacy_upgrade_status s = FS_LEGACY_UPGRADE_AVAILABLE \<or> is_loaded r"
    "\<not> legacy \<Longrightarrow> g_legacy_upgrade_status s' = g_legacy_upgrade_status s" by blast+
qed

text \<open>Mounting.  A load that is reported as such mounts the committed content of a slot; a load
  reported as trusted mounts the slot the order prefers; any other outcome leaves the view alone,
  and only an entirely blank pair of slots is reported as blank.\<close>

lemma load_spec:
  assumes dev: "dev_ok (world s)" and wf: "wf_table (g_disk_table s)" and files: "files_ok (FILES s)"
    and eq: "fs_load_from_disk E s = (r, s')"
  shows "mounts media dev_ok s s'"
    and "is_loaded r \<Longrightarrow> \<exists>slot. slot_mounted (media (world s)) slot s'"
    and "r = FS_DISK_LOADED \<Longrightarrow> trusted_order (media (world s)) (g_active_slot s') \<and> slot_mounted (media (world s)) (g_active_slot s') s'"
    and "\<not> is_loaded r \<Longrightarrow> FILES s' = FILES s"
    and "r = FS_DISK_BLANK \<Longrightarrow> g_active_slot s' = FS_SLOT_COUNT \<and> g_active_generation s' = 0
      \<and> fs_header_is_blank (slot_header (media (world s)) 0) \<and> fs_header_is_blank (slot_header (media (world s)) 1)
      \<and> fs_bytes_are_blank (slot_table (media (world s)) 0) \<and> fs_bytes_are_blank (slot_table (media (world s)) 1)"
    and "g_legacy_upgrade_status s' = FS_LEGACY_UPGRADE_AVAILABLE \<Longrightarrow> is_loaded r"
    and "g_legacy_upgrade_status s' = FS_LEGACY_UPGRADE_AVAILABLE \<Longrightarrow> r \<noteq> FS_DISK_LOADED"
proof -
  let ?m = "media (world s)"
  define s0 where "s0 = s\<lparr>g_legacy_upgrade_status := FS_LEGACY_UPGRADE_UNAVAILABLE\<rparr>"
  obtain ri s1 where i: "disk_init E s0 = (ri, s1)" by fastforce
  have m0: "mounts media dev_ok s s0" by (rule mountsI) (use dev in \<open>simp_all add: s0_def\<close>)
  have q1: "quiet media dev_ok s0 s1" using quiet_init[OF mountsD(6)[OF m0] i] .
  have m1: "mounts media dev_ok s s1" by (rule mounts_trans[OF m0 quiet_mounts[OF q1]])
  define s2 where "s2 = s1\<lparr>g_active_slot := FS_SLOT_COUNT, g_active_generation := 0, g_loaded_version := 0\<rparr>"
  have m2: "mounts media dev_ok s s2" by (rule mountsI) (use mountsD[OF m1] in \<open>simp_all add: s2_def\<close>)
  obtain v0 h0 b0 i0 s3 where h3: "scan_header E 0 s2 = ((v0, h0, b0, i0), s3)" by (metis prod.collapse)
  note x3 = scan_header_spec[OF mountsD(6)[OF m2] _ h3, unfolded mountsD(7)[OF m2], simplified]
  have q3: "quiet media dev_ok s2 s3" using x3 by blast
  have m3: "mounts media dev_ok s s3" by (rule mounts_trans[OF m2 quiet_mounts[OF q3]])
  obtain v1 h1 b1 i1 s4 where h4: "scan_header E 1 s3 = ((v1, h1, b1, i1), s4)" by (metis prod.collapse)
  note x4 = scan_header_spec[OF mountsD(6)[OF m3] _ h4, unfolded mountsD(7)[OF m3], simplified]
  have q4: "quiet media dev_ok s3 s4" using x4 by blast
  have m4: "mounts media dev_ok s s4" by (rule mounts_trans[OF m3 quiet_mounts[OF q4]])
  obtain leg prot i2 s5 where a5: "slot_order_ambiguity E v0 h0 v1 h1 s4 = ((leg, prot, i2), s5)" by (metis prod.collapse)
  note x5 = ambiguity_spec[OF mountsD(6)[OF m4] a5, unfolded mountsD(7)[OF m4]]
  have m5: "mounts media dev_ok s s5" by (rule mounts_trans[OF m4 quiet_mounts[OF x5(1)]])
  have q: "quiet media dev_ok s2 s5" using quiet_trans[OF q3 quiet_trans[OF q4 x5(1)]] .
  note dq = quietD[OF q]
  have st5: "FILES s5 = FILES s" "g_active_slot s5 = FS_SLOT_COUNT" "g_active_generation s5 = 0"
    "g_legacy_upgrade_status s5 = FS_LEGACY_UPGRADE_UNAVAILABLE"
    using dq quietD[OF q1] by (simp_all add: s2_def s0_def)
  have wf5: "wf_table (g_disk_table s5)" "files_ok (FILES s5)" using mountsD(8)[OF m5 wf] files st5 by simp_all
  let ?ssf = "second_slot_first v0 h0 v1 h1"
  let ?first = "if ?ssf then 1 else 0 :: u8"
  have unfold: "(r, s') = (if ri = ATA_INIT_NO_DEVICE then (FS_DISK_NO_DRIVE, s1) else if ri \<noteq> ATA_INIT_READY then (FS_DISK_IO_ERROR, s1)
      else if ?ssf then load_slots E 1 v1 h1 0 v0 h0 (i0 \<or> i1 \<or> i2) (b0 \<or> b1) leg (leg \<or> prot) s5
      else load_slots E 0 v0 h0 1 v1 h1 (i0 \<or> i1 \<or> i2) (b0 \<or> b1) leg (leg \<or> prot) s5)"
    using eq[symmetric]
    by (simp only: fs_load_from_disk_def Let_def s0_def[symmetric] i s2_def[symmetric] h3 h4 a5 prod.case)
  have m': "media (world s5) = ?m" by (rule mountsD(7)[OF m5])
  have hv: "v0 \<longrightarrow> h0 = slot_header ?m 0 \<and> fs_header_is_valid h0" "v1 \<longrightarrow> h1 = slot_header ?m 1 \<and> fs_header_is_valid h1"
    using x3 x4 by blast+
  have ord: "\<not> ?ssf \<Longrightarrow> v1 \<longrightarrow> v0" "?ssf \<Longrightarrow> v0 \<longrightarrow> v1" by (auto simp: second_slot_first_def)
  have clean: "h0 = slot_header ?m 0" "v0 = fs_header_is_valid h0" "b0 = header_damaged h0"
    "h1 = slot_header ?m 1" "v1 = fs_header_is_valid h1" "b1 = header_damaged h1" "(leg \<or> prot) = order_ambiguous ?m"
    if "\<not> (i0 \<or> i1 \<or> i2)"
    using that x3 x4 x5(3) by auto
  have trusted: "trusted_order ?m ?first" if "\<not> (i0 \<or> i1 \<or> i2)" "\<not> (b0 \<or> b1)" "\<not> (leg \<or> prot)"
    using clean[OF that(1)] that by (auto simp: trusted_order_def preferred_slot_def)
  have blank: "fs_header_is_blank (slot_header ?m 0) \<and> fs_header_is_blank (slot_header ?m 1)"
    if "\<not> (i0 \<or> i1 \<or> i2)" "\<not> (b0 \<or> b1)" "\<not> v0" "\<not> v1"
    using clean[OF that(1)] that by (auto simp: header_damaged_def)
  have all: "mounts media dev_ok s s' \<and> (is_loaded r \<longrightarrow> (\<exists>slot. slot_mounted ?m slot s'))
    \<and> (r = FS_DISK_LOADED \<longrightarrow> trusted_order ?m ?first \<and> slot_mounted ?m ?first s')
    \<and> (\<not> is_loaded r \<longrightarrow> FILES s' = FILES s)
    \<and> (r = FS_DISK_BLANK \<longrightarrow> g_active_slot s' = FS_SLOT_COUNT \<and> g_active_generation s' = 0
      \<and> fs_header_is_blank (slot_header ?m 0) \<and> fs_header_is_blank (slot_header ?m 1)
      \<and> fs_bytes_are_blank (slot_table ?m 0) \<and> fs_bytes_are_blank (slot_table ?m 1))
    \<and> (g_legacy_upgrade_status s' = FS_LEGACY_UPGRADE_AVAILABLE \<longrightarrow> is_loaded r \<and> r \<noteq> FS_DISK_LOADED)"
  proof -
    consider (err) "ri \<noteq> ATA_INIT_READY" | (one) "ri = ATA_INIT_READY" ?ssf | (zero) "ri = ATA_INIT_READY" "\<not> ?ssf" by blast
    then show ?thesis
    proof cases
      case err
      then show ?thesis using unfold m1 quietD[OF q1] by (auto simp: s0_def split: if_splits)
    next
      case one
      then have "load_slots E 1 v1 h1 0 v0 h0 (i0 \<or> i1 \<or> i2) (b0 \<or> b1) leg (leg \<or> prot) s5 = (r, s')" using unfold by simp
      note l = load_slots_spec[OF dq(12) _ _ wf5 _ _ ord(2)[OF one(2)] this, unfolded m', OF _ _ hv(2,1)]
      show ?thesis
        using l trusted blank one mounts_trans[OF m5 l(1)] reworksD(1,3,4)[OF l(4)] st5 by auto
    next
      case zero
      then have "load_slots E 0 v0 h0 1 v1 h1 (i0 \<or> i1 \<or> i2) (b0 \<or> b1) leg (leg \<or> prot) s5 = (r, s')" using unfold by simp
      note l = load_slots_spec[OF dq(12) _ _ wf5 _ _ ord(1)[OF zero(2)] this, unfolded m', OF _ _ hv]
      show ?thesis
        using l trusted blank zero mounts_trans[OF m5 l(1)] reworksD(1,3,4)[OF l(4)] st5 by auto
    qed
  qed
  then show "mounts media dev_ok s s'" "is_loaded r \<Longrightarrow> \<exists>slot. slot_mounted ?m slot s'"
    "\<not> is_loaded r \<Longrightarrow> FILES s' = FILES s"
    "r = FS_DISK_BLANK \<Longrightarrow> g_active_slot s' = FS_SLOT_COUNT \<and> g_active_generation s' = 0
      \<and> fs_header_is_blank (slot_header ?m 0) \<and> fs_header_is_blank (slot_header ?m 1)
      \<and> fs_bytes_are_blank (slot_table ?m 0) \<and> fs_bytes_are_blank (slot_table ?m 1)"
    "g_legacy_upgrade_status s' = FS_LEGACY_UPGRADE_AVAILABLE \<Longrightarrow> is_loaded r"
    "g_legacy_upgrade_status s' = FS_LEGACY_UPGRADE_AVAILABLE \<Longrightarrow> r \<noteq> FS_DISK_LOADED" by blast+
  show "r = FS_DISK_LOADED \<Longrightarrow> trusted_order ?m (g_active_slot s') \<and> slot_mounted ?m (g_active_slot s') s'"
    using all by (auto simp: slot_mounted_def)
qed

end

end
