(* ===== verification/Fs_Ops.thy ===== *)
theory Fs_Ops
  imports Fs_Commit
begin

text \<open>
  The operations of \<open>src/kernel/fs.c\<close> on the mounted view: lookup, creation, write, append,
  rename and remove with rollback, the virtual \<open>system.log\<close>, boot (\<open>fs_init\<close>), the explicit
  legacy upgrade and the persistence self-test.  A \<open>struct fs_file*\<close> into \<open>FILES\<close> is an index;
  a NULL pointer is \<open>None\<close>.
\<close>

section \<open>Names\<close>

definition system_managed_names :: "string list" where
  "system_managed_names = [''hello.elf'', ''fault-probe.elf'', ''hang-probe.elf'', ''rflags-probe.elf'',
     ''stack-probe.elf'', ''calculator.elf'', ''notepad.elf'', ''image-viewer.elf'', ''ai-assistant.elf'',
     ''browser.elf'', ''system-apps.db'']"

definition fs_name_is_system_managed :: "bytes option \<Rightarrow> bool" where
  "fs_name_is_system_managed nm =
     (case nm of None \<Rightarrow> False | Some n \<Rightarrow> list_ex (\<lambda>m. kstrcmp n (lit m) = 0) system_managed_names)"

definition fs_name_is_system_log :: "bytes option \<Rightarrow> bool" where
  "fs_name_is_system_log nm = (case nm of None \<Rightarrow> False | Some n \<Rightarrow> kstrcmp n (lit ''system.log'') = 0)"

definition fs_name_is_self_test_file :: "bytes option \<Rightarrow> bool" where
  "fs_name_is_self_test_file nm =
     (case nm of None \<Rightarrow> False
      | Some n \<Rightarrow> kstrcmp n (lit ''__fs_self_test__'') = 0 \<or> kstrcmp n (lit ''__fs_self_renamed__'') = 0)"

definition FS_SELF_TEST_PAYLOAD :: bytes where
  "FS_SELF_TEST_PAYLOAD = [0x42, 0x00, 0x4D, 0xFF]"

definition fs_file_is_self_test_artifact :: "fs_file option \<Rightarrow> bool" where
  "fs_file_is_self_test_artifact file =
     (case file of None \<Rightarrow> False
      | Some f \<Rightarrow>
          if \<not> f_in_use f \<or> \<not> fs_name_is_self_test_file (Some (f_name f)) \<or> f_size f \<noteq> length FS_SELF_TEST_PAYLOAD
          then False
          else list_all (\<lambda>i. f_data f ! i = FS_SELF_TEST_PAYLOAD ! i) [0..<length FS_SELF_TEST_PAYLOAD])"

section \<open>The file table\<close>

definition fs_find_mutable :: "bytes option \<Rightarrow> 'w fs_state \<Rightarrow> nat option" where
  "fs_find_mutable nm s =
     (case nm of None \<Rightarrow> None
      | Some n \<Rightarrow> find_idx (\<lambda>f. f_in_use f \<and> kstrcmp (f_name f) n = 0) (FILES s))"

definition fs_allocate_slot :: "'w fs_state \<Rightarrow> nat option" where
  "fs_allocate_slot s = find_idx (\<lambda>f. \<not> f_in_use f) (FILES s)"

definition upd_file :: "nat \<Rightarrow> (fs_file \<Rightarrow> fs_file) \<Rightarrow> 'w fs_state \<Rightarrow> 'w fs_state" where
  "upd_file i f s = s\<lparr>FILES := (FILES s)[i := f (FILES s ! i)]\<rparr>"

definition fs_clear_self_test_artifacts :: "'w fs_state \<Rightarrow> bool \<times> 'w fs_state" where
  "fs_clear_self_test_artifacts s =
     (list_ex (\<lambda>f. fs_file_is_self_test_artifact (Some f)) (FILES s),
      s\<lparr>FILES := map (\<lambda>f. if fs_file_is_self_test_artifact (Some f) then fs_clear f else f) (FILES s)\<rparr>)"

text \<open>\<open>fs_recovered_self_test_name\<close> and \<open>fs_recovered_log_name\<close>: the bytes stored in the
  caller's \<open>output\<close> array.\<close>

definition recovered_name :: "string \<Rightarrow> string \<Rightarrow> string \<Rightarrow> nat \<Rightarrow> bytes" where
  "recovered_name base0 base suffix attempt =
     (let out = cstr_run (FS_MAX_FILENAME - 1) (lit (if attempt = 0 then base0 else base))
      in if attempt = 0 then out @ [0]
         else
           let out = (if attempt \<ge> 10 then out @ [48 + of_nat (attempt div 10 mod 10)] else out);
               out = out @ [48 + of_nat (attempt mod 10)];
               out = out @ cstr_run (FS_MAX_FILENAME - 1 - length out) (lit suffix)
           in out @ [0])"

definition fs_recovered_self_test_name :: "nat \<Rightarrow> bytes" where
  "fs_recovered_self_test_name = recovered_name ''recovered-fs-test.bin'' ''recovered-fs-test-'' ''.bin''"

definition fs_recovered_log_name :: "nat \<Rightarrow> bytes" where
  "fs_recovered_log_name = recovered_name ''recovered-system-log.txt'' ''recovered-system-log-'' ''.txt''"

text \<open>The attempt loops: rename file \<open>i\<close> to the first candidate no file has.\<close>

fun recover_name :: "(nat \<Rightarrow> bytes) \<Rightarrow> nat \<Rightarrow> nat list \<Rightarrow> 'w fs_state \<Rightarrow> bool \<times> 'w fs_state" where
  "recover_name candidate i [] s = (False, s)"
| "recover_name candidate i (attempt # attempts) s =
     (if fs_find_mutable (Some (candidate attempt)) s = None
      then (True, upd_file i (\<lambda>f. fs_copy_name f (candidate attempt)) s)
      else recover_name candidate i attempts s)"

fun quarantine_files :: "nat list \<Rightarrow> 'w fs_state \<Rightarrow> bool \<times> 'w fs_state" where
  "quarantine_files [] s = (False, s)"
| "quarantine_files (i # is) s =
     (if \<not> fs_file_is_self_test_artifact (Some (FILES s ! i)) then quarantine_files is s
      else
        let (renamed, s) = recover_name fs_recovered_self_test_name i [0..<FS_MAX_FILES + 1] s;
            (changed, s) = quarantine_files is s
        in (renamed \<or> changed, s))"

definition fs_quarantine_self_test_artifacts :: "'w fs_state \<Rightarrow> bool \<times> 'w fs_state" where
  "fs_quarantine_self_test_artifacts s = quarantine_files [0..<FS_MAX_FILES] s"

definition fs_quarantine_physical_system_log :: "'w fs_state \<Rightarrow> bool \<times> 'w fs_state" where
  "fs_quarantine_physical_system_log s =
     (case fs_find_mutable (Some (lit ''system.log'')) s of
        None \<Rightarrow> (False, s)
      | Some i \<Rightarrow> recover_name fs_recovered_log_name i [0..<FS_MAX_FILES + 1] s)"

definition fs_activate_virtual_system_log :: "'w fs_state \<Rightarrow> 'w fs_state" where
  "fs_activate_virtual_system_log s =
     s\<lparr>g_virtual_system_log := fs_copy_name ((fs_clear (g_virtual_system_log s))\<lparr>f_in_use := True\<rparr>) (lit ''system.log''),
       g_system_log_is_virtual := True\<rparr>"

definition fs_refresh_system_log :: "'w fs_env \<Rightarrow> 'w fs_state \<Rightarrow> 'w fs_state" where
  "fs_refresh_system_log E s =
     (if \<not> g_system_log_is_virtual s then s
      else
        let (n, data) = env_syslog_copy_text E (f_data (g_virtual_system_log s)) FS_MAX_FILE_SIZE (world s)
        in s\<lparr>g_virtual_system_log := (g_virtual_system_log s)\<lparr>f_size := n, f_data := data\<rparr>\<rparr>)"

section \<open>Seeding\<close>

text \<open>Store \<open>len\<close> bytes and a terminator, then the size.\<close>

definition set_contents :: "bytes option \<Rightarrow> nat \<Rightarrow> fs_file \<Rightarrow> fs_file" where
  "set_contents contents len f =
     f\<lparr>f_data := blit (f_data f) 0 (take len (case contents of None \<Rightarrow> [] | Some b \<Rightarrow> b) @ [0]), f_size := len\<rparr>"

definition fs_seed_bytes :: "bytes option \<Rightarrow> bytes option \<Rightarrow> nat \<Rightarrow> 'w fs_state \<Rightarrow> bool \<times> 'w fs_state" where
  "fs_seed_bytes nm contents len s =
     (if \<not> fs_is_valid_name nm \<or> (contents = None \<and> len \<noteq> 0) \<or> len \<ge> FS_MAX_FILE_SIZE then (False, s)
      else
        case fs_find_mutable nm s of
          Some i \<Rightarrow> (True, upd_file i (set_contents contents len) s)
        | None \<Rightarrow>
            (case fs_allocate_slot s of
               None \<Rightarrow> (False, s)
             | Some i \<Rightarrow>
                 (True, upd_file i (set_contents contents len)
                          (upd_file i (\<lambda>f. fs_copy_name (f\<lparr>f_in_use := True\<rparr>) (the nm)) s))))"

definition fs_seed_file :: "bytes option \<Rightarrow> bytes option \<Rightarrow> 'w fs_state \<Rightarrow> bool \<times> 'w fs_state" where
  "fs_seed_file nm contents s =
     (case contents of None \<Rightarrow> (False, s) | Some c \<Rightarrow> fs_seed_bytes nm contents (kstrlen c) s)"

abbreviation DEFAULT_BMP_WIDTH :: nat where "DEFAULT_BMP_WIDTH \<equiv> 17"
abbreviation DEFAULT_BMP_HEIGHT :: nat where "DEFAULT_BMP_HEIGHT \<equiv> 17"
abbreviation DEFAULT_BMP_ROW_STRIDE :: nat where "DEFAULT_BMP_ROW_STRIDE \<equiv> 52"
abbreviation DEFAULT_BMP_PIXEL_OFFSET :: nat where "DEFAULT_BMP_PIXEL_OFFSET \<equiv> 54"
abbreviation DEFAULT_BMP_SIZE :: nat where "DEFAULT_BMP_SIZE \<equiv> 938"

definition bmp_header :: "bytes" where
  "bmp_header =
     blit (blit (blit (blit (blit (blit (blit (blit (blit (blit (blit (blit
       (replicate DEFAULT_BMP_SIZE 0) 0 [66]) 1 [77])
       2 (le32_bytes (of_nat DEFAULT_BMP_SIZE))) 10 (le32_bytes (of_nat DEFAULT_BMP_PIXEL_OFFSET)))
       14 (le32_bytes 40)) 18 (le32_bytes (of_nat DEFAULT_BMP_WIDTH))) 22 (le32_bytes (of_nat DEFAULT_BMP_HEIGHT)))
       26 (le16_bytes 1)) 28 (le16_bytes 24))
       34 (le32_bytes (of_nat (DEFAULT_BMP_ROW_STRIDE * DEFAULT_BMP_HEIGHT)))) 38 (le32_bytes 2835)) 42 (le32_bytes 2835)"

definition bmp_pixel :: "nat \<Rightarrow> nat \<Rightarrow> bytes" where
  "bmp_pixel x y =
     (let logo = (2 \<le> y \<and> y \<le> 14 \<and> (x = 3 \<or> x = 13 \<or> (y \<le> x + 1 \<and> x \<le> y + 1)));
          border = (x = 0 \<or> x = DEFAULT_BMP_WIDTH - 1 \<or> y = 0 \<or> y = DEFAULT_BMP_HEIGHT - 1)
      in if logo then [196, 238, 86] else if border then [148, 126, 36]
         else [of_nat (58 + (x + y) * 2), of_nat (28 + y * 4), of_nat (12 + x * 3)])"

definition bmp_row :: "nat \<Rightarrow> bytes \<Rightarrow> bytes" where
  "bmp_row y bmp =
     foldl (\<lambda>bmp x. blit bmp (DEFAULT_BMP_PIXEL_OFFSET + (DEFAULT_BMP_HEIGHT - 1 - y) * DEFAULT_BMP_ROW_STRIDE + x * 3) (bmp_pixel x y))
       bmp [0..<DEFAULT_BMP_WIDTH]"

definition default_bmp :: bytes where
  "default_bmp = foldl (\<lambda>bmp y. bmp_row y bmp) bmp_header [0..<DEFAULT_BMP_HEIGHT]"

definition fs_seed_default_bmp :: "'w fs_state \<Rightarrow> bool \<times> 'w fs_state" where
  "fs_seed_default_bmp s = fs_seed_bytes (Some (lit ''nostalux.bmp'')) (Some default_bmp) DEFAULT_BMP_SIZE s"

section \<open>Status\<close>

definition fs_backend_is_persistent :: "'w fs_state \<Rightarrow> bool" where
  "fs_backend_is_persistent s = (g_backend_status s = FS_BACKEND_PERSISTENT)"

definition fs_backend_status_text :: "'w fs_state \<Rightarrow> string" where
  "fs_backend_status_text s =
     (case g_backend_status s of
        FS_BACKEND_PERSISTENT \<Rightarrow> ''Persistent ATA storage''
      | FS_BACKEND_VOLATILE_NO_DRIVE \<Rightarrow> ''Volatile memory (no ATA drive)''
      | FS_BACKEND_VOLATILE_CORRUPT \<Rightarrow>
          if g_legacy_upgrade_status s = FS_LEGACY_UPGRADE_AVAILABLE
          then ''Volatile memory (legacy snapshots differ; run fsupgrade)''
          else if g_legacy_upgrade_status s = FS_LEGACY_UPGRADE_OUTCOME_UNCERTAIN
          then ''Volatile memory (legacy upgrade unverified; reboot)''
          else ''Volatile memory (corrupt disk preserved)''
      | FS_BACKEND_VOLATILE_IO_ERROR \<Rightarrow> ''Volatile memory (storage I/O error)''
      | FS_BACKEND_UNINITIALIZED \<Rightarrow> ''Filesystem not initialized'')"

definition fs_legacy_upgrade_status_text :: "'w fs_state \<Rightarrow> string" where
  "fs_legacy_upgrade_status_text s =
     (case g_legacy_upgrade_status s of
        FS_LEGACY_UPGRADE_AVAILABLE \<Rightarrow> ''Legacy snapshots differ; explicit recovery upgrade available''
      | FS_LEGACY_UPGRADE_OUTCOME_UNCERTAIN \<Rightarrow> ''Legacy upgrade outcome is unverified; reboot before retrying''
      | FS_LEGACY_UPGRADE_UNAVAILABLE \<Rightarrow> ''No legacy recovery upgrade is available'')"

datatype fs_legacy_upgrade_result = FS_LEGACY_UPGRADE_SUCCEEDED | FS_LEGACY_UPGRADE_NOT_AVAILABLE
  | FS_LEGACY_UPGRADE_CONFIRMATION_REQUIRED | FS_LEGACY_UPGRADE_FAILED | FS_LEGACY_UPGRADE_UNCERTAIN

definition fs_upgrade_legacy_snapshot ::
  "'w fs_env \<Rightarrow> bytes option \<Rightarrow> 'w fs_state \<Rightarrow> fs_legacy_upgrade_result \<times> 'w fs_state" where
  "fs_upgrade_legacy_snapshot E confirmation s =
     (if g_legacy_upgrade_status s \<noteq> FS_LEGACY_UPGRADE_AVAILABLE \<or>
         g_backend_status s \<noteq> FS_BACKEND_VOLATILE_CORRUPT \<or>
         g_active_slot s \<ge> FS_SLOT_COUNT \<or> g_loaded_version s \<ge> FS_DISK_VERSION
      then (FS_LEGACY_UPGRADE_NOT_AVAILABLE, s)
      else if (case confirmation of None \<Rightarrow> True | Some c \<Rightarrow> kstrcmp c (lit ''CONFIRM-LEGACY-SNAPSHOT'') \<noteq> 0)
      then (FS_LEGACY_UPGRADE_CONFIRMATION_REQUIRED, s)
      else
        let (result, s) = fs_sync_to_disk_verified E True s
        in if result = FS_SYNC_COMMITTED
           then (FS_LEGACY_UPGRADE_SUCCEEDED,
                 fs_say E ''FS: explicitly upgraded recovered legacy snapshot to verified v5 metadata''
                   (s\<lparr>g_backend_status := FS_BACKEND_PERSISTENT,
                      g_legacy_upgrade_status := FS_LEGACY_UPGRADE_UNAVAILABLE\<rparr>))
           else if result = FS_SYNC_UNCERTAIN
           then (FS_LEGACY_UPGRADE_UNCERTAIN,
                 fs_say E ''FS: legacy upgrade outcome could not be verified; reboot required''
                   (s\<lparr>g_legacy_upgrade_status := FS_LEGACY_UPGRADE_OUTCOME_UNCERTAIN\<rparr>))
           else (FS_LEGACY_UPGRADE_FAILED,
                 fs_say E ''FS: legacy upgrade failed; selected legacy snapshot remains mounted read-only'' s))"

section \<open>The public view\<close>

definition fs_hidden :: "'w fs_state \<Rightarrow> fs_file \<Rightarrow> bool" where
  "fs_hidden s f = (\<not> f_in_use f \<or> fs_file_is_self_test_artifact (Some f)
     \<or> (g_system_log_is_virtual s \<and> fs_name_is_system_log (Some (f_name f))))"

definition fs_file_count :: "'w fs_state \<Rightarrow> nat" where
  "fs_file_count s =
     foldl (\<lambda>count f. if f_in_use f \<and> \<not> fs_file_is_self_test_artifact (Some f) \<and>
                         \<not> (g_system_log_is_virtual s \<and> fs_name_is_system_log (Some (f_name f)))
                      then count + 1 else count) 0 (FILES s)
     + (if g_system_log_is_virtual s then 1 else 0)"

text \<open>The scan of \<open>fs_file_at\<close>: the file found, or the value of \<open>seen\<close> at the end.\<close>

fun file_at_scan :: "'w fs_state \<Rightarrow> nat \<Rightarrow> fs_file list \<Rightarrow> nat \<Rightarrow> fs_file + nat" where
  "file_at_scan s index [] seen = Inr seen"
| "file_at_scan s index (f # fs) seen =
     (if fs_hidden s f then file_at_scan s index fs seen
      else if seen = index then Inl f
      else file_at_scan s index fs (seen + 1))"

definition fs_file_at :: "'w fs_env \<Rightarrow> nat \<Rightarrow> 'w fs_state \<Rightarrow> fs_file option \<times> 'w fs_state" where
  "fs_file_at E index s =
     (case file_at_scan s index (FILES s) 0 of
        Inl f \<Rightarrow> (Some f, s)
      | Inr seen \<Rightarrow>
          if g_system_log_is_virtual s \<and> seen = index
          then let s = fs_refresh_system_log E s in (Some (g_virtual_system_log s), s)
          else (None, s))"

definition fs_find :: "'w fs_env \<Rightarrow> bytes option \<Rightarrow> 'w fs_state \<Rightarrow> fs_file option \<times> 'w fs_state" where
  "fs_find E nm s =
     (if fs_name_is_system_log nm \<and> g_system_log_is_virtual s
      then let s = fs_refresh_system_log E s in (Some (g_virtual_system_log s), s)
      else
        let file = map_option (\<lambda>i. FILES s ! i) (fs_find_mutable nm s)
        in (if fs_file_is_self_test_artifact file then None else file, s))"

section \<open>Mutations\<close>

definition fs_touch :: "'w fs_env \<Rightarrow> bytes option \<Rightarrow> 'w fs_state \<Rightarrow> bool \<times> 'w fs_state" where
  "fs_touch E nm s =
     (if fs_name_is_system_log nm \<or> fs_name_is_system_managed nm then (False, s)
      else if \<not> fs_is_valid_name nm \<or> (fs_name_is_self_test_file nm \<and> \<not> g_self_test_active s) then (False, s)
      else if fs_find_mutable nm s \<noteq> None then (True, s)
      else
        case fs_allocate_slot s of
          None \<Rightarrow> (False, s)
        | Some slot \<Rightarrow>
            let s = upd_file slot (\<lambda>f. (fs_copy_name (f\<lparr>f_in_use := True\<rparr>) (the nm))
                      \<lparr>f_size := 0, f_data := blit (f_data f) 0 [0]\<rparr>) s;
                (ok, s) = fs_commit_changes E s
            in if \<not> ok then (False, upd_file slot fs_clear s) else (True, s))"

text \<open>The tail \<open>fs_write_bytes_internal\<close>, \<open>fs_append\<close> and \<open>fs_remove_internal\<close> share:
  commit, and put the file back if that fails.\<close>

definition restore_file :: "nat \<Rightarrow> bool \<Rightarrow> 'w fs_state \<Rightarrow> 'w fs_state" where
  "restore_file i existed s =
     (if existed then upd_file i (\<lambda>f. fs_copy_file f (g_mutation_backup s)) s else upd_file i fs_clear s)"

definition commit_or_restore :: "'w fs_env \<Rightarrow> nat \<Rightarrow> bool \<Rightarrow> 'w fs_state \<Rightarrow> bool \<times> 'w fs_state" where
  "commit_or_restore E i existed s =
     (let (ok, s) = fs_commit_changes E s
      in if \<not> ok then (False, restore_file i existed s) else (True, s))"

text \<open>Find the file and save it for rollback, or claim a free slot for it.\<close>

definition backup_file :: "nat \<Rightarrow> 'w fs_state \<Rightarrow> 'w fs_state" where
  "backup_file i s = s\<lparr>g_mutation_backup := fs_copy_file (g_mutation_backup s) (FILES s ! i)\<rparr>"

definition open_for_write :: "bytes \<Rightarrow> 'w fs_state \<Rightarrow> (nat \<times> bool \<times> 'w fs_state) option" where
  "open_for_write n s =
     (case fs_find_mutable (Some n) s of
        Some i \<Rightarrow> Some (i, True, backup_file i s)
      | None \<Rightarrow>
          (case fs_allocate_slot s of
             None \<Rightarrow> None
           | Some i \<Rightarrow> Some (i, False, upd_file i (\<lambda>f. fs_copy_name ((fs_clear f)\<lparr>f_in_use := True\<rparr>) n) s)))"

definition fs_write_bytes_internal ::
  "'w fs_env \<Rightarrow> bytes option \<Rightarrow> bytes option \<Rightarrow> nat \<Rightarrow> bool \<Rightarrow> 'w fs_state \<Rightarrow> bool \<times> 'w fs_state" where
  "fs_write_bytes_internal E nm contents len allow_system s =
     (if \<not> fs_is_valid_name nm \<or> fs_name_is_system_log nm \<or> (\<not> allow_system \<and> fs_name_is_system_managed nm) \<or>
         (fs_name_is_self_test_file nm \<and> \<not> g_self_test_active s) \<or>
         (contents = None \<and> len \<noteq> 0) \<or> len \<ge> FS_MAX_FILE_SIZE
      then (False, s)
      else
        case open_for_write (the nm) s of
          None \<Rightarrow> (False, s)
        | Some (i, existed, s) \<Rightarrow> commit_or_restore E i existed (upd_file i (set_contents contents len) s))"

definition fs_write_bytes :: "'w fs_env \<Rightarrow> bytes option \<Rightarrow> bytes option \<Rightarrow> nat \<Rightarrow> 'w fs_state \<Rightarrow> bool \<times> 'w fs_state" where
  "fs_write_bytes E nm contents len s = fs_write_bytes_internal E nm contents len False s"

definition fs_system_write_bytes ::
  "'w fs_env \<Rightarrow> bytes option \<Rightarrow> bytes option \<Rightarrow> nat \<Rightarrow> 'w fs_state \<Rightarrow> bool \<times> 'w fs_state" where
  "fs_system_write_bytes E nm contents len s =
     (if \<not> fs_name_is_system_managed nm then (False, s) else fs_write_bytes_internal E nm contents len True s)"

definition fs_write :: "'w fs_env \<Rightarrow> bytes option \<Rightarrow> bytes option \<Rightarrow> 'w fs_state \<Rightarrow> bool \<times> 'w fs_state" where
  "fs_write E nm contents s =
     (case contents of None \<Rightarrow> (False, s) | Some c \<Rightarrow> fs_write_bytes E nm contents (kstrlen c) s)"

definition append_contents :: "bytes \<Rightarrow> nat \<Rightarrow> fs_file \<Rightarrow> fs_file" where
  "append_contents c len f =
     f\<lparr>f_data := blit (f_data f) (f_size f) (take len c @ [0]), f_size := f_size f + len\<rparr>"

definition fs_append :: "'w fs_env \<Rightarrow> bytes option \<Rightarrow> bytes option \<Rightarrow> 'w fs_state \<Rightarrow> bool \<times> 'w fs_state" where
  "fs_append E nm contents s =
     (if \<not> fs_is_valid_name nm \<or> fs_name_is_system_log nm \<or> fs_name_is_system_managed nm \<or>
         (fs_name_is_self_test_file nm \<and> \<not> g_self_test_active s) \<or> contents = None
      then (False, s)
      else
        let len = kstrlen (the contents)
        in if len \<ge> FS_MAX_FILE_SIZE then (False, s)
           else
             case open_for_write (the nm) s of
               None \<Rightarrow> (False, s)
             | Some (i, existed, s) \<Rightarrow>
                 if len > szsub (FS_MAX_FILE_SIZE - 1) (f_size (FILES s ! i))
                 then (False, if existed then s else upd_file i fs_clear s)
                 else commit_or_restore E i existed (upd_file i (append_contents (the contents) len) s))"

definition fs_rename_internal ::
  "'w fs_env \<Rightarrow> bytes option \<Rightarrow> bytes option \<Rightarrow> bool \<Rightarrow> 'w fs_state \<Rightarrow> bool \<times> 'w fs_state" where
  "fs_rename_internal E old_name new_name allow_system s =
     (if \<not> fs_is_valid_name old_name \<or> \<not> fs_is_valid_name new_name then (False, s)
      else if fs_name_is_system_log old_name \<or> fs_name_is_system_log new_name then (False, s)
      else if \<not> allow_system \<and> (fs_name_is_system_managed old_name \<or> fs_name_is_system_managed new_name) then (False, s)
      else if fs_name_is_self_test_file new_name \<and> \<not> g_self_test_active s then (False, s)
      else
        case fs_find_mutable old_name s of
          None \<Rightarrow> (False, s)
        | Some i \<Rightarrow>
            if fs_name_is_self_test_file old_name \<and> \<not> g_self_test_active s \<and>
               fs_file_is_self_test_artifact (Some (FILES s ! i)) then (False, s)
            else if kstrcmp (the old_name) (the new_name) = 0 then (True, s)
            else if fs_find_mutable new_name s \<noteq> None then (False, s)
            else
              let previous_name = cstr_run (FS_MAX_FILENAME - 1) (f_name (FILES s ! i)) @ [0];
                  s = upd_file i (\<lambda>f. fs_copy_name f (the new_name)) s;
                  (ok, s) = fs_commit_changes E s
              in if \<not> ok then (False, upd_file i (\<lambda>f. fs_copy_name f previous_name) s) else (True, s))"

definition fs_rename :: "'w fs_env \<Rightarrow> bytes option \<Rightarrow> bytes option \<Rightarrow> 'w fs_state \<Rightarrow> bool \<times> 'w fs_state" where
  "fs_rename E old_name new_name s = fs_rename_internal E old_name new_name False s"

definition fs_system_rename :: "'w fs_env \<Rightarrow> bytes option \<Rightarrow> bytes option \<Rightarrow> 'w fs_state \<Rightarrow> bool \<times> 'w fs_state" where
  "fs_system_rename E old_name new_name s =
     (if \<not> fs_name_is_system_managed old_name \<or> fs_name_is_system_managed new_name then (False, s)
      else fs_rename_internal E old_name new_name True s)"

definition fs_remove_internal :: "'w fs_env \<Rightarrow> bytes option \<Rightarrow> bool \<Rightarrow> 'w fs_state \<Rightarrow> bool \<times> 'w fs_state" where
  "fs_remove_internal E nm allow_system s =
     (if fs_name_is_system_log nm then (False, s)
      else if \<not> allow_system \<and> fs_name_is_system_managed nm then (False, s)
      else
        case fs_find_mutable nm s of
          None \<Rightarrow> (False, s)
        | Some i \<Rightarrow>
            if fs_name_is_self_test_file nm \<and> \<not> g_self_test_active s \<and>
               fs_file_is_self_test_artifact (Some (FILES s ! i)) then (False, s)
            else commit_or_restore E i True (upd_file i fs_clear (backup_file i s)))"

definition fs_remove :: "'w fs_env \<Rightarrow> bytes option \<Rightarrow> 'w fs_state \<Rightarrow> bool \<times> 'w fs_state" where
  "fs_remove E nm s = fs_remove_internal E nm False s"

definition fs_system_remove :: "'w fs_env \<Rightarrow> bytes option \<Rightarrow> 'w fs_state \<Rightarrow> bool \<times> 'w fs_state" where
  "fs_system_remove E nm s =
     (if \<not> fs_name_is_system_managed nm then (False, s) else fs_remove_internal E nm True s)"

section \<open>The persistence self-test\<close>

definition fs_self_test_reload :: "'w fs_env \<Rightarrow> string \<Rightarrow> 'w fs_state \<Rightarrow> bool \<times> 'w fs_state" where
  "fs_self_test_reload E failure_message s =
     (let (result, s) = fs_load_from_disk E s
      in if result = FS_DISK_LOADED then (True, s\<lparr>g_backend_status := FS_BACKEND_PERSISTENT\<rparr>)
         else
           let s = s\<lparr>g_backend_status :=
                 (if result = FS_DISK_NO_DRIVE then FS_BACKEND_VOLATILE_NO_DRIVE
                  else if result = FS_DISK_CORRUPT \<or> result = FS_DISK_LOADED_CORRUPT then FS_BACKEND_VOLATILE_CORRUPT
                  else FS_BACKEND_VOLATILE_IO_ERROR)\<rparr>;
               s = snd (fs_clear_self_test_artifacts s)
           in (False, fs_say E failure_message (s\<lparr>g_self_test_active := False\<rparr>)))"

definition fs_self_test_fail :: "'w fs_env \<Rightarrow> string \<Rightarrow> 'w fs_state \<Rightarrow> 'w fs_state" where
  "fs_self_test_fail E message s =
     (let s = snd (fs_clear_self_test_artifacts (s\<lparr>g_backend_status := FS_BACKEND_VOLATILE_IO_ERROR\<rparr>))
      in fs_say E message (s\<lparr>g_self_test_active := False\<rparr>))"

definition file_opt :: "nat option \<Rightarrow> 'w fs_state \<Rightarrow> fs_file option" where
  "file_opt i s = map_option (\<lambda>i. FILES s ! i) i"

definition fs_self_test :: "'w fs_env \<Rightarrow> 'w fs_state \<Rightarrow> 'w fs_state" where
  "fs_self_test E s =
     (let scratch = Some (lit ''__fs_self_test__''); renamed = Some (lit ''__fs_self_renamed__'');
          s = snd (fs_clear_self_test_artifacts (s\<lparr>g_self_test_active := True\<rparr>));
          (ok, s) = fs_write_bytes E scratch (Some FS_SELF_TEST_PAYLOAD) (length FS_SELF_TEST_PAYLOAD) s
      in if \<not> ok then fs_self_test_fail E ''FS: self-test (binary write) failed'' s
      else let (ok, s) = fs_self_test_reload E ''FS: self-test (binary persistence reload) failed'' s
      in if \<not> ok then s
      else if \<not> fs_file_is_self_test_artifact (file_opt (fs_find_mutable scratch s) s)
      then fs_self_test_fail E ''FS: self-test (persisted binary read) failed'' s
      else let (ok, s) = fs_rename E scratch renamed s
      in if \<not> ok \<or> fs_find_mutable scratch s \<noteq> None then fs_self_test_fail E ''FS: self-test (rename) failed'' s
      else let (ok, s) = fs_self_test_reload E ''FS: self-test (rename persistence reload) failed'' s
      in if \<not> ok then s
      else if fs_find_mutable scratch s \<noteq> None then fs_self_test_fail E ''FS: self-test (old name persisted) failed'' s
      else if \<not> fs_file_is_self_test_artifact (file_opt (fs_find_mutable renamed s) s)
      then fs_self_test_fail E ''FS: self-test (renamed read) failed'' s
      else let (ok, s) = fs_remove E renamed s
      in if \<not> ok then fs_self_test_fail E ''FS: self-test (remove) failed'' s
      else let (ok, s) = fs_self_test_reload E ''FS: self-test (remove persistence reload) failed'' s
      in if \<not> ok then s
      else if fs_find_mutable scratch s \<noteq> None \<or> fs_find_mutable renamed s \<noteq> None
      then fs_self_test_fail E ''FS: self-test (persisted remove) failed'' s
      else fs_say E ''FS: persistent reload sequence complete'' (s\<lparr>g_self_test_active := False\<rparr>))"

section \<open>Boot\<close>

definition nl :: string where "nl = [CHR 0x0A]"

text \<open>A volume was mounted: quarantine, migrate, commit what changed.\<close>

definition say_if :: "'w fs_env \<Rightarrow> bool \<Rightarrow> string \<Rightarrow> 'w fs_state \<Rightarrow> 'w fs_state" where
  "say_if E b msg s = (if b then fs_say E msg s else s)"

definition fs_init_mounted :: "'w fs_env \<Rightarrow> fs_disk_load_result \<Rightarrow> 'w fs_state \<Rightarrow> 'w fs_state" where
  "fs_init_mounted E load_result s =
     (let trusted = (load_result = FS_DISK_LOADED); recovered_corrupt = (load_result = FS_DISK_LOADED_CORRUPT);
          mounted_version = g_loaded_version s;
          s = s\<lparr>g_backend_status := (if trusted then FS_BACKEND_PERSISTENT
                  else if recovered_corrupt then FS_BACKEND_VOLATILE_CORRUPT else FS_BACKEND_VOLATILE_IO_ERROR)\<rparr>;
          s = fs_say E (if trusted then ''FS: loaded from persistent storage''
                else if recovered_corrupt then ''FS: recovered a volume while preserving corrupt storage''
                else ''FS: recovered a volume with incomplete header reads'') s;
          (quarantined_test_files, s) = fs_quarantine_self_test_artifacts s;
          had_physical_system_log = (fs_find_mutable (Some (lit ''system.log'')) s \<noteq> None);
          (quarantined_system_log, s) =
            (if had_physical_system_log then fs_quarantine_physical_system_log s else (False, s));
          s = say_if E (had_physical_system_log \<and> \<not> quarantined_system_log)
                ''FS: could not preserve the legacy physical system.log name'' s;
          (added_default_bmp, s) =
            (if trusted \<and> mounted_version < FS_CONTENT_DISK_VERSION \<and> fs_find_mutable (Some (lit ''nostalux.bmp'')) s = None
             then fs_seed_default_bmp s else (False, s));
          needs_integrity_protected_header = (trusted \<and> mounted_version < FS_DISK_VERSION);
          metadata_changed = (quarantined_test_files \<or> quarantined_system_log \<or> added_default_bmp
            \<or> needs_integrity_protected_header)
      in if trusted \<and> metadata_changed
         then
           let (ok, s) = fs_commit_changes E s
           in if ok
              then
                let s = say_if E quarantined_test_files ''FS: preserved stale self-test data under a recovery name'' s;
                    s = say_if E quarantined_system_log ''FS: preserved legacy system.log under a recovery name'' s;
                    s = say_if E added_default_bmp ''FS: installed default BMP image'' s
                in say_if E (needs_integrity_protected_header \<and> fs_backend_is_persistent s)
                     ''FS: upgraded to integrity-protected commit metadata'' s
              else
                let s = (if added_default_bmp
                         then (case fs_find_mutable (Some (lit ''nostalux.bmp'')) s of
                                 None \<Rightarrow> s | Some img \<Rightarrow> upd_file img fs_clear s)
                         else s)
                in fs_say E ''FS: metadata recovery is available for this session only'' s
         else if \<not> trusted
         then
           let s = say_if E (g_legacy_upgrade_status s = FS_LEGACY_UPGRADE_AVAILABLE)
                 ''FS: explicit legacy snapshot upgrade available; run fsupgrade for details'' s;
               s = say_if E quarantined_test_files ''FS: self-test recovery name is session-only'' s
           in say_if E quarantined_system_log ''FS: legacy system.log recovery name is session-only'' s
         else s)"

text \<open>Nothing could be mounted: a fresh view in memory, written out only to blank media.\<close>

definition fs_seed_defaults :: "'w fs_state \<Rightarrow> 'w fs_state" where
  "fs_seed_defaults s =
     (let s = s\<lparr>FILES := map fs_clear (FILES s)\<rparr>;
          s = snd (fs_seed_file (Some (lit ''readme.txt''))
                (Some (lit (''NostaluxOS is a retro-themed playground kernel.'' @ nl
                       @ ''Use 'help' to explore the built-in utilities.'' @ nl))) s);
          s = snd (fs_seed_file (Some (lit ''motd.txt''))
                (Some (lit (''Hold fast to curiosity and keep building!'' @ nl
                       @ ''Type 'history' to revisit previous commands.'' @ nl))) s);
          s = snd (fs_seed_file (Some (lit ''colors.map''))
                (Some (lit (''Color IDs 0-15 follow the standard IBM PC palette.'' @ nl
                       @ ''Run 'palette' to preview swatches.'' @ nl))) s)
      in snd (fs_seed_default_bmp s))"

definition fs_init_fresh :: "'w fs_env \<Rightarrow> fs_disk_load_result \<Rightarrow> 'w fs_state \<Rightarrow> 'w fs_state" where
  "fs_init_fresh E load_result s =
     (let s = fs_seed_defaults s
      in if load_result = FS_DISK_BLANK
         then
           let s = fs_say E ''FS: blank storage detected; mounted fresh volume'' s;
               (format_result, s) = fs_sync_to_disk E s
           in if format_result = FS_SYNC_COMMITTED
              then fs_self_test E (fs_say E ''FS: filesystem formatted and saved''
                     (s\<lparr>g_backend_status := FS_BACKEND_PERSISTENT\<rparr>))
              else fs_say E (if format_result = FS_SYNC_UNCERTAIN
                             then ''FS: format outcome uncertain; continuing on a volatile volume''
                             else ''FS: format failed; continuing on a volatile volume'')
                     (s\<lparr>g_backend_status := FS_BACKEND_VOLATILE_IO_ERROR\<rparr>)
         else if load_result = FS_DISK_NO_DRIVE
         then fs_say E ''FS: no ATA drive; mounted a volatile volume'' (s\<lparr>g_backend_status := FS_BACKEND_VOLATILE_NO_DRIVE\<rparr>)
         else if load_result = FS_DISK_CORRUPT
         then fs_say E ''FS: corrupt storage preserved; mounted a volatile volume'' (s\<lparr>g_backend_status := FS_BACKEND_VOLATILE_CORRUPT\<rparr>)
         else fs_say E ''FS: storage I/O error; mounted a volatile volume without writes''
                (s\<lparr>g_backend_status := FS_BACKEND_VOLATILE_IO_ERROR\<rparr>))"

definition fs_init :: "'w fs_env \<Rightarrow> 'w fs_state \<Rightarrow> 'w fs_state" where
  "fs_init E s =
     (let s = fs_activate_virtual_system_log s; (load_result, s) = fs_load_from_disk E s
      in if load_result = FS_DISK_LOADED \<or> load_result = FS_DISK_LOADED_IO_ERROR \<or> load_result = FS_DISK_LOADED_CORRUPT
         then fs_init_mounted E load_result s
         else fs_init_fresh E load_result s)"

text \<open>The statics at power-on.\<close>

definition fs_boot :: "'w \<Rightarrow> 'w fs_state" where
  "fs_boot w = \<lparr>FILES = replicate FS_MAX_FILES blank_file, g_disk_table = zero_table, g_mutation_backup = blank_file,
     g_active_slot = FS_SLOT_COUNT, g_active_generation = 0, g_loaded_version = 0,
     g_backend_status = FS_BACKEND_UNINITIALIZED, g_legacy_upgrade_status = FS_LEGACY_UPGRADE_UNAVAILABLE,
     g_self_test_active = False, g_virtual_system_log = blank_file, g_system_log_is_virtual = False, world = w\<rparr>"

end
