(* ===== verification/Fs_View.thy ===== *)
theory Fs_View
  imports Fs_Load Fs_Ops
begin

text \<open>
  The abstract filesystem: a finite map from file names to contents.  Each operation works on
  one slot of the file table; the lemmas here say what updating, adding or clearing one slot
  does to the map, and that a slot which is restored gives the old map back.
\<close>

section \<open>Definitions\<close>

definition fs_view :: "fs_file list \<Rightarrow> bytes \<rightharpoonup> bytes" where
  "fs_view files = map_of (fs_listing files)"

abbreviation f_content :: "fs_file \<Rightarrow> bytes" where
  "f_content f \<equiv> take (f_size f) (f_data f)"

section \<open>One slot\<close>

lemma records_of_listing:
  "list_all wf_file files \<Longrightarrow> records_used files = sum_list (map (\<lambda>e. fs_disk_records_needed (length (snd e))) (fs_listing files))"
  by (induction files) (auto simp: records_used_def fs_listing_def fview_def wf_file_def)

lemma records_same_listing:
  "list_all wf_file a \<Longrightarrow> list_all wf_file b \<Longrightarrow> fs_listing a = fs_listing b \<Longrightarrow> records_used a = records_used b"
  by (simp add: records_of_listing)

lemma view_update:
  assumes inv: "distinct (map fst (fs_listing files))" and i: "i < length files"
    and inv': "distinct (map fst (fs_listing (files[i := f])))"
  shows "fs_view (files[i := f]) =
    (let base = (if f_in_use (files ! i) then (fs_view files)(cstr (f_name (files ! i)) := None) else fs_view files)
     in if f_in_use f then base(cstr (f_name f) \<mapsto> f_content f) else base)"
proof -
  let ?A = "fs_listing (take i files)" and ?B = "fs_listing (drop (Suc i) files)"
  have l: "fs_listing files = ?A @ (if f_in_use (files ! i) then [fview (files ! i)] else []) @ ?B"
    by (rule listing_split[OF i])
  have l': "fs_listing (files[i := f]) = ?A @ (if f_in_use f then [fview f] else []) @ ?B"
    by (rule listing_update[OF i])
  have out: "map_of xs k = None" if "k \<notin> fst ` set xs" for xs and k :: bytes
    using that by (simp add: map_of_eq_None_iff)
  have n: "f_in_use (files ! i) \<Longrightarrow> cstr (f_name (files ! i)) \<notin> fst ` set ?A \<union> fst ` set ?B"
    using inv by (auto simp: l image_iff)
  have n': "f_in_use f \<Longrightarrow> cstr (f_name f) \<notin> fst ` set ?A \<union> fst ` set ?B"
    using inv' by (auto simp: l' image_iff)
  show ?thesis
    unfolding fs_view_def l l' Let_def
    using n n' out[of _ ?A] out[of _ ?B]
    by (auto simp: fun_eq_iff fview_def map_add_def split: option.splits)
qed

lemma files_inv_update:
  assumes inv: "files_inv files" and i: "i < length files" and wf: "wf_file f"
    and new: "f_in_use f \<Longrightarrow> \<forall>j < length files. j \<noteq> i \<and> f_in_use (files ! j) \<longrightarrow> cstr (f_name (files ! j)) \<noteq> cstr (f_name f)"
  shows "files_inv (files[i := f])"
proof -
  let ?g = "files[i := f\<lparr>f_in_use := False\<rparr>]"
  have d: "distinct (map fst (fs_listing files))" using inv by (simp add: files_inv_def)
  have "distinct (map fst (fs_listing ?g))" using d by (auto simp: listing_split[OF i] listing_update[OF i])
  moreover have "\<forall>h \<in> set ?g. f_in_use h \<longrightarrow> cstr (f_name h) \<noteq> cstr (f_name f)" if "f_in_use f"
  proof (intro ballI impI)
    fix h assume "h \<in> set ?g" and u: "f_in_use h"
    then obtain j where j: "j < length files" "h = ?g ! j" by (auto simp: in_set_conv_nth)
    then show "cstr (f_name h) \<noteq> cstr (f_name f)" using new[OF that] u by (cases "j = i") auto
  qed
  ultimately have "f_in_use f \<Longrightarrow> distinct (map fst (fs_listing (files[i := f])))"
    using i distinct_insert_file[of i ?g f] by simp
  moreover have "\<not> f_in_use f \<Longrightarrow> distinct (map fst (fs_listing (files[i := f])))"
    using d by (auto simp: listing_split[OF i] listing_update[OF i])
  ultimately show ?thesis
    using inv wf i by (auto simp: files_inv_def list_all_length nth_list_update)
qed

lemma view_clear:
  assumes "files_inv files" and "i < length files" and "\<not> f_in_use f" and "wf_file f"
  shows "files_inv (files[i := f])"
    and "fs_view (files[i := f]) = (if f_in_use (files ! i) then (fs_view files)(cstr (f_name (files ! i)) := None) else fs_view files)"
proof -
  show inv: "files_inv (files[i := f])" by (rule files_inv_update[OF assms(1,2,4)]) (use assms(3) in simp)
  show "fs_view (files[i := f]) = (if f_in_use (files ! i) then (fs_view files)(cstr (f_name (files ! i)) := None) else fs_view files)"
    using view_update[OF _ assms(2), of f] assms(1,3) inv by (simp add: files_inv_def)
qed

section \<open>Searching\<close>

lemma find_mutable_Some:
  assumes "files_inv (FILES s)" and "terminated n" and "fs_find_mutable (Some n) s = Some i"
  shows "i < FS_MAX_FILES" "f_in_use (FILES s ! i)" "cstr (f_name (FILES s ! i)) = cstr n"
    "fs_view (FILES s) (cstr n) = Some (f_content (FILES s ! i))" "wf_file (FILES s ! i)"
    "\<forall>j < FS_MAX_FILES. j \<noteq> i \<and> f_in_use (FILES s ! j) \<longrightarrow> cstr (f_name (FILES s ! j)) \<noteq> cstr n"
proof -
  have f: "i < length (FILES s)" "f_in_use (FILES s ! i)" "kstrcmp (f_name (FILES s ! i)) n = 0"
    using find_idx_SomeD[of _ "FILES s" i] assms(3) by (auto simp: fs_find_mutable_def)
  have wf: "wf_file (FILES s ! j)" if "j < length (FILES s)" for j
    using assms(1) that by (simp add: files_inv_def list_all_length)
  show "i < FS_MAX_FILES" "f_in_use (FILES s ! i)" "wf_file (FILES s ! i)"
    using f wf assms(1) by (simp_all add: files_inv_def)
  show nm: "cstr (f_name (FILES s ! i)) = cstr n"
    using f wf[OF f(1)] assms(2) by (simp add: kstrcmp_eq_0 wf_file_def)
  have d: "distinct (map fst (fs_listing (FILES s)))" using assms(1) by (simp add: files_inv_def)
  have "fview (FILES s ! i) \<in> set (fs_listing (FILES s))"
    using f by (auto simp: fs_listing_def)
  then show "fs_view (FILES s) (cstr n) = Some (f_content (FILES s ! i))"
    using d nm unfolding fs_view_def by (intro map_of_is_SomeI) (simp_all add: fview_def)
  have "fs_view ((FILES s)[i := (FILES s ! i)\<lparr>f_in_use := False\<rparr>]) (cstr n) = None"
    using view_clear(2)[OF assms(1) f(1), of "(FILES s ! i)\<lparr>f_in_use := False\<rparr>"] wf[OF f(1)] f(2) nm by (simp add: wf_file_def)
  then have "cstr n \<notin> set (map fst (fs_listing ((FILES s)[i := (FILES s ! i)\<lparr>f_in_use := False\<rparr>])))"
    by (auto simp: fs_view_def map_of_eq_None_iff)
  then show "\<forall>j < FS_MAX_FILES. j \<noteq> i \<and> f_in_use (FILES s ! j) \<longrightarrow> cstr (f_name (FILES s ! j)) \<noteq> cstr n"
    unfolding listing_names using assms(1)
    by (fastforce simp: files_inv_def in_set_conv_nth nth_list_update image_iff)
qed

lemma find_mutable_None:
  assumes "files_inv (FILES s)" and "terminated n" and "fs_find_mutable (Some n) s = None"
  shows "fs_view (FILES s) (cstr n) = None"
    "\<forall>j < FS_MAX_FILES. f_in_use (FILES s ! j) \<longrightarrow> cstr (f_name (FILES s ! j)) \<noteq> cstr n"
proof -
  have no: "\<forall>f \<in> set (FILES s). f_in_use f \<longrightarrow> cstr (f_name f) \<noteq> cstr n"
    using assms by (auto simp: fs_find_mutable_def files_inv_def list_all_iff wf_file_def kstrcmp_eq_0)
  then have "cstr n \<notin> set (map fst (fs_listing (FILES s)))" unfolding listing_names by auto
  then show "fs_view (FILES s) (cstr n) = None" by (simp add: fs_view_def map_of_eq_None_iff)
  show "\<forall>j < FS_MAX_FILES. f_in_use (FILES s ! j) \<longrightarrow> cstr (f_name (FILES s ! j)) \<noteq> cstr n"
    using no assms(1) by (simp add: files_inv_def)
qed

lemma allocate_Some:
  assumes "files_inv (FILES s)" and "fs_allocate_slot s = Some i"
  shows "i < FS_MAX_FILES" "\<not> f_in_use (FILES s ! i)" "wf_file (FILES s ! i)"
  using find_idx_SomeD[of _ "FILES s" i] assms by (auto simp: fs_allocate_slot_def files_inv_def list_all_length)

section \<open>File contents\<close>

lemma valid_nameD:
  assumes "fs_is_valid_name (Some n)" and "terminated n"
  shows "valid_name (cstr n)" "length (cstr n) < FS_MAX_FILENAME"
  using assms fs_is_valid_name_iff[of n] by (auto simp: valid_name_def)

lemma set_contents_props:
  assumes "wf_file f" and "len < FS_MAX_FILE_SIZE" and "len \<le> length b" and "b = (case c of None \<Rightarrow> [] | Some b \<Rightarrow> b)"
  shows "wf_file (set_contents c len f)" "f_content (set_contents c len f) = take len b"
    "f_in_use (set_contents c len f) = f_in_use f" "f_name (set_contents c len f) = f_name f" "f_size (set_contents c len f) = len"
proof -
  have l: "length (take len b) = len" using assms by simp
  have d: "f_data (set_contents c len f) = blit (f_data f) 0 (take len b @ [0])" by (simp add: set_contents_def assms(4))
  show "f_in_use (set_contents c len f) = f_in_use f" "f_name (set_contents c len f) = f_name f" "f_size (set_contents c len f) = len"
    by (simp_all add: set_contents_def)
  show "f_content (set_contents c len f) = take len b" using l by (simp add: blit_def set_contents_def flip: assms(4))
  have "blit (f_data f) 0 (take len b @ [0]) ! len = 0" using nth_blit_end[of "f_data f" "take len b" 0] l by simp
  then show "wf_file (set_contents c len f)"
    using assms(1,2) l d by (auto simp: wf_file_def set_contents_def length_blit)
qed

lemma append_contents_props:
  assumes "wf_file f" and "f_in_use f" and "len < FS_MAX_FILE_SIZE - f_size f" and "len \<le> length c"
  shows "wf_file (append_contents c len f)" "f_content (append_contents c len f) = f_content f @ take len c"
    "f_in_use (append_contents c len f)" "f_name (append_contents c len f) = f_name f"
proof -
  have l: "length (take len c) = len" and sz: "f_size f + len < FS_MAX_FILE_SIZE" "length (f_data f) = FS_MAX_FILE_SIZE"
    using assms by (auto simp: wf_file_def)
  let ?d = "blit (f_data f) (f_size f) (take len c @ [0])"
  show "f_in_use (append_contents c len f)" "f_name (append_contents c len f) = f_name f"
    using assms(2) by (simp_all add: append_contents_def)
  have len: "length ?d = FS_MAX_FILE_SIZE" using l sz by (simp add: length_blit)
  have "?d ! (f_size f + len) = 0" using l sz by (simp add: nth_blit blit_def nth_append)
  then show "wf_file (append_contents c len f)"
    using assms(1) len sz by (auto simp: wf_file_def append_contents_def)
  show "f_content (append_contents c len f) = f_content f @ take len c"
    using l sz by (simp add: append_contents_def blit_def)
qed

lemma copy_file_id: "wf_file f \<Longrightarrow> wf_file g \<Longrightarrow> fs_copy_file g f = f"
  by (simp add: fs_copy_file_def wf_file_def blit_def)

lemma new_file_props:
  assumes "wf_file f" and "terminated n" and "valid_name (cstr n)"
  shows "wf_file (fs_copy_name ((fs_clear f)\<lparr>f_in_use := True\<rparr>) n)" "f_in_use (fs_copy_name ((fs_clear f)\<lparr>f_in_use := True\<rparr>) n)"
    "cstr (f_name (fs_copy_name ((fs_clear f)\<lparr>f_in_use := True\<rparr>) n)) = cstr n"
    "f_size (fs_copy_name ((fs_clear f)\<lparr>f_in_use := True\<rparr>) n) = 0"
proof -
  let ?g = "(fs_clear f)\<lparr>f_in_use := True\<rparr>"
  show "f_in_use (fs_copy_name ?g n)" "f_size (fs_copy_name ?g n) = 0" by simp_all
  show nm: "cstr (f_name (fs_copy_name ?g n)) = cstr n"
    using assms by (simp add: fs_copy_name_name valid_name_def)
  have "length (f_name (fs_copy_name ?g n)) = FS_MAX_FILENAME" "f_data (fs_copy_name ?g n) = blit (f_data f) 0 [0]"
    using assms(1) by (simp_all add: fs_clear_def wf_file_def length_blit)
  then show "wf_file (fs_copy_name ?g n)"
    using assms nm by (auto simp: wf_file_def length_blit nth_blit)
qed

end
