(* ===== verification/Fs_Inv.thy ===== *)
theory Fs_Inv
  imports Fs_View
begin

text \<open>
  The filesystem invariant and its preservation by the commit: buffers and names are well
  formed, the files fit the 32-record budget, and while the backend is reported as persistent
  the active slot on disk commits exactly the mounted view, in an order no reload can doubt.
\<close>

section \<open>Definitions\<close>

definition fs_ok :: "('w \<Rightarrow> nat \<Rightarrow> bytes) \<Rightarrow> ('w \<Rightarrow> bool) \<Rightarrow> 'w fs_state \<Rightarrow> bool" where
  "fs_ok media dev_ok s \<longleftrightarrow> dev_ok (world s) \<and> files_inv (FILES s) \<and> records_used (FILES s) \<le> FS_MAX_FILES
     \<and> wf_table (g_disk_table s) \<and> wf_file (g_mutation_backup s) \<and> wf_file (g_virtual_system_log s)
     \<and> (g_backend_status s = FS_BACKEND_PERSISTENT \<longrightarrow> committed (media (world s)) s (fs_listing (FILES s)))
     \<and> (g_legacy_upgrade_status s = FS_LEGACY_UPGRADE_AVAILABLE \<longrightarrow> active_ok (media (world s)) s)"

section \<open>Committing\<close>

lemma committed_active: "committed m s L \<Longrightarrow> active_ok m s"
  by (auto simp: committed_def active_ok_def slot_listing_def Let_def split: prod.splits if_splits)

text \<open>The slot that was active before a sync still holds what it held.\<close>

lemma active_frame:
  assumes "g_active_slot s < FS_SLOT_COUNT" and "\<And>l. l \<notin> slot_sectors (target_slot s) \<Longrightarrow> m' l = m l"
  shows "slot_listing m' (g_active_slot s) = slot_listing m (g_active_slot s)"
    "slot_header m' (g_active_slot s) = slot_header m (g_active_slot s)"
proof -
  have "target_slot s \<noteq> g_active_slot s" using assms(1) by (auto simp: target_slot_def slot_cases)
  then have same: "m' l = m l" if "l \<in> slot_sectors (g_active_slot s)" for l
    using that assms slots_apart target_slot_less[of s] unfolding slot_cases by metis
  show "slot_listing m' (g_active_slot s) = slot_listing m (g_active_slot s)" by (rule slot_frame(3)) (rule same)
  show "slot_header m' (g_active_slot s) = slot_header m (g_active_slot s)" by (rule slot_frame(1)) (rule same)
qed

lemma active_ok_frame:
  assumes "active_ok m s" and "g_active_slot s < FS_SLOT_COUNT" and "\<And>l. l \<notin> slot_sectors (target_slot s) \<Longrightarrow> m' l = m l"
    and "g_active_slot s' = g_active_slot s" and "g_active_generation s' = g_active_generation s"
  shows "active_ok m' s'"
  using assms(1,2,4,5) active_frame(2)[OF assms(2,3)] by (simp add: active_ok_def)

context block_device
begin

lemma sync_commits:
  assumes dev: "dev_ok (world s)" and inv: "files_inv (FILES s)" and act: "active_ok (media (world s)) s"
    and eq: "fs_sync_to_disk_verified E verify s = (FS_SYNC_COMMITTED, s')"
  shows "committed (media (world s')) s' (fs_listing (FILES s))" and "records_used (FILES s) \<le> FS_MAX_FILES"
proof -
  let ?t = "snd (serialize_table (FILES s))" and ?g = "g_active_generation s + 1" and ?k = "target_slot s"
  obtain u where u: "reworks media dev_ok (slot_sectors ?k) s u" "s' = fs_accept_commit ?k ?g u" "fst (serialize_table (FILES s))"
    "slot_table (media (world u)) ?k = table_bytes ?t" "slot_header (media (world u)) ?k = commit_header ?t ?g"
    using sync_spec[OF dev eq] by auto
  have tr: "trusted_order (media (world u)) ?k"
    by (rule trusted_commit[OF act _ u(5)]) (use reworksD(12)[OF u(1)] in blast)
  show "committed (media (world s')) s' (fs_listing (FILES s))"
    using listing_commit[OF inv u(3,5,4)] tr target_slot_less[of s] u(5)
    by (simp add: committed_def u(2) fs_accept_commit_def)
  show "records_used (FILES s) \<le> FS_MAX_FILES"
    using serialize_table_ok(1)[of "FILES s"] u(3) inv by (simp add: files_inv_def)
qed

text \<open>What a sync leaves alone, whatever its result.\<close>

lemma sync_frame:
  assumes dev: "dev_ok (world s)" and eq: "fs_sync_to_disk_verified E verify s = (r, s')"
  shows "FILES s' = FILES s" "g_mutation_backup s' = g_mutation_backup s" "g_backend_status s' = g_backend_status s"
    "g_legacy_upgrade_status s' = g_legacy_upgrade_status s" "g_self_test_active s' = g_self_test_active s"
    "g_virtual_system_log s' = g_virtual_system_log s" "g_system_log_is_virtual s' = g_system_log_is_virtual s"
    "dev_ok (world s')" "wf_table (g_disk_table s) \<Longrightarrow> wf_table (g_disk_table s')"
    "l \<notin> slot_sectors (target_slot s) \<Longrightarrow> media (world s') l = media (world s) l"
    "r \<noteq> FS_SYNC_COMMITTED \<Longrightarrow> g_active_slot s' = g_active_slot s \<and> g_active_generation s' = g_active_generation s
       \<and> g_loaded_version s' = g_loaded_version s"
proof -
  obtain u where u: "reworks media dev_ok (slot_sectors (target_slot s)) s u"
    "s' = fs_accept_commit (target_slot s) (g_active_generation s + 1) u \<or> r \<noteq> FS_SYNC_COMMITTED \<and> s' = u"
    using sync_spec[OF dev eq] by (auto split: if_splits)
  note d = reworksD[OF u(1)]
  show "FILES s' = FILES s" "g_mutation_backup s' = g_mutation_backup s" "g_backend_status s' = g_backend_status s"
    "g_legacy_upgrade_status s' = g_legacy_upgrade_status s" "g_self_test_active s' = g_self_test_active s"
    "g_virtual_system_log s' = g_virtual_system_log s" "g_system_log_is_virtual s' = g_system_log_is_virtual s"
    "dev_ok (world s')" "wf_table (g_disk_table s) \<Longrightarrow> wf_table (g_disk_table s')"
    "l \<notin> slot_sectors (target_slot s) \<Longrightarrow> media (world s') l = media (world s) l"
    using u(2) d by (auto simp: fs_accept_commit_def)
  show "r \<noteq> FS_SYNC_COMMITTED \<Longrightarrow> g_active_slot s' = g_active_slot s \<and> g_active_generation s' = g_active_generation s
       \<and> g_loaded_version s' = g_loaded_version s"
    using sync_spec[OF dev eq] d reworksD(3-5) by (auto split: if_splits)
qed

text \<open>What \<open>fs_commit_changes\<close> leaves alone.\<close>

lemma say_simps [simp]:
  "FILES (fs_say E msg s) = FILES s" "g_disk_table (fs_say E msg s) = g_disk_table s"
  "g_mutation_backup (fs_say E msg s) = g_mutation_backup s" "g_active_slot (fs_say E msg s) = g_active_slot s"
  "g_active_generation (fs_say E msg s) = g_active_generation s" "g_loaded_version (fs_say E msg s) = g_loaded_version s"
  "g_backend_status (fs_say E msg s) = g_backend_status s"
  "g_legacy_upgrade_status (fs_say E msg s) = g_legacy_upgrade_status s" "g_self_test_active (fs_say E msg s) = g_self_test_active s"
  "g_virtual_system_log (fs_say E msg s) = g_virtual_system_log s"
  "g_system_log_is_virtual (fs_say E msg s) = g_system_log_is_virtual s"
  by (simp_all add: fs_say_def)

lemma say_world: "dev_ok (world s) \<Longrightarrow> dev_ok (world (fs_say E msg s)) \<and> media (world (fs_say E msg s)) = media (world s)"
  using quietD(12,13)[OF quiet_say] by blast

lemma commit_spec:
  assumes dev: "dev_ok (world s)" and inv: "files_inv (FILES s)"
    and act: "g_backend_status s = FS_BACKEND_PERSISTENT \<longrightarrow> active_ok (media (world s)) s \<and> g_active_slot s < FS_SLOT_COUNT"
    and eq: "fs_commit_changes E s = (ok, s')"
  shows "FILES s' = FILES s \<and> g_mutation_backup s' = g_mutation_backup s
      \<and> g_legacy_upgrade_status s' = g_legacy_upgrade_status s \<and> g_self_test_active s' = g_self_test_active s
      \<and> g_virtual_system_log s' = g_virtual_system_log s \<and> g_system_log_is_virtual s' = g_system_log_is_virtual s
      \<and> dev_ok (world s') \<and> wf_table (g_disk_table s')" (is ?frame)
    and "ok \<Longrightarrow> records_used (FILES s) \<le> FS_MAX_FILES"
    and "g_backend_status s' = FS_BACKEND_PERSISTENT \<Longrightarrow> g_backend_status s = FS_BACKEND_PERSISTENT \<and>
      (if ok then committed (media (world s')) s' (fs_listing (FILES s))
       else media (world s') = media (world s) \<and> g_active_slot s' = g_active_slot s
         \<and> g_active_generation s' = g_active_generation s \<and> g_loaded_version s' = g_loaded_version s)"
    and "g_backend_status s \<noteq> FS_BACKEND_PERSISTENT \<Longrightarrow> g_backend_status s' = g_backend_status s \<and> media (world s') = media (world s)
      \<and> g_active_slot s' = g_active_slot s \<and> g_active_generation s' = g_active_generation s"
    and "active_ok (media (world s)) s \<Longrightarrow> active_ok (media (world s')) s'"
    and "\<And>l. l \<notin> slot_sectors (target_slot s) \<Longrightarrow> media (world s') l = media (world s) l"
    and "\<not> ok \<Longrightarrow> records_used (FILES s) > FS_MAX_FILES \<or> g_backend_status s' = FS_BACKEND_VOLATILE_IO_ERROR"
proof -
  obtain ok1 s1 where ser: "fs_serialize s = (ok1, s1)" by fastforce
  note sx = reworks_serialize[OF dev ser]
  note d1 = reworksD[OF sx(1)[of "{}"]]
  have fit: "ok1 \<longleftrightarrow> records_used (FILES s) \<le> FS_MAX_FILES"
    using sx(2) serialize_table_ok(1) inv by (simp add: files_inv_def)
  have wf1: "wf_table (g_disk_table s1)" using sx(3) wf_serialize_table by simp
  obtain r s2 where sync: "fs_sync_to_disk_verified E False s1 = (r, s2)" by fastforce
  note f2 = sync_frame[OF d1(11) sync]
  have tgt: "target_slot s1 = target_slot s" by (simp add: target_slot_def d1)
  have act1: "active_ok (media (world s1)) s1 = active_ok (media (world s)) s" by (simp add: active_ok_def sx(4) d1)
  have c: "committed (media (world s2)) s2 (fs_listing (FILES s))"
    if "g_backend_status s = FS_BACKEND_PERSISTENT" "r = FS_SYNC_COMMITTED"
    using sync_commits[OF d1(11) _ _ sync[unfolded that(2)]] act[rule_format, OF that(1)] act1 inv d1(1) by simp
  have a2: "active_ok (media (world s2)) s2"
    if "g_backend_status s = FS_BACKEND_PERSISTENT" "r \<noteq> FS_SYNC_COMMITTED"
    using active_ok_frame[of "media (world s1)" s1 "media (world s2)" s2] act[rule_format, OF that(1)] act1 f2(10,11) that(2) d1(3) by simp
  let ?s3 = "s2\<lparr>g_backend_status := FS_BACKEND_VOLATILE_IO_ERROR\<rparr>"
  have unfold: "(ok, s') = (if \<not> ok1 then (False, s1) else if g_backend_status s \<noteq> FS_BACKEND_PERSISTENT then (True, s1)
      else if r = FS_SYNC_COMMITTED then (True, s2)
      else if r = FS_SYNC_UNCERTAIN then (True, fs_say E ''FS: commit outcome uncertain; mutation retained on a volatile volume'' ?s3)
      else (False, fs_say E ''FS: persistence failed; continuing on a volatile volume'' ?s3))"
    using eq[symmetric] by (simp only: fs_commit_changes_def fs_sync_to_disk_def ser sync Let_def prod.case d1(6))
  have say3: "dev_ok (world (fs_say E msg ?s3)) \<and> media (world (fs_say E msg ?s3)) = media (world s2)" for msg
    using say_world[of ?s3] f2(8) by simp
  have act3: "active_ok m (fs_say E msg ?s3) = active_ok m s2" for m msg by (simp add: active_ok_def)
  show ?frame using unfold f2 d1 wf1 say3 by (auto split: if_splits)
  show "ok \<Longrightarrow> records_used (FILES s) \<le> FS_MAX_FILES" using unfold fit by (auto split: if_splits)
  show "g_backend_status s' = FS_BACKEND_PERSISTENT \<Longrightarrow> g_backend_status s = FS_BACKEND_PERSISTENT \<and>
      (if ok then committed (media (world s')) s' (fs_listing (FILES s))
       else media (world s') = media (world s) \<and> g_active_slot s' = g_active_slot s
         \<and> g_active_generation s' = g_active_generation s \<and> g_loaded_version s' = g_loaded_version s)"
    using unfold c d1 sx(4) by (auto split: if_splits)
  show "g_backend_status s \<noteq> FS_BACKEND_PERSISTENT \<Longrightarrow> g_backend_status s' = g_backend_status s \<and> media (world s') = media (world s)
      \<and> g_active_slot s' = g_active_slot s \<and> g_active_generation s' = g_active_generation s"
    using unfold d1 sx(4) by (auto split: if_splits)
  show "active_ok (media (world s)) s \<Longrightarrow> active_ok (media (world s')) s'"
    using unfold act1 a2 committed_active[OF c] say3 act3 by (auto split: if_splits)
  show "\<And>l. l \<notin> slot_sectors (target_slot s) \<Longrightarrow> media (world s') l = media (world s) l"
    using unfold f2(10) tgt sx(4) say3 by (auto split: if_splits)
  show "\<not> ok \<Longrightarrow> records_used (FILES s) > FS_MAX_FILES \<or> g_backend_status s' = FS_BACKEND_VOLATILE_IO_ERROR"
    using unfold fit by (auto split: if_splits)
qed

lemma committed_cong:
  "g_active_slot s' = g_active_slot s \<Longrightarrow> g_active_generation s' = g_active_generation s \<Longrightarrow> g_loaded_version s' = g_loaded_version s
   \<Longrightarrow> committed m s' L = committed m s L"
  by (simp add: committed_def)

lemma active_ok_cong:
  "g_active_slot s' = g_active_slot s \<Longrightarrow> g_active_generation s' = g_active_generation s \<Longrightarrow> active_ok m s' = active_ok m s"
  by (simp add: active_ok_def)

text \<open>A mutation of the view followed by a commit: either the new view is in force, or any view
  with the old listing can be put back.\<close>

lemma commit_mutation:
  assumes ok0: "fs_ok media dev_ok s" and s1: "s1 = s\<lparr>FILES := fs1, g_mutation_backup := b\<rparr>"
    and inv1: "files_inv fs1" and b: "wf_file b" and eq: "fs_commit_changes E s1 = (ok, s2)"
  shows "FILES s2 = fs1" and "g_mutation_backup s2 = b" and "g_self_test_active s2 = g_self_test_active s"
    and "ok \<Longrightarrow> fs_ok media dev_ok s2"
    and "\<not> ok \<Longrightarrow> files_inv fs' \<Longrightarrow> fs_listing fs' = fs_listing (FILES s) \<Longrightarrow> fs_ok media dev_ok (s2\<lparr>FILES := fs'\<rparr>)"
    and "g_backend_status s2 = FS_BACKEND_PERSISTENT \<Longrightarrow> g_backend_status s = FS_BACKEND_PERSISTENT"
    and "\<not> ok \<Longrightarrow> records_used fs1 > FS_MAX_FILES \<or> g_backend_status s2 = FS_BACKEND_VOLATILE_IO_ERROR"
    and "g_system_log_is_virtual s2 = g_system_log_is_virtual s"
proof -
  have o: "dev_ok (world s)" "files_inv (FILES s)" "records_used (FILES s) \<le> FS_MAX_FILES" "wf_table (g_disk_table s)"
    "wf_file (g_virtual_system_log s)"
    "g_backend_status s = FS_BACKEND_PERSISTENT \<Longrightarrow> committed (media (world s)) s (fs_listing (FILES s))"
    "g_legacy_upgrade_status s = FS_LEGACY_UPGRADE_AVAILABLE \<Longrightarrow> active_ok (media (world s)) s"
    using ok0 by (auto simp: fs_ok_def)
  have a1: "active_ok m s1 = active_ok m s" for m by (rule active_ok_cong) (simp_all add: s1)
  have pre: "g_backend_status s1 = FS_BACKEND_PERSISTENT \<longrightarrow> active_ok (media (world s1)) s1 \<and> g_active_slot s1 < FS_SLOT_COUNT"
    using o(6) committed_active unfolding a1 by (auto simp: s1 committed_def)
  have dev1: "dev_ok (world s1)" and i1: "files_inv (FILES s1)" using o(1) inv1 by (simp_all add: s1)
  note c = commit_spec[OF dev1 i1 pre eq]
  show "FILES s2 = fs1" "g_mutation_backup s2 = b" "g_self_test_active s2 = g_self_test_active s"
    "g_system_log_is_virtual s2 = g_system_log_is_virtual s" using c(1) by (simp_all add: s1)
  have leg: "g_legacy_upgrade_status s2 = FS_LEGACY_UPGRADE_AVAILABLE \<Longrightarrow> active_ok (media (world s2)) s2"
    using c(1,5) o(7) a1 by (simp add: s1)
  show "ok \<Longrightarrow> fs_ok media dev_ok s2"
    using c(1-3) leg o b inv1 by (simp add: fs_ok_def s1)
  show "g_backend_status s2 = FS_BACKEND_PERSISTENT \<Longrightarrow> g_backend_status s = FS_BACKEND_PERSISTENT"
    using c(3) by (simp add: s1)
  show "\<not> ok \<Longrightarrow> records_used fs1 > FS_MAX_FILES \<or> g_backend_status s2 = FS_BACKEND_VOLATILE_IO_ERROR"
    using c(7) by (simp add: s1)
  assume n: "\<not> ok" and i': "files_inv fs'" and l': "fs_listing fs' = fs_listing (FILES s)"
  have com: "committed (media (world s2)) (s2\<lparr>FILES := fs'\<rparr>) (fs_listing (FILES s))" if "g_backend_status s2 = FS_BACKEND_PERSISTENT"
    using c(3)[OF that] n o(6) committed_cong[of "s2\<lparr>FILES := fs'\<rparr>" s] by (simp add: s1)
  have rec: "records_used fs' \<le> FS_MAX_FILES"
    using records_same_listing[of fs' "FILES s"] i' o(2,3) l' by (simp add: files_inv_def)
  show "fs_ok media dev_ok (s2\<lparr>FILES := fs'\<rparr>)"
    using c(1) leg com i' l' rec o b active_ok_cong[of "s2\<lparr>FILES := fs'\<rparr>" s2] by (simp add: fs_ok_def s1)
qed

section \<open>Rollback\<close>

lemma listing_unused:
  "i < length files \<Longrightarrow> \<not> f_in_use (files ! i) \<Longrightarrow> \<not> f_in_use f \<Longrightarrow> fs_listing (files[i := f]) = fs_listing files"
  by (simp add: listing_split[of i files] listing_update)

lemma listing_same_view:
  "i < length files \<Longrightarrow> f_in_use (files ! i) = f_in_use f \<Longrightarrow> fview (files ! i) = fview f \<Longrightarrow> fs_listing (files[i := f]) = fs_listing files"
  by (simp add: listing_split[of i files] listing_update)

text \<open>The shared tail of write, append and remove: the file at \<open>i\<close> was replaced by \<open>f\<close>.\<close>

lemma commit_or_restore_spec:
  assumes ok0: "fs_ok media dev_ok s" and i: "i < FS_MAX_FILES" and f: "wf_file f" and inv1: "files_inv ((FILES s)[i := f])"
    and ex: "if existed then b = FILES s ! i else \<not> f_in_use (FILES s ! i) \<and> wf_file b"
    and s1: "s1 = s\<lparr>FILES := (FILES s)[i := f], g_mutation_backup := b\<rparr>"
    and eq: "commit_or_restore E i existed s1 = (ok, s')"
  shows "fs_ok media dev_ok s'"
    and "if ok then FILES s' = (FILES s)[i := f] else fs_listing (FILES s') = fs_listing (FILES s)"
    and "g_self_test_active s' = g_self_test_active s \<and> g_system_log_is_virtual s' = g_system_log_is_virtual s"
    and "\<not> ok \<Longrightarrow> records_used ((FILES s)[i := f]) > FS_MAX_FILES \<or> g_backend_status s' = FS_BACKEND_VOLATILE_IO_ERROR"
    and "g_backend_status s' = FS_BACKEND_PERSISTENT \<Longrightarrow> g_backend_status s = FS_BACKEND_PERSISTENT"
proof -
  have inv: "files_inv (FILES s)" and len: "i < length (FILES s)" using ok0 i by (auto simp: fs_ok_def files_inv_def)
  have wfi: "wf_file (FILES s ! i)" using inv len by (simp add: files_inv_def list_all_length)
  have b: "wf_file b" using ex wfi by (auto split: if_splits)
  obtain s2 where c: "fs_commit_changes E s1 = (ok, s2)" and s': "s' = (if ok then s2 else restore_file i existed s2)"
    using eq by (auto simp: commit_or_restore_def split: prod.splits if_splits)
  note m = commit_mutation[OF ok0 s1 inv1 b c]
  have r: "restore_file i existed s2 = s2\<lparr>FILES := (FILES s)[i := if existed then FILES s ! i else fs_clear f]\<rparr>"
    using ex m(1,2) len copy_file_id[of "FILES s ! i" f] wfi f by (simp add: restore_file_def upd_file_def)
  let ?fs = "(FILES s)[i := if existed then FILES s ! i else fs_clear f]"
  have undo: "files_inv ?fs \<and> fs_listing ?fs = fs_listing (FILES s)"
    using inv view_clear(1)[OF inv len, of "fs_clear f"] f ex listing_unused[OF len, of "fs_clear f"]
    by (cases existed) simp_all
  show "fs_ok media dev_ok s'" using m(4) m(5)[of ?fs] undo s' r by (cases ok) simp_all
  show "if ok then FILES s' = (FILES s)[i := f] else fs_listing (FILES s') = fs_listing (FILES s)"
    using s' r undo m(1) by simp
  show "g_self_test_active s' = g_self_test_active s \<and> g_system_log_is_virtual s' = g_system_log_is_virtual s"
    using s' r m(3,8) by simp
  show "\<not> ok \<Longrightarrow> records_used ((FILES s)[i := f]) > FS_MAX_FILES \<or> g_backend_status s' = FS_BACKEND_VOLATILE_IO_ERROR"
    using s' r m(7) by simp
  show "g_backend_status s' = FS_BACKEND_PERSISTENT \<Longrightarrow> g_backend_status s = FS_BACKEND_PERSISTENT"
    using s' r m(6) by (cases ok) simp_all
qed

end

end
