(* ===== verification/Fs_Refine.thy ===== *)
theory Fs_Refine
  imports Fs_Inv
begin

text \<open>
  Every mutation refines its map-level specification: on success the view changes as the
  operation's name says, on failure it is what it was, and the invariant holds either way,
  under any faults of the drive.
\<close>

section \<open>Opening a file for writing\<close>

definition old_content :: "(bytes \<rightharpoonup> bytes) \<Rightarrow> bytes \<Rightarrow> bytes" where
  "old_content view n = (case view n of None \<Rightarrow> [] | Some d \<Rightarrow> d)"

lemma open_for_write_Some:
  assumes ok: "fs_ok media dev_ok s" and n: "terminated n" "valid_name (cstr n)"
    and eq: "open_for_write n s = Some (i, existed, s1)"
  obtains g b where "i < FS_MAX_FILES" "s1 = s\<lparr>FILES := (FILES s)[i := g], g_mutation_backup := b\<rparr>"
    "wf_file g" "f_in_use g" "cstr (f_name g) = cstr n" "f_content g = old_content (fs_view (FILES s)) (cstr n)"
    "if existed then g = FILES s ! i \<and> b = FILES s ! i \<and> f_in_use (FILES s ! i) \<and> cstr (f_name (FILES s ! i)) = cstr n
     else \<not> f_in_use (FILES s ! i) \<and> wf_file b"
    "\<forall>j < FS_MAX_FILES. j \<noteq> i \<and> f_in_use (FILES s ! j) \<longrightarrow> cstr (f_name (FILES s ! j)) \<noteq> cstr n"
proof -
  have inv: "files_inv (FILES s)" and b: "wf_file (g_mutation_backup s)" using ok by (auto simp: fs_ok_def)
  show thesis
  proof (cases "fs_find_mutable (Some n) s")
    case (Some k)
    note f = find_mutable_Some[OF inv n(1) Some]
    have "i = k" "existed" "s1 = s\<lparr>FILES := (FILES s)[k := FILES s ! k], g_mutation_backup := FILES s ! k\<rparr>"
      using eq copy_file_id[OF f(5) b] by (auto simp: open_for_write_def Some backup_file_def)
    then show thesis using f by (intro that[where g = "FILES s ! k" and b = "FILES s ! k"]) (auto simp: old_content_def)
  next
    case None
    then obtain k where k: "fs_allocate_slot s = Some k" using eq by (auto simp: open_for_write_def split: option.splits)
    note a = allocate_Some[OF inv k] and nf = find_mutable_None[OF inv n(1) None]
    let ?g = "fs_copy_name ((fs_clear (FILES s ! k))\<lparr>f_in_use := True\<rparr>) n"
    have "i = k" "\<not> existed" "s1 = s\<lparr>FILES := (FILES s)[k := ?g], g_mutation_backup := g_mutation_backup s\<rparr>"
      using eq by (auto simp: open_for_write_def None k upd_file_def)
    then show thesis
      using a nf new_file_props[OF a(3) n] b by (intro that[where g = ?g and b = "g_mutation_backup s"]) (auto simp: old_content_def)
  qed
qed

lemma replace_view:
  assumes inv: "files_inv files" and i: "i < FS_MAX_FILES" and f: "wf_file f" "f_in_use f" "cstr (f_name f) = n"
    and slot: "f_in_use (files ! i) \<Longrightarrow> cstr (f_name (files ! i)) = n"
    and uniq: "\<forall>j < FS_MAX_FILES. j \<noteq> i \<and> f_in_use (files ! j) \<longrightarrow> cstr (f_name (files ! j)) \<noteq> n"
  shows "files_inv (files[i := f])" and "fs_view (files[i := f]) = (fs_view files)(n \<mapsto> f_content f)"
proof -
  have len: "i < length files" "length files = FS_MAX_FILES" using inv i by (auto simp: files_inv_def)
  show inv': "files_inv (files[i := f])"
    by (rule files_inv_update[OF inv len(1) f(1)]) (use uniq f len in auto)
  show "fs_view (files[i := f]) = (fs_view files)(n \<mapsto> f_content f)"
    using view_update[OF _ len(1), of f] inv inv' f slot by (auto simp: files_inv_def)
qed

text \<open>Changing the view to one with the same listing, or the rollback buffer, keeps the invariant.\<close>

lemma fs_ok_same_listing:
  assumes ok: "fs_ok media dev_ok s" and s': "s' = s\<lparr>FILES := fs, g_mutation_backup := b\<rparr>"
    and fs: "files_inv fs" "fs_listing fs = fs_listing (FILES s)" and b: "wf_file b"
  shows "fs_ok media dev_ok s'" and "fs_view (FILES s') = fs_view (FILES s)"
proof -
  have "records_used fs = records_used (FILES s)"
    using records_same_listing[of fs "FILES s"] ok fs by (simp add: fs_ok_def files_inv_def)
  moreover have "committed m s' L = committed m s L" "active_ok m s' = active_ok m s" for m L
    by (simp_all add: s' committed_def active_ok_def)
  ultimately show "fs_ok media dev_ok s'" using ok fs b by (simp add: fs_ok_def s')
  show "fs_view (FILES s') = fs_view (FILES s)" by (simp add: s' fs_view_def fs(2))
qed

text \<open>Replacing the file opened for writing: the state handed to the commit.\<close>

lemma replace_state:
  assumes ok: "fs_ok media dev_ok s" and n: "terminated n" "valid_name (cstr n)"
    and op: "open_for_write n s = Some (i, existed, s1)"
    and f: "\<And>g. wf_file g \<Longrightarrow> f_in_use g \<Longrightarrow> f_content g = old_content (fs_view (FILES s)) (cstr n) \<Longrightarrow> FILES s1 ! i = g \<Longrightarrow>
      wf_file (h g) \<and> f_in_use (h g) \<and> f_name (h g) = f_name g \<and> f_content (h g) = d"
  obtains k b where "i < FS_MAX_FILES" "upd_file i h s1 = s\<lparr>FILES := (FILES s)[i := k], g_mutation_backup := b\<rparr>" "wf_file k" "wf_file b"
    "files_inv ((FILES s)[i := k])" "fs_view ((FILES s)[i := k]) = (fs_view (FILES s))(cstr n \<mapsto> d)"
    "if existed then b = FILES s ! i else \<not> f_in_use (FILES s ! i) \<and> wf_file b"
proof -
  obtain g b where g: "i < FS_MAX_FILES" "s1 = s\<lparr>FILES := (FILES s)[i := g], g_mutation_backup := b\<rparr>"
    "wf_file g" "f_in_use g" "cstr (f_name g) = cstr n" "f_content g = old_content (fs_view (FILES s)) (cstr n)"
    "if existed then g = FILES s ! i \<and> b = FILES s ! i \<and> f_in_use (FILES s ! i) \<and> cstr (f_name (FILES s ! i)) = cstr n
     else \<not> f_in_use (FILES s ! i) \<and> wf_file b"
    "\<forall>j < FS_MAX_FILES. j \<noteq> i \<and> f_in_use (FILES s ! j) \<longrightarrow> cstr (f_name (FILES s ! j)) \<noteq> cstr n"
    by (rule open_for_write_Some[OF ok n op])
  have inv: "files_inv (FILES s)" and len: "i < length (FILES s)" using ok g(1) by (auto simp: fs_ok_def files_inv_def)
  have hg: "wf_file (h g)" "f_in_use (h g)" "f_name (h g) = f_name g" "f_content (h g) = d"
    using f[OF g(3,4,6)] len by (auto simp: g(2))
  have u: "upd_file i h s1 = s\<lparr>FILES := (FILES s)[i := h g], g_mutation_backup := b\<rparr>"
    using len by (simp add: upd_file_def g(2))
  have rv: "files_inv ((FILES s)[i := h g])" "fs_view ((FILES s)[i := h g]) = (fs_view (FILES s))(cstr n \<mapsto> d)"
    using replace_view[OF inv g(1) hg(1,2) _ _ g(8)] g(5,7) hg by (auto split: if_splits)
  have ex: "if existed then b = FILES s ! i else \<not> f_in_use (FILES s ! i) \<and> wf_file b" using g(7) by (auto split: if_splits)
  have wb: "wf_file b" using g(3,7) by (auto split: if_splits)
  show thesis by (rule that[OF g(1) u hg(1) wb rv ex])
qed

context block_device
begin

text \<open>Commit of the replacement, or rollback.\<close>

lemma replace_spec:
  assumes ok: "fs_ok media dev_ok s" and n: "terminated n" "valid_name (cstr n)"
    and op: "open_for_write n s = Some (i, existed, s1)"
    and f: "\<And>g. wf_file g \<Longrightarrow> f_in_use g \<Longrightarrow> f_content g = old_content (fs_view (FILES s)) (cstr n) \<Longrightarrow> FILES s1 ! i = g \<Longrightarrow>
      wf_file (h g) \<and> f_in_use (h g) \<and> f_name (h g) = f_name g \<and> f_content (h g) = d"
    and eq: "commit_or_restore E i existed (upd_file i h s1) = (r, s')"
  shows "fs_ok media dev_ok s'"
    and "fs_view (FILES s') = (if r then (fs_view (FILES s))(cstr n \<mapsto> d) else fs_view (FILES s))"
    and "\<not> r \<Longrightarrow> fs_listing (FILES s') = fs_listing (FILES s)"
    and "g_self_test_active s' = g_self_test_active s \<and> g_system_log_is_virtual s' = g_system_log_is_virtual s"
    and "g_backend_status s' = FS_BACKEND_PERSISTENT \<Longrightarrow> g_backend_status s = FS_BACKEND_PERSISTENT"
proof -
  obtain k b where k: "i < FS_MAX_FILES" "upd_file i h s1 = s\<lparr>FILES := (FILES s)[i := k], g_mutation_backup := b\<rparr>" "wf_file k" "wf_file b"
    "files_inv ((FILES s)[i := k])" "fs_view ((FILES s)[i := k]) = (fs_view (FILES s))(cstr n \<mapsto> d)"
    "if existed then b = FILES s ! i else \<not> f_in_use (FILES s ! i) \<and> wf_file b"
    by (rule replace_state[where h = h, OF ok n op f])
  note c = commit_or_restore_spec[OF ok k(1,3,5,7,2) eq]
  show "fs_ok media dev_ok s'" "g_self_test_active s' = g_self_test_active s \<and> g_system_log_is_virtual s' = g_system_log_is_virtual s"
    "g_backend_status s' = FS_BACKEND_PERSISTENT \<Longrightarrow> g_backend_status s = FS_BACKEND_PERSISTENT"
    using c by auto
  show "\<not> r \<Longrightarrow> fs_listing (FILES s') = fs_listing (FILES s)" using c(2) by simp
  show "fs_view (FILES s') = (if r then (fs_view (FILES s))(cstr n \<mapsto> d) else fs_view (FILES s))"
    using c(2) k(6) by (auto simp: fs_view_def split: if_splits)
qed

section \<open>Write and append\<close>

lemma write_internal_spec:
  assumes ok: "fs_ok media dev_ok s" and n: "terminated n" and c: "len \<le> length (case c of None \<Rightarrow> [] | Some b \<Rightarrow> b)"
    and eq: "fs_write_bytes_internal E (Some n) c len sys s = (r, s')"
  shows "fs_ok media dev_ok s'"
    and "fs_view (FILES s') = (if r then (fs_view (FILES s))(cstr n \<mapsto> take len (case c of None \<Rightarrow> [] | Some b \<Rightarrow> b)) else fs_view (FILES s))"
    and "\<not> r \<Longrightarrow> fs_listing (FILES s') = fs_listing (FILES s)"
    and "g_self_test_active s' = g_self_test_active s \<and> g_system_log_is_virtual s' = g_system_log_is_virtual s"
    and "g_backend_status s' = FS_BACKEND_PERSISTENT \<Longrightarrow> g_backend_status s = FS_BACKEND_PERSISTENT"
proof -
  let ?d = "case c of None \<Rightarrow> [] | Some b \<Rightarrow> b"
  have "fs_ok media dev_ok s' \<and> fs_view (FILES s') = (if r then (fs_view (FILES s))(cstr n \<mapsto> take len ?d) else fs_view (FILES s))
    \<and> (\<not> r \<longrightarrow> fs_listing (FILES s') = fs_listing (FILES s))
    \<and> (g_self_test_active s' = g_self_test_active s \<and> g_system_log_is_virtual s' = g_system_log_is_virtual s)
    \<and> (g_backend_status s' = FS_BACKEND_PERSISTENT \<longrightarrow> g_backend_status s = FS_BACKEND_PERSISTENT)"
  proof (cases "r = False \<and> s' = s")
    case False
    then obtain i existed s1 where op: "open_for_write n s = Some (i, existed, s1)"
      and v: "fs_is_valid_name (Some n)" and len: "len < FS_MAX_FILE_SIZE"
      and co: "commit_or_restore E i existed (upd_file i (set_contents c len) s1) = (r, s')"
      using eq by (auto simp: fs_write_bytes_internal_def not_le split: if_splits option.splits)
    have "wf_file (set_contents c len g) \<and> f_in_use (set_contents c len g) \<and> f_name (set_contents c len g) = f_name g
        \<and> f_content (set_contents c len g) = take len ?d" if "wf_file g" "f_in_use g" for g
      using set_contents_props[OF that(1) len assms(3) refl] that(2) by simp
    from replace_spec[OF ok n valid_nameD(1)[OF v n] op this co] show ?thesis by simp
  qed (use ok in simp)
  then show "fs_ok media dev_ok s'"
    "fs_view (FILES s') = (if r then (fs_view (FILES s))(cstr n \<mapsto> take len ?d) else fs_view (FILES s))"
    "\<not> r \<Longrightarrow> fs_listing (FILES s') = fs_listing (FILES s)"
    "g_self_test_active s' = g_self_test_active s \<and> g_system_log_is_virtual s' = g_system_log_is_virtual s"
    "g_backend_status s' = FS_BACKEND_PERSISTENT \<Longrightarrow> g_backend_status s = FS_BACKEND_PERSISTENT" by blast+
qed

lemma append_refused:
  assumes ok: "fs_ok media dev_ok s" and n: "terminated n" "valid_name (cstr n)"
    and op: "open_for_write n s = Some (i, existed, s1)"
  shows "fs_ok media dev_ok (if existed then s1 else upd_file i fs_clear s1)"
    and "fs_listing (FILES (if existed then s1 else upd_file i fs_clear s1)) = fs_listing (FILES s)"
    and "g_self_test_active (if existed then s1 else upd_file i fs_clear s1) = g_self_test_active s"
proof -
  obtain g b where g: "i < FS_MAX_FILES" "s1 = s\<lparr>FILES := (FILES s)[i := g], g_mutation_backup := b\<rparr>" "wf_file g"
    "if existed then g = FILES s ! i \<and> b = FILES s ! i \<and> f_in_use (FILES s ! i) \<and> cstr (f_name (FILES s ! i)) = cstr n
     else \<not> f_in_use (FILES s ! i) \<and> wf_file b"
    by (rule open_for_write_Some[OF ok n op])
  have inv: "files_inv (FILES s)" and len: "i < length (FILES s)" using ok g(1) by (auto simp: fs_ok_def files_inv_def)
  have wfi: "wf_file (FILES s ! i)" using inv len by (simp add: files_inv_def list_all_length)
  let ?fs = "if existed then FILES s else (FILES s)[i := fs_clear g]"
  have s': "(if existed then s1 else upd_file i fs_clear s1) = s\<lparr>FILES := ?fs, g_mutation_backup := b\<rparr>"
    using g(2,4) len by (simp add: upd_file_def)
  have fs: "files_inv ?fs" "fs_listing ?fs = fs_listing (FILES s)"
    using inv view_clear(1)[OF inv len, of "fs_clear g"] g(3,4) listing_unused[OF len, of "fs_clear g"] by auto
  have b: "wf_file b" using g(4) wfi by (auto split: if_splits)
  show "fs_ok media dev_ok (if existed then s1 else upd_file i fs_clear s1)" by (rule fs_ok_same_listing(1)[OF ok s' fs b])
  show "fs_listing (FILES (if existed then s1 else upd_file i fs_clear s1)) = fs_listing (FILES s)"
    "g_self_test_active (if existed then s1 else upd_file i fs_clear s1) = g_self_test_active s"
    unfolding s' using fs by simp_all
qed

lemma append_cases:
  assumes "fs_append E (Some n) (Some c) s = (r, s')"
  obtains "r = False" "s' = s"
  | i existed s1 where "fs_is_valid_name (Some n)" "open_for_write n s = Some (i, existed, s1)"
      "length (cstr c) > szsub (FS_MAX_FILE_SIZE - 1) (f_size (FILES s1 ! i))" "r = False"
      "s' = (if existed then s1 else upd_file i fs_clear s1)"
  | i existed s1 where "fs_is_valid_name (Some n)" "open_for_write n s = Some (i, existed, s1)"
      "length (cstr c) \<le> szsub (FS_MAX_FILE_SIZE - 1) (f_size (FILES s1 ! i))"
      "commit_or_restore E i existed (upd_file i (append_contents c (length (cstr c))) s1) = (r, s')"
proof (cases "open_for_write n s")
  case None
  then show thesis
    using assms that(1) by (simp add: fs_append_def Let_def split: if_splits)
next
  case (Some x)
  obtain i existed s1 where x: "x = (i, existed, s1)" by (metis prod_cases3)
  show thesis
    using assms that Some x
    by (simp add: fs_append_def Let_def kstrlen_cstr not_less split: if_splits)
qed

lemma append_spec:
  assumes ok: "fs_ok media dev_ok s" and n: "terminated n"
    and eq: "fs_append E (Some n) (Some c) s = (r, s')"
  shows "fs_ok media dev_ok s' \<and> fs_view (FILES s') =
      (if r then (fs_view (FILES s))(cstr n \<mapsto> old_content (fs_view (FILES s)) (cstr n) @ cstr c) else fs_view (FILES s))
    \<and> (\<not> r \<longrightarrow> fs_listing (FILES s') = fs_listing (FILES s)) \<and> g_self_test_active s' = g_self_test_active s"
  using eq
proof (cases rule: append_cases)
  case 1
  then show ?thesis using ok by simp
next
  case (2 i existed s1)
  note a = append_refused[OF ok n valid_nameD(1)[OF 2(1) n] 2(2)]
  show ?thesis using a 2(4,5) by (simp add: fs_view_def)
next
  case (3 i existed s1)
  have ct: "take (length (cstr c)) c = cstr c" "length (cstr c) \<le> length c"
    using cstr_prefix[of c] by (simp_all add: cstr_def length_takeWhile_le)
  have "wf_file (append_contents c (length (cstr c)) g) \<and> f_in_use (append_contents c (length (cstr c)) g)
      \<and> f_name (append_contents c (length (cstr c)) g) = f_name g
      \<and> f_content (append_contents c (length (cstr c)) g) = old_content (fs_view (FILES s)) (cstr n) @ cstr c"
    if "wf_file g" "f_in_use g" "f_content g = old_content (fs_view (FILES s)) (cstr n)" "FILES s1 ! i = g" for g
  proof -
    have "f_size g < FS_MAX_FILE_SIZE" using that(1,2) by (simp add: wf_file_def)
    then have "szsub (FS_MAX_FILE_SIZE - 1) (f_size g) = FS_MAX_FILE_SIZE - 1 - f_size g" by (intro szsub_exact) simp_all
    then have "length (cstr c) < FS_MAX_FILE_SIZE - f_size g" using 3(3) that(4) \<open>f_size g < FS_MAX_FILE_SIZE\<close> by simp
    from append_contents_props[OF that(1,2) this ct(2)] show ?thesis using that(3) ct(1) by simp
  qed
  note rep = replace_spec(1-4)[OF ok n valid_nameD(1)[OF 3(1) n] 3(2) this 3(4)]
  show ?thesis by (intro conjI impI) (use rep in blast)+
qed

section \<open>Touch, rename, remove\<close>

abbreviation touched :: "bytes \<Rightarrow> fs_file \<Rightarrow> fs_file" where
  "touched n f \<equiv> (fs_copy_name (f\<lparr>f_in_use := True\<rparr>) n)\<lparr>f_size := 0, f_data := blit (f_data f) 0 [0]\<rparr>"

lemma touch_cases:
  assumes "fs_touch E (Some n) s = (r, s')"
  obtains "s' = s" "r \<longrightarrow> fs_find_mutable (Some n) s \<noteq> None"
  | i s1 where "fs_is_valid_name (Some n)" "fs_find_mutable (Some n) s = None" "fs_allocate_slot s = Some i"
      "fs_commit_changes E (upd_file i (touched n) s) = (r, s1)" "s' = (if r then s1 else upd_file i fs_clear s1)"
proof (cases "fs_allocate_slot s")
  case None
  then show thesis using assms that(1) by (simp add: fs_touch_def split: if_splits)
next
  case (Some i)
  obtain r1 s1 where "fs_commit_changes E (upd_file i (touched n) s) = (r1, s1)" by fastforce
  then show thesis using assms that Some by (simp add: fs_touch_def Let_def split: if_splits)
qed

lemma touch_spec:
  assumes ok: "fs_ok media dev_ok s" and n: "terminated n" and eq: "fs_touch E (Some n) s = (r, s')"
  shows "fs_ok media dev_ok s' \<and> fs_view (FILES s') =
      (if r \<and> fs_view (FILES s) (cstr n) = None then (fs_view (FILES s))(cstr n \<mapsto> []) else fs_view (FILES s))
    \<and> (\<not> r \<longrightarrow> fs_listing (FILES s') = fs_listing (FILES s)) \<and> g_self_test_active s' = g_self_test_active s"
  using eq
proof (cases rule: touch_cases)
  case 1
  then show ?thesis
    using ok find_mutable_Some(4)[OF _ n, of s] by (auto simp: fs_ok_def)
next
  case (2 i s1)
  have inv: "files_inv (FILES s)" and b: "wf_file (g_mutation_backup s)" using ok by (auto simp: fs_ok_def)
  note v = 2(1) and nf = 2(2) and al = 2(3) and c = 2(4) and s' = 2(5)
  note a = allocate_Some[OF inv al] and nn = find_mutable_None[OF inv n nf] and vn = valid_nameD[OF v n]
  define g where "g = touched n (FILES s ! i)"
  have g: "wf_file g" "f_in_use g" "cstr (f_name g) = cstr n" "f_content g = []"
  proof -
    have nm: "cstr (f_name (fs_copy_name ((FILES s ! i)\<lparr>f_in_use := True\<rparr>) n)) = cstr n"
      using n vn by (simp add: fs_copy_name_name)
    then show "wf_file g" using a(3) vn by (simp add: g_def wf_file_def length_blit nth_blit)
    show "f_in_use g" "cstr (f_name g) = cstr n" "f_content g = []" using nm by (simp_all add: g_def)
  qed
  have len: "i < length (FILES s)" using inv a(1) by (simp add: files_inv_def)
  have u: "upd_file i (touched n) s = s\<lparr>FILES := (FILES s)[i := g], g_mutation_backup := g_mutation_backup s\<rparr>"
    by (simp add: upd_file_def g_def)
  have rv: "files_inv ((FILES s)[i := g])" "fs_view ((FILES s)[i := g]) = (fs_view (FILES s))(cstr n \<mapsto> [])"
    using replace_view[OF inv a(1) g(1,2,3)] a(2) nn(2) g(4) by auto
  note m = commit_mutation[OF ok u rv(1) b c]
  have cl: "files_inv ((FILES s)[i := fs_clear g])" "fs_listing ((FILES s)[i := fs_clear g]) = fs_listing (FILES s)"
    using view_clear(1)[OF inv len, of "fs_clear g"] listing_unused[OF len a(2), of "fs_clear g"] g(1) by simp_all
  have un: "upd_file i fs_clear s1 = s1\<lparr>FILES := (FILES s)[i := fs_clear g]\<rparr>" using m(1) len by (simp add: upd_file_def)
  show ?thesis
  proof (cases r)
    case True
    then show ?thesis using m(1,3,4) s' rv(2) nn(1) by simp
  next
    case False
    then show ?thesis using m(3) m(5)[OF False cl] s' un cl by (simp add: fs_view_def)
  qed
qed

abbreviation saved_name :: "fs_file \<Rightarrow> bytes" where
  "saved_name f \<equiv> cstr_run (FS_MAX_FILENAME - 1) (f_name f) @ [0]"

lemma rename_cases:
  assumes "fs_rename_internal E (Some old) (Some new) sys s = (r, s')"
  obtains "s' = s" "r \<longrightarrow> kstrcmp old new = 0 \<and> fs_find_mutable (Some old) s \<noteq> None"
  | i s1 where "fs_is_valid_name (Some new)" "fs_find_mutable (Some old) s = Some i" "fs_find_mutable (Some new) s = None"
      "kstrcmp old new \<noteq> 0" "fs_commit_changes E (upd_file i (\<lambda>f. fs_copy_name f new) s) = (r, s1)"
      "s' = (if r then s1 else upd_file i (\<lambda>f. fs_copy_name f (saved_name (FILES s ! i))) s1)"
proof (cases "fs_find_mutable (Some old) s")
  case None
  then show thesis using assms that(1) by (simp add: fs_rename_internal_def split: if_splits)
next
  case (Some i)
  obtain r1 s1 where c: "fs_commit_changes E (upd_file i (\<lambda>f. fs_copy_name f new) s) = (r1, s1)" by fastforce
  let ?u = "if \<not> r1 then (False, upd_file i (\<lambda>f. fs_copy_name f (saved_name (FILES s ! i))) s1) else (True, s1)"
  have "(r, s') = (False, s) \<or> (r, s') = (True, s) \<and> kstrcmp old new = 0
      \<or> (r, s') = ?u \<and> fs_is_valid_name (Some new) \<and> kstrcmp old new \<noteq> 0 \<and> fs_find_mutable (Some new) s = None"
    unfolding assms[symmetric] fs_rename_internal_def Some option.case Let_def option.sel c prod.case by presburger
  then show thesis using c Some that(1) that(2)[OF _ Some, of s1] by (cases r1) auto
qed

lemma rename_internal_spec:
  assumes ok: "fs_ok media dev_ok s" and n: "terminated old" "terminated new"
    and eq: "fs_rename_internal E (Some old) (Some new) sys s = (r, s')"
  shows "fs_ok media dev_ok s' \<and> fs_view (FILES s') =
      (if r \<and> cstr old \<noteq> cstr new
       then (fs_view (FILES s))(cstr old := None, cstr new := fs_view (FILES s) (cstr old)) else fs_view (FILES s))
    \<and> (r \<longrightarrow> fs_view (FILES s) (cstr old) \<noteq> None \<and> (cstr old \<noteq> cstr new \<longrightarrow> fs_view (FILES s) (cstr new) = None))
    \<and> (\<not> r \<longrightarrow> fs_listing (FILES s') = fs_listing (FILES s)) \<and> g_self_test_active s' = g_self_test_active s"
  using eq
proof (cases rule: rename_cases)
  case 1
  then show ?thesis
    using ok find_mutable_Some(4)[OF _ n(1), of s] n by (auto simp: fs_ok_def kstrcmp_eq_0)
next
  case (2 i s1)
  have inv: "files_inv (FILES s)" and b: "wf_file (g_mutation_backup s)" using ok by (auto simp: fs_ok_def)
  note v = 2(1) and fi = 2(2) and nf = 2(3) and ne = 2(4) and c = 2(5) and s' = 2(6)
  note f = find_mutable_Some[OF inv n(1) fi] and nn = find_mutable_None[OF inv n(2) nf] and vn = valid_nameD[OF v n(2)]
  have ne': "cstr old \<noteq> cstr new" using ne n by (simp add: kstrcmp_eq_0)
  have len: "i < length (FILES s)" using inv f(1) by (simp add: files_inv_def)
  define g where "g = fs_copy_name (FILES s ! i) new"
  have g: "wf_file g" "f_in_use g" "cstr (f_name g) = cstr new" "f_content g = f_content (FILES s ! i)"
    using wf_copy_name[OF f(5) n(2) vn(1)] f(2) n(2) vn by (simp_all add: g_def fs_copy_name_name)
  have u: "upd_file i (\<lambda>f. fs_copy_name f new) s = s\<lparr>FILES := (FILES s)[i := g], g_mutation_backup := g_mutation_backup s\<rparr>"
    by (simp add: upd_file_def g_def)
  have inv1: "files_inv ((FILES s)[i := g])"
    by (rule files_inv_update[OF inv len g(1)]) (use nn(2) g(3) inv in \<open>auto simp: files_inv_def\<close>)
  have vw: "fs_view ((FILES s)[i := g]) = (fs_view (FILES s))(cstr old := None, cstr new := fs_view (FILES s) (cstr old))"
    using view_update[OF _ len, of g] inv inv1 g f(2,3,4) by (simp add: files_inv_def)
  note m = commit_mutation[OF ok u inv1 b c]
  let ?p = "saved_name (FILES s ! i)" and ?h = "fs_copy_name g (saved_name (FILES s ! i))"
  have p: "cstr ?p = cstr (f_name (FILES s ! i))" "terminated ?p" "valid_name (cstr ?p)"
    using f(2,5) cstr_no_zero by (auto simp: wf_file_def valid_name_def cstr_run_eq terminated_def cstr_def takeWhile_tail)
  have h: "wf_file ?h" "f_in_use ?h" "fview ?h = fview (FILES s ! i)"
    using wf_copy_name[OF g(1) p(2,3)] g(2,4) p fs_copy_name_name[OF p(2)] by (auto simp: fview_def valid_name_def g_def)
  have un: "upd_file i (\<lambda>f. fs_copy_name f ?p) s1 = s1\<lparr>FILES := (FILES s)[i := ?h]\<rparr>" using m(1) len by (simp add: upd_file_def)
  have rb: "fs_listing ((FILES s)[i := ?h]) = fs_listing (FILES s)"
    using listing_same_view[OF len, of ?h] h f(2) by simp
  have "files_inv ((FILES s)[i := ?h])"
    using inv h(1) len rb by (simp add: files_inv_def list_all_length nth_list_update)
  then show ?thesis
    using m(1,3,4) m(5)[OF _ _ rb] s' un rb vw ne' f(4) nn(1) by (cases r) (simp_all add: fs_view_def)
qed

lemma remove_internal_spec:
  assumes ok: "fs_ok media dev_ok s" and n: "terminated n" and eq: "fs_remove_internal E (Some n) sys s = (r, s')"
  shows "fs_ok media dev_ok s' \<and> fs_view (FILES s') = (if r then (fs_view (FILES s))(cstr n := None) else fs_view (FILES s))
    \<and> (r \<longrightarrow> fs_view (FILES s) (cstr n) \<noteq> None)
    \<and> (\<not> r \<longrightarrow> fs_listing (FILES s') = fs_listing (FILES s)) \<and> g_self_test_active s' = g_self_test_active s"
proof (cases "r = False \<and> s' = s")
  case True
  then show ?thesis using ok by simp
next
  case False
  have inv: "files_inv (FILES s)" and b: "wf_file (g_mutation_backup s)" using ok by (auto simp: fs_ok_def)
  obtain i where fi: "fs_find_mutable (Some n) s = Some i"
    using eq False by (cases "fs_find_mutable (Some n) s") (simp_all add: fs_remove_internal_def split: if_splits)
  have c: "commit_or_restore E i True (upd_file i fs_clear (backup_file i s)) = (r, s')"
    using eq False fi by (simp add: fs_remove_internal_def split: if_splits)
  note f = find_mutable_Some[OF inv n fi]
  have len: "i < length (FILES s)" using inv f(1) by (simp add: files_inv_def)
  let ?g = "fs_clear (FILES s ! i)"
  have u: "upd_file i fs_clear (backup_file i s) = s\<lparr>FILES := (FILES s)[i := ?g], g_mutation_backup := FILES s ! i\<rparr>"
    using copy_file_id[OF f(5) b] by (simp add: upd_file_def backup_file_def)
  have vc: "files_inv ((FILES s)[i := ?g])" "fs_view ((FILES s)[i := ?g]) = (fs_view (FILES s))(cstr n := None)"
    using view_clear[OF inv len, of ?g] f(2,3,5) by simp_all
  have wg: "wf_file ?g" using f(5) by simp
  note m = commit_or_restore_spec[OF ok f(1) wg vc(1) _ u c]
  show ?thesis using m vc(2) f(4) by (cases r) (simp_all add: fs_view_def)
qed

end

end
