(* ===== verification/Fs_Boot.thy ===== *)
theory Fs_Boot
  imports Fs_Refine
begin

text \<open>
  Boot, quarantine, seeding, self-test and legacy upgrade keep the filesystem invariant, so
  every state the kernel can reach through the public operations satisfies it.
\<close>

section \<open>Definitions\<close>

text \<open>The part of the invariant that does not mention the disk.\<close>

definition fs_shape :: "('w \<Rightarrow> bool) \<Rightarrow> 'w fs_state \<Rightarrow> bool" where
  "fs_shape dev_ok s \<longleftrightarrow> dev_ok (world s) \<and> files_inv (FILES s) \<and> records_used (FILES s) \<le> FS_MAX_FILES
     \<and> wf_table (g_disk_table s) \<and> wf_file (g_mutation_backup s) \<and> wf_file (g_virtual_system_log s)"

text \<open>Only the view and the log change.\<close>

definition refiles :: "('w \<Rightarrow> nat \<Rightarrow> bytes) \<Rightarrow> ('w \<Rightarrow> bool) \<Rightarrow> 'w fs_state \<Rightarrow> 'w fs_state \<Rightarrow> bool" where
  "refiles media dev_ok s s' \<longleftrightarrow> quiet media dev_ok (s\<lparr>FILES := FILES s'\<rparr>) s'"

text \<open>Each file takes a single disk record.\<close>

definition small_contents :: "(bytes \<times> bytes) list \<Rightarrow> bool" where
  "small_contents L \<longleftrightarrow> list_all (\<lambda>c. length c < FS_DISK_DATA_BYTES) (map snd L)"

text \<open>The same contents in the same order: what a rename keeps.\<close>

definition renamed :: "fs_file list \<Rightarrow> fs_file list \<Rightarrow> bool" where
  "renamed fs gs \<longleftrightarrow> files_inv gs \<and> map snd (fs_listing gs) = map snd (fs_listing fs)"

text \<open>A character allowed in a file name.\<close>

definition plain_char :: "char \<Rightarrow> bool" where
  "plain_char c \<longleftrightarrow> (of_char c :: u8) \<notin> {0, 32, 9, 47, 92}"

definition drop_artifact :: "fs_file \<Rightarrow> fs_file" where
  "drop_artifact f = (if fs_file_is_self_test_artifact (Some f) then fs_clear f else f)"

section \<open>Basic facts\<close>

lemma fs_ok_shape:
  "fs_ok media dev_ok s \<longleftrightarrow> fs_shape dev_ok s
     \<and> (g_backend_status s = FS_BACKEND_PERSISTENT \<longrightarrow> committed (media (world s)) s (fs_listing (FILES s)))
     \<and> (g_legacy_upgrade_status s = FS_LEGACY_UPGRADE_AVAILABLE \<longrightarrow> active_ok (media (world s)) s)"
  by (auto simp: fs_ok_def fs_shape_def)

lemma fs_shapeD:
  assumes "fs_shape dev_ok s"
  shows "dev_ok (world s)" "files_inv (FILES s)" "records_used (FILES s) \<le> FS_MAX_FILES" "wf_table (g_disk_table s)"
    "wf_file (g_mutation_backup s)" "wf_file (g_virtual_system_log s)" "files_ok (FILES s)"
  using assms by (auto simp: fs_shape_def files_ok_def files_inv_def)

lemma refilesD:
  assumes "refiles media dev_ok s s'"
  shows "g_disk_table s' = g_disk_table s" "g_mutation_backup s' = g_mutation_backup s"
    "g_active_slot s' = g_active_slot s" "g_active_generation s' = g_active_generation s"
    "g_loaded_version s' = g_loaded_version s" "g_backend_status s' = g_backend_status s"
    "g_legacy_upgrade_status s' = g_legacy_upgrade_status s" "g_self_test_active s' = g_self_test_active s"
    "g_virtual_system_log s' = g_virtual_system_log s" "g_system_log_is_virtual s' = g_system_log_is_virtual s"
    "dev_ok (world s')" "media (world s') = media (world s)"
  using quietD(2-13)[OF assms[unfolded refiles_def]] by simp_all

lemma refilesI:
  assumes "quiet media dev_ok (s\<lparr>FILES := fs\<rparr>) s'"
  shows "refiles media dev_ok s s'"
  using assms quietD(1)[OF assms] by (simp add: refiles_def)

lemma refiles_set: "dev_ok (world s) \<Longrightarrow> refiles media dev_ok s (s\<lparr>FILES := fs\<rparr>)"
  by (rule refilesI[where fs = fs]) (simp add: quiet_def)

lemma refiles_trans:
  assumes "refiles media dev_ok s t" and "refiles media dev_ok t u"
  shows "refiles media dev_ok s u"
proof -
  obtain w v fs gs where t: "t = s\<lparr>FILES := fs, world := w\<rparr>" and u: "u = t\<lparr>FILES := gs, world := v\<rparr>"
    using assms unfolding refiles_def quiet_def by blast
  show ?thesis using refilesD(11,12)[OF assms(2)] refilesD(12)[OF assms(1)] by (simp add: refiles_def quiet_def t u)
qed

section \<open>Small steps\<close>

lemma slot_mounted_active: "slot_mounted m slot s \<Longrightarrow> active_ok m s"
  by (auto simp: slot_mounted_def active_ok_def slot_listing_def Let_def split: prod.splits if_splits)

lemma slot_mounted_committed: "slot_mounted m slot s \<Longrightarrow> trusted_order m slot \<Longrightarrow> committed m s (fs_listing (FILES s))"
  by (auto simp: slot_mounted_def committed_def)

lemma slot_listing_small:
  assumes "slot_listing m slot = Some L" and "h_version (slot_header m slot) < FS_DISK_VERSION" and "e \<in> set L"
    and "\<forall>l. length (m l) = 512"
  shows "length (snd e) < FS_DISK_DATA_BYTES"
proof -
  let ?t = "table_of_bytes (slot_table m slot)"
  have "length (slot_table m slot) = 512 * FS_DISK_TABLE_SECTORS" using length_sectors[OF assms(4)] by (simp add: slot_table_def)
  then have wt: "wf_table ?t" by (rule table_bytes_of(1))
  have d: "deserialize_legacy ?t blank_files = (True, map2 load_legacy_record (t_records ?t) blank_files)"
    "list_all (legacy_record_ok (t_records ?t)) [0..<FS_MAX_FILES]" "L = fs_listing (map2 load_legacy_record (t_records ?t) blank_files)"
    using assms(1,2)
    by (auto simp: slot_listing_def deserialize_as_def deserialize_legacy_def Let_def not_le[symmetric]
        simp del: upt_rec_numeral split: if_splits prod.splits)
  then obtain i where i: "i < FS_MAX_FILES" "e = fview (load_legacy_record (t_records ?t ! i) blank_file)"
    "f_in_use (load_legacy_record (t_records ?t ! i) blank_file)"
    using assms(3) wt by (auto simp: fs_listing_def set_zip blank_files_def wf_table_def)
  have "legacy_record_ok (t_records ?t) i" using d(2) i(1) by (simp add: list_all_iff del: upt_rec_numeral)
  then have "unat (r_size (t_records ?t ! i)) < FS_DISK_DATA_BYTES"
    using i(3) by (auto simp: legacy_record_ok_def load_legacy_record_def Let_def split: if_splits)
  then show ?thesis using i(2,3) by (auto simp: fview_def load_legacy_record_def split: if_splits)
qed

text \<open>Renaming one file to a name no file has.\<close>

lemma rename_slot:
  assumes inv: "files_inv (FILES s)" and i: "i < FS_MAX_FILES" and u: "f_in_use (FILES s ! i)" and n: "terminated n" "valid_name (cstr n)"
    and nf: "fs_find_mutable (Some n) s = None"
  shows "files_inv ((FILES s)[i := fs_copy_name (FILES s ! i) n])"
    and "map snd (fs_listing ((FILES s)[i := fs_copy_name (FILES s ! i) n])) = map snd (fs_listing (FILES s))"
proof -
  have len: "i < length (FILES s)" "length (FILES s) = FS_MAX_FILES" using inv i by (auto simp: files_inv_def)
  have wf: "wf_file (FILES s ! i)" using inv len by (simp add: files_inv_def list_all_length)
  have nm: "cstr (f_name (fs_copy_name (FILES s ! i) n)) = cstr n" using n by (simp add: fs_copy_name_name valid_name_def)
  show "files_inv ((FILES s)[i := fs_copy_name (FILES s ! i) n])"
    by (rule files_inv_update[OF inv len(1) wf_copy_name[OF wf n]]) (use find_mutable_None(2)[OF inv n(1) nf] nm len in auto)
  show "map snd (fs_listing ((FILES s)[i := fs_copy_name (FILES s ! i) n])) = map snd (fs_listing (FILES s))"
    using u by (simp add: listing_split[OF len(1)] listing_update[OF len(1)] fview_def)
qed

lemma renamedD:
  assumes "renamed fs gs" and "files_inv fs"
  shows "files_inv gs" "records_used gs = records_used fs" "small_contents (fs_listing gs) = small_contents (fs_listing fs)"
proof -
  have eq: "map (\<lambda>e. fs_disk_records_needed (length (snd e))) L = map (fs_disk_records_needed \<circ> length) (map snd L)" for L :: "(bytes \<times> bytes) list"
    by simp
  show "files_inv gs" "small_contents (fs_listing gs) = small_contents (fs_listing fs)"
    using assms by (simp_all add: renamed_def small_contents_def)
  show "records_used gs = records_used fs"
    using assms unfolding renamed_def files_inv_def by (simp only: records_of_listing eq)
qed

lemma renamed_trans: "renamed fs gs \<Longrightarrow> renamed gs hs \<Longrightarrow> renamed fs hs"
  by (simp add: renamed_def)

lemma recover_name_spec:
  assumes "\<forall>a \<in> set attempts. terminated (cand a) \<and> valid_name (cstr (cand a))"
    and "files_inv (FILES s)" and "i < FS_MAX_FILES" and "f_in_use (FILES s ! i)"
    and "recover_name cand i attempts s = (b, s')"
  shows "\<exists>fs. s' = s\<lparr>FILES := fs\<rparr> \<and> renamed (FILES s) fs \<and> (\<not> b \<longrightarrow> fs = FILES s)"
  using assms
proof (induction cand i attempts s rule: recover_name.induct)
  case (1 cand i s)
  then show ?case by (auto intro!: exI[of _ "FILES s"] simp: renamed_def)
next
  case (2 cand i a attempts s)
  show ?case
  proof (cases "fs_find_mutable (Some (cand a)) s")
    case None
    have b: "b" and s': "s' = s\<lparr>FILES := (FILES s)[i := fs_copy_name (FILES s ! i) (cand a)]\<rparr>"
      using 2 None by (simp_all add: upd_file_def)
    show ?thesis using rename_slot[OF 2(3-5) _ _ None] 2(2) b s'
      by (intro exI[of _ "(FILES s)[i := fs_copy_name (FILES s ! i) (cand a)]"]) (simp add: renamed_def)
  next
    case (Some j)
    have "recover_name cand i attempts s = (b, s')" using 2(6) Some by simp
    moreover have "fs_find_mutable (Some (cand a)) s \<noteq> None" "\<forall>x \<in> set attempts. terminated (cand x) \<and> valid_name (cstr (cand x))"
      using Some 2(2) by auto
    ultimately show ?thesis using 2(1)[OF _ _ 2(3-5)] by blast
  qed
qed

lemma cstr_lit: "list_all plain_char s \<Longrightarrow> cstr (lit s) = map of_char s"
  by (induction s) (auto simp: lit_def cstr_def plain_char_def)

lemma digit_plain: "d < 10 \<Longrightarrow> (48 + of_nat d :: u8) \<notin> {0, 32, 9, 47, 92}"
proof -
  assume "d < 10"
  then have "d \<in> {0, 1, 2, 3, 4, 5, 6, 7, 8, 9}" by auto
  then show ?thesis by auto
qed

lemma valid_nameI: "s \<noteq> [] \<Longrightarrow> length s < FS_MAX_FILENAME \<Longrightarrow> \<forall>c \<in> set s. c \<notin> {0, 32, 9, 47, 92} \<Longrightarrow>
    terminated (s @ [0]) \<and> valid_name (cstr (s @ [0]))"
  by (auto simp: valid_name_def terminated_def cstr_def takeWhile_tail)

lemma recovered_name_valid:
  assumes p: "list_all plain_char base0" "list_all plain_char base" "list_all plain_char suffix"
    and l: "base0 \<noteq> []" "base \<noteq> []" "length base0 < FS_MAX_FILENAME" "length base + 2 + length suffix < FS_MAX_FILENAME"
  shows "terminated (recovered_name base0 base suffix a) \<and> valid_name (cstr (recovered_name base0 base suffix a))"
proof -
  have plain: "c \<notin> {0, 32, 9, 47, 92}" if "c \<in> of_char ` set s" "list_all plain_char s" for c :: u8 and s
    using that by (auto simp: list_all_iff plain_char_def)
  have run: "cstr_run n (lit s) = map of_char s" if "list_all plain_char s" "length s \<le> n" for s n
    using that by (simp add: cstr_run_eq cstr_lit)
  show ?thesis
  proof (cases "a = 0")
    case True
    then have "recovered_name base0 base suffix a = map of_char base0 @ [0]"
      using run[OF p(1)] l by (simp add: recovered_name_def)
    then show ?thesis using valid_nameI[of "map of_char base0"] l plain[OF _ p(1)] by simp
  next
    case False
    define ds where "ds = (if a \<ge> 10 then [48 + of_nat (a div 10 mod 10)] else []) @ [48 + of_nat (a mod 10) :: u8]"
    have ds: "length ds \<le> 2" "\<forall>c \<in> set ds. c \<notin> {0, 32, 9, 47, 92}"
      using digit_plain[of "a div 10 mod 10"] digit_plain[of "a mod 10"] by (auto simp: ds_def)
    have "recovered_name base0 base suffix a = (map of_char base @ ds @ map of_char suffix) @ [0]"
      using False run[OF p(2)] run[OF p(3)] l by (simp add: recovered_name_def Let_def ds_def)
    moreover have "\<forall>c \<in> set (map of_char base @ ds @ map of_char suffix). c \<notin> {0, 32, 9, 47, 92 :: u8}"
      using ds(2) plain[OF _ p(2)] plain[OF _ p(3)] by auto
    ultimately show ?thesis using valid_nameI[of "map of_char base @ ds @ map of_char suffix"] ds(1) l by simp
  qed
qed

lemma recovered_names_valid:
  "\<forall>a \<in> set as. terminated (fs_recovered_self_test_name a) \<and> valid_name (cstr (fs_recovered_self_test_name a))"
  "\<forall>a \<in> set as. terminated (fs_recovered_log_name a) \<and> valid_name (cstr (fs_recovered_log_name a))"
  unfolding fs_recovered_self_test_name_def fs_recovered_log_name_def
  by (intro ballI recovered_name_valid; simp add: plain_char_def)+

lemma quarantine_files_spec:
  assumes "files_inv (FILES s)" and "\<forall>i \<in> set is. i < FS_MAX_FILES" and "quarantine_files is s = (b, s')"
  shows "\<exists>fs. s' = s\<lparr>FILES := fs\<rparr> \<and> renamed (FILES s) fs \<and> (\<not> b \<longrightarrow> fs = FILES s)"
  using assms
proof (induction "is" s arbitrary: b s' rule: quarantine_files.induct)
  case (1 s)
  then show ?case by (auto intro!: exI[of _ "FILES s"] simp: renamed_def)
next
  case (2 i "is" s)
  show ?case
  proof (cases "fs_file_is_self_test_artifact (Some (FILES s ! i))")
    case False
    then show ?thesis using 2(1)[OF False, of b s'] 2(3-5) by simp
  next
    case True
    obtain r s1 where r: "recover_name fs_recovered_self_test_name i [0..<FS_MAX_FILES + 1] s = (r, s1)" by fastforce
    obtain c s2 where c: "quarantine_files is s1 = (c, s2)" by fastforce
    have u: "f_in_use (FILES s ! i)" using True by (auto simp: fs_file_is_self_test_artifact_def split: if_splits)
    obtain fs where fs: "s1 = s\<lparr>FILES := fs\<rparr>" "renamed (FILES s) fs" "\<not> r \<longrightarrow> fs = FILES s"
      using recover_name_spec[OF recovered_names_valid(1) 2(3) _ u r] 2(4) by auto
    obtain gs where gs: "s2 = s1\<lparr>FILES := gs\<rparr>" "renamed (FILES s1) gs" "\<not> c \<longrightarrow> gs = FILES s1"
      using 2(2)[OF _ r[symmetric] refl _ _ c] True 2(4) fs(1,2) by (auto simp: renamed_def)
    have "b = (r \<or> c)" "s' = s2" using 2(5) True r c by (simp_all add: Let_def del: upt_rec_numeral)
    then show ?thesis using fs gs by (intro exI[of _ gs]) (auto simp: renamed_def)
  qed
qed

section \<open>Seeding\<close>

lemma set_contents_wf:
  assumes "length (f_name f) = FS_MAX_FILENAME" "length (f_data f) = FS_MAX_FILE_SIZE" "f_in_use f" "terminated (f_name f)"
    "valid_name (cstr (f_name f))" and len: "len < FS_MAX_FILE_SIZE" "len \<le> length b"
  shows "wf_file (set_contents (Some b) len f)" "f_content (set_contents (Some b) len f) = take len b"
proof -
  have wf: "wf_file (f\<lparr>f_size := 0, f_data := replicate FS_MAX_FILE_SIZE 0\<rparr>)" using assms by (simp add: wf_file_def)
  have eq: "f_data (set_contents (Some b) len f) = take len b @ 0 # drop (Suc len) (f_data f)"
    using len by (simp add: set_contents_def blit_def)
  show "f_content (set_contents (Some b) len f) = take len b" using len eq by (simp add: set_contents_def)
  have "(take len b @ 0 # drop (Suc len) (f_data f)) ! len = 0" using len by (simp add: nth_append)
  then show "wf_file (set_contents (Some b) len f)" using assms eq by (auto simp: wf_file_def set_contents_def length_blit)
qed

lemma seed_bytes_spec:
  assumes inv: "files_inv (FILES s)" and n: "terminated n" and c: "len \<le> length c"
    and eq: "fs_seed_bytes (Some n) (Some c) len s = (r, s')"
  shows "\<exists>fs. s' = s\<lparr>FILES := fs\<rparr> \<and> files_inv fs \<and> records_used fs \<le> records_used (FILES s) + fs_disk_records_needed len
    \<and> (if r then fs_view fs = (fs_view (FILES s))(cstr n \<mapsto> take len c) else fs = FILES s)"
proof -
  consider (no) "r = False" "s' = s"
    | (old) i where "fs_is_valid_name (Some n)" "len < FS_MAX_FILE_SIZE" "fs_find_mutable (Some n) s = Some i" "r"
        "s' = upd_file i (set_contents (Some c) len) s"
    | (new) i where "fs_is_valid_name (Some n)" "len < FS_MAX_FILE_SIZE" "fs_find_mutable (Some n) s = None"
        "fs_allocate_slot s = Some i" "r"
        "s' = upd_file i (set_contents (Some c) len) (upd_file i (\<lambda>f. fs_copy_name (f\<lparr>f_in_use := True\<rparr>) n) s)"
    using eq by (cases "fs_find_mutable (Some n) s"; cases "fs_allocate_slot s")
      (auto simp: fs_seed_bytes_def not_le split: if_splits)
  then show ?thesis
  proof cases
    case no
    then show ?thesis using inv by (intro exI[of _ "FILES s"]) simp
  next
    case (old i)
    note f = find_mutable_Some[OF inv n old(3)]
    note p = set_contents_props[OF f(5) old(2), of c "Some c"]
    let ?f = "set_contents (Some c) len (FILES s ! i)"
    have rv: "files_inv ((FILES s)[i := ?f])" "fs_view ((FILES s)[i := ?f]) = (fs_view (FILES s))(cstr n \<mapsto> take len c)"
      using replace_view[OF inv f(1), of ?f "cstr n"] p c f by auto
    have "records_used ((FILES s)[i := ?f]) \<le> records_used (FILES s) + fs_disk_records_needed len"
      using records_update[of i "FILES s" ?f] inv f(1,2) p c by (simp add: files_inv_def)
    then show ?thesis using rv old by (intro exI[of _ "(FILES s)[i := ?f]"]) (simp add: upd_file_def)
  next
    case (new i)
    note a = allocate_Some[OF inv new(4)] and nn = find_mutable_None[OF inv n new(3)] and v = valid_nameD[OF new(1) n]
    let ?g = "fs_copy_name ((FILES s ! i)\<lparr>f_in_use := True\<rparr>) n" and ?f = "set_contents (Some c) len (fs_copy_name ((FILES s ! i)\<lparr>f_in_use := True\<rparr>) n)"
    have nm: "cstr (f_name ?g) = cstr n" using n v by (simp add: fs_copy_name_name)
    have p: "wf_file ?f" "f_content ?f = take len c"
      using set_contents_wf[of ?g len c] a(3) nm v new(2) c by (simp_all add: wf_file_def)
    have q: "f_in_use ?f" "cstr (f_name ?f) = cstr n" "f_size ?f = len" using nm by (simp_all add: set_contents_def)
    have len: "i < length (FILES s)" using inv a(1) by (simp add: files_inv_def)
    have rv: "files_inv ((FILES s)[i := ?f])" "fs_view ((FILES s)[i := ?f]) = (fs_view (FILES s))(cstr n \<mapsto> take len c)"
      using replace_view[OF inv a(1) p(1) q(1,2)] a(2) nn(2) p(2) by auto
    have "records_used ((FILES s)[i := ?f]) \<le> records_used (FILES s) + fs_disk_records_needed len"
      using records_update[OF len, of ?f] a(2) q by simp
    then show ?thesis using rv new len by (intro exI[of _ "(FILES s)[i := ?f]"]) (simp add: upd_file_def)
  qed
qed

section \<open>Self-test leftovers\<close>

lemma clear_artifacts:
  assumes "files_inv (FILES s)"
  shows "snd (fs_clear_self_test_artifacts s) = s\<lparr>FILES := map drop_artifact (FILES s)\<rparr>"
    and "files_inv (map drop_artifact (FILES s))" and "records_used (map drop_artifact (FILES s)) \<le> records_used (FILES s)"
    and "\<forall>f \<in> set (FILES s). \<not> fs_file_is_self_test_artifact (Some f) \<Longrightarrow> map drop_artifact (FILES s) = FILES s"
proof -
  let ?P = "\<lambda>f. fs_file_is_self_test_artifact (Some f)"
  show "snd (fs_clear_self_test_artifacts s) = s\<lparr>FILES := map drop_artifact (FILES s)\<rparr>"
    by (simp add: fs_clear_self_test_artifacts_def drop_artifact_def[abs_def])
  have fil: "filter f_in_use (map drop_artifact fs) = filter (\<lambda>f. f_in_use f \<and> \<not> ?P f) fs" for fs
    by (induction fs) (auto simp: drop_artifact_def)
  have "fs_listing (map drop_artifact fs) = map fview (filter (\<lambda>f. \<not> ?P f) (filter f_in_use fs))" for fs
    by (simp add: fs_listing_def fil conj_commute)
  moreover have "distinct (map fst (map fview (filter f_in_use (FILES s))))" using assms by (simp add: files_inv_def fs_listing_def)
  ultimately have "distinct (map fst (fs_listing (map drop_artifact (FILES s))))"
    using distinct_map_filter[of "fst \<circ> fview" "filter f_in_use (FILES s)"] by (simp add: comp_def)
  then show "files_inv (map drop_artifact (FILES s))"
    using assms by (auto simp: files_inv_def list_all_iff drop_artifact_def)
  have "records_used (map drop_artifact fs) \<le> records_used fs" for fs
    by (induction fs) (auto simp: records_Cons drop_artifact_def)
  then show "records_used (map drop_artifact (FILES s)) \<le> records_used (FILES s)" .
  show "\<forall>f \<in> set (FILES s). \<not> ?P f \<Longrightarrow> map drop_artifact (FILES s) = FILES s"
    by (simp add: drop_artifact_def map_idI)
qed

end
