(* ===== verification/Fs_Selftest.thy ===== *)
theory Fs_Selftest
  imports Fs_Boot
begin

text \<open>
  Loading a volume and the persistence self-test keep the filesystem invariant.
\<close>

context block_device
begin

section \<open>Loading and the self-test\<close>

lemma fs_ok_volatile:
  assumes "fs_shape dev_ok s" and "g_backend_status s \<noteq> FS_BACKEND_PERSISTENT"
    and "g_legacy_upgrade_status s = FS_LEGACY_UPGRADE_AVAILABLE \<Longrightarrow> active_ok (media (world s)) s"
  shows "fs_ok media dev_ok s"
  using assms by (simp add: fs_ok_shape)

lemma fs_ok_say: "fs_ok media dev_ok s \<Longrightarrow> fs_ok media dev_ok (fs_say E msg s)"
  using say_world[of s] by (auto simp: fs_ok_def committed_def active_ok_def)

lemma fs_ok_flag: "fs_ok media dev_ok s \<Longrightarrow> fs_ok media dev_ok (s\<lparr>g_self_test_active := b\<rparr>)"
  by (simp add: fs_ok_def committed_def active_ok_def)

text \<open>After a load: the shape, and what the disk holds.\<close>

lemma load_shape:
  assumes s: "fs_shape dev_ok s" and eq: "fs_load_from_disk E s = (r, s')"
  shows "fs_shape dev_ok s'" and "media (world s') = media (world s)" and "g_backend_status s' = g_backend_status s"
    and "g_self_test_active s' = g_self_test_active s"
    and "is_loaded r \<Longrightarrow> active_ok (media (world s')) s' \<and> g_active_slot s' < FS_SLOT_COUNT
      \<and> slot_listing (media (world s')) (g_active_slot s') = Some (fs_listing (FILES s'))
      \<and> h_version (slot_header (media (world s')) (g_active_slot s')) = g_loaded_version s'"
    and "r = FS_DISK_LOADED \<Longrightarrow> committed (media (world s')) s' (fs_listing (FILES s'))"
    and "g_legacy_upgrade_status s' = FS_LEGACY_UPGRADE_AVAILABLE \<Longrightarrow> active_ok (media (world s')) s'"
    and "r = FS_DISK_BLANK \<Longrightarrow> active_ok (media (world s')) s'"
    and "g_legacy_upgrade_status s' = FS_LEGACY_UPGRADE_AVAILABLE \<Longrightarrow> is_loaded r"
proof -
  note l = load_spec[OF fs_shapeD(1,4,7)[OF s] eq]
  note d = mountsD[OF l(1)]
  show m: "media (world s') = media (world s)" by (rule d(7))
  show "g_backend_status s' = g_backend_status s" "g_self_test_active s' = g_self_test_active s" using d by simp_all
  have "files_inv (FILES s') \<and> records_used (FILES s') \<le> FS_MAX_FILES"
    using l(2,4) fs_shapeD(2,3)[OF s] by (cases "is_loaded r") (auto simp: slot_mounted_def)
  then show "fs_shape dev_ok s'" using d fs_shapeD[OF s] by (simp add: fs_shape_def)
  show load: "is_loaded r \<Longrightarrow> active_ok (media (world s')) s' \<and> g_active_slot s' < FS_SLOT_COUNT
      \<and> slot_listing (media (world s')) (g_active_slot s') = Some (fs_listing (FILES s'))
      \<and> h_version (slot_header (media (world s')) (g_active_slot s')) = g_loaded_version s'"
    using l(2) slot_mounted_active m by (fastforce simp: slot_mounted_def)
  show "r = FS_DISK_LOADED \<Longrightarrow> committed (media (world s')) s' (fs_listing (FILES s'))"
    using l(3) slot_mounted_committed m by auto
  show "g_legacy_upgrade_status s' = FS_LEGACY_UPGRADE_AVAILABLE \<Longrightarrow> active_ok (media (world s')) s'"
    using l(6) load by blast
  show "r = FS_DISK_BLANK \<Longrightarrow> active_ok (media (world s')) s'"
    using l(5) m by (simp add: active_ok_def)
  show "g_legacy_upgrade_status s' = FS_LEGACY_UPGRADE_AVAILABLE \<Longrightarrow> is_loaded r" by (rule l(6))
qed

lemma clear_artifacts_volatile:
  assumes s: "fs_shape dev_ok s" and v: "g_backend_status s \<noteq> FS_BACKEND_PERSISTENT"
    and a: "g_legacy_upgrade_status s = FS_LEGACY_UPGRADE_AVAILABLE \<Longrightarrow> active_ok (media (world s)) s"
  shows "fs_ok media dev_ok (fs_say E msg ((snd (fs_clear_self_test_artifacts s))\<lparr>g_self_test_active := False\<rparr>))"
proof -
  note c = clear_artifacts[OF fs_shapeD(2)[OF s]]
  let ?t = "(snd (fs_clear_self_test_artifacts s))\<lparr>g_self_test_active := False\<rparr>"
  have "fs_ok media dev_ok ?t"
    using c(1-3) fs_shapeD[OF s] v a active_ok_cong[of ?t s]
    by (intro fs_ok_volatile) (auto simp: fs_shape_def)
  then show ?thesis by (rule fs_ok_say)
qed

lemma self_test_reload_ok:
  assumes s: "fs_shape dev_ok s" and eq: "fs_self_test_reload E msg s = (b, s')"
  shows "fs_ok media dev_ok s'"
proof -
  obtain r t where l: "fs_load_from_disk E s = (r, t)" by fastforce
  note x = load_shape[OF s l]
  show ?thesis
  proof (cases "r = FS_DISK_LOADED")
    case True
    let ?t = "t\<lparr>g_backend_status := FS_BACKEND_PERSISTENT\<rparr>"
    have "fs_ok media dev_ok ?t"
      using x(1,6,7) True active_ok_cong[of ?t t] committed_cong[of ?t t] by (simp add: fs_ok_shape fs_shape_def)
    then show ?thesis using eq True by (simp add: fs_self_test_reload_def l Let_def)
  next
    case False
    let ?t = "t\<lparr>g_backend_status := (if r = FS_DISK_NO_DRIVE then FS_BACKEND_VOLATILE_NO_DRIVE
        else if r = FS_DISK_CORRUPT \<or> r = FS_DISK_LOADED_CORRUPT then FS_BACKEND_VOLATILE_CORRUPT else FS_BACKEND_VOLATILE_IO_ERROR)\<rparr>"
    have "fs_ok media dev_ok (fs_say E msg ((snd (fs_clear_self_test_artifacts ?t))\<lparr>g_self_test_active := False\<rparr>))"
      using x(1,7) active_ok_cong[of ?t t] by (intro clear_artifacts_volatile) (simp_all add: fs_shape_def)
    then show ?thesis using eq False by (simp add: fs_self_test_reload_def l Let_def)
  qed
qed

lemma self_test_fail_ok:
  assumes "fs_ok media dev_ok s"
  shows "fs_ok media dev_ok (fs_self_test_fail E msg s)"
proof -
  let ?t = "s\<lparr>g_backend_status := FS_BACKEND_VOLATILE_IO_ERROR\<rparr>"
  show ?thesis unfolding fs_self_test_fail_def Let_def
    using assms active_ok_cong[of ?t s] by (intro clear_artifacts_volatile) (simp_all add: fs_ok_shape fs_shape_def)
qed

lemma write_bytes_ok:
  assumes "fs_ok media dev_ok s" "terminated n" "len \<le> length c" "fs_write_bytes_internal E (Some n) (Some c) len sys s = (r, s')"
  shows "fs_ok media dev_ok s'"
  using write_internal_spec(1)[OF assms(1,2) _ assms(4)] assms(3) by simp

lemma self_test_ok:
  assumes ok: "fs_ok media dev_ok s" and none: "\<forall>f \<in> set (FILES s). \<not> fs_file_is_self_test_artifact (Some f)"
  shows "fs_ok media dev_ok (fs_self_test E s)"
proof -
  let ?sc = "lit ''__fs_self_test__''" and ?rn = "lit ''__fs_self_renamed__''"
  define s0 where "s0 = snd (fs_clear_self_test_artifacts (s\<lparr>g_self_test_active := True\<rparr>))"
  have ok0: "fs_ok media dev_ok s0"
    using clear_artifacts(1,4)[of "s\<lparr>g_self_test_active := True\<rparr>"] none ok fs_ok_flag[OF ok, of True]
    by (simp add: s0_def fs_ok_def)
  obtain r1 s1 where e1: "fs_write_bytes E (Some ?sc) (Some FS_SELF_TEST_PAYLOAD) (length FS_SELF_TEST_PAYLOAD) s0 = (r1, s1)" by fastforce
  have ok1: "fs_ok media dev_ok s1"
    using write_bytes_ok[OF ok0 _ _ e1[unfolded fs_write_bytes_def]] by simp
  obtain r2 s2 where e2: "fs_self_test_reload E ''FS: self-test (binary persistence reload) failed'' s1 = (r2, s2)" by fastforce
  have ok2: "fs_ok media dev_ok s2" using self_test_reload_ok[OF _ e2] ok1 by (simp add: fs_ok_shape)
  obtain r3 s3 where e3: "fs_rename E (Some ?sc) (Some ?rn) s2 = (r3, s3)" by fastforce
  have ok3: "fs_ok media dev_ok s3" using rename_internal_spec[OF ok2 _ _ e3[unfolded fs_rename_def]] by simp
  obtain r4 s4 where e4: "fs_self_test_reload E ''FS: self-test (rename persistence reload) failed'' s3 = (r4, s4)" by fastforce
  have ok4: "fs_ok media dev_ok s4" using self_test_reload_ok[OF _ e4] ok3 by (simp add: fs_ok_shape)
  obtain r5 s5 where e5: "fs_remove E (Some ?rn) s4 = (r5, s5)" by fastforce
  have ok5: "fs_ok media dev_ok s5" using remove_internal_spec[OF ok4 _ e5[unfolded fs_remove_def]] by simp
  obtain r6 s6 where e6: "fs_self_test_reload E ''FS: self-test (remove persistence reload) failed'' s5 = (r6, s6)" by fastforce
  have ok6: "fs_ok media dev_ok s6" using self_test_reload_ok[OF _ e6] ok5 by (simp add: fs_ok_shape)
  show ?thesis
    unfolding fs_self_test_def Let_def s0_def[symmetric] e1 e2 e3 e4 e5 e6 prod.case
    using self_test_fail_ok ok1 ok2 ok3 ok4 ok5 ok6 fs_ok_say[OF fs_ok_flag] by simp
qed

section \<open>Mounting a loaded volume\<close>

lemma say_if_simps [simp]:
  "FILES (say_if E b msg s) = FILES s" "g_disk_table (say_if E b msg s) = g_disk_table s"
  "g_mutation_backup (say_if E b msg s) = g_mutation_backup s" "g_active_slot (say_if E b msg s) = g_active_slot s"
  "g_active_generation (say_if E b msg s) = g_active_generation s" "g_loaded_version (say_if E b msg s) = g_loaded_version s"
  "g_backend_status (say_if E b msg s) = g_backend_status s"
  "g_legacy_upgrade_status (say_if E b msg s) = g_legacy_upgrade_status s"
  "g_virtual_system_log (say_if E b msg s) = g_virtual_system_log s"
  by (simp_all add: say_if_def)

lemma say_if_world: "dev_ok (world s) \<Longrightarrow> dev_ok (world (say_if E b msg s)) \<and> media (world (say_if E b msg s)) = media (world s)"
  using say_world by (simp add: say_if_def)

lemma fs_ok_say_if: "fs_ok media dev_ok s \<Longrightarrow> fs_ok media dev_ok (say_if E b msg s)"
  using fs_ok_say by (simp add: say_if_def)

text \<open>Committing a prepared view: the step at the end of a mount.\<close>

lemma commit_prepared:
  assumes s: "fs_shape dev_ok s"
    and act: "g_backend_status s = FS_BACKEND_PERSISTENT \<longrightarrow> active_ok (media (world s)) s \<and> g_active_slot s < FS_SLOT_COUNT"
    and leg: "g_legacy_upgrade_status s = FS_LEGACY_UPGRADE_AVAILABLE \<longrightarrow> active_ok (media (world s)) s"
    and eq: "fs_commit_changes E s = (ok, s')"
  shows "ok \<Longrightarrow> fs_ok media dev_ok s'"
    and "\<not> ok \<Longrightarrow> files_inv fs \<Longrightarrow> records_used fs \<le> FS_MAX_FILES \<Longrightarrow> fs_ok media dev_ok (s'\<lparr>FILES := fs\<rparr>)"
    and "FILES s' = FILES s"
proof -
  note d = fs_shapeD[OF s]
  note c = commit_spec[OF d(1,2) act eq]
  show "FILES s' = FILES s" using c(1) by blast
  have leg': "g_legacy_upgrade_status s' = FS_LEGACY_UPGRADE_AVAILABLE \<longrightarrow> active_ok (media (world s')) s'"
    using c(1,5) leg by simp
  show "fs_ok media dev_ok s'" if ok
    using c(1-3) that leg' d by (simp add: fs_ok_def)
  show "fs_ok media dev_ok (s'\<lparr>FILES := fs\<rparr>)" if "\<not> ok" "files_inv fs" "records_used fs \<le> FS_MAX_FILES"
    using c(1,7) that leg' d active_ok_cong[of "s'\<lparr>FILES := fs\<rparr>" s'] by (simp add: fs_ok_def)
qed

text \<open>The quarantine of an old physical system.log.\<close>

lemma quarantine_log_spec:
  assumes inv: "files_inv (FILES s)" and eq: "fs_quarantine_physical_system_log s = (b, s')"
  shows "\<exists>fs. s' = s\<lparr>FILES := fs\<rparr> \<and> renamed (FILES s) fs \<and> (\<not> b \<longrightarrow> fs = FILES s)"
proof (cases "fs_find_mutable (Some (lit ''system.log'')) s")
  case None
  then show ?thesis using eq inv by (intro exI[of _ "FILES s"]) (simp add: fs_quarantine_physical_system_log_def renamed_def)
next
  case (Some i)
  note f = find_mutable_Some[OF inv _ Some]
  show ?thesis
    using recover_name_spec[OF recovered_names_valid(2) inv] f eq Some
    by (simp add: fs_quarantine_physical_system_log_def del: upt_rec_numeral)
qed

end

end
