(* ===== verification/Fs_Init.thy ===== *)
theory Fs_Init
  imports Fs_Selftest
begin

text \<open>
  What \<open>fs_init\<close> does after the load keeps the invariant: mounting a loaded volume (quarantine,
  migration, commit) and formatting a blank one (seed, sync, self-test).
\<close>

section \<open>Seeded files\<close>

lemma small_view:
  assumes "distinct (map fst L)"
  shows "small_contents L \<longleftrightarrow> (\<forall>n c. map_of L n = Some c \<longrightarrow> length c < FS_DISK_DATA_BYTES)"
proof -
  have "map_of L n = Some c \<longleftrightarrow> (n, c) \<in> set L" for n c using assms by simp
  then show ?thesis by (auto simp: small_contents_def list_all_iff)
qed

lemma small_records:
  assumes inv: "files_inv fs" and small: "small_contents (fs_listing fs)"
  shows "records_used fs \<le> FS_MAX_FILES"
proof -
  have "f_size f < FS_DISK_DATA_BYTES" if f: "f \<in> set fs" "f_in_use f" for f
  proof -
    have wf: "wf_file f" using inv f by (simp add: files_inv_def list_all_iff)
    have "fview f \<in> set (fs_listing fs)" using f by (simp add: fs_listing_def)
    then have "length (snd (fview f)) < FS_DISK_DATA_BYTES" using small by (auto simp: small_contents_def list_all_iff)
    then show ?thesis using wf f by (simp add: fview_def wf_file_def)
  qed
  then have "records_used fs \<le> length fs" by (intro records_small) simp
  then show ?thesis using inv by (simp add: files_inv_def)
qed

lemma length_bmp_row:
  assumes "y < DEFAULT_BMP_HEIGHT" and "length bmp = DEFAULT_BMP_SIZE"
  shows "length (bmp_row y bmp) = DEFAULT_BMP_SIZE"
proof -
  have px: "length (bmp_pixel x y) = 3" for x by (simp add: bmp_pixel_def Let_def)
  have "length (foldl (\<lambda>bmp x. blit bmp (p + x * 3) (bmp_pixel x y)) b xs) = length b"
    if "\<forall>x \<in> set xs. p + x * 3 + 3 \<le> length b" for b xs p
    using that by (induction xs arbitrary: b) (simp_all add: length_blit px)
  note len = this[of "[0..<DEFAULT_BMP_WIDTH]" "DEFAULT_BMP_PIXEL_OFFSET + (DEFAULT_BMP_HEIGHT - 1 - y) * DEFAULT_BMP_ROW_STRIDE" bmp]
  have "DEFAULT_BMP_PIXEL_OFFSET + (DEFAULT_BMP_HEIGHT - 1 - y) * DEFAULT_BMP_ROW_STRIDE + x * 3 + 3 \<le> length bmp"
    if "x < DEFAULT_BMP_WIDTH" for x using that assms(2) by linarith
  then show ?thesis unfolding bmp_row_def using len assms(2) by (simp del: upt_rec_numeral)
qed

lemma length_default_bmp [simp]: "length default_bmp = DEFAULT_BMP_SIZE"
proof -
  have "length (foldl (\<lambda>bmp y. bmp_row y bmp) b xs) = DEFAULT_BMP_SIZE"
    if "\<forall>y \<in> set xs. y < DEFAULT_BMP_HEIGHT" "length b = DEFAULT_BMP_SIZE" for b xs
    using that by (induction xs arbitrary: b) (simp_all add: length_bmp_row)
  then show ?thesis unfolding default_bmp_def by (simp add: bmp_header_def length_blit del: upt_rec_numeral)
qed

lemma seed_bmp_spec:
  assumes inv: "files_inv (FILES s)" and small: "small_contents (fs_listing (FILES s))" and eq: "fs_seed_default_bmp s = (r, s')"
  shows "\<exists>fs. s' = s\<lparr>FILES := fs\<rparr> \<and> files_inv fs \<and> small_contents (fs_listing fs) \<and> (\<not> r \<longrightarrow> fs = FILES s)"
proof -
  obtain fs where fs: "s' = s\<lparr>FILES := fs\<rparr>" "files_inv fs"
    "if r then fs_view fs = (fs_view (FILES s))(cstr (lit ''nostalux.bmp'') \<mapsto> take DEFAULT_BMP_SIZE default_bmp) else fs = FILES s"
    using seed_bytes_spec[OF inv _ _ eq[unfolded fs_seed_default_bmp_def]] by auto
  have "small_contents (fs_listing fs)"
  proof (cases r)
    case True
    then have "\<forall>n c. fs_view fs n = Some c \<longrightarrow> length c < FS_DISK_DATA_BYTES"
      using fs(3) small small_view[of "fs_listing (FILES s)"] inv by (auto simp: fs_view_def files_inv_def split: if_splits)
    then show ?thesis using small_view[of "fs_listing fs"] fs(2) by (simp add: fs_view_def files_inv_def)
  qed (use fs small in simp)
  then show ?thesis using fs by (intro exI[of _ fs]) auto
qed

lemma drop_bmp:
  assumes inv: "files_inv (FILES s)" and rec: "records_used (FILES s) \<le> FS_MAX_FILES"
  shows "\<exists>gs. (if b then (case fs_find_mutable (Some (lit ''nostalux.bmp'')) s of None \<Rightarrow> s | Some img \<Rightarrow> upd_file img fs_clear s) else s)
    = s\<lparr>FILES := gs\<rparr> \<and> files_inv gs \<and> records_used gs \<le> FS_MAX_FILES"
proof (cases "if b then fs_find_mutable (Some (lit ''nostalux.bmp'')) s else None")
  case None
  then show ?thesis using assms by (intro exI[of _ "FILES s"]) (auto split: if_splits)
next
  case (Some i)
  then have "b" "fs_find_mutable (Some (lit ''nostalux.bmp'')) s = Some i" by (simp_all split: if_splits)
  note f = find_mutable_Some[OF inv _ this(2)]
  let ?gs = "(FILES s)[i := fs_clear (FILES s ! i)]"
  have i: "i < length (FILES s)" using f(1) inv by (simp add: files_inv_def)
  have "files_inv ?gs" using view_clear(1)[OF inv i, of "fs_clear (FILES s ! i)"] f(5) by simp
  moreover have "records_used ?gs \<le> records_used (FILES s)" using records_update[OF i, of "fs_clear (FILES s ! i)"] by simp
  ultimately show ?thesis using Some rec by (intro exI[of _ ?gs]) (auto simp: upd_file_def split: if_splits)
qed

text \<open>One seeded text file: the view only grows by its name, and by at most one record.\<close>

lemma terminated_lit: "terminated (lit n)"
  by (simp add: lit_def terminated_def)

lemma seed_small:
  assumes t: "\<exists>fs. t = s\<lparr>FILES := fs\<rparr> \<and> files_inv fs \<and> dom (fs_view fs) \<subseteq> N \<and> records_used fs \<le> k"
    and n: "terminated n" and c: "len \<le> length c" and len: "len < FS_DISK_DATA_BYTES"
  shows "\<exists>fs. snd (fs_seed_bytes (Some n) (Some c) len t) = s\<lparr>FILES := fs\<rparr> \<and> files_inv fs
    \<and> dom (fs_view fs) \<subseteq> insert (cstr n) N \<and> records_used fs \<le> Suc k"
proof -
  obtain fs where fs: "t = s\<lparr>FILES := fs\<rparr>" "files_inv (FILES t)" "dom (fs_view (FILES t)) \<subseteq> N" "records_used (FILES t) \<le> k"
    using t by auto
  obtain r s' where e: "fs_seed_bytes (Some n) (Some c) len t = (r, s')" by fastforce
  obtain gs where gs: "s' = t\<lparr>FILES := gs\<rparr>" "files_inv gs" "records_used gs \<le> records_used (FILES t) + fs_disk_records_needed len"
    "if r then fs_view gs = (fs_view (FILES t))(cstr n \<mapsto> take len c) else gs = FILES t"
    using seed_bytes_spec[OF fs(2) n c e] by blast
  have "fs_disk_records_needed len \<le> 1" using len by (auto simp: fs_disk_records_needed_def)
  moreover have "dom (fs_view gs) \<subseteq> insert (cstr n) N" using gs(4) fs(3) by (auto split: if_splits)
  ultimately show ?thesis using e gs fs(1,4) by (intro exI[of _ gs]) simp
qed

lemma kstrlen_lit: "kstrlen (lit s) \<le> length s"
  using length_takeWhile_le[of "\<lambda>c. c \<noteq> 0" "map of_char s :: bytes"]
  by (induction s) (auto simp: lit_def)

lemma seed_file_small:
  assumes "\<exists>fs. t = s\<lparr>FILES := fs\<rparr> \<and> files_inv fs \<and> dom (fs_view fs) \<subseteq> N \<and> records_used fs \<le> k"
    and "length c < FS_DISK_DATA_BYTES"
  shows "\<exists>fs. snd (fs_seed_file (Some (lit n)) (Some (lit c)) t) = s\<lparr>FILES := fs\<rparr> \<and> files_inv fs
    \<and> dom (fs_view fs) \<subseteq> insert (cstr (lit n)) N \<and> records_used fs \<le> Suc k"
proof -
  have "kstrlen (lit c) \<le> length (lit c)" "kstrlen (lit c) < FS_DISK_DATA_BYTES"
    using kstrlen_lit[of c] assms(2) by (simp_all add: lit_def)
  then show ?thesis unfolding fs_seed_file_def option.case by (rule seed_small[OF assms(1) terminated_lit])
qed

lemma artifact_name:
  assumes "f \<in> set fs" and "fs_file_is_self_test_artifact (Some f)" and "list_all wf_file fs"
  shows "cstr (lit ''__fs_self_test__'') \<in> dom (fs_view fs) \<or> cstr (lit ''__fs_self_renamed__'') \<in> dom (fs_view fs)"
proof -
  have u: "f_in_use f" "fs_name_is_self_test_file (Some (f_name f))"
    using assms(2) by (auto simp: fs_file_is_self_test_artifact_def split: if_splits)
  then have wf: "terminated (f_name f)" using assms(1,3) by (auto simp: wf_file_def list_all_iff)
  have "cstr (f_name f) \<in> dom (fs_view fs)"
    using assms(1) u(1) by (auto simp: fs_view_def dom_map_of_conv_image_fst fs_listing_def fview_def image_iff)
  then show ?thesis using u(2) wf by (auto simp: fs_name_is_self_test_file_def kstrcmp_eq_0)
qed

lemma seed_defaults_spec:
  assumes "files_inv (FILES s)"
  shows "\<exists>fs. fs_seed_defaults s = s\<lparr>FILES := fs\<rparr> \<and> files_inv fs \<and> records_used fs \<le> 4
    \<and> fs_view fs (cstr (lit ''__fs_self_test__'')) = None \<and> fs_view fs (cstr (lit ''__fs_self_renamed__'')) = None
    \<and> (\<forall>f \<in> set fs. \<not> fs_file_is_self_test_artifact (Some f))"
proof -
  let ?fs = "map fs_clear (FILES s)"
  have l: "fs_listing ?fs = []" by (simp add: fs_listing_def filter_empty_conv)
  have inv: "files_inv ?fs" using assms l by (auto simp: files_inv_def list_all_iff)
  have r: "records_used ?fs = 0" using inv l by (simp add: records_of_listing files_inv_def)
  have 0: "\<exists>fs. s\<lparr>FILES := ?fs\<rparr> = s\<lparr>FILES := fs\<rparr> \<and> files_inv fs \<and> dom (fs_view fs) \<subseteq> {} \<and> records_used fs \<le> 0"
    using inv l r by (intro exI[of _ ?fs]) (simp add: fs_view_def)
  have bmp: "DEFAULT_BMP_SIZE \<le> length default_bmp" by simp
  note seeds = seed_small[OF seed_file_small[OF seed_file_small[OF seed_file_small[OF 0]]] terminated_lit bmp]
  have "\<exists>fs. fs_seed_defaults s = s\<lparr>FILES := fs\<rparr> \<and> files_inv fs \<and> dom (fs_view fs) \<subseteq>
     {cstr (lit ''nostalux.bmp''), cstr (lit ''colors.map''), cstr (lit ''motd.txt''), cstr (lit ''readme.txt'')}
     \<and> records_used fs \<le> Suc (Suc (Suc (Suc 0)))"
    unfolding fs_seed_defaults_def Let_def fs_seed_default_bmp_def by (rule seeds) (simp_all add: nl_def)
  then obtain fs where fs: "fs_seed_defaults s = s\<lparr>FILES := fs\<rparr>" "files_inv fs" "records_used fs \<le> 4" "dom (fs_view fs) \<subseteq>
     {cstr (lit ''nostalux.bmp''), cstr (lit ''colors.map''), cstr (lit ''motd.txt''), cstr (lit ''readme.txt'')}"
    by (auto simp: numeral_eq_Suc)
  have none: "fs_view fs (cstr (lit ''__fs_self_test__'')) = None" "fs_view fs (cstr (lit ''__fs_self_renamed__'')) = None"
    using fs(4) by (auto simp: cstr_lit plain_char_def)
  then have "\<not> fs_file_is_self_test_artifact (Some f)" if "f \<in> set fs" for f
    using artifact_name[OF that] fs(2) by (auto simp: files_inv_def)
  then show ?thesis using fs none by blast
qed

section \<open>Mounting and formatting\<close>

context block_device
begin

lemma refiles_say: "dev_ok (world s) \<Longrightarrow> refiles media dev_ok s (fs_say E msg s)"
  by (rule refilesI[where fs = "FILES s"]) (use quiet_say[of s msg] in simp)

lemma refiles_say_if: "dev_ok (world s) \<Longrightarrow> refiles media dev_ok s (say_if E b msg s)"
  using refiles_say refiles_set[of dev_ok s media "FILES s"] by (simp add: say_if_def)

text \<open>The two quarantines of a mount, as one step.\<close>

lemma quarantine_spec:
  assumes s: "fs_shape dev_ok s" and q: "fs_quarantine_self_test_artifacts s = (q, s1)"
    and l: "(if had then fs_quarantine_physical_system_log s1 else (False, s1)) = (l, s2)"
  shows "refiles media dev_ok s s2" "renamed (FILES s) (FILES s2)" "\<not> q \<Longrightarrow> \<not> l \<Longrightarrow> FILES s2 = FILES s"
proof -
  note d = fs_shapeD[OF s]
  obtain fs where fs: "s1 = s\<lparr>FILES := fs\<rparr>" "renamed (FILES s) fs" "\<not> q \<longrightarrow> fs = FILES s"
    using quarantine_files_spec[OF d(2) _ q[unfolded fs_quarantine_self_test_artifacts_def]] by auto
  have i1: "files_inv (FILES s1)" using fs by (simp add: renamed_def)
  have "\<exists>gs. s2 = s1\<lparr>FILES := gs\<rparr> \<and> renamed (FILES s1) gs \<and> (\<not> l \<longrightarrow> gs = FILES s1)"
    using quarantine_log_spec[OF i1, of l s2] l i1 by (cases had) (auto intro!: exI[of _ "FILES s1"] simp: renamed_def)
  then obtain gs where gs: "s2 = s1\<lparr>FILES := gs\<rparr>" "renamed (FILES s1) gs" "\<not> l \<longrightarrow> gs = FILES s1" by blast
  show "refiles media dev_ok s s2" using refiles_set[of dev_ok s media gs] d(1) fs(1) gs(1) by simp
  show "renamed (FILES s) (FILES s2)" "\<not> q \<Longrightarrow> \<not> l \<Longrightarrow> FILES s2 = FILES s" using fs gs by (auto simp: renamed_def)
qed

lemma init_mounted_ok:
  assumes s: "fs_shape dev_ok s" and sl: "g_active_slot s < FS_SLOT_COUNT" and a: "active_ok (media (world s)) s"
    and lst: "slot_listing (media (world s)) (g_active_slot s) = Some (fs_listing (FILES s))"
    and ver: "h_version (slot_header (media (world s)) (g_active_slot s)) = g_loaded_version s"
    and com: "r = FS_DISK_LOADED \<Longrightarrow> committed (media (world s)) s (fs_listing (FILES s))"
  shows "fs_ok media dev_ok (fs_init_mounted E r s)"
proof -
  let ?st = "if r = FS_DISK_LOADED then FS_BACKEND_PERSISTENT else if r = FS_DISK_LOADED_CORRUPT
    then FS_BACKEND_VOLATILE_CORRUPT else FS_BACKEND_VOLATILE_IO_ERROR"
  define s1 where "s1 = s\<lparr>g_backend_status := ?st\<rparr>"
  define s2 where "s2 = fs_say E (if r = FS_DISK_LOADED then ''FS: loaded from persistent storage''
      else if r = FS_DISK_LOADED_CORRUPT then ''FS: recovered a volume while preserving corrupt storage''
      else ''FS: recovered a volume with incomplete header reads'') s1"
  obtain q s3 where q: "fs_quarantine_self_test_artifacts s2 = (q, s3)" by fastforce
  define had where "had = (fs_find_mutable (Some (lit ''system.log'')) s3 \<noteq> None)"
  obtain l s4 where l: "(if had then fs_quarantine_physical_system_log s3 else (False, s3)) = (l, s4)" by fastforce
  define s5 where "s5 = say_if E (had \<and> \<not> l) ''FS: could not preserve the legacy physical system.log name'' s4"
  define want where "want \<longleftrightarrow> r = FS_DISK_LOADED \<and> g_loaded_version s < FS_CONTENT_DISK_VERSION
    \<and> fs_find_mutable (Some (lit ''nostalux.bmp'')) s5 = None"
  obtain b s6 where b: "(if want then fs_seed_default_bmp s5 else (False, s5)) = (b, s6)" by fastforce
  define hdr where "hdr \<longleftrightarrow> r = FS_DISK_LOADED \<and> g_loaded_version s < FS_DISK_VERSION"
  obtain ok s7 where c: "fs_commit_changes E s6 = (ok, s7)" by fastforce
  note d = fs_shapeD[OF s]
  have sh2: "fs_shape dev_ok s2" using s say_world[of s1] by (simp add: s1_def s2_def fs_shape_def)
  note qs = quarantine_spec[OF sh2 q l]
  have r15: "refiles media dev_ok s1 s5"
    using refiles_trans[OF refiles_trans[OF refiles_say qs(1)[unfolded s2_def]] refiles_say_if] qs(1) d(1)
    by (simp add: s1_def s5_def refilesD(11))
  have ren: "renamed (FILES s) (FILES s5)" using qs(2) by (simp add: s5_def s2_def s1_def)
  note rd = renamedD[OF ren d(2)]
  have small: "small_contents (fs_listing (FILES s5))" if "g_loaded_version s < FS_CONTENT_DISK_VERSION"
  proof -
    have "\<forall>l. length (media (world s) l) = 512" using sector_length d(1) by blast
    moreover have "g_loaded_version s < FS_DISK_VERSION" using that by (rule less_trans) simp
    ultimately have "small_contents (fs_listing (FILES s))"
      using slot_listing_small[OF lst] ver by (simp add: small_contents_def list_all_iff)
    then show ?thesis using rd(3) by simp
  qed
  have "\<exists>fs. s6 = s5\<lparr>FILES := fs\<rparr> \<and> files_inv fs \<and> records_used fs \<le> FS_MAX_FILES \<and> (\<not> b \<longrightarrow> fs = FILES s5)"
  proof (cases want)
    case True
    then show ?thesis using seed_bmp_spec[OF rd(1) small, of b s6] b small_records by (fastforce simp: want_def)
  next
    case False
    then show ?thesis using b rd d(3) by (intro exI[of _ "FILES s5"]) simp
  qed
  then obtain fs where fs: "s6 = s5\<lparr>FILES := fs\<rparr>" "files_inv fs" "records_used fs \<le> FS_MAX_FILES" "\<not> b \<longrightarrow> fs = FILES s5" by blast
  note r5 = refilesD[OF r15]
  have sh6: "fs_shape dev_ok s6" using r5 fs d by (simp add: fs_shape_def s1_def)
  have a6: "active_ok (media (world s6)) s6" "g_active_slot s6 < FS_SLOT_COUNT"
    using a sl active_ok_cong[of s6 s] r5 fs(1) by (simp_all add: s1_def)
  have st6: "g_backend_status s6 = ?st" using r5 fs(1) by (simp add: s1_def)
  note cp = commit_prepared[OF sh6 _ _ c]
  have ok7: "fs_ok media dev_ok s7" if ok using cp(1) a6 that by blast
  define s8 where "s8 = (if b then (case fs_find_mutable (Some (lit ''nostalux.bmp'')) s7 of None \<Rightarrow> s7 | Some img \<Rightarrow> upd_file img fs_clear s7) else s7)"
  have ok8: "fs_ok media dev_ok s8" if n: "\<not> ok"
  proof -
    have F: "FILES s7 = fs" using cp(3) a6 fs(1) by simp
    obtain gs where gs: "s8 = s7\<lparr>FILES := gs\<rparr>" "files_inv gs" "records_used gs \<le> FS_MAX_FILES"
      using drop_bmp[of s7 b] fs(2,3) F unfolding s8_def by auto
    show ?thesis unfolding gs(1) by (rule cp(2)) (use a6 n gs in simp_all)
  qed
  have ok6: "fs_ok media dev_ok s6" if "\<not> (r = FS_DISK_LOADED \<and> (q \<or> l \<or> b \<or> hdr))"
  proof (cases "r = FS_DISK_LOADED")
    case True
    then have "FILES s6 = FILES s" using that qs(3) fs(1,4) by (simp add: s5_def s2_def s1_def)
    then show ?thesis using True com sh6 a6 committed_cong[of s6 s] r5 fs(1) by (simp add: fs_ok_shape s1_def)
  next
    case False
    then show ?thesis using sh6 a6 st6 by (simp add: fs_ok_shape)
  qed
  have "fs_init_mounted E r s = (if r = FS_DISK_LOADED \<and> (q \<or> l \<or> b \<or> hdr)
      then if ok then say_if E (hdr \<and> fs_backend_is_persistent
             (say_if E b ''FS: installed default BMP image'' (say_if E l ''FS: preserved legacy system.log under a recovery name''
               (say_if E q ''FS: preserved stale self-test data under a recovery name'' s7))))
             ''FS: upgraded to integrity-protected commit metadata''
             (say_if E b ''FS: installed default BMP image'' (say_if E l ''FS: preserved legacy system.log under a recovery name''
               (say_if E q ''FS: preserved stale self-test data under a recovery name'' s7)))
           else fs_say E ''FS: metadata recovery is available for this session only'' s8
      else if r \<noteq> FS_DISK_LOADED
      then say_if E l ''FS: legacy system.log recovery name is session-only''
        (say_if E q ''FS: self-test recovery name is session-only'' (say_if E (g_legacy_upgrade_status s6 = FS_LEGACY_UPGRADE_AVAILABLE)
                 ''FS: explicit legacy snapshot upgrade available; run fsupgrade for details'' s6))
      else s6)"
    unfolding fs_init_mounted_def Let_def s1_def[symmetric] s2_def[symmetric] q prod.case had_def[symmetric] l s5_def[symmetric]
      want_def[symmetric] b hdr_def[symmetric] c s8_def[symmetric] by (rule refl)
  then show ?thesis using ok6 ok7 ok8 fs_ok_say fs_ok_say_if by simp
qed

lemma init_fresh_ok:
  assumes s: "fs_shape dev_ok s" and blank: "r = FS_DISK_BLANK \<Longrightarrow> active_ok (media (world s)) s"
    and leg: "g_legacy_upgrade_status s \<noteq> FS_LEGACY_UPGRADE_AVAILABLE"
  shows "fs_ok media dev_ok (fs_init_fresh E r s)"
proof -
  note d = fs_shapeD[OF s]
  obtain fs where fs: "fs_seed_defaults s = s\<lparr>FILES := fs\<rparr>" "files_inv fs" "records_used fs \<le> 4"
    "\<forall>f \<in> set fs. \<not> fs_file_is_self_test_artifact (Some f)"
    using seed_defaults_spec[OF d(2)] by blast
  let ?m = "''FS: blank storage detected; mounted fresh volume''"
  define s1 where "s1 = s\<lparr>FILES := fs\<rparr>"
  define s2 where "s2 = fs_say E ?m s1"
  obtain q s3 where q: "fs_sync_to_disk E s2 = (q, s3)" by fastforce
  have w2: "dev_ok (world s2) \<and> media (world s2) = media (world s)" using say_world[of s1] d(1) by (simp add: s1_def s2_def)
  note f = sync_frame[OF conjunct1[OF w2] q[unfolded fs_sync_to_disk_def]]
  have sh: "fs_shape dev_ok (t\<lparr>g_backend_status := st\<rparr>)"
    if "t = s1 \<or> t = s3" for t st
    using that f d fs w2 by (auto simp: fs_shape_def s1_def s2_def)
  have vol: "fs_ok media dev_ok (fs_say E msg (t\<lparr>g_backend_status := st\<rparr>))"
    if "t = s1 \<or> t = s3" "st \<noteq> FS_BACKEND_PERSISTENT" for t st msg
    by (rule fs_ok_say, rule fs_ok_volatile, rule sh[OF that(1)]) (use that f leg in \<open>auto simp: s1_def s2_def\<close>)
  have fmt: "fs_ok media dev_ok (fs_self_test E (fs_say E ''FS: filesystem formatted and saved'' (s3\<lparr>g_backend_status := FS_BACKEND_PERSISTENT\<rparr>)))"
    if "r = FS_DISK_BLANK" "q = FS_SYNC_COMMITTED"
  proof (rule self_test_ok[OF fs_ok_say])
    let ?s = "s3\<lparr>g_backend_status := FS_BACKEND_PERSISTENT\<rparr>"
    have "active_ok (media (world s2)) s2" using blank[OF that(1)] w2 by (simp add: active_ok_def s2_def s1_def)
    then have "committed (media (world s3)) s3 (fs_listing (FILES s2))"
      using sync_commits(1)[of s2 False s3] w2 fs(2) q that(2) by (simp add: fs_sync_to_disk_def s2_def s1_def)
    then show "fs_ok media dev_ok ?s"
      using sh[of s3] committed_cong[of ?s s3] f leg by (simp add: fs_ok_shape s2_def s1_def)
    show "\<forall>f \<in> set (FILES (fs_say E ''FS: filesystem formatted and saved'' ?s)). \<not> fs_file_is_self_test_artifact (Some f)"
      using fs(4) f(1) by (simp add: s2_def s1_def)
  qed
  show ?thesis
    unfolding fs_init_fresh_def Let_def fs(1) s1_def[symmetric] s2_def[symmetric] q prod.case
    using vol fmt by simp
qed

end

end
