(* ===== verification/Fs_Reach.thy ===== *)
theory Fs_Reach
  imports Fs_Init
begin

text \<open>
  The filesystem as a transition system: \<open>fs_init\<close> at boot, then any sequence of calls of the
  public operations of \<open>fs.h\<close> and of log messages from the rest of the kernel, under any
  behaviour of the drive that the driver's contract allows.  Every reachable state satisfies
  the invariant \<open>fs_ok\<close>.
\<close>

section \<open>Definitions\<close>

text \<open>A string argument is NULL or terminated; a buffer holds at least the bytes asked for.\<close>

abbreviation arg_ok :: "bytes option \<Rightarrow> bool" where
  "arg_ok \<equiv> pred_option terminated"

definition buf_ok :: "bytes option \<Rightarrow> nat \<Rightarrow> bool" where
  "buf_ok c len \<longleftrightarrow> c = None \<or> len \<le> length (the c)"

inductive fs_step :: "'w fs_env \<Rightarrow> 'w fs_state \<Rightarrow> 'w fs_state \<Rightarrow> bool" for E where
  step_find: "arg_ok n \<Longrightarrow> fs_step E s (snd (fs_find E n s))"
| step_file_at: "fs_step E s (snd (fs_file_at E i s))"
| step_touch: "arg_ok n \<Longrightarrow> fs_step E s (snd (fs_touch E n s))"
| step_write_bytes: "arg_ok n \<Longrightarrow> buf_ok c len \<Longrightarrow> fs_step E s (snd (fs_write_bytes E n c len s))"
| step_system_write: "arg_ok n \<Longrightarrow> buf_ok c len \<Longrightarrow> fs_step E s (snd (fs_system_write_bytes E n c len s))"
| step_write: "arg_ok n \<Longrightarrow> arg_ok c \<Longrightarrow> fs_step E s (snd (fs_write E n c s))"
| step_append: "arg_ok n \<Longrightarrow> arg_ok c \<Longrightarrow> fs_step E s (snd (fs_append E n c s))"
| step_rename: "arg_ok old \<Longrightarrow> arg_ok new \<Longrightarrow> fs_step E s (snd (fs_rename E old new s))"
| step_system_rename: "arg_ok old \<Longrightarrow> arg_ok new \<Longrightarrow> fs_step E s (snd (fs_system_rename E old new s))"
| step_remove: "arg_ok n \<Longrightarrow> fs_step E s (snd (fs_remove E n s))"
| step_system_remove: "arg_ok n \<Longrightarrow> fs_step E s (snd (fs_system_remove E n s))"
| step_upgrade: "arg_ok c \<Longrightarrow> fs_step E s (snd (fs_upgrade_legacy_snapshot E c s))"
| step_log: "fs_step E s (s\<lparr>world := env_syslog_write E msg (world s)\<rparr>)"

inductive fs_reachable :: "'w fs_env \<Rightarrow> ('w \<Rightarrow> bool) \<Rightarrow> 'w fs_state \<Rightarrow> bool" for E dev_ok where
  reach_boot: "dev_ok w \<Longrightarrow> fs_reachable E dev_ok (fs_init E (fs_boot w))"
| reach_step: "fs_reachable E dev_ok s \<Longrightarrow> fs_step E s s' \<Longrightarrow> fs_reachable E dev_ok s'"

inductive_cases fs_step_cases: "fs_step E s s'"

section \<open>Every operation keeps the invariant\<close>

lemma null_name [simp]: "fs_is_valid_name None = False" "fs_name_is_system_log None = False"
  "fs_name_is_system_managed None = False" "fs_find_mutable None s = None"
  by (simp_all add: fs_is_valid_name_def fs_name_is_system_log_def fs_name_is_system_managed_def fs_find_mutable_def)

lemma boot_shape: "dev_ok w \<Longrightarrow> fs_shape dev_ok (fs_activate_virtual_system_log (fs_boot w))"
proof -
  assume w: "dev_ok w"
  have F: "files_inv blank_files" "fs_listing blank_files = []"
    by (auto simp: files_inv_def fs_listing_def blank_files_def blank_file_def wf_file_def list_all_iff)
  then have "records_used blank_files = 0" by (simp add: records_of_listing files_inv_def)
  moreover have "wf_table zero_table" by (simp add: wf_table_def zero_table_def zero_record_def wf_record_def list_all_iff)
  moreover have "wf_file (fs_copy_name ((fs_clear blank_file)\<lparr>f_in_use := True\<rparr>) (lit ''system.log''))"
    using wf_blank_file terminated_lit by (intro new_file_props) (auto simp: cstr_lit plain_char_def valid_name_def)
  ultimately show "fs_shape dev_ok (fs_activate_virtual_system_log (fs_boot w))"
    using w F wf_blank_file by (simp add: fs_shape_def fs_activate_virtual_system_log_def fs_boot_def blank_files_def)
qed

context block_device
begin

lemma init_ok:
  assumes "dev_ok w"
  shows "fs_ok media dev_ok (fs_init E (fs_boot w))"
proof -
  let ?s = "fs_activate_virtual_system_log (fs_boot w)"
  obtain r t where l: "fs_load_from_disk E ?s = (r, t)" by fastforce
  have sh: "fs_shape dev_ok ?s" using assms by (rule boot_shape)
  note x = load_shape[OF sh l]
  have "fs_ok media dev_ok (fs_init_mounted E r t)" if "is_loaded r"
    using x(5)[OF that] x(6) by (intro init_mounted_ok[OF x(1)]) auto
  moreover have "fs_ok media dev_ok (fs_init_fresh E r t)" if "\<not> is_loaded r"
    using that x(8,9) by (intro init_fresh_ok[OF x(1)]) auto
  ultimately show ?thesis by (simp add: fs_init_def l is_loaded_def)
qed

lemma refresh_ok:
  assumes "fs_ok media dev_ok s"
  shows "fs_ok media dev_ok (fs_refresh_system_log E s)"
proof -
  obtain n d where t: "env_syslog_copy_text E (f_data (g_virtual_system_log s)) FS_MAX_FILE_SIZE (world s) = (n, d)" by fastforce
  have wf: "wf_file (g_virtual_system_log s)" using assms by (simp add: fs_ok_def)
  then have "n < FS_MAX_FILE_SIZE \<and> length d = FS_MAX_FILE_SIZE \<and> d ! n = 0"
    using log_text[OF t] by (simp add: wf_file_def)
  then have "wf_file ((g_virtual_system_log s)\<lparr>f_size := n, f_data := d\<rparr>)" using wf by (simp add: wf_file_def)
  then show ?thesis
    using assms unfolding fs_refresh_system_log_def t by (auto simp: fs_ok_def committed_def active_ok_def)
qed

lemma find_ok: "fs_ok media dev_ok s \<Longrightarrow> fs_ok media dev_ok (snd (fs_find E n s))"
  using refresh_ok by (simp add: fs_find_def Let_def)

lemma file_at_ok: "fs_ok media dev_ok s \<Longrightarrow> fs_ok media dev_ok (snd (fs_file_at E i s))"
  using refresh_ok by (simp add: fs_file_at_def Let_def split: sum.splits)

lemma touch_ok:
  assumes "fs_ok media dev_ok s" and "arg_ok n"
  shows "fs_ok media dev_ok (snd (fs_touch E n s))"
proof (cases n)
  case None
  then show ?thesis using assms by (simp add: fs_touch_def)
next
  case (Some a)
  then show ?thesis using touch_spec[OF assms(1) _ prod.collapse[symmetric]] assms(2) by simp
qed

lemma write_internal_ok:
  assumes "fs_ok media dev_ok s" and "arg_ok n" and "buf_ok c len"
  shows "fs_ok media dev_ok (snd (fs_write_bytes_internal E n c len sys s))"
proof (cases "n = None \<or> (c = None \<and> len \<noteq> 0)")
  case True
  then show ?thesis using assms by (auto simp: fs_write_bytes_internal_def)
next
  case False
  then obtain a where n: "n = Some a" "terminated a" using assms(2) by (cases n) auto
  have "len \<le> length (case c of None \<Rightarrow> [] | Some b \<Rightarrow> b)" using False assms(3) by (cases c) (auto simp: buf_ok_def)
  then show ?thesis unfolding n(1) by (rule write_internal_spec(1)[OF assms(1) n(2) _ prod.collapse[symmetric]])
qed

lemma append_ok:
  assumes "fs_ok media dev_ok s" and "arg_ok n" and "arg_ok c"
  shows "fs_ok media dev_ok (snd (fs_append E n c s))"
proof (cases "n = None \<or> c = None")
  case True
  then show ?thesis using assms by (auto simp: fs_append_def)
next
  case False
  then obtain a b where "n = Some a" "c = Some b" by (cases n; cases c) auto
  then show ?thesis using append_spec[OF assms(1) _ prod.collapse[symmetric]] assms(2) by simp
qed

lemma rename_internal_ok:
  assumes "fs_ok media dev_ok s" and "arg_ok old" and "arg_ok new"
  shows "fs_ok media dev_ok (snd (fs_rename_internal E old new sys s))"
proof (cases "old = None \<or> new = None")
  case True
  then show ?thesis using assms by (auto simp: fs_rename_internal_def)
next
  case False
  then obtain a b where "old = Some a" "new = Some b" by (cases old; cases new) auto
  then show ?thesis using rename_internal_spec[OF assms(1) _ _ prod.collapse[symmetric]] assms(2,3) by simp
qed

lemma remove_internal_ok:
  assumes "fs_ok media dev_ok s" and "arg_ok n"
  shows "fs_ok media dev_ok (snd (fs_remove_internal E n sys s))"
proof (cases n)
  case None
  then show ?thesis using assms by (simp add: fs_remove_internal_def)
next
  case (Some a)
  then show ?thesis using remove_internal_spec[OF assms(1) _ prod.collapse[symmetric]] assms(2) by simp
qed

lemma upgrade_ok:
  assumes ok: "fs_ok media dev_ok s"
  shows "fs_ok media dev_ok (snd (fs_upgrade_legacy_snapshot E c s))"
proof (cases "g_legacy_upgrade_status s = FS_LEGACY_UPGRADE_AVAILABLE \<and> g_backend_status s = FS_BACKEND_VOLATILE_CORRUPT
    \<and> g_active_slot s < FS_SLOT_COUNT \<and> g_loaded_version s < FS_DISK_VERSION")
  case False
  then show ?thesis using ok by (auto simp: fs_upgrade_legacy_snapshot_def)
next
  case True
  obtain r t where e: "fs_sync_to_disk_verified E True s = (r, t)" by fastforce
  have sh: "fs_shape dev_ok s" and a: "active_ok (media (world s)) s" using ok True by (auto simp: fs_ok_shape)
  note d = fs_shapeD[OF sh]
  note f = sync_frame[OF d(1) e]
  have sht: "fs_shape dev_ok t" using d f by (simp add: fs_shape_def)
  let ?t1 = "t\<lparr>g_backend_status := FS_BACKEND_PERSISTENT, g_legacy_upgrade_status := FS_LEGACY_UPGRADE_UNAVAILABLE\<rparr>"
  have "fs_ok media dev_ok ?t1" if "r = FS_SYNC_COMMITTED"
    using sync_commits(1)[OF d(1,2) a e[unfolded that]] sht f(1) committed_cong[of ?t1 t] by (simp add: fs_ok_shape fs_shape_def)
  moreover have "fs_ok media dev_ok (t\<lparr>g_legacy_upgrade_status := FS_LEGACY_UPGRADE_OUTCOME_UNCERTAIN\<rparr>)"
    using sht True f(3) by (simp add: fs_ok_shape fs_shape_def)
  moreover have "fs_ok media dev_ok t" if "r \<noteq> FS_SYNC_COMMITTED"
  proof -
    have "active_ok (media (world t)) t" using active_ok_frame[OF a _ f(10)] True f(11)[OF that] by blast
    then show ?thesis using sht True f(3) by (simp add: fs_ok_shape)
  qed
  ultimately show ?thesis using ok fs_ok_say by (auto simp: fs_upgrade_legacy_snapshot_def e Let_def split: option.splits)
qed

lemma step_ok:
  assumes "fs_step E s s'" and "fs_ok media dev_ok s"
  shows "fs_ok media dev_ok s'"
  using assms
proof cases
  case (step_write n c)
  then show ?thesis using assms(2) write_internal_ok[OF assms(2) step_write(2), of c]
    by (cases c) (auto simp: fs_write_def fs_write_bytes_def buf_ok_def kstrlen_cstr cstr_def length_takeWhile_le)
next
  case (step_log msg)
  then show ?thesis using assms(2) log_keeps by (auto simp: fs_ok_def committed_def active_ok_def)
qed (auto simp: fs_write_bytes_def fs_system_write_bytes_def fs_rename_def fs_system_rename_def fs_remove_def fs_system_remove_def
  intro: assms(2) find_ok file_at_ok touch_ok write_internal_ok append_ok rename_internal_ok remove_internal_ok upgrade_ok)

lemma reachable_ok: "fs_reachable E dev_ok s \<Longrightarrow> fs_ok media dev_ok s"
  by (induction rule: fs_reachable.induct) (auto intro: init_ok step_ok)

end

end
