(* ===== verification/Ata_Drive.thy ===== *)
theory Ata_Drive
  imports Block_Device
begin

text \<open>
  The ATA driver on any drive that behaves as the ATA PIO protocol documents.  The drive is hardware,
  so it is a parameter: the port instructions \<open>P\<close> and a view \<open>V\<close> of the drive's state, constrained
  by the locale \<open>ata_drive\<close>.  The view separates the sectors on the medium from the sectors in the
  volatile write cache, and has the three conditions the status register reports: busy, data
  request, and a fault of the current command.  A drive may take any time, refuse any command and
  fail at any sector; it only has to be honest about it, and nothing is promised about a command
  issued while it is busy or a transfer it did not request.

  The driver turns every such drive into a device that keeps the contract \<open>block_device\<close>.
\<close>

section \<open>Definitions\<close>

datatype xfer = Idle | Reading nat nat | Writing nat nat | Identifying

record drive_view =
  dv_media :: "nat \<Rightarrow> bytes"
  dv_cache :: "nat \<rightharpoonup> bytes"
  dv_count :: u8
  dv_low :: u8
  dv_mid :: u8
  dv_high :: u8
  dv_head :: u8
  dv_xfer :: xfer
  dv_busy :: bool
  dv_drq :: bool
  dv_fault :: bool

text \<open>The sector address and the sector count in the task file.\<close>

definition view_lba :: "drive_view \<Rightarrow> nat" where
  "view_lba v = unat (dv_low v) + 2 ^ 8 * unat (dv_mid v) + 2 ^ 16 * unat (dv_high v) + 2 ^ 24 * (unat (dv_head v) mod 16)"

definition view_count :: "drive_view \<Rightarrow> nat" where
  "view_count v = (if dv_count v = 0 then 256 else unat (dv_count v))"

text \<open>What reading the status may change: the drive may turn ready and may request data.\<close>

definition settles :: "drive_view \<Rightarrow> drive_view \<Rightarrow> bool" where
  "settles v v' \<longleftrightarrow> (\<exists>b q. v' = v\<lparr>dv_busy := b, dv_drq := q\<rparr> \<and> (b \<longrightarrow> dv_busy v))"

definition disk_media :: "('d \<Rightarrow> drive_view) \<Rightarrow> 'd io \<Rightarrow> nat \<Rightarrow> bytes" where
  "disk_media V s = dv_media (V (io_dev s))"

definition disk_ok :: "('d \<Rightarrow> drive_view) \<Rightarrow> 'd io \<Rightarrow> bool" where
  "disk_ok V s \<longleftrightarrow> (\<forall>l. length (disk_media V s l) = 512)"

text \<open>The kernel services the filesystem runs on: this driver, a drive, the kernel log.\<close>

definition driver_env :: "'d ports \<Rightarrow> 'd io fs_env" where
  "driver_env P =
     \<lparr>env_ata_init = ata_init P,
      env_ata_read = (\<lambda>lba n buf s.
        let (ok, buf', s') = ata_read P (of_nat lba) (of_nat n) (Some buf) s
        in (ok, the buf', s')),
      env_ata_write = (\<lambda>lba n buf s. ata_write P (of_nat lba) (of_nat n) (Some buf) s),
      env_syslog_write = (\<lambda>msg s. s\<lparr>io_log := syslog_write (Some msg) (io_log s)\<rparr>),
      env_syslog_copy_text = (\<lambda>buf cap s.
        let (n, buf') = syslog_copy_text (io_log s) (Some buf) cap in (n, the buf'))\<rparr>"

text \<open>The sectors of a buffer as a drive has cached them: all of them, or some.\<close>

definition caches :: "nat \<Rightarrow> nat \<Rightarrow> bytes \<Rightarrow> (nat \<rightharpoonup> bytes) \<Rightarrow> bool" where
  "caches l n buf c \<longleftrightarrow> (\<forall>x b. c x = Some b \<longrightarrow> l \<le> x \<and> x < l + n \<and> b = take 512 (drop ((x - l) * 512) buf))"

definition caches_all :: "nat \<Rightarrow> nat \<Rightarrow> bytes \<Rightarrow> (nat \<rightharpoonup> bytes) \<Rightarrow> bool" where
  "caches_all l n buf c \<longleftrightarrow> caches l n buf c \<and> (\<forall>x. l \<le> x \<and> x < l + n \<longrightarrow> c x \<noteq> None)"

section \<open>The drive\<close>

locale ata_drive =
  fixes P :: "'d ports" and V :: "'d \<Rightarrow> drive_view"
  assumes status_read: "p_inb P ATA_STATUS d = (v, d') \<Longrightarrow> settles (V d) (V d')
      \<and> (v AND STATUS_BSY = 0 \<longrightarrow> \<not> dv_busy (V d') \<and> (v AND STATUS_DRQ \<noteq> 0 \<longrightarrow> dv_drq (V d'))
          \<and> (dv_fault (V d) \<longrightarrow> v AND STATUS_DF \<noteq> 0 \<or> v AND STATUS_ERR \<noteq> 0))"
    and signature_read: "port \<in> {ATA_LBA_MID, ATA_LBA_HIGH} \<Longrightarrow> p_inb P port d = (v, d') \<Longrightarrow> V d' = V d"
    and task_file:
      "V (p_outb P ATA_SECTOR_CNT v d) = (V d)\<lparr>dv_count := v\<rparr>"
      "V (p_outb P ATA_LBA_LOW v d) = (V d)\<lparr>dv_low := v\<rparr>"
      "V (p_outb P ATA_LBA_MID v d) = (V d)\<lparr>dv_mid := v\<rparr>"
      "V (p_outb P ATA_LBA_HIGH v d) = (V d)\<lparr>dv_high := v\<rparr>"
      "V (p_outb P ATA_DRIVE_HEAD v d) = (V d)\<lparr>dv_head := v\<rparr>"
    and delay_port: "V (p_outb P 0x80 v d) = V d"
    and read_command: "\<not> dv_busy (V d) \<Longrightarrow> \<exists>b q f c. V (p_outb P ATA_COMMAND CMD_READ_PIO d) = (V d)
      \<lparr>dv_cache := c, dv_xfer := Reading (view_lba (V d)) (view_count (V d)), dv_busy := b, dv_drq := q, dv_fault := f\<rparr>"
    and write_command: "\<not> dv_busy (V d) \<Longrightarrow> \<exists>b q f. V (p_outb P ATA_COMMAND CMD_WRITE_PIO d) = (V d)
      \<lparr>dv_cache := Map.empty, dv_xfer := Writing (view_lba (V d)) (view_count (V d)), dv_busy := b, dv_drq := q, dv_fault := f\<rparr>"
    and flush_command: "\<not> dv_busy (V d) \<Longrightarrow> \<exists>m x b q f. V (p_outb P ATA_COMMAND CMD_CACHE_FLUSH d) = (V d)
      \<lparr>dv_media := m, dv_cache := Map.empty, dv_xfer := x, dv_busy := b, dv_drq := q, dv_fault := f\<rparr>
        \<and> (\<forall>l. m l = dv_media (V d) l \<or> dv_cache (V d) l = Some (m l))
        \<and> (\<not> f \<longrightarrow> (\<forall>l s. dv_cache (V d) l = Some s \<longrightarrow> m l = s))"
    and identify_command: "dv_media (V (p_outb P ATA_COMMAND CMD_IDENTIFY d)) = dv_media (V d)"
    and data_in: "p_insw P ATA_DATA n d = (b, d') \<Longrightarrow> dv_media (V d') = dv_media (V d) \<and> length b = 2 * n"
    and sector_in: "dv_drq (V d) \<Longrightarrow> \<not> dv_busy (V d) \<Longrightarrow> dv_xfer (V d) = Reading l (Suc k) \<Longrightarrow> p_insw P ATA_DATA 256 d = (b, d') \<Longrightarrow>
      \<exists>y q f. V d' = (V d)\<lparr>dv_xfer := Reading (l + 1) k, dv_busy := y, dv_drq := q, dv_fault := f\<rparr> \<and> (\<not> f \<longrightarrow> b = dv_media (V d) l)
        \<and> (dv_fault (V d) \<longrightarrow> f)"
    and sector_out: "dv_drq (V d) \<Longrightarrow> \<not> dv_busy (V d) \<Longrightarrow> dv_xfer (V d) = Writing l (Suc k) \<Longrightarrow>
      \<exists>c y q f. V (p_outsw P ATA_DATA b d) = (V d)\<lparr>dv_cache := c, dv_xfer := Writing (l + 1) k, dv_busy := y, dv_drq := q, dv_fault := f\<rparr>
        \<and> (c = dv_cache (V d) \<or> c = (dv_cache (V d))(l \<mapsto> b)) \<and> (\<not> f \<longrightarrow> c = (dv_cache (V d))(l \<mapsto> b)) \<and> (dv_fault (V d) \<longrightarrow> f)"

section \<open>Addressing\<close>

lemma lba_head: "unat (ucast (0xE0 OR (drop_bit 24 lba AND 0x0F)) :: u8) mod 16 = unat (lba :: u32) div 2 ^ 24 mod 16"
proof -
  let ?x = "ucast (0xE0 OR (drop_bit 24 lba AND 0x0F)) :: u8"
  have "take_bit 4 ?x = ucast (take_bit 4 (drop_bit 24 lba))"
  proof (rule bit_word_eqI)
    fix n
    have "n < 4 \<Longrightarrow> \<not> bit (0xE0 :: u32) n \<and> bit (0x0F :: u32) n"
      by (auto simp: less_Suc_eq numeral_eq_Suc)
    then show "bit (take_bit 4 ?x) n = bit (ucast (take_bit 4 (drop_bit 24 lba)) :: u8) n"
      by (auto simp: bit_simps)
  qed
  then have "unat (take_bit 4 ?x) = take_bit 4 (drop_bit 24 (unat lba))"
    by (simp only: unsigned_ucast_eq unsigned_take_bit_eq unat_drop_bit take_bit_take_bit) simp
  moreover have "unat ?x mod 16 = unat (take_bit 4 ?x)"
    by (subst unsigned_take_bit_eq) (simp add: take_bit_eq_mod)
  ultimately show ?thesis by (simp add: take_bit_eq_mod drop_bit_eq_div)
qed

lemma lba_bytes:
  "unat (ucast (lba :: u32) :: u8) = unat lba mod 256"
  "unat (ucast (drop_bit 8 lba) :: u8) = unat lba div 2 ^ 8 mod 256"
  "unat (ucast (drop_bit 16 lba) :: u8) = unat lba div 2 ^ 16 mod 256"
  by (simp_all only: unsigned_ucast_eq unat_drop_bit) (simp_all add: take_bit_eq_mod drop_bit_eq_div)

lemma base256:
  fixes x :: nat
  assumes "x = 256 * a + m" and "a = 256 * b + m'" and "b = 256 * c + m''"
  shows "m + 2 ^ 8 * m' + 2 ^ 16 * m'' + 2 ^ 24 * c = x"
  using assms by simp

lemma lba_assemble:
  fixes x :: nat
  assumes "x < 2 ^ 28"
  shows "x mod 256 + 2 ^ 8 * (x div 2 ^ 8 mod 256) + 2 ^ 16 * (x div 2 ^ 16 mod 256) + 2 ^ 24 * (x div 2 ^ 24 mod 16) = x"
proof -
  have top: "x div 2 ^ 24 mod 16 = x div 2 ^ 24" using assms by simp
  show ?thesis
    unfolding top
  proof (rule base256)
    show "x = 256 * (x div 2 ^ 8) + x mod 256" by simp
    show "x div 2 ^ 8 = 256 * (x div 2 ^ 16) + x div 2 ^ 8 mod 256"
      using div_mult2_eq[of x "2 ^ 8" 256] mult_div_mod_eq[of 256 "x div 2 ^ 8"] by simp
    show "x div 2 ^ 16 = 256 * (x div 2 ^ 24) + x div 2 ^ 16 mod 256"
      using div_mult2_eq[of x "2 ^ 16" 256] mult_div_mod_eq[of 256 "x div 2 ^ 16"] by simp
  qed
qed

lemma view_lba_regs:
  "view_lba (v\<lparr>dv_head := h, dv_busy := b, dv_drq := q, dv_count := c, dv_low := l, dv_mid := m, dv_high := g\<rparr>)
   = unat l + 2 ^ 8 * unat m + 2 ^ 16 * unat g + 2 ^ 24 * (unat h mod 16)"
  by (simp add: view_lba_def)

lemma task_file_lba:
  fixes lba :: u32
  assumes "unat lba < 2 ^ 28"
  shows "view_lba (v\<lparr>dv_head := ucast (0xE0 OR (drop_bit 24 lba AND 0x0F)), dv_busy := b, dv_drq := q, dv_count := count, dv_low := ucast lba,
    dv_mid := ucast (drop_bit 8 lba), dv_high := ucast (drop_bit 16 lba)\<rparr>) = unat lba"
  using lba_assemble[OF assms] by (simp only: view_lba_regs lba_head[of lba] lba_bytes[of lba])

lemma lba_range_words:
  assumes "lba_range lba n"
  shows "unat (of_nat lba :: u32) = lba" and "unat (of_nat n :: u8) = n" and "(of_nat n :: u8) \<noteq> 0"
    and "lba < 2 ^ 28"
proof -
  show lba: "unat (of_nat lba :: u32) = lba" and n: "unat (of_nat n :: u8) = n" and "lba < 2 ^ 28"
    using assms by (simp_all add: lba_range_def unat_of_nat)
  show "(of_nat n :: u8) \<noteq> 0" using n assms by (metis lba_range_def less_irrefl unsigned_0)
qed

lemma valid_request_iff:
  "ata_valid_request lba count buffer \<longleftrightarrow> buffer \<noteq> None \<and> count \<noteq> 0 \<and> unat lba + unat count \<le> 2 ^ 28"
proof -
  have c: "unat count < 256" using unsigned_less[of count] by simp
  have l: "unat lba < 2 ^ 32" using unsigned_less[of lba] by simp
  have "count \<noteq> 0 \<Longrightarrow> unat ((ucast lba :: u64) + ucast count - 1) = unat lba + unat count - 1"
  proof -
    assume "count \<noteq> 0"
    then have pos: "0 < unat count" by (simp add: unat_gt_0)
    have sum: "unat ((ucast lba :: u64) + ucast count) = unat lba + unat count"
      using c l by (simp add: unat_word_ariths unat_ucast_up)
    have "(1 :: u64) \<le> ucast lba + ucast count" using sum pos by (simp add: word_le_nat_alt)
    then show ?thesis using sum by (simp add: unat_sub)
  qed
  then show ?thesis by (auto simp: ata_valid_request_def word_le_nat_alt unat_gt_0)
qed

section \<open>Status polls\<close>

lemma settles_refl [simp]: "settles v v"
  unfolding settles_def by (rule exI[of _ "dv_busy v"], rule exI[of _ "dv_drq v"]) simp

lemma settles_update: "(b \<longrightarrow> dv_busy v) \<Longrightarrow> settles v (v\<lparr>dv_busy := b, dv_drq := q\<rparr>)"
  by (auto simp: settles_def)

lemma settles_trans: "settles u v \<Longrightarrow> settles v w \<Longrightarrow> settles u w"
  by (fastforce simp: settles_def)

lemma settlesD:
  assumes "settles v w"
  shows "dv_media w = dv_media v" "dv_cache w = dv_cache v" "dv_xfer w = dv_xfer v" "dv_fault w = dv_fault v"
    "\<not> dv_busy v \<Longrightarrow> \<not> dv_busy w"
  using assms by (auto simp: settles_def)

lemma klog_dev [simp]: "io_dev (klog m s) = io_dev s"
  by (simp add: klog_def)

lemma status_failed_dev: "ata_status_failed v s = (f, t) \<Longrightarrow> io_dev t = io_dev s \<and> (f \<longleftrightarrow> v AND STATUS_DF \<noteq> 0 \<or> v AND STATUS_ERR \<noteq> 0)"
  by (auto simp: ata_status_failed_def split: if_splits)

context ata_drive
begin

lemma inb_status:
  assumes "inb P ATA_STATUS s = (v, t)"
  shows "settles (V (io_dev s)) (V (io_dev t)) \<and> (v AND STATUS_BSY = 0 \<longrightarrow> \<not> dv_busy (V (io_dev t))
    \<and> (v AND STATUS_DRQ \<noteq> 0 \<longrightarrow> dv_drq (V (io_dev t))) \<and> (dv_fault (V (io_dev s)) \<longrightarrow> v AND STATUS_DF \<noteq> 0 \<or> v AND STATUS_ERR \<noteq> 0))"
  using status_read[of "io_dev s" v "io_dev t"] assms by (auto simp: inb_def split: prod.splits)

lemma wait_not_busy_spec:
  "wait_not_busy P n s = (ok, t) \<Longrightarrow>
   settles (V (io_dev s)) (V (io_dev t)) \<and> (ok \<longrightarrow> \<not> dv_busy (V (io_dev t)) \<and> \<not> dv_fault (V (io_dev t)))"
proof (induction n arbitrary: s)
  case (Suc n)
  obtain v s1 where s1: "inb P ATA_STATUS s = (v, s1)" by fastforce
  obtain f s2 where s2: "ata_status_failed v s1 = (f, s2)" by fastforce
  note i = inb_status[OF s1] and f = status_failed_dev[OF s2]
  show ?case
    using Suc.prems Suc.IH[of s1] i f settlesD(4)[of "V (io_dev s)" "V (io_dev s1)"]
    by (auto simp: s1 s2 intro: settles_trans split: if_splits)
qed auto

lemma wait_drq_spec:
  "wait_drq P n s = (ok, t) \<Longrightarrow>
   settles (V (io_dev s)) (V (io_dev t)) \<and> (ok \<longrightarrow> \<not> dv_busy (V (io_dev t)) \<and> \<not> dv_fault (V (io_dev t)) \<and> dv_drq (V (io_dev t)))"
proof (induction n arbitrary: s)
  case (Suc n)
  obtain v s1 where s1: "inb P ATA_STATUS s = (v, s1)" by fastforce
  obtain f s2 where s2: "ata_status_failed v s1 = (f, s2)" by fastforce
  note i = inb_status[OF s1] and f = status_failed_dev[OF s2]
  show ?case
    using Suc.prems Suc.IH[of s1] Suc.IH[of s2] i f settlesD(4)[of "V (io_dev s)" "V (io_dev s1)"]
    by (auto simp: s1 s2 intro: settles_trans split: if_splits)
qed auto

lemmas waits = wait_not_busy_spec[of ATA_TIMEOUT, folded ata_wait_not_busy_def] wait_drq_spec[of ATA_TIMEOUT, folded ata_wait_drq_def]

lemma delay_settles: "settles (V (io_dev s)) (V (io_dev (delay_400ns P s)))"
proof -
  have "settles (V (io_dev t)) (V (io_dev (snd (inb P ATA_STATUS t))))" for t
    using inb_status[OF prod.collapse[symmetric], of t] by blast
  then show ?thesis unfolding delay_400ns_def by (blast intro: settles_trans)
qed

section \<open>Commands\<close>

lemma command_view:
  assumes "unat lba < 2 ^ 28" "\<not> dv_busy (V (io_dev s))"
  obtains d v where "io_dev (ata_command P lba count c s) = p_outb P ATA_COMMAND c d" "V d = v" "\<not> dv_busy v"
    "view_lba v = unat lba" "dv_count v = count" "dv_media v = dv_media (V (io_dev s))"
proof -
  define s1 where "s1 = outb P ATA_DRIVE_HEAD (ucast (0xE0 OR (drop_bit 24 lba AND 0x0F))) s"
  define s2 where "s2 = delay_400ns P s1"
  define d where "d = p_outb P ATA_LBA_HIGH (ucast (drop_bit 16 lba)) (p_outb P ATA_LBA_MID (ucast (drop_bit 8 lba))
    (p_outb P ATA_LBA_LOW (ucast lba) (p_outb P ATA_SECTOR_CNT count (io_dev s2))))"
  have v1: "V (io_dev s1) = (V (io_dev s))\<lparr>dv_head := ucast (0xE0 OR (drop_bit 24 lba AND 0x0F))\<rparr>"
    by (simp add: s1_def outb_def task_file)
  obtain b q where v2: "V (io_dev s2) = (V (io_dev s1))\<lparr>dv_busy := b, dv_drq := q\<rparr>" "b \<longrightarrow> dv_busy (V (io_dev s1))"
    using delay_settles[of s1] unfolding s2_def settles_def by blast
  have vd: "V d = (V (io_dev s))\<lparr>dv_head := ucast (0xE0 OR (drop_bit 24 lba AND 0x0F)), dv_busy := b, dv_drq := q, dv_count := count,
    dv_low := ucast lba, dv_mid := ucast (drop_bit 8 lba), dv_high := ucast (drop_bit 16 lba)\<rparr>"
    unfolding d_def task_file v2 v1 ..
  show thesis
  proof (rule that[of d "V d"])
    show "io_dev (ata_command P lba count c s) = p_outb P ATA_COMMAND c d"
      by (simp add: ata_command_def ata_select_lba_def Let_def outb_def d_def s2_def s1_def)
    show "\<not> dv_busy (V d)" using v2(2) v1 assms(2) by (auto simp: vd)
    show "view_lba (V d) = unat lba" unfolding vd by (rule task_file_lba[OF assms(1)])
  qed (simp_all add: vd)
qed

lemma read_started:
  assumes "unat lba < 2 ^ 28" "count \<noteq> 0" "\<not> dv_busy (V (io_dev s))"
  shows "dv_media (V (io_dev (ata_command P lba count CMD_READ_PIO s))) = dv_media (V (io_dev s))
    \<and> dv_xfer (V (io_dev (ata_command P lba count CMD_READ_PIO s))) = Reading (unat lba) (unat count)"
proof -
  obtain d v where d: "io_dev (ata_command P lba count CMD_READ_PIO s) = p_outb P ATA_COMMAND CMD_READ_PIO d" "V d = v" "\<not> dv_busy v"
    "view_lba v = unat lba" "dv_count v = count" "dv_media v = dv_media (V (io_dev s))"
    by (rule command_view[OF assms(1,3)])
  then show ?thesis using read_command[of d] assms(2) by (auto simp: view_count_def)
qed

lemma write_started:
  assumes "unat lba < 2 ^ 28" "count \<noteq> 0" "\<not> dv_busy (V (io_dev s))"
  shows "dv_media (V (io_dev (ata_command P lba count CMD_WRITE_PIO s))) = dv_media (V (io_dev s))
    \<and> dv_cache (V (io_dev (ata_command P lba count CMD_WRITE_PIO s))) = Map.empty
    \<and> dv_xfer (V (io_dev (ata_command P lba count CMD_WRITE_PIO s))) = Writing (unat lba) (unat count)"
proof -
  obtain d v where d: "io_dev (ata_command P lba count CMD_WRITE_PIO s) = p_outb P ATA_COMMAND CMD_WRITE_PIO d" "V d = v" "\<not> dv_busy v"
    "view_lba v = unat lba" "dv_count v = count" "dv_media v = dv_media (V (io_dev s))"
    by (rule command_view[OF assms(1,3)])
  then show ?thesis using write_command[of d] assms(2) by (auto simp: view_count_def)
qed

section \<open>Transfers\<close>

lemma faulted_waits:
  assumes "dv_fault (V (io_dev s))"
  shows "\<not> fst (ata_wait_drq P s)" "\<not> fst (ata_wait_not_busy P s)"
  using waits(1)[of s] waits(2)[of s] settlesD(4)[of "V (io_dev s)"] assms by (metis prod.collapse)+

lemma read_sectors_spec:
  assumes "ata_read_sectors P i n buf s = (ok, buf', s')"
    and "dv_xfer (V (io_dev s)) = Reading l k" and "n \<le> k" and "disk_ok V s" and "(i + n) * 512 \<le> length buf"
  shows "disk_media V s' = disk_media V s \<and> length buf' = length buf
    \<and> (ok \<and> \<not> dv_fault (V (io_dev s')) \<longrightarrow> buf' = blit buf (i * 512) (sectors (disk_media V s) l n) \<and> \<not> dv_fault (V (io_dev s)))"
  using assms
proof (induction n arbitrary: i buf s l k)
  case 0
  then show ?case by (simp add: sectors_def)
next
  case (Suc n)
  obtain ok1 s1 where s1: "ata_wait_drq P s = (ok1, s1)" by fastforce
  note w = waits(2)[OF s1] and p = settlesD[OF conjunct1[OF waits(2)[OF s1]]]
  show ?case
  proof (cases ok1)
    case False
    then show ?thesis using Suc.prems(1) s1 p by (auto simp: disk_media_def)
  next
    case True
    obtain k' where k: "k = Suc k'" "n \<le> k'" using Suc.prems(3) by (cases k) auto
    let ?m = "disk_media V s"
    obtain b d where b: "p_insw P ATA_DATA 256 (io_dev s1) = (b, d)" by fastforce
    obtain y q f where f: "V d = (V (io_dev s1))\<lparr>dv_xfer := Reading (l + 1) k', dv_busy := y, dv_drq := q, dv_fault := f\<rparr>"
      "\<not> f \<longrightarrow> b = dv_media (V (io_dev s1)) l"
      using sector_in[OF _ _ _ b, of l k'] w True p(3) Suc.prems(2) k(1) by auto
    let ?s2 = "s1\<lparr>io_dev := d\<rparr>"
    have m2: "disk_media V ?s2 = ?m" using f(1) p(1) by (simp add: disk_media_def)
    have len: "length b = 512" using data_in[OF b] by simp
    have lb: "length (blit buf (i * 512) b) = length buf" using Suc.prems(5) len by (intro length_blit) simp
    have rec: "ata_read_sectors P (i + 1) n (blit buf (i * 512) b) ?s2 = (ok, buf', s')"
      using Suc.prems(1) s1 True b by (simp add: insw_def)
    have IH: "disk_media V s' = disk_media V ?s2 \<and> length buf' = length (blit buf (i * 512) b)
      \<and> (ok \<and> \<not> dv_fault (V (io_dev s')) \<longrightarrow> buf' = blit (blit buf (i * 512) b) ((i + 1) * 512) (sectors (disk_media V ?s2) (l + 1) n)
        \<and> \<not> dv_fault (V (io_dev ?s2)))"
      by (rule Suc.IH[OF rec _ k(2)]) (use Suc.prems(4,5) m2 f lb in \<open>simp_all add: disk_ok_def\<close>)
    have "buf' = blit buf (i * 512) (sectors ?m l (Suc n)) \<and> \<not> dv_fault (V (io_dev s))" if "ok" "\<not> dv_fault (V (io_dev s'))"
    proof -
      have "\<not> f" using IH that f(1) by simp
      then have "b = ?m l" using f(2) p(1) by (simp add: disk_media_def)
      then show ?thesis using IH that w True p(4) len m2 Suc.prems(5) blit_blit_append[of "i * 512" buf b "sectors ?m (Suc l) n"]
        by (simp add: sectors_Suc add.commute)
    qed
    then show ?thesis using IH m2 lb by simp
  qed
qed

end

lemma caches_none: "caches l 0 buf Map.empty" "caches_all l 0 buf Map.empty"
  by (simp_all add: caches_def caches_all_def)

lemma caches_extend:
  assumes "caches l i buf c" "length buf \<ge> (i + 1) * 512"
  shows "caches l (i + 1) buf c" "caches l (i + 1) buf (c(l + i \<mapsto> take 512 (drop (i * 512) buf)))"
    "caches_all l i buf c \<Longrightarrow> caches_all l (i + 1) buf (c(l + i \<mapsto> take 512 (drop (i * 512) buf)))"
  using assms by (auto simp: caches_def caches_all_def less_Suc_eq)

context ata_drive
begin

lemma write_sectors_spec:
  assumes "ata_write_sectors P i n tr buf s = (r, s')"
    and "dv_xfer (V (io_dev s)) = Writing (l + i) k" and "n \<le> k" and "(i + n) * 512 \<le> length buf"
    and "caches l i buf (dv_cache (V (io_dev s)))" and "dv_fault (V (io_dev s)) \<or> caches_all l i buf (dv_cache (V (io_dev s)))"
  shows "disk_media V s' = disk_media V s \<and> caches l (i + n) buf (dv_cache (V (io_dev s')))
    \<and> (r = None \<longrightarrow> dv_fault (V (io_dev s')) \<or> caches_all l (i + n) buf (dv_cache (V (io_dev s'))))
    \<and> r \<noteq> Some ATA_WRITE_COMPLETE"
  using assms
proof (induction n arbitrary: i tr s k)
  case 0
  then show ?case by auto
next
  case (Suc n)
  obtain ok1 s1 where s1: "ata_wait_drq P s = (ok1, s1)" by fastforce
  note w = waits(2)[OF s1] and p = settlesD[OF conjunct1[OF waits(2)[OF s1]]]
  show ?case
  proof (cases ok1)
    case False
    have "caches l (i + Suc n) buf (dv_cache (V (io_dev s)))" using Suc.prems(5) by (fastforce simp: caches_def)
    then show ?thesis using False Suc.prems(1) s1 p by (auto simp: disk_media_def split: if_splits)
  next
    case True
    obtain k' where k: "k = Suc k'" "n \<le> k'" using Suc.prems(3) by (cases k) auto
    let ?b = "take 512 (drop (i * 512) buf)"
    let ?d = "p_outsw P ATA_DATA ?b (io_dev s1)"
    let ?s2 = "s1\<lparr>io_dev := ?d\<rparr>"
    let ?c = "dv_cache (V (io_dev s))"
    obtain c y q f where f: "V ?d = (V (io_dev s1))\<lparr>dv_cache := c, dv_xfer := Writing (l + i + 1) k', dv_busy := y, dv_drq := q, dv_fault := f\<rparr>"
      "c = ?c \<or> c = ?c(l + i \<mapsto> ?b)" "\<not> f \<longrightarrow> c = ?c(l + i \<mapsto> ?b)"
      using sector_out[of "io_dev s1" "l + i" k' ?b] w True p(2,3) Suc.prems(2) k(1) by auto
    have c: "caches l (i + 1) buf c" "\<not> f \<Longrightarrow> caches_all l (i + 1) buf c"
      using f(2,3) caches_extend[OF Suc.prems(5)] Suc.prems(4,6) w True p(4) by auto
    have rec: "ata_write_sectors P (i + 1) n True buf ?s2 = (r, s')"
      using Suc.prems(1) s1 True by (simp add: outsw_def)
    have "disk_media V s' = disk_media V ?s2 \<and> caches l (i + 1 + n) buf (dv_cache (V (io_dev s')))
      \<and> (r = None \<longrightarrow> dv_fault (V (io_dev s')) \<or> caches_all l (i + 1 + n) buf (dv_cache (V (io_dev s'))))
      \<and> r \<noteq> Some ATA_WRITE_COMPLETE"
      by (rule Suc.IH[OF rec _ k(2)]) (use Suc.prems(4) f c in auto)
    then show ?thesis using f(1) p(1) by (simp add: disk_media_def)
  qed
qed

section \<open>The driver meets the contract\<close>

lemma read_contract:
  assumes "disk_ok V s" and "length buf = 512 * unat count" and "count \<noteq> 0" and "unat lba < 2 ^ 28"
    and "ata_read P lba count (Some buf) s = (ok, buf', s')"
  shows "disk_ok V s' \<and> disk_media V s' = disk_media V s \<and> length (the buf') = length buf
    \<and> (ok \<longrightarrow> the buf' = sectors (disk_media V s) (unat lba) (unat count))"
proof (cases "ata_valid_request lba count (Some buf) \<and> fst (ata_wait_not_busy P s)")
  case True
  obtain s1 where s1: "ata_wait_not_busy P s = (True, s1)" using True by (cases "ata_wait_not_busy P s") auto
  note w1 = waits(1)[OF s1] and p1 = settlesD[OF conjunct1[OF waits(1)[OF s1]]]
  define s2 where "s2 = ata_command P lba count CMD_READ_PIO s1"
  obtain ok3 buf3 s3 where s3: "ata_read_sectors P 0 (unat count) buf s2 = (ok3, buf3, s3)" by (metis prod_cases3)
  obtain ok4 s4 where s4: "ata_wait_not_busy P s3 = (ok4, s4)" by fastforce
  note w4 = waits(1)[OF s4] and p4 = settlesD[OF conjunct1[OF waits(1)[OF s4]]]
  have m2: "disk_media V s2 = disk_media V s" and x2: "dv_xfer (V (io_dev s2)) = Reading (unat lba) (unat count)"
    using read_started[OF assms(4,3), of s1] w1 p1 by (simp_all add: s2_def disk_media_def)
  have spec: "disk_media V s3 = disk_media V s2 \<and> length buf3 = length buf
      \<and> (ok3 \<and> \<not> dv_fault (V (io_dev s3)) \<longrightarrow> buf3 = blit buf 0 (sectors (disk_media V s2) (unat lba) (unat count)))"
    using read_sectors_spec[OF s3 x2] assms(1,2) m2 by (simp add: disk_ok_def)
  have len: "length (sectors (disk_media V s) (unat lba) (unat count)) = length buf"
    using assms(1,2) by (simp add: length_sectors disk_ok_def)
  have "(ok, buf', s') = (if \<not> ok3 then (False, Some buf3, s3) else (ok4, Some buf3, s4))"
    using assms(5) True by (simp add: ata_read_def Let_def s1 s2_def[symmetric] s3 s4 split: if_splits)
  moreover have "ok4 \<longrightarrow> \<not> dv_fault (V (io_dev s3))" using w4 p4(4) by auto
  ultimately show ?thesis using p4(1) m2 spec len assms(1) by (auto simp: disk_ok_def disk_media_def blit_def split: if_splits)
next
  case False
  obtain ok1 s1 where s1: "ata_wait_not_busy P s = (ok1, s1)" by fastforce
  have "disk_media V s1 = disk_media V s" using settlesD(1)[OF conjunct1[OF waits(1)[OF s1]]] by (simp add: disk_media_def)
  moreover have "ok = False \<and> buf' = Some buf \<and> (s' = s \<or> s' = s1)"
    using assms(5) False s1 by (auto simp: ata_read_def split: if_splits)
  ultimately show ?thesis using assms(1) by (auto simp: disk_ok_def)
qed

lemma write_shape:
  assumes "ata_valid_request lba count (Some buf)" "unat lba < 2 ^ 28" "count \<noteq> 0" "length buf = 512 * unat count"
    and "ata_write P lba count (Some buf) s = (r, s')"
  obtains "disk_media V s' = disk_media V s" "r \<noteq> ATA_WRITE_COMPLETE"
  | t ok where "\<not> dv_busy (V (io_dev t))" "disk_media V t = disk_media V s" "caches_all (unat lba) (unat count) buf (dv_cache (V (io_dev t)))"
    "ata_wait_not_busy P (outb P ATA_COMMAND CMD_CACHE_FLUSH t) = (ok, s')" "r = (if ok then ATA_WRITE_COMPLETE else ATA_WRITE_UNCERTAIN)"
proof -
  obtain ok1 s1 where s1: "ata_wait_not_busy P s = (ok1, s1)" by fastforce
  note w1 = waits(1)[OF s1] and p1 = settlesD[OF conjunct1[OF waits(1)[OF s1]]]
  define s2 where "s2 = ata_command P lba count CMD_WRITE_PIO s1"
  obtain early s3 where s3: "ata_write_sectors P 0 (unat count) False buf s2 = (early, s3)" by fastforce
  obtain ok4 s4 where s4: "ata_wait_not_busy P s3 = (ok4, s4)" by fastforce
  note w4 = waits(1)[OF s4] and p4 = settlesD[OF conjunct1[OF waits(1)[OF s4]]]
  obtain ok6 s6 where s6: "ata_wait_not_busy P (outb P ATA_COMMAND CMD_CACHE_FLUSH s4) = (ok6, s6)" by fastforce
  have res: "(r, s') = (if \<not> ok1 then (ATA_WRITE_FAILED, s1) else case early of Some e \<Rightarrow> (e, s3)
      | None \<Rightarrow> if \<not> ok4 then (ATA_WRITE_UNCERTAIN, s4) else (if ok6 then ATA_WRITE_COMPLETE else ATA_WRITE_UNCERTAIN, s6))"
    using assms(1,5) by (auto simp: ata_write_def Let_def s1 s2_def[symmetric] s3 s4 s6 split: option.splits if_splits)
  show thesis
  proof (cases ok1)
    case False
    then show ?thesis using that(1) res p1(1) by (simp add: disk_media_def)
  next
    case True
    have m2: "disk_media V s2 = disk_media V s" and x2: "dv_xfer (V (io_dev s2)) = Writing (unat lba + 0) (unat count)"
      and c2: "dv_cache (V (io_dev s2)) = Map.empty"
      using write_started[OF assms(2,3), of s1] w1 True p1 by (simp_all add: s2_def disk_media_def)
    have spec: "disk_media V s3 = disk_media V s \<and> (early = None \<longrightarrow> dv_fault (V (io_dev s3)) \<or> caches_all (unat lba) (unat count) buf (dv_cache (V (io_dev s3))))
      \<and> early \<noteq> Some ATA_WRITE_COMPLETE"
      using write_sectors_spec[OF s3 x2 order_refl] c2 m2 assms(4) caches_none by simp
    show ?thesis
    proof (cases "early = None \<and> ok4")
      case True
      then have "caches_all (unat lba) (unat count) buf (dv_cache (V (io_dev s4)))" using spec w4 p4(2,4) by auto
      then show ?thesis using that(2)[of s4 ok6] s6 res True \<open>ok1\<close> w4 spec p4(1) by (simp add: disk_media_def)
    next
      case False
      then show ?thesis using that(1) res \<open>ok1\<close> spec p4(1) by (auto simp: disk_media_def split: option.splits if_splits)
    qed
  qed
qed

lemma flushed:
  assumes "\<not> dv_busy (V (io_dev t))" "caches_all l n buf (dv_cache (V (io_dev t)))"
    and "ata_wait_not_busy P (outb P ATA_COMMAND CMD_CACHE_FLUSH t) = (ok, s')"
  shows "(disk_media V s' x = disk_media V t x \<or> disk_media V s' x = store_sectors (disk_media V t) l n buf x)
    \<and> (ok \<longrightarrow> disk_media V s' = store_sectors (disk_media V t) l n buf)"
proof -
  let ?d = "p_outb P ATA_COMMAND CMD_CACHE_FLUSH (io_dev t)" and ?c = "dv_cache (V (io_dev t))"
  obtain m y b q f where f: "V ?d = (V (io_dev t))\<lparr>dv_media := m, dv_cache := Map.empty, dv_xfer := y, dv_busy := b, dv_drq := q, dv_fault := f\<rparr>"
    "\<forall>l. m l = disk_media V t l \<or> ?c l = Some (m l)" "\<not> f \<longrightarrow> (\<forall>l s. ?c l = Some s \<longrightarrow> m l = s)"
    using flush_command[OF assms(1)] unfolding disk_media_def by blast
  note w = waits(1)[OF assms(3)] and p = settlesD[OF conjunct1[OF waits(1)[OF assms(3)]]]
  have m: "disk_media V s' = m" "dv_fault (V (io_dev s')) = f" using p(1,4) f(1) by (simp_all add: outb_def disk_media_def)
  have c: "?c z = Some b \<Longrightarrow> store_sectors (disk_media V t) l n buf z = b" for z b
    using assms(2) by (auto simp: caches_all_def caches_def store_sectors_def)
  have "m z = store_sectors (disk_media V t) l n buf z" if "\<not> f" for z
  proof (cases "?c z")
    case None
    then have "\<not> (l \<le> z \<and> z < l + n)" using assms(2) by (auto simp: caches_all_def)
    then show ?thesis using f(2) None by (metis option.distinct(1) store_sectors_def)
  next
    case (Some b)
    then show ?thesis using f(3) that c by simp
  qed
  then show ?thesis using m w f(2) c[of x "m x"] by (metis ext)
qed

lemma write_contract:
  assumes "length buf = 512 * unat count" and "count \<noteq> 0" and "unat lba < 2 ^ 28"
    and "ata_write P lba count (Some buf) s = (r, s')"
  shows "(disk_media V s' x = disk_media V s x \<or> disk_media V s' x = store_sectors (disk_media V s) (unat lba) (unat count) buf x)
    \<and> (r = ATA_WRITE_COMPLETE \<longrightarrow> disk_media V s' = store_sectors (disk_media V s) (unat lba) (unat count) buf)
    \<and> (r = ATA_WRITE_FAILED \<longrightarrow> disk_media V s' = disk_media V s)"
proof (cases "ata_valid_request lba count (Some buf)")
  case True
  then show ?thesis
  proof (cases rule: write_shape[OF _ assms(3,2,1,4), consumes 1])
    case 1
    then show ?thesis by simp
  next
    case (2 t ok)
    then show ?thesis using flushed[OF 2(1,3,4), of x] by (auto split: if_splits)
  qed
next
  case False
  then show ?thesis using assms(4) by (auto simp: ata_write_def)
qed

lemma write_ok:
  assumes "disk_ok V s" "length buf = 512 * unat count" and "count \<noteq> 0" and "unat lba < 2 ^ 28"
    and "ata_write P lba count (Some buf) s = (r, s')"
  shows "disk_ok V s' \<and> (\<forall>x. x < unat lba \<or> unat lba + unat count \<le> x \<longrightarrow> disk_media V s' x = disk_media V s x)"
proof -
  have len: "length (store_sectors (disk_media V s) (unat lba) (unat count) buf x) = 512" for x
    using assms(1,2) by (auto simp: store_sectors_def disk_ok_def)
  have a: "disk_media V s' x = disk_media V s x \<or> disk_media V s' x = store_sectors (disk_media V s) (unat lba) (unat count) buf x" for x
    using write_contract[OF assms(2-5), of x] by blast
  have "length (disk_media V s' x) = 512" for x
    using a[of x] assms(1) len[of x] by (elim disjE) (simp_all add: disk_ok_def)
  moreover have "disk_media V s' x = disk_media V s x" if "x < unat lba \<or> unat lba + unat count \<le> x" for x
    using a[of x] that by (auto simp: store_sectors_def)
  ultimately show ?thesis by (simp add: disk_ok_def)
qed

lemma init_keeps_media: "disk_media V (snd (ata_init P s)) = disk_media V s"
proof -
  have st: "disk_media V (snd (inb P ATA_STATUS t)) = disk_media V t" for t
    using settlesD(1)[OF conjunct1[OF inb_status[OF prod.collapse[symmetric], of t]]] by (simp add: disk_media_def)
  have sig: "disk_media V (snd (inb P ATA_LBA_MID t)) = disk_media V t" "disk_media V (snd (inb P ATA_LBA_HIGH t)) = disk_media V t" for t
    using signature_read[of ATA_LBA_MID, OF _ prod.collapse[symmetric], of "io_dev t"]
      signature_read[of ATA_LBA_HIGH, OF _ prod.collapse[symmetric], of "io_dev t"]
    by (simp_all add: inb_def disk_media_def case_prod_beta)
  have out: "disk_media V (outb P p v t) = disk_media V t" if "p \<in> {0x80, ATA_SECTOR_CNT, ATA_LBA_LOW, ATA_LBA_MID, ATA_LBA_HIGH, ATA_DRIVE_HEAD}" for p v t
    using that by (auto simp: outb_def disk_media_def task_file delay_port)
  have ident: "disk_media V (outb P ATA_COMMAND CMD_IDENTIFY t) = disk_media V t" for t
    by (simp add: outb_def disk_media_def identify_command)
  have sel: "disk_media V (ata_select_drive P t) = disk_media V t" for t
    using settlesD(1)[OF delay_settles[of "outb P ATA_DRIVE_HEAD 0xE0 t"]] out[of ATA_DRIVE_HEAD] by (simp add: ata_select_drive_def disk_media_def)
  have wt: "disk_media V (snd (ata_wait_not_busy P t)) = disk_media V t" "disk_media V (snd (ata_wait_drq P t)) = disk_media V t" for t
    using settlesD(1)[OF conjunct1[OF waits(1)[OF prod.collapse[symmetric], of t]]]
      settlesD(1)[OF conjunct1[OF waits(2)[OF prod.collapse[symmetric], of t]]] by (simp_all add: disk_media_def)
  have ins: "disk_media V (snd (insw P ATA_DATA 256 t)) = disk_media V t" for t
    using data_in[OF prod.collapse[symmetric], of 256 "io_dev t"] by (simp add: insw_def disk_media_def case_prod_beta)
  have lg: "disk_media V (klog m t) = disk_media V t" for m t by (simp add: disk_media_def)
  show ?thesis by (simp add: ata_init_def Let_def case_prod_beta st sig out ident sel wt ins lg)
qed

lemma driver_is_device: "block_device (driver_env P) (disk_media V) (disk_ok V)"
proof (unfold_locales, goal_cases)
  case (1 w l)
  then show ?case by (simp add: disk_ok_def)
next
  case (2 w r w')
  then show ?case using init_keeps_media[of w] by (simp add: driver_env_def disk_ok_def)
next
  case (3 w lba n buf ok buf' w')
  then show ?case
    using lba_range_words[OF 3(2)] read_contract[of w buf "of_nat n" "of_nat lba"]
    by (auto simp: driver_env_def split: prod.splits)
next
  case (4 w lba n buf buf' w')
  then show ?case
    using lba_range_words[OF 4(2)] read_contract[of w buf "of_nat n" "of_nat lba"]
    by (auto simp: driver_env_def split: prod.splits)
next
  case (5 w lba n buf wr w')
  then show ?case
    using lba_range_words[OF 5(2)] write_ok[of w buf "of_nat n" "of_nat lba" wr w']
    by (auto simp: driver_env_def)
next
  case (6 w lba n buf w')
  then show ?case
    using lba_range_words[OF 6(2)] write_contract[of buf "of_nat n" "of_nat lba" w _ w']
    by (simp add: driver_env_def)
next
  case (7 w lba n buf w')
  then show ?case
    using lba_range_words[OF 7(2)] write_contract[of buf "of_nat n" "of_nat lba" w _ w']
    by (simp add: driver_env_def)
next
  case (8 w msg)
  then show ?case by (simp add: driver_env_def disk_ok_def disk_media_def)
next
  case (9 buf cap w n buf')
  then show ?case
    using syslog_copy_text_bound[of "io_log w" buf cap] by (simp add: driver_env_def split: prod.splits)
qed

end

end
