(* ===== verification/Pio_Drive.thy ===== *)
theory Pio_Drive
  imports Ata_Drive
begin

text \<open>
  A drive that keeps the laws of \<open>ata_drive\<close>, so that the driver's contract is not empty.  Its status
  reads come from an arbitrary sequence, and whether it can read, cache or flush a sector at a given
  time is an arbitrary predicate: busy periods, error bits, timeouts and faults are possible at every
  poll.  It ignores commands while it is busy and transfers it did not request, keeps written sectors
  in a volatile cache until they are flushed, and raises the error bit after a fault.
\<close>

section \<open>Definitions\<close>

record pio_drive =
  d_view :: drive_view
  d_status :: "nat \<Rightarrow> u8"
  d_polls :: nat
  d_ok :: "nat \<Rightarrow> bool"
  d_reached :: "nat \<Rightarrow> bool"

definition upd_view :: "(drive_view \<Rightarrow> drive_view) \<Rightarrow> pio_drive \<Rightarrow> pio_drive" where
  "upd_view f d = d\<lparr>d_view := f (d_view d)\<rparr>"

text \<open>Once the drive is ready it stays ready until the next command or transfer; a fault shows.\<close>

definition shown_status :: "pio_drive \<Rightarrow> u8" where
  "shown_status d = (let raw = d_status d (d_polls d); v = (if dv_busy (d_view d) then raw else raw AND NOT STATUS_BSY)
     in if v AND STATUS_BSY = 0 \<and> dv_fault (d_view d) then v OR STATUS_ERR else v)"

definition pio_inb :: "nat \<Rightarrow> pio_drive \<Rightarrow> u8 \<times> pio_drive" where
  "pio_inb port d =
     (if port = ATA_STATUS
      then let v = shown_status d in
        (v, upd_view (\<lambda>w. w\<lparr>dv_busy := dv_busy w \<and> v AND STATUS_BSY \<noteq> 0,
              dv_drq := dv_drq w \<or> v AND STATUS_BSY = 0 \<and> v AND STATUS_DRQ \<noteq> 0\<rparr>) (d\<lparr>d_polls := d_polls d + 1\<rparr>))
      else if port = ATA_LBA_MID then (dv_mid (d_view d), d)
      else if port = ATA_LBA_HIGH then (dv_high (d_view d), d)
      else (0xFF, d))"

definition start_command :: "xfer \<Rightarrow> drive_view \<Rightarrow> drive_view" where
  "start_command x w = w\<lparr>dv_cache := Map.empty, dv_xfer := x, dv_busy := True, dv_drq := False, dv_fault := False\<rparr>"

definition flush_cache :: "bool \<Rightarrow> (nat \<Rightarrow> bool) \<Rightarrow> drive_view \<Rightarrow> drive_view" where
  "flush_cache ok reached w = w\<lparr>dv_media := (\<lambda>l. case dv_cache w l of Some b \<Rightarrow> if ok \<or> reached l then b else dv_media w l | None \<Rightarrow> dv_media w l),
     dv_cache := Map.empty, dv_xfer := Idle, dv_busy := True, dv_drq := False, dv_fault := \<not> ok\<rparr>"

definition pio_command :: "u8 \<Rightarrow> pio_drive \<Rightarrow> pio_drive" where
  "pio_command cmd d =
     (if dv_busy (d_view d) then d
      else if cmd = CMD_READ_PIO then upd_view (\<lambda>w. start_command (Reading (view_lba w) (view_count w)) w) d
      else if cmd = CMD_WRITE_PIO then upd_view (\<lambda>w. start_command (Writing (view_lba w) (view_count w)) w) d
      else if cmd = CMD_IDENTIFY then upd_view (start_command Identifying) d
      else if cmd = CMD_CACHE_FLUSH then upd_view (flush_cache (d_ok d (d_polls d)) (d_reached d)) d
      else d)"

definition pio_outb :: "nat \<Rightarrow> u8 \<Rightarrow> pio_drive \<Rightarrow> pio_drive" where
  "pio_outb port v d =
     (if port = ATA_SECTOR_CNT then upd_view (\<lambda>w. w\<lparr>dv_count := v\<rparr>) d
      else if port = ATA_LBA_LOW then upd_view (\<lambda>w. w\<lparr>dv_low := v\<rparr>) d
      else if port = ATA_LBA_MID then upd_view (\<lambda>w. w\<lparr>dv_mid := v\<rparr>) d
      else if port = ATA_LBA_HIGH then upd_view (\<lambda>w. w\<lparr>dv_high := v\<rparr>) d
      else if port = ATA_DRIVE_HEAD then upd_view (\<lambda>w. w\<lparr>dv_head := v\<rparr>) d
      else if port = ATA_COMMAND then pio_command v d
      else d)"

definition next_sector :: "xfer \<Rightarrow> bool \<Rightarrow> drive_view \<Rightarrow> drive_view" where
  "next_sector x ok w = w\<lparr>dv_xfer := x, dv_busy := True, dv_drq := False, dv_fault := dv_fault w \<or> \<not> ok\<rparr>"

definition pio_insw :: "nat \<Rightarrow> nat \<Rightarrow> pio_drive \<Rightarrow> bytes \<times> pio_drive" where
  "pio_insw port n d = (let ok = d_ok d (d_polls d); junk = replicate (2 * n) 0xFF in
     case (dv_drq (d_view d) \<and> \<not> dv_busy (d_view d), dv_xfer (d_view d)) of
       (True, Reading lba (Suc k)) \<Rightarrow> (if ok \<and> length (dv_media (d_view d) lba) = 2 * n then dv_media (d_view d) lba else junk,
         upd_view (next_sector (Reading (lba + 1) k) (ok \<and> length (dv_media (d_view d) lba) = 2 * n)) d)
     | (True, Identifying) \<Rightarrow> (replicate (2 * n) 0, upd_view (next_sector Idle True) d)
     | _ \<Rightarrow> (junk, d))"

definition pio_outsw :: "nat \<Rightarrow> bytes \<Rightarrow> pio_drive \<Rightarrow> pio_drive" where
  "pio_outsw port b d = (let ok = d_ok d (d_polls d) in
     case (dv_drq (d_view d) \<and> \<not> dv_busy (d_view d), dv_xfer (d_view d)) of
       (True, Writing lba (Suc k)) \<Rightarrow>
         upd_view (\<lambda>w. next_sector (Writing (lba + 1) k) ok (if ok then w\<lparr>dv_cache := (dv_cache w)(lba \<mapsto> b)\<rparr> else w)) d
     | _ \<Rightarrow> d)"

definition pio_ports :: "pio_drive ports" where
  "pio_ports = \<lparr>p_inb = pio_inb, p_outb = pio_outb, p_insw = pio_insw, p_outsw = pio_outsw\<rparr>"

definition kernel_env :: "pio_drive io fs_env" where
  "kernel_env = driver_env pio_ports"

definition drive_media :: "pio_drive io \<Rightarrow> nat \<Rightarrow> bytes" where
  "drive_media = disk_media d_view"

definition drive_ok :: "pio_drive io \<Rightarrow> bool" where
  "drive_ok = disk_ok d_view"

text \<open>A drive of zeroed sectors, busy after power-up, that answers every status read with \<open>st\<close>.\<close>

definition zero_drive :: "u8 \<Rightarrow> pio_drive io" where
  "zero_drive st = \<lparr>io_dev = \<lparr>d_view = \<lparr>dv_media = \<lambda>_. replicate 512 0, dv_cache = Map.empty, dv_count = 0, dv_low = 0, dv_mid = 0,
     dv_high = 0, dv_head = 0, dv_xfer = Idle, dv_busy = True, dv_drq = False, dv_fault = False\<rparr>,
     d_status = \<lambda>_. st, d_polls = 0, d_ok = \<lambda>_. True, d_reached = \<lambda>_. False\<rparr>, io_log = syslog_boot\<rparr>"

section \<open>The drive keeps the laws\<close>

lemma shown_fault: "shown_status d AND STATUS_BSY = 0 \<Longrightarrow> dv_fault (d_view d) \<Longrightarrow> shown_status d AND STATUS_ERR \<noteq> 0"
proof -
  have or_err: "(v OR 1) AND 1 = (1 :: u8)" for v by (rule bit_word_eqI) (auto simp: bit_simps)
  have or_bsy: "(v OR 1) AND 0x80 = (v AND 0x80 :: u8)" for v
    by (rule bit_word_eqI) (auto simp: bit_simps bit_numeral_rec less_Suc_eq numeral_eq_Suc)
  assume "shown_status d AND STATUS_BSY = 0" "dv_fault (d_view d)"
  then show ?thesis by (auto simp: shown_status_def Let_def or_err or_bsy split: if_splits)
qed

lemma pio_status_law:
  assumes "pio_inb ATA_STATUS d = (v, d')"
  shows "settles (d_view d) (d_view d') \<and> (v AND STATUS_BSY = 0 \<longrightarrow> \<not> dv_busy (d_view d') \<and> (v AND STATUS_DRQ \<noteq> 0 \<longrightarrow> dv_drq (d_view d'))
    \<and> (dv_fault (d_view d) \<longrightarrow> v AND STATUS_DF \<noteq> 0 \<or> v AND STATUS_ERR \<noteq> 0))"
  using assms shown_fault[of d] by (auto simp: pio_inb_def Let_def upd_view_def intro: settles_update)

lemma start_law:
  "\<exists>b q f c. start_command x w = w\<lparr>dv_cache := c, dv_xfer := x, dv_busy := b, dv_drq := q, dv_fault := f\<rparr>"
  "\<exists>b q f. start_command x w = w\<lparr>dv_cache := Map.empty, dv_xfer := x, dv_busy := b, dv_drq := q, dv_fault := f\<rparr>"
  unfolding start_command_def by (intro exI, rule refl)+

lemma flush_law:
  "\<exists>m x b q f. flush_cache ok reached w = w\<lparr>dv_media := m, dv_cache := Map.empty, dv_xfer := x, dv_busy := b, dv_drq := q, dv_fault := f\<rparr>
     \<and> (\<forall>l. m l = dv_media w l \<or> dv_cache w l = Some (m l)) \<and> (\<not> f \<longrightarrow> (\<forall>l s. dv_cache w l = Some s \<longrightarrow> m l = s))"
  unfolding flush_cache_def by (intro exI conjI, rule refl) (auto split: option.splits)

lemma sector_in_law:
  assumes "dv_drq (d_view d)" "\<not> dv_busy (d_view d)" "dv_xfer (d_view d) = Reading l (Suc k)" "pio_insw port 256 d = (b, d')"
  shows "\<exists>y q f. d_view d' = (d_view d)\<lparr>dv_xfer := Reading (l + 1) k, dv_busy := y, dv_drq := q, dv_fault := f\<rparr>
    \<and> (\<not> f \<longrightarrow> b = dv_media (d_view d) l) \<and> (dv_fault (d_view d) \<longrightarrow> f)"
proof -
  have "d_view d' = next_sector (Reading (l + 1) k) (d_ok d (d_polls d) \<and> length (dv_media (d_view d) l) = 2 * 256) (d_view d)"
    "d_ok d (d_polls d) \<and> length (dv_media (d_view d) l) = 2 * 256 \<Longrightarrow> b = dv_media (d_view d) l"
    using assms by (auto simp: pio_insw_def upd_view_def Let_def)
  then show ?thesis unfolding next_sector_def by - ((intro exI conjI, assumption), auto)
qed

lemma sector_out_law:
  assumes "dv_drq (d_view d)" "\<not> dv_busy (d_view d)" "dv_xfer (d_view d) = Writing l (Suc k)"
  shows "\<exists>c y q f. d_view (pio_outsw port b d) = (d_view d)\<lparr>dv_cache := c, dv_xfer := Writing (l + 1) k, dv_busy := y, dv_drq := q, dv_fault := f\<rparr>
    \<and> (c = dv_cache (d_view d) \<or> c = (dv_cache (d_view d))(l \<mapsto> b)) \<and> (\<not> f \<longrightarrow> c = (dv_cache (d_view d))(l \<mapsto> b)) \<and> (dv_fault (d_view d) \<longrightarrow> f)"
proof -
  let ?ok = "d_ok d (d_polls d)"
  let ?c = "if ?ok then (dv_cache (d_view d))(l \<mapsto> b) else dv_cache (d_view d)"
  have "d_view (pio_outsw port b d) = (d_view d)\<lparr>dv_cache := ?c, dv_xfer := Writing (l + 1) k, dv_busy := True, dv_drq := False,
    dv_fault := dv_fault (d_view d) \<or> \<not> ?ok\<rparr>"
    using assms by (simp add: pio_outsw_def upd_view_def next_sector_def Let_def)
  then show ?thesis by - ((intro exI conjI, assumption), auto)
qed

interpretation pio_laws: ata_drive pio_ports d_view
proof (unfold_locales, goal_cases)
  case (1 d v d')
  then show ?case using pio_status_law by (simp add: pio_ports_def)
next
  case (9 d)
  then show ?case using start_law(1)[of "Reading (view_lba (d_view d)) (view_count (d_view d))" "d_view d"]
    by (simp add: pio_ports_def pio_outb_def pio_command_def upd_view_def)
next
  case (10 d)
  then show ?case using start_law(2)[of "Writing (view_lba (d_view d)) (view_count (d_view d))" "d_view d"]
    by (simp add: pio_ports_def pio_outb_def pio_command_def upd_view_def)
next
  case (11 d)
  then show ?case using flush_law[of "d_ok d (d_polls d)" "d_reached d" "d_view d"]
    by (simp add: pio_ports_def pio_outb_def pio_command_def upd_view_def)
next
  case (13 n d b d')
  then show ?case
    by (auto simp: pio_ports_def pio_insw_def upd_view_def next_sector_def Let_def split: xfer.splits nat.splits bool.splits if_splits)
next
  case (14 d l k b d')
  then show ?case using sector_in_law[of d l k _ b d'] by (simp add: pio_ports_def)
next
  case (15 d l k b)
  then show ?case using sector_out_law[of d l k] by (simp add: pio_ports_def)
qed (auto simp: pio_ports_def pio_inb_def pio_outb_def pio_command_def upd_view_def start_command_def split: if_splits)

interpretation pio: block_device kernel_env drive_media drive_ok
  unfolding kernel_env_def drive_media_def drive_ok_def by (rule pio_laws.driver_is_device)

lemma zero_drive_ok: "drive_ok (zero_drive st)"
  by (simp add: drive_ok_def disk_ok_def disk_media_def zero_drive_def)

end
