(* ===== verification/Drive_Laws.thy ===== *)
theory Drive_Laws
  imports Pio_Drive
begin

text \<open>
  Two sharper contracts for the block device.  \<open>atomic_device\<close>: a write that stops half way
  leaves every sector either as it was or as requested, which is what crash safety rests on.
  \<open>reliable_device\<close>: while the drive is healthy every request succeeds, which is what the
  liveness of the filesystem rests on.  The ATA driver meets the first over every drive of
  \<open>ata_drive\<close> and the second over a PIO drive that is ready and has no faults.
\<close>

section \<open>Contracts\<close>

locale atomic_device = block_device +
  assumes write_atomic: "dev_ok w \<Longrightarrow> lba_range lba n \<Longrightarrow> length buf = 512 * n \<Longrightarrow> env_ata_write E lba n buf w = (wr, w') \<Longrightarrow>
    media w' l = media w l \<or> media w' l = store_sectors (media w) lba n buf l"

locale reliable_device = block_device +
  fixes healthy :: "'a \<Rightarrow> bool"
  assumes healthy_ok: "healthy w \<Longrightarrow> dev_ok w"
    and healthy_init: "healthy w \<Longrightarrow> env_ata_init E w = (r, w') \<Longrightarrow> r = ATA_INIT_READY \<and> healthy w'"
    and healthy_read: "healthy w \<Longrightarrow> lba_range lba n \<Longrightarrow> length buf = 512 * n \<Longrightarrow>
      env_ata_read E lba n buf w = (ok, buf', w') \<Longrightarrow> ok \<and> healthy w'"
    and healthy_write: "healthy w \<Longrightarrow> lba_range lba n \<Longrightarrow> length buf = 512 * n \<Longrightarrow>
      env_ata_write E lba n buf w = (wr, w') \<Longrightarrow> wr = ATA_WRITE_COMPLETE \<and> healthy w'"
    and healthy_log: "healthy w \<Longrightarrow> healthy (env_syslog_write E msg w)"

text \<open>A drive that answers every status read with \<open>DRDY\<close> and \<open>DRQ\<close> set and never has a fault.\<close>

definition faultless :: "pio_drive io \<Rightarrow> bool" where
  "faultless s \<longleftrightarrow> d_status (io_dev s) = (\<lambda>_. 0x48) \<and> d_ok (io_dev s) = (\<lambda>_. True) \<and> \<not> dv_fault (d_view (io_dev s))"

definition drive_healthy :: "pio_drive io \<Rightarrow> bool" where
  "drive_healthy s \<longleftrightarrow> drive_ok s \<and> faultless s"

text \<open>One more status read, after which the drive is ready and requests data.\<close>

definition tick :: "pio_drive io \<Rightarrow> pio_drive io" where
  "tick s = s\<lparr>io_dev := (io_dev s)\<lparr>d_polls := d_polls (io_dev s) + 1,
     d_view := (d_view (io_dev s))\<lparr>dv_busy := False, dv_drq := True\<rparr>\<rparr>\<rparr>"

section \<open>Writes are atomic per sector\<close>

context ata_drive
begin

lemma driver_is_atomic: "atomic_device (driver_env P) (disk_media V) (disk_ok V)"
proof (rule atomic_device.intro[OF driver_is_device], unfold_locales, goal_cases)
  case (1 w lba n buf wr w' l)
  then show ?case
    using lba_range_words[OF 1(2)] write_contract[of buf "of_nat n" "of_nat lba" w wr w' l] by (simp add: driver_env_def)
qed

end

interpretation pio_atomic: atomic_device kernel_env drive_media drive_ok
  unfolding kernel_env_def drive_media_def drive_ok_def by (rule pio_laws.driver_is_atomic)

section \<open>A healthy drive\<close>

lemma healthy_status: "faultless s \<Longrightarrow> inb pio_ports ATA_STATUS s = (0x48, tick s)"
  by (simp add: faultless_def inb_def pio_ports_def pio_inb_def shown_status_def upd_view_def tick_def Let_def)

lemma faultless_tick [simp]: "faultless (tick s) = faultless s" "\<not> dv_busy (d_view (io_dev (tick s)))" "dv_drq (d_view (io_dev (tick s)))"
  "dv_mid (d_view (io_dev (tick s))) = dv_mid (d_view (io_dev s))" "dv_high (d_view (io_dev (tick s))) = dv_high (d_view (io_dev s))"
  "dv_xfer (d_view (io_dev (tick s))) = dv_xfer (d_view (io_dev s))" "dv_media (d_view (io_dev (tick s))) = dv_media (d_view (io_dev s))"
  by (simp_all add: tick_def faultless_def)

lemma healthy_waits:
  assumes "faultless s"
  shows "ata_wait_not_busy pio_ports s = (True, tick s)"
    and "ata_wait_drq pio_ports s = (True, tick s)"
proof -
  have n: "ATA_TIMEOUT = Suc 9999999" by simp
  show "ata_wait_not_busy pio_ports s = (True, tick s)"
    unfolding ata_wait_not_busy_def n wait_not_busy.simps healthy_status[OF assms] by (simp add: ata_status_failed_def)
  show "ata_wait_drq pio_ports s = (True, tick s)"
    unfolding ata_wait_drq_def n wait_drq.simps healthy_status[OF assms] by (simp add: ata_status_failed_def)
qed

lemma healthy_delay: "faultless s \<Longrightarrow> delay_400ns pio_ports s = tick (tick (tick (tick s)))"
  by (simp add: delay_400ns_def healthy_status)

lemma faultless_outb: "faultless s \<Longrightarrow> faultless (outb pio_ports p v s)"
  by (simp add: faultless_def outb_def pio_ports_def pio_outb_def pio_command_def upd_view_def start_command_def flush_cache_def)

lemma faultless_command: "faultless s \<Longrightarrow> faultless (ata_command pio_ports lba c cmd s)"
  by (simp add: ata_command_def ata_select_lba_def faultless_outb healthy_delay Let_def)

lemma faultless_outsw: "faultless s \<Longrightarrow> faultless (outsw pio_ports p b s)"
  by (auto simp: faultless_def outsw_def pio_ports_def pio_outsw_def upd_view_def next_sector_def Let_def split: xfer.splits nat.splits bool.splits)

lemma faultless_insw:
  assumes "faultless s" and "\<forall>l. length (dv_media (d_view (io_dev s)) l) = 512" and "insw pio_ports p 256 s = (b, t)"
  shows "faultless t"
  using assms by (auto simp: faultless_def insw_def pio_ports_def pio_insw_def upd_view_def next_sector_def Let_def
    split: xfer.splits nat.splits bool.splits)

lemma insw_media: "insw pio_ports p n s = (b, t) \<Longrightarrow> dv_media (d_view (io_dev t)) = dv_media (d_view (io_dev s))"
  by (auto simp: insw_def pio_ports_def pio_insw_def upd_view_def next_sector_def Let_def split: xfer.splits nat.splits bool.splits)

lemma healthy_read_sectors:
  assumes "faultless s" and "\<forall>l. length (dv_media (d_view (io_dev s)) l) = 512" and "ata_read_sectors pio_ports i n buf s = (ok, buf', s')"
  shows "ok \<and> faultless s'"
  using assms
proof (induction n arbitrary: i buf s)
  case (Suc n)
  obtain b s2 where i: "insw pio_ports ATA_DATA 256 (tick s) = (b, s2)" by fastforce
  have "ata_read_sectors pio_ports (i + 1) n (blit buf (i * 512) b) s2 = (ok, buf', s')"
    using Suc.prems(3) by (simp add: healthy_waits[OF Suc.prems(1)] i)
  then show ?case using faultless_insw[OF _ _ i] insw_media[OF i] Suc.prems(1,2) by (intro Suc.IH) simp_all
qed simp

lemma healthy_write_sectors:
  assumes "faultless s" and "ata_write_sectors pio_ports i n tr buf s = (r, s')"
  shows "r = None \<and> faultless s'"
  using assms
proof (induction n arbitrary: i tr s)
  case (Suc n)
  let ?s2 = "outsw pio_ports ATA_DATA (take 512 (drop (i * 512) buf)) (tick s)"
  have "ata_write_sectors pio_ports (i + 1) n True buf ?s2 = (r, s')"
    using Suc.prems(2) by (simp add: healthy_waits[OF Suc.prems(1)])
  moreover have "faultless ?s2" using Suc.prems(1) by (simp add: faultless_outsw)
  ultimately show ?case using Suc.IH by blast
qed simp

lemma valid_range: "lba_range lba n \<Longrightarrow> ata_valid_request (of_nat lba) (of_nat n) (Some buf)"
  using lba_range_words[of lba n] by (simp add: valid_request_iff lba_range_def)

lemma healthy_ata_read:
  assumes "faultless s" "drive_ok s" and "ata_valid_request lba count (Some buf)" "unat lba < 2 ^ 28" "count \<noteq> 0"
    and "ata_read pio_ports lba count (Some buf) s = (ok, b, s')"
  shows "ok \<and> faultless s'"
proof -
  define s2 where "s2 = ata_command pio_ports lba count CMD_READ_PIO (tick s)"
  have h2: "faultless s2" using assms(1) by (simp add: s2_def faultless_command)
  have "dv_media (d_view (io_dev s2)) = dv_media (d_view (io_dev s))"
    using pio_laws.read_started[OF assms(4,5), of "tick s"] by (simp add: s2_def)
  then have m2: "\<forall>l. length (dv_media (d_view (io_dev s2)) l) = 512" using assms(2) by (simp add: drive_ok_def disk_ok_def disk_media_def)
  obtain ok3 b3 s3 where s3: "ata_read_sectors pio_ports 0 (unat count) buf s2 = (ok3, b3, s3)" by (metis prod_cases3)
  note h3 = healthy_read_sectors[OF h2 m2 s3]
  show ?thesis
    using assms(3,6) h3 by (auto simp: ata_read_def Let_def healthy_waits[OF assms(1)] s2_def[symmetric] s3 healthy_waits)
qed

lemma healthy_ata_write:
  assumes "faultless s" and "ata_valid_request lba count (Some buf)" and "ata_write pio_ports lba count (Some buf) s = (r, s')"
  shows "r = ATA_WRITE_COMPLETE \<and> faultless s'"
proof -
  define s2 where "s2 = ata_command pio_ports lba count CMD_WRITE_PIO (tick s)"
  have h2: "faultless s2" using assms(1) by (simp add: s2_def faultless_command)
  obtain e s3 where s3: "ata_write_sectors pio_ports 0 (unat count) False buf s2 = (e, s3)" by fastforce
  have h3: "e = None" "faultless s3" using healthy_write_sectors[OF h2 s3] by simp_all
  define s4 where "s4 = outb pio_ports ATA_COMMAND CMD_CACHE_FLUSH (tick s3)"
  have h4: "faultless s4" using h3 by (simp add: s4_def faultless_outb)
  show ?thesis
    using assms(2,3) h3 h4 by (auto simp: ata_write_def Let_def healthy_waits assms(1) s2_def[symmetric] s3 s4_def[symmetric])
qed

lemma outb_media: "p \<noteq> ATA_COMMAND \<or> v = CMD_IDENTIFY \<Longrightarrow> dv_media (d_view (io_dev (outb pio_ports p v s))) = dv_media (d_view (io_dev s))"
  by (auto simp: outb_def pio_ports_def pio_outb_def pio_command_def upd_view_def start_command_def)

lemma healthy_ata_init:
  assumes "faultless s" "drive_ok s" and "ata_init pio_ports s = (r, s')"
  shows "r = ATA_INIT_READY \<and> faultless s'"
proof -
  define s7 where "s7 = outb pio_ports ATA_COMMAND CMD_IDENTIFY (outb pio_ports ATA_LBA_HIGH 0 (outb pio_ports ATA_LBA_MID 0
    (outb pio_ports ATA_LBA_LOW 0 (outb pio_ports ATA_SECTOR_CNT 0 (outb pio_ports 0x80 0 (ata_select_drive pio_ports (tick s)))))))"
  have h7: "faultless s7"
    using assms(1) by (simp add: s7_def ata_select_drive_def faultless_outb healthy_delay)
  have r7: "dv_mid (d_view (io_dev s7)) = 0" "dv_high (d_view (io_dev s7)) = 0"
    by (simp_all add: s7_def outb_def pio_ports_def pio_outb_def pio_command_def upd_view_def start_command_def)
  have m7: "dv_media (d_view (io_dev s7)) = dv_media (d_view (io_dev s))"
    using assms(1) by (simp add: s7_def ata_select_drive_def faultless_outb healthy_delay outb_media)
  let ?s8 = "tick (tick s7)"
  have regs: "inb pio_ports ATA_LBA_MID ?s8 = (0, ?s8)" "inb pio_ports ATA_LBA_HIGH ?s8 = (0, ?s8)"
    using r7 by (simp_all add: inb_def pio_ports_def pio_inb_def)
  obtain b s9 where i: "insw pio_ports ATA_DATA 256 (tick ?s8) = (b, s9)" by fastforce
  have h9: "faultless s9"
    by (rule faultless_insw[OF _ _ i]) (use h7 m7 assms(2) in \<open>simp_all add: drive_ok_def disk_ok_def disk_media_def\<close>)
  have "ata_init pio_ports s = (ATA_INIT_READY, tick s9)"
    unfolding ata_init_def Let_def healthy_status[OF assms(1)] prod.case s7_def[symmetric]
    using h7 h9 by (simp add: healthy_status healthy_waits regs i)
  then show ?thesis using assms(3) h9 by auto
qed

interpretation pio_reliable: reliable_device kernel_env drive_media drive_ok drive_healthy
proof (unfold_locales, goal_cases)
  case (1 w)
  then show ?case by (simp add: drive_healthy_def)
next
  case (2 w r w')
  then show ?case using healthy_ata_init[of w r w'] pio.init_keeps[of w r w']
    by (simp add: kernel_env_def driver_env_def drive_healthy_def)
next
  case (3 w lba n buf ok buf' w')
  then show ?case
    using healthy_ata_read[of w "of_nat lba" "of_nat n" buf] lba_range_words[OF 3(2)] valid_range[OF 3(2)]
      pio.read_keeps[OF _ 3(2,3,4)] by (auto simp: kernel_env_def driver_env_def drive_healthy_def split: prod.splits)
next
  case (4 w lba n buf wr w')
  then show ?case
    using healthy_ata_write[of w "of_nat lba" "of_nat n" buf wr w'] lba_range_words[OF 4(2)] valid_range[OF 4(2)]
      pio.write_keeps[OF _ 4(2,3,4)] pio.sector_length[of w'] by (simp add: kernel_env_def driver_env_def drive_healthy_def)
next
  case (5 w msg)
  then show ?case by (simp add: kernel_env_def driver_env_def drive_healthy_def drive_ok_def disk_ok_def disk_media_def drive_media_def faultless_def)
qed

end
