(* ===== verification/Fs_Live.thy ===== *)
theory Fs_Live
  imports Fs_Reach Drive_Laws
begin

text \<open>
  Liveness of the filesystem on a healthy drive: syncs commit, loads find what was committed,
  blank media are formatted, and every operation that fits the volume succeeds.
\<close>

lemma sectors_nth:
  assumes "\<forall>l. length (m l) = 512" and "i < n"
  shows "m (lba + i) = take 512 (drop (i * 512) (sectors m lba n))"
  using assms
proof (induction n arbitrary: lba i)
  case (Suc n)
  show ?case
  proof (cases i)
    case 0
    then show ?thesis using Suc.prems(1) by (simp add: sectors_Suc)
  next
    case (Suc j)
    then show ?thesis using Suc.IH[of j "Suc lba"] Suc.prems by (simp add: sectors_Suc)
  qed
qed simp

context reliable_device
begin

section \<open>Reads and writes\<close>

lemma healthy_say: "healthy (world s) \<Longrightarrow> healthy (world (fs_say E msg s))"
  using healthy_log by (simp add: fs_say_def)

lemma healthy_say_if: "healthy (world s) \<Longrightarrow> healthy (world (say_if E b msg s))"
  using healthy_say by (simp add: say_if_def)

lemma live_init:
  assumes "healthy (world s)" and "disk_init E s = (r, s')"
  shows "r = ATA_INIT_READY \<and> healthy (world s')"
  using assms healthy_init by (auto simp: disk_init_def split: prod.splits)

lemma live_read:
  assumes "healthy (world s)" and "lba_range lba n" and "length buf = 512 * n" and "disk_read E lba n buf s = (ok, b, s')"
  shows "ok \<and> healthy (world s')"
proof -
  obtain w where "env_ata_read E lba n buf (world s) = (ok, b, w)" "s' = s\<lparr>world := w\<rparr>"
    using assms(4) by (auto simp: disk_read_def split: prod.splits)
  then show ?thesis using healthy_read[OF assms(1-3)] by simp
qed

lemma live_write:
  assumes "healthy (world s)" and "lba_range lba n" and "length buf = 512 * n" and "disk_write E lba n buf s = (r, s')"
  shows "r = ATA_WRITE_COMPLETE \<and> healthy (world s')"
proof -
  obtain w where "env_ata_write E lba n buf (world s) = (r, w)" "s' = s\<lparr>world := w\<rparr>"
    using assms(4) by (auto simp: disk_write_def split: prod.splits)
  then show ?thesis using healthy_write[OF assms(1-3)] by simp
qed

lemma live_reconcile_sectors:
  assumes "healthy (world s)" and "slot < 2" and "\<forall>i \<in> set is. i < FS_DISK_TABLE_SECTORS" and "wf_table (g_disk_table s)"
    and "\<forall>i \<in> set is. media (world s) (fs_slot_header_lba slot + 1 + i) = take 512 (drop (i * 512) (table_bytes (g_disk_table s)))"
    and "reconcile_sectors E (fs_slot_header_lba slot) is s = (r, s')"
  shows "r = FS_RECONCILE_MATCH \<and> healthy (world s')"
  using assms
proof (induction "is" arbitrary: s)
  case (Cons i "is")
  let ?l = "fs_slot_header_lba slot + 1 + i" and ?b = "table_bytes (g_disk_table s)"
  obtain ok obs s1 where rd: "disk_read E ?l 1 (replicate 512 0) s = (ok, obs, s1)" by (metis prod_cases3)
  have rng: "lba_range ?l 1" using Cons.prems(2,3) slot_ranges(4) by auto
  have l: "ok" "healthy (world s1)" using live_read[OF Cons.prems(1) rng _ rd] by simp_all
  have q: "quiet media dev_ok s s1" "obs = media (world s) ?l" "length obs = 512"
    using disk_read_spec[OF healthy_ok[OF Cons.prems(1)] rng _ rd] l(1) by auto
  note d = quietD[OF q(1)]
  have "obs = take 512 (drop (i * 512) ?b)" using q(2) Cons.prems(5) by simp
  moreover have "i < FS_DISK_TABLE_SECTORS" using Cons.prems(3) by simp
  then have "512 \<le> length (drop (i * 512) ?b)" unfolding length_drop length_table_bytes[OF Cons.prems(4)] by linarith
  ultimately have "fs_bytes_equal obs (drop (i * 512) ?b) 512" using fs_bytes_equal_take[OF q(3)] by blast
  then have "reconcile_sectors E (fs_slot_header_lba slot) is s1 = (r, s')"
    using Cons.prems(6) rd l(1) d(2) by simp
  then show ?case using Cons.IH[OF l(2) Cons.prems(2)] Cons.prems(3,4,5) d by simp
qed simp

lemma live_reconcile_table:
  assumes "healthy (world s)" and "slot < 2" and "wf_table (g_disk_table s)"
    and "slot_table (media (world s)) slot = table_bytes (g_disk_table s)"
    and "fs_reconcile_table E (fs_slot_header_lba slot) s = (r, s')"
  shows "r = FS_RECONCILE_MATCH \<and> healthy (world s')"
proof -
  have len: "\<forall>l. length (media (world s) l) = 512" using sector_length healthy_ok[OF assms(1)] by blast
  have "media (world s) (fs_slot_header_lba slot + 1 + i) = take 512 (drop (i * 512) (table_bytes (g_disk_table s)))"
    if "i < FS_DISK_TABLE_SECTORS" for i
    using sectors_nth[OF len that, of "fs_slot_header_lba slot + 1"] assms(4) by (simp add: slot_table_def)
  then show ?thesis
    using live_reconcile_sectors[OF assms(1,2) _ assms(3), of "[0..<FS_DISK_TABLE_SECTORS]" r s'] assms(5)
    by (simp add: fs_reconcile_table_def del: upt_rec_numeral)
qed

section \<open>Syncs commit\<close>

lemma live_sync_table:
  assumes "healthy (world s)" and "slot < 2" and "wf_table (g_disk_table s)"
    and "sync_table E verify (fs_slot_header_lba slot) s = (early, s')"
  shows "early = None \<and> healthy (world s')"
proof -
  let ?lba = "fs_slot_header_lba slot" and ?b = "table_bytes (g_disk_table s)"
  obtain r1 s1 where w: "disk_write E (?lba + 1) FS_DISK_TABLE_SECTORS ?b s = (r1, s1)" by fastforce
  have l: "r1 = ATA_WRITE_COMPLETE" "healthy (world s1)"
    using live_write[OF assms(1) slot_ranges(2)[OF assms(2)] length_table_bytes[OF assms(3)] w] by simp_all
  note wx = disk_write_spec[OF healthy_ok[OF assms(1)] slot_ranges(2)[OF assms(2)] length_table_bytes[OF assms(3)] w]
  have t: "g_disk_table s1 = g_disk_table s" using arg_cong[OF wx(1), of g_disk_table] by simp
  obtain r2 s2 where rc: "fs_reconcile_table E ?lba s1 = (r2, s2)" by fastforce
  have "slot_table (media (world s1)) slot = ?b" using wx(4)[OF l(1)] by (simp add: slot_table_def)
  then have l2: "r2 = FS_RECONCILE_MATCH" "healthy (world s2)"
    using live_reconcile_table[OF l(2) assms(2) _ _ rc] assms(3) t by simp_all
  show ?thesis using assms(4) l l2 by (auto simp: sync_table_def w[simplified] rc Let_def split: if_splits)
qed

lemma live_sync_header:
  assumes "healthy (world s)" and "slot < 2" and "wf_table (g_disk_table s)"
    and "slot_table (media (world s)) slot = table_bytes (g_disk_table s)"
    and "sync_header E verify slot (fs_slot_header_lba slot) gen s = (r, s')"
  shows "r = FS_SYNC_COMMITTED \<and> healthy (world s')"
proof -
  let ?lba = "fs_slot_header_lba slot" and ?h = "commit_header (g_disk_table s) gen"
  have lenh: "length (header_bytes ?h) = 512 * 1" by (simp add: commit_header_def Let_def)
  obtain r1 s1 where w: "disk_write E ?lba 1 (header_bytes ?h) s = (r1, s1)" by fastforce
  have l: "r1 = ATA_WRITE_COMPLETE" "healthy (world s1)"
    using live_write[OF assms(1) slot_ranges(1)[OF assms(2)] lenh w] by simp_all
  note wx = disk_write_spec[OF healthy_ok[OF assms(1)] slot_ranges(1)[OF assms(2)] lenh w]
  have t: "g_disk_table s1 = g_disk_table s" using arg_cong[OF wx(1), of g_disk_table] by simp
  have "slot_table (media (world s1)) slot = slot_table (media (world s)) slot"
    unfolding slot_table_def by (rule sectors_cong) (use wx(3) in auto)
  then have tab: "slot_table (media (world s1)) slot = table_bytes (g_disk_table s1)" using assms(4) t by simp
  obtain ok obs s2 where rd: "disk_read E ?lba 1 (replicate 512 0) s1 = (ok, obs, s2)" by (metis prod_cases3)
  have l2: "ok" "healthy (world s2)" using live_read[OF l(2) slot_ranges(1)[OF assms(2)] _ rd] by simp_all
  have q2: "quiet media dev_ok s1 s2" "obs = header_bytes ?h" "length obs = 512"
    using disk_read_spec[OF healthy_ok[OF l(2)] slot_ranges(1)[OF assms(2)] _ rd] l2 wx(4)[OF l(1)] by auto
  note d = quietD[OF q2(1)]
  obtain r3 s3 where rc: "fs_reconcile_table E ?lba s2 = (r3, s3)" by fastforce
  have l3: "r3 = FS_RECONCILE_MATCH" "healthy (world s3)"
    using live_reconcile_table[OF l2(2) assms(2) _ _ rc] assms(3) t tab d by simp_all
  have "fs_bytes_equal obs (header_bytes ?h) 512" using q2(2) by (simp add: fs_bytes_equal_iff)
  then have "fs_reconcile_slot E ?lba ?h s1 = (FS_RECONCILE_MATCH, s3)" using rd l2(1) rc l3(1) by (simp add: fs_reconcile_slot_def)
  then show ?thesis
    using assms(5) l l3(2) by (auto simp: sync_header_def w[simplified] Let_def fs_accept_commit_def split: if_splits)
qed

lemma live_sync:
  assumes h: "healthy (world s)" and inv: "files_inv (FILES s)" and fit: "records_used (FILES s) \<le> FS_MAX_FILES"
    and eq: "fs_sync_to_disk_verified E verify s = (r, s')"
  shows "r = FS_SYNC_COMMITTED \<and> healthy (world s')"
proof -
  let ?slot = "target_slot s" and ?t = "snd (serialize_table (FILES s))" and ?g = "g_active_generation s + 1"
  obtain r1 s1 where init: "disk_init E s = (r1, s1)" by fastforce
  note q1 = quiet_init[OF healthy_ok[OF h] init] and d1 = quietD[OF quiet_init[OF healthy_ok[OF h] init]]
  have l1: "r1 = ATA_INIT_READY" "healthy (world s1)" using live_init[OF h init] by simp_all
  have tgt: "(if g_active_slot s1 < FS_SLOT_COUNT then g_active_slot s1 XOR 1 else 0) = ?slot"
    by (simp add: target_slot_def d1)
  have ok: "fst (serialize_table (FILES s1))" using serialize_table_ok(1)[of "FILES s"] inv fit d1(1) by (simp add: files_inv_def)
  define s2 where "s2 = s1\<lparr>g_disk_table := ?t\<rparr>"
  have ser: "fs_serialize s1 = (True, s2)" using ok d1(1) by (simp add: fs_serialize_def s2_def case_prod_beta)
  have wf2: "wf_table (g_disk_table s2)" "healthy (world s2)" using wf_serialize_table l1 by (simp_all add: s2_def)
  obtain e s3 where st: "sync_table E verify (fs_slot_header_lba ?slot) s2 = (e, s3)" by fastforce
  have l3: "e = None" "healthy (world s3)" using live_sync_table[OF wf2(2) target_slot_less wf2(1) st] by simp_all
  note sp = sync_table_spec[OF healthy_ok[OF wf2(2)] target_slot_less wf2(1) st]
  have t3: "g_disk_table s3 = g_disk_table s2" "slot_table (media (world s3)) ?slot = table_bytes (g_disk_table s2)"
    using touchesD(2)[of media dev_ok "slot_sectors ?slot" s2 s3] sp l3(1) by simp_all
  have "sync_header E verify ?slot (fs_slot_header_lba ?slot) ?g s3 = (r, s')"
    using eq by (simp add: fs_sync_to_disk_verified_def init l1(1) tgt ser st l3(1) d1(5) Let_def)
  then show ?thesis using live_sync_header[OF l3(2) target_slot_less] wf2 t3 by simp
qed

text \<open>A commit of a view that fits is durable.\<close>

lemma live_commit:
  assumes h: "healthy (world s)" and inv: "files_inv (FILES s)" and fit: "records_used (FILES s) \<le> FS_MAX_FILES"
    and eq: "fs_commit_changes E s = (ok, s')"
  shows "ok \<and> healthy (world s') \<and> g_backend_status s' = g_backend_status s"
proof -
  obtain ok1 s1 where ser: "fs_serialize s = (ok1, s1)" by fastforce
  have s1: "ok1" "s1 = s\<lparr>g_disk_table := snd (serialize_table (FILES s))\<rparr>"
    using ser serialize_table_ok(1)[of "FILES s"] inv fit by (auto simp: fs_serialize_def files_inv_def split: prod.splits)
  obtain r s2 where sync: "fs_sync_to_disk_verified E False s1 = (r, s2)" by fastforce
  have l: "r = FS_SYNC_COMMITTED" "healthy (world s2)" using live_sync[OF _ _ _ sync] s1 h inv fit by simp_all
  have dev1: "dev_ok (world s1)" using healthy_ok[OF h] s1(2) by simp
  note f = sync_frame(3)[OF dev1 sync]
  have s1': "healthy (world s1)" "g_backend_status s1 = g_backend_status s" using s1(2) h by simp_all
  have "(ok, s') = (if g_backend_status s1 \<noteq> FS_BACKEND_PERSISTENT then (True, s1) else (True, s2))"
    using eq[symmetric] s1(1) l(1) by (simp add: fs_commit_changes_def fs_sync_to_disk_def ser sync)
  then show ?thesis using s1' l f by (auto split: if_splits)
qed

section \<open>Loads find what was committed\<close>

lemma live_scan:
  assumes "healthy (world s)" and "slot < 2" and "scan_header E slot s = ((v, h, b, io), s')"
  shows "\<not> io \<and> healthy (world s')"
proof -
  obtain ok buf u where rd: "disk_read E (fs_slot_header_lba slot) 1 (replicate 512 0) s = (ok, buf, u)" by (metis prod_cases3)
  show ?thesis
    using live_read[OF assms(1) slot_ranges(1)[OF assms(2)] _ rd] rd assms(3) by (auto simp: scan_header_def Let_def)
qed

lemma live_compare_sectors:
  assumes "healthy (world s)" and "\<forall>i \<in> set is. lba_range (a + i) 1 \<and> lba_range (b + i) 1"
    and "compare_sectors E a b is s = (r, s')"
  shows "r \<noteq> FS_COMPARE_IO_ERROR \<and> healthy (world s')"
  using assms
proof (induction "is" arbitrary: s)
  case (Cons i "is")
  obtain ok1 b1 s1 where r1: "disk_read E (a + i) 1 (replicate 512 0) s = (ok1, b1, s1)" by (metis prod_cases3)
  have l1: "ok1" "healthy (world s1)" using live_read[OF Cons.prems(1) _ _ r1] Cons.prems(2) by simp_all
  obtain ok2 b2 s2 where r2: "disk_read E (b + i) 1 (replicate 512 0) s1 = (ok2, b2, s2)" by (metis prod_cases3)
  have l2: "ok2" "healthy (world s2)" using live_read[OF l1(2) _ _ r2] Cons.prems(2) by simp_all
  show ?case using Cons.IH[OF l2(2)] Cons.prems(2,3) l1 l2 by (auto simp: r1[simplified] r2[simplified] split: if_splits)
qed auto

lemma live_ambiguity:
  assumes "healthy (world s)" and "slot_order_ambiguity E v0 h0 v1 h1 s = ((legacy, protected, io), s')"
  shows "\<not> io \<and> healthy (world s')"
proof -
  obtain c s1 where cmp: "fs_compare_slot_tables E 0 1 s = (c, s1)" by fastforce
  have "c \<noteq> FS_COMPARE_IO_ERROR" "healthy (world s1)"
    using live_compare_sectors[OF assms(1) _ cmp[unfolded fs_compare_slot_tables_def]] by (auto simp: lba_range_def)
  then show ?thesis
    using assms healthy_say by (auto simp: slot_order_ambiguity_def Let_def cmp split: if_splits)
qed

lemma live_read_table:
  assumes "healthy (world s)" and "slot < 2" and "wf_table (g_disk_table s)" and "read_table E (fs_slot_header_lba slot + 1) s = (ok, s')"
  shows "ok \<and> healthy (world s')"
proof -
  obtain ok' buf u where rd: "disk_read E (fs_slot_header_lba slot + 1) FS_DISK_TABLE_SECTORS (table_bytes (g_disk_table s)) s = (ok', buf, u)"
    by (metis prod_cases3)
  show ?thesis
    using live_read[OF assms(1) slot_ranges(2)[OF assms(2)] length_table_bytes[OF assms(3)] rd] assms(4)
    by (auto simp: read_table_def rd[simplified])
qed

lemma live_load_slot:
  assumes "healthy (world s)" and "slot < 2" and "wf_table (g_disk_table s)" and "fs_load_slot E slot h s = (r, s')"
  shows "r \<noteq> FS_SLOT_IO_ERROR \<and> healthy (world s')"
proof -
  obtain ok s1 where rd: "read_table E (fs_slot_header_lba slot + 1) s = (ok, s1)" by fastforce
  have l: "ok" "healthy (world s1)" using live_read_table[OF assms(1-3) rd] by simp_all
  have "healthy (world (snd (fs_deserialize_current s1)))" "healthy (world (snd (fs_deserialize_legacy s1)))"
    using l(2) by (simp_all add: fs_deserialize_current_def fs_deserialize_legacy_def case_prod_beta)
  then show ?thesis
    using assms(4) l healthy_say by (auto simp: fs_load_slot_def rd[simplified] Let_def split: if_splits prod.splits)
qed

lemma live_load_slots_first:
  assumes h: "healthy (world s)" and w: "first < 2" "wf_table (g_disk_table s)" "files_ok (FILES s)"
    and v: "v1" "h1 = slot_header (media (world s)) first" "fs_header_is_valid h1" "slot_listing (media (world s)) first \<noteq> None"
    and eq: "load_slots E first v1 h1 second v2 h2 False False legacy False s = (r, s')"
  shows "r = FS_DISK_LOADED \<and> healthy (world s')"
proof -
  obtain r1 s1 where l: "fs_load_slot E first h1 s = (r1, s1)" by fastforce
  have h1: "r1 \<noteq> FS_SLOT_IO_ERROR" "healthy (world s1)" using live_load_slot[OF h w(1,2) l] by simp_all
  have "r1 \<noteq> FS_SLOT_CORRUPT" using load_slot_spec[OF healthy_ok[OF h] w v(2,3) l] v(4) by blast
  then have "r1 = FS_SLOT_LOADED" using h1(1) by (cases r1) simp_all
  then show ?thesis using eq v(1) l h1(2) by (auto simp: load_slots_def fs_loaded_result_def)
qed

lemma live_scan_blank:
  assumes "healthy (world s)" and "slot < 2" and "wf_table (g_disk_table s)" and "fs_bytes_are_blank (slot_table (media (world s)) slot)"
    and "scan_blank_table E slot (False, False) s = ((io, nb), s')"
  shows "\<not> io \<and> \<not> nb \<and> healthy (world s') \<and> wf_table (g_disk_table s') \<and> media (world s') = media (world s)"
proof -
  obtain ok s1 where rd: "read_table E (fs_slot_header_lba slot + 1) s = (ok, s1)" by fastforce
  have l: "ok" "healthy (world s1)" using live_read_table[OF assms(1-3) rd] by simp_all
  note sp = read_table_spec[OF healthy_ok[OF assms(1)] assms(2,3) rd]
  have "table_bytes (g_disk_table s1) = slot_table (media (world s)) slot" "wf_table (g_disk_table s1)" using sp l(1) by blast+
  moreover have "media (world s1) = media (world s)" using sp reworksD(12)[of media dev_ok "{}" s s1] by auto
  ultimately show ?thesis using assms(4,5) l by (auto simp: scan_blank_table_def rd[simplified])
qed

lemma live_load_slots_blank:
  assumes h: "healthy (world s)" and w: "wf_table (g_disk_table s)"
    and b: "fs_bytes_are_blank (slot_table (media (world s)) 0)" "fs_bytes_are_blank (slot_table (media (world s)) 1)"
    and eq: "load_slots E first False h1 second False h2 False False legacy False s = (r, s')"
  shows "r = FS_DISK_BLANK \<and> healthy (world s')"
proof -
  obtain io1 nb1 s1 where s1: "scan_blank_table E 0 (False, False) s = ((io1, nb1), s1)" by (metis prod.collapse)
  have x1: "\<not> io1" "\<not> nb1" "healthy (world s1)" "wf_table (g_disk_table s1)" "media (world s1) = media (world s)"
    using live_scan_blank[OF h _ w b(1) s1] by simp_all
  obtain io2 nb2 s2 where s2: "scan_blank_table E 1 (False, False) s1 = ((io2, nb2), s2)" by (metis prod.collapse)
  have x2: "\<not> io2" "\<not> nb2" "healthy (world s2)"
    using live_scan_blank[OF x1(3) _ x1(4) _ s2] x1(5) b(2) by simp_all
  show ?thesis using eq s1 s2 x1 x2 by (auto simp: load_slots_def no_slot_loaded_def Let_def)
qed

lemma live_load:
  assumes h: "healthy (world s)" and sh: "fs_shape dev_ok s" and eq: "fs_load_from_disk E s = (r, s')"
  shows "trusted_order (media (world s)) slot \<Longrightarrow> slot_listing (media (world s)) slot \<noteq> None
      \<Longrightarrow> r = FS_DISK_LOADED \<and> healthy (world s')"
    and "\<forall>i \<in> {0, 1}. fs_header_is_blank (slot_header (media (world s)) i) \<and> fs_bytes_are_blank (slot_table (media (world s)) i)
      \<Longrightarrow> r = FS_DISK_BLANK \<and> healthy (world s')"
proof -
  let ?m = "media (world s)"
  note d = fs_shapeD[OF sh]
  define s0 where "s0 = s\<lparr>g_legacy_upgrade_status := FS_LEGACY_UPGRADE_UNAVAILABLE\<rparr>"
  have h0: "healthy (world s0)" using h by (simp add: s0_def)
  obtain ri s1 where i: "disk_init E s0 = (ri, s1)" by fastforce
  have l1: "ri = ATA_INIT_READY" "healthy (world s1)" using live_init[OF h0 i] by simp_all
  note q1 = quietD[OF quiet_init[OF healthy_ok[OF h0] i]]
  define s2 where "s2 = s1\<lparr>g_active_slot := FS_SLOT_COUNT, g_active_generation := 0, g_loaded_version := 0\<rparr>"
  have l2: "healthy (world s2)" "media (world s2) = ?m" using l1 q1 by (simp_all add: s2_def s0_def)
  obtain v0 h0 b0 i0 s3 where h3: "scan_header E 0 s2 = ((v0, h0, b0, i0), s3)" by (metis prod.collapse)
  have l3: "\<not> i0" "healthy (world s3)" using live_scan[OF l2(1) _ h3] by simp_all
  have x3: "quiet media dev_ok s2 s3" "h0 = slot_header ?m 0" "v0 = fs_header_is_valid (slot_header ?m 0)" "b0 = header_damaged (slot_header ?m 0)"
    using scan_header_spec[OF healthy_ok[OF l2(1)] _ h3] l2(2) l3(1) by auto
  obtain v1 h1 b1 i1 s4 where h4: "scan_header E 1 s3 = ((v1, h1, b1, i1), s4)" by (metis prod.collapse)
  have l4: "\<not> i1" "healthy (world s4)" using live_scan[OF l3(2) _ h4] by simp_all
  have m3: "media (world s3) = ?m" using quietD(13)[OF x3(1)] l2(2) by simp
  have x4: "quiet media dev_ok s3 s4" "h1 = slot_header ?m 1" "v1 = fs_header_is_valid (slot_header ?m 1)" "b1 = header_damaged (slot_header ?m 1)"
    using scan_header_spec[OF healthy_ok[OF l3(2)] _ h4] m3 l4(1) by auto
  obtain leg prot i2 s5 where a5: "slot_order_ambiguity E v0 h0 v1 h1 s4 = ((leg, prot, i2), s5)" by (metis prod.collapse)
  have l5: "\<not> i2" "healthy (world s5)" using live_ambiguity[OF l4(2) a5] by simp_all
  have m4: "media (world s4) = ?m" using quietD(13)[OF x4(1)] m3 by simp
  note x5 = ambiguity_spec[OF healthy_ok[OF l4(2)] a5]
  have amb: "(leg \<or> prot) = order_ambiguous ?m" using x5(3)[OF l5(1)] x3 x4 m4 by simp
  note q = quietD[OF quiet_trans[OF x3(1) quiet_trans[OF x4(1) x5(1)]]]
  have st5: "FILES s5 = FILES s" "media (world s5) = ?m" "g_disk_table s5 = g_disk_table s"
    using q q1 by (simp_all add: s2_def s0_def)
  have wf5: "wf_table (g_disk_table s5)" "files_ok (FILES s5)" using d st5 by simp_all
  have unfold: "(r, s') = (if second_slot_first v0 h0 v1 h1
      then load_slots E 1 v1 h1 0 v0 h0 False (b0 \<or> b1) leg (leg \<or> prot) s5
      else load_slots E 0 v0 h0 1 v1 h1 False (b0 \<or> b1) leg (leg \<or> prot) s5)"
    using eq[symmetric] l1(1) l3(1) l4(1) l5(1)
    by (simp add: fs_load_from_disk_def Let_def s0_def[symmetric] i s2_def[symmetric] h3 h4 a5)
  note first = live_load_slots_first[OF l5(2) _ wf5, unfolded st5(2)]
  show "r = FS_DISK_LOADED \<and> healthy (world s')" if t: "trusted_order ?m slot" and L: "slot_listing ?m slot \<noteq> None"
  proof -
    have v: "fs_header_is_valid (slot_header ?m slot)" using L by (auto simp: slot_listing_def Let_def split: prod.splits if_splits)
    have c: "\<not> (b0 \<or> b1)" "\<not> (leg \<or> prot)" "slot = (if second_slot_first v0 h0 v1 h1 then 1 else 0)"
      using t amb x3 x4 by (auto simp: trusted_order_def preferred_slot_def)
    show ?thesis
    proof (cases "second_slot_first v0 h0 v1 h1")
      case True
      have "load_slots E 1 v1 h1 0 v0 h0 False False leg False s5 = (r, s')" using unfold c True by simp
      from first[OF _ _ _ _ _ this] show ?thesis using c(3) True x4 v L by simp
    next
      case False
      have "load_slots E 0 v0 h0 1 v1 h1 False False leg False s5 = (r, s')" using unfold c False by simp
      from first[OF _ _ _ _ _ this] show ?thesis using c(3) False x3 v L by simp
    qed
  qed
  show "r = FS_DISK_BLANK \<and> healthy (world s')"
    if b: "\<forall>i \<in> {0, 1}. fs_header_is_blank (slot_header ?m i) \<and> fs_bytes_are_blank (slot_table ?m i)"
  proof -
    have "\<not> v0" "\<not> v1" "\<not> b0" "\<not> b1" using b x3 x4 blank_header_invalid by (auto simp: header_damaged_def)
    moreover have "\<not> leg" "\<not> prot" using amb calculation x3 x4 by (auto simp: order_ambiguous_def both_legacy_def both_protected_def)
    ultimately have "load_slots E 0 False h0 1 False h1 False False False False s5 = (r, s')
      \<or> load_slots E 1 False h1 0 False h0 False False False False s5 = (r, s')"
      using unfold by (auto split: if_splits)
    then show ?thesis using live_load_slots_blank[OF l5(2) wf5(1)] b st5(2) by auto
  qed
qed

end

end
