(* ===== verification/Fs_Capacity.thy ===== *)
theory Fs_Capacity
  imports Fs_Live
begin

text \<open>
  How much fits: the disk records a view takes, counted on the view itself, and the operations
  on a healthy drive, which succeed exactly when the new view fits the 32 records of a table.
\<close>

section \<open>Definitions\<close>

definition view_records :: "(bytes \<rightharpoonup> bytes) \<Rightarrow> nat" where
  "view_records v = (\<Sum>n \<in> dom v. fs_disk_records_needed (length (the (v n))))"

text \<open>The names the public write, append and touch accept.\<close>

definition user_name :: "'w fs_state \<Rightarrow> bytes \<Rightarrow> bool" where
  "user_name s n \<longleftrightarrow> fs_is_valid_name (Some n) \<and> \<not> fs_name_is_system_log (Some n) \<and> \<not> fs_name_is_system_managed (Some n)
     \<and> (fs_name_is_self_test_file (Some n) \<longrightarrow> g_self_test_active s)"

abbreviation SELF_TEST :: bytes where "SELF_TEST \<equiv> lit ''__fs_self_test__''"
abbreviation SELF_RENAMED :: bytes where "SELF_RENAMED \<equiv> lit ''__fs_self_renamed__''"

text \<open>The self-test is running on a healthy persistent volume that holds \<open>v\<close>.\<close>

definition testing ::
  "('w \<Rightarrow> nat \<Rightarrow> bytes) \<Rightarrow> ('w \<Rightarrow> bool) \<Rightarrow> ('w \<Rightarrow> bool) \<Rightarrow> (bytes \<rightharpoonup> bytes) \<Rightarrow> 'w fs_state \<Rightarrow> bool" where
  "testing media dev_ok healthy v s \<longleftrightarrow> fs_ok media dev_ok s \<and> healthy (world s) \<and> g_backend_status s = FS_BACKEND_PERSISTENT
     \<and> g_self_test_active s \<and> fs_view (FILES s) = v"

section \<open>Counting records\<close>

lemma records_view:
  assumes "files_inv files"
  shows "records_used files = view_records (fs_view files)"
proof -
  let ?L = "fs_listing files" and ?g = "\<lambda>c. fs_disk_records_needed (length c)"
  have d: "distinct (map fst ?L)" using assms by (simp add: files_inv_def)
  have dl: "distinct ?L" using d by (simp add: distinct_map)
  have "records_used files = (\<Sum>e \<in> set ?L. ?g (snd e))"
    using assms sum_list_distinct_conv_sum_set[OF dl] by (simp add: records_of_listing files_inv_def)
  also have "\<dots> = (\<Sum>e \<in> set ?L. ?g (the (map_of ?L (fst e))))"
    by (rule sum.cong) (use d in \<open>auto simp: map_of_is_SomeI\<close>)
  also have "\<dots> = (\<Sum>n \<in> fst ` set ?L. ?g (the (map_of ?L n)))"
    using d by (subst sum.reindex) (simp_all add: distinct_map)
  finally show ?thesis by (simp add: view_records_def fs_view_def dom_map_of_conv_image_fst)
qed

lemma records_needed_pos: "1 \<le> fs_disk_records_needed n"
  by (auto simp: fs_disk_records_needed_def div_greater_zero_iff Suc_le_eq)

lemma view_records_card: "finite (dom v) \<Longrightarrow> card (dom v) \<le> view_records v"
  using sum_mono[of "dom v" "\<lambda>_. 1" "\<lambda>n. fs_disk_records_needed (length (the (v n)))"] records_needed_pos
  by (simp add: view_records_def)

lemma view_records_upd:
  assumes "finite (dom v)"
  shows "view_records (v(n \<mapsto> c)) = view_records (v(n := None)) + fs_disk_records_needed (length c)"
proof -
  have "view_records (v(n \<mapsto> c)) = fs_disk_records_needed (length c) + (\<Sum>x \<in> dom v - {n}. fs_disk_records_needed (length (the ((v(n \<mapsto> c)) x))))"
    using assms by (simp add: view_records_def sum.insert_remove)
  moreover have "(\<Sum>x \<in> dom v - {n}. fs_disk_records_needed (length (the ((v(n \<mapsto> c)) x)))) = view_records (v(n := None))"
    unfolding view_records_def by (rule sum.cong) auto
  ultimately show ?thesis by (simp only: add.commute)
qed

lemma finite_view [simp]: "finite (dom (fs_view files))"
  by (simp add: fs_view_def finite_dom_map_of)

lemma card_view:
  assumes "files_inv files" and "\<forall>f \<in> set files. f_in_use f"
  shows "card (dom (fs_view files)) = FS_MAX_FILES"
proof -
  have "card (dom (fs_view files)) = length (map fst (fs_listing files))"
    using assms(1) distinct_card[of "map fst (fs_listing files)"] by (simp add: fs_view_def dom_map_of_conv_image_fst files_inv_def)
  also have "\<dots> = length files" using assms(2) by (simp add: fs_listing_def filter_id_conv)
  finally show ?thesis using assms(1) by (simp add: files_inv_def)
qed

text \<open>A view with room for one more file has a free slot.\<close>

lemma free_slot:
  assumes inv: "files_inv (FILES s)" and n: "fs_view (FILES s) n = None"
    and fit: "view_records ((fs_view (FILES s))(n \<mapsto> c)) \<le> FS_MAX_FILES"
  shows "fs_allocate_slot s \<noteq> None"
proof
  assume "fs_allocate_slot s = None"
  then have "\<forall>f \<in> set (FILES s). f_in_use f" by (simp add: fs_allocate_slot_def find_idx_None)
  then have "card (dom (fs_view (FILES s))) = FS_MAX_FILES" by (rule card_view[OF inv])
  moreover have "(fs_view (FILES s))(n := None) = fs_view (FILES s)" using n by auto
  ultimately show False
    using fit view_records_card[OF finite_view, of "FILES s"] records_needed_pos[of "length c"]
    by (simp add: view_records_upd)
qed

section \<open>Operations on a healthy drive\<close>

lemma open_for_write_fits:
  assumes ok: "fs_ok media dev_ok s" and n: "terminated n"
    and fit: "view_records ((fs_view (FILES s))(cstr n \<mapsto> c)) \<le> FS_MAX_FILES"
  shows "open_for_write n s \<noteq> None"
proof (cases "fs_find_mutable (Some n) s")
  case None
  have inv: "files_inv (FILES s)" using ok by (simp add: fs_ok_def)
  have "fs_allocate_slot s \<noteq> None" using free_slot[OF inv find_mutable_None(1)[OF inv n None] fit] .
  then show ?thesis using None by (auto simp: open_for_write_def)
qed (simp add: open_for_write_def)

lemma not_found_view:
  assumes "fs_ok media dev_ok s" and "terminated n"
  shows "fs_find_mutable (Some n) s = None \<longleftrightarrow> fs_view (FILES s) (cstr n) = None"
proof -
  have inv: "files_inv (FILES s)" using assms(1) by (simp add: fs_ok_def)
  show ?thesis using find_mutable_None(1)[OF inv assms(2)] find_mutable_Some(4)[OF inv assms(2)] by fastforce
qed

lemma artifact_of_view:
  assumes ok: "fs_ok media dev_ok s" and n: "terminated n" and t: "fs_name_is_self_test_file (Some n)"
    and v: "fs_view (FILES s) (cstr n) = Some FS_SELF_TEST_PAYLOAD"
  shows "fs_file_is_self_test_artifact (file_opt (fs_find_mutable (Some n) s) s)"
proof -
  have inv: "files_inv (FILES s)" using ok by (simp add: fs_ok_def)
  obtain i where i: "fs_find_mutable (Some n) s = Some i" using v not_found_view[OF ok n] by fastforce
  note f = find_mutable_Some[OF inv n i]
  let ?f = "FILES s ! i"
  have c: "f_content ?f = FS_SELF_TEST_PAYLOAD" using v f(4) by simp
  have "length (f_content ?f) = f_size ?f" using f(2,5) by (simp add: wf_file_def)
  then have sz: "f_size ?f = length FS_SELF_TEST_PAYLOAD" using c by simp
  have "f_data ?f ! j = FS_SELF_TEST_PAYLOAD ! j" if "j < length FS_SELF_TEST_PAYLOAD" for j
    using that sz arg_cong[OF c, of "\<lambda>x. x ! j"] by simp
  moreover have "fs_name_is_self_test_file (Some (f_name ?f))"
    using t f(2,3,5) n by (auto simp: fs_name_is_self_test_file_def kstrcmp_eq_0 wf_file_def terminated_lit)
  ultimately show ?thesis
    using f(2) sz by (auto simp: fs_file_is_self_test_artifact_def file_opt_def i list_all_iff)
qed

lemma testing_found:
  assumes "testing media dev_ok healthy v s" 
  shows "v (cstr SELF_TEST) = Some FS_SELF_TEST_PAYLOAD \<Longrightarrow> fs_file_is_self_test_artifact (file_opt (fs_find_mutable (Some SELF_TEST) s) s)"
    and "v (cstr SELF_RENAMED) = Some FS_SELF_TEST_PAYLOAD \<Longrightarrow> fs_file_is_self_test_artifact (file_opt (fs_find_mutable (Some SELF_RENAMED) s) s)"
  using assms artifact_of_view[OF _ terminated_lit, of media dev_ok s]
  by (auto simp: testing_def fs_name_is_self_test_file_def kstrcmp_eq_0 terminated_lit)

lemma testing_absent:
  assumes "testing media dev_ok healthy v s"
  shows "fs_find_mutable (Some SELF_TEST) s = None \<longleftrightarrow> v (cstr SELF_TEST) = None"
    and "fs_find_mutable (Some SELF_RENAMED) s = None \<longleftrightarrow> v (cstr SELF_RENAMED) = None"
  using assms not_found_view[OF _ terminated_lit, of media dev_ok s] by (auto simp: testing_def)

context reliable_device
begin

lemma live_commit_or_restore:
  assumes h: "healthy (world s)" and inv: "files_inv (FILES s)" and eq: "commit_or_restore E i existed s = (r, s')"
    and act: "g_backend_status s = FS_BACKEND_PERSISTENT \<longrightarrow> active_ok (media (world s)) s \<and> g_active_slot s < FS_SLOT_COUNT"
  shows "r \<longleftrightarrow> records_used (FILES s) \<le> FS_MAX_FILES"
    and "r \<Longrightarrow> healthy (world s') \<and> g_backend_status s' = g_backend_status s"
proof -
  obtain s2 where c: "fs_commit_changes E s = (r, s2)" and s': "s' = (if r then s2 else restore_file i existed s2)"
    using eq by (auto simp: commit_or_restore_def split: prod.splits if_splits)
  note l = live_commit[OF h inv _ c]
  show r: "r \<longleftrightarrow> records_used (FILES s) \<le> FS_MAX_FILES"
    using l commit_spec(2)[OF healthy_ok[OF h] inv act c] by blast
  show "r \<Longrightarrow> healthy (world s') \<and> g_backend_status s' = g_backend_status s" using l r s' by simp
qed

lemma persistent_active:
  assumes "fs_ok media dev_ok s" and "t = s\<lparr>FILES := fs, g_mutation_backup := b\<rparr>"
  shows "g_backend_status t = FS_BACKEND_PERSISTENT \<longrightarrow> active_ok (media (world t)) t \<and> g_active_slot t < FS_SLOT_COUNT"
proof -
  have "active_ok (media (world t)) t = active_ok (media (world s)) s" using assms(2) by (simp add: active_ok_def)
  then show ?thesis using assms committed_active[of "media (world s)" s] by (auto simp: fs_ok_def committed_def)
qed

lemma live_write_bytes:
  assumes ok: "fs_ok media dev_ok s" and h: "healthy (world s)" and n: "terminated n" "user_name s n"
    and c: "len \<le> length c" "len < FS_MAX_FILE_SIZE" and eq: "fs_write_bytes E (Some n) (Some c) len s = (r, s')"
  shows "r \<longleftrightarrow> view_records ((fs_view (FILES s))(cstr n \<mapsto> take len c)) \<le> FS_MAX_FILES"
    and "r \<Longrightarrow> healthy (world s') \<and> g_backend_status s' = g_backend_status s"
proof -
  let ?fit = "view_records ((fs_view (FILES s))(cstr n \<mapsto> take len c)) \<le> FS_MAX_FILES"
  have v: "valid_name (cstr n)" using n valid_nameD(1) by (simp add: user_name_def)
  have both: "(r \<longleftrightarrow> ?fit) \<and> (r \<longrightarrow> healthy (world s') \<and> g_backend_status s' = g_backend_status s)"
  proof (cases "open_for_write n s")
    case None
    then have "\<not> r" using eq by (simp add: fs_write_bytes_def fs_write_bytes_internal_def split: if_splits)
    then show ?thesis using None open_for_write_fits[OF ok n(1)] by blast
  next
    case (Some p)
    obtain i ex s1 where p: "p = (i, ex, s1)" by (metis prod_cases3)
    have co: "commit_or_restore E i ex (upd_file i (set_contents (Some c) len) s1) = (r, s')"
      using eq n(2) c Some p by (auto simp: fs_write_bytes_def fs_write_bytes_internal_def user_name_def split: if_splits)
    have set: "wf_file (set_contents (Some c) len g) \<and> f_in_use (set_contents (Some c) len g) \<and> f_name (set_contents (Some c) len g) = f_name g
        \<and> f_content (set_contents (Some c) len g) = take len c" if "wf_file g" "f_in_use g" for g
      using set_contents_props[OF that(1) c(2), of c "Some c"] c(1) that(2) by simp
    obtain k b where k: "upd_file i (set_contents (Some c) len) s1 = s\<lparr>FILES := (FILES s)[i := k], g_mutation_backup := b\<rparr>"
      "files_inv ((FILES s)[i := k])" "fs_view ((FILES s)[i := k]) = (fs_view (FILES s))(cstr n \<mapsto> take len c)"
      by (rule replace_state[where h = "set_contents (Some c) len", OF ok n(1) v Some[unfolded p] set])
    note l = live_commit_or_restore[OF _ _ co persistent_active[OF ok k(1)]]
    show ?thesis using l h k records_view[OF k(2)] by simp
  qed
  then show "r \<longleftrightarrow> ?fit" "r \<Longrightarrow> healthy (world s') \<and> g_backend_status s' = g_backend_status s" by blast+
qed

lemma live_rename:
  assumes ok: "fs_ok media dev_ok s" and h: "healthy (world s)" and n: "terminated old" "terminated new"
    and u: "user_name s old" "user_name s new" and ex: "fs_view (FILES s) (cstr old) \<noteq> None" "fs_view (FILES s) (cstr new) = None"
    and eq: "fs_rename E (Some old) (Some new) s = (r, s')"
  shows "r \<and> healthy (world s') \<and> g_backend_status s' = g_backend_status s"
proof -
  have inv: "files_inv (FILES s)" using ok by (simp add: fs_ok_def)
  obtain i where i: "fs_find_mutable (Some old) s = Some i" using ex(1) find_mutable_None(1)[OF inv n(1)] by fastforce
  have nf: "fs_find_mutable (Some new) s = None" using ex(2) find_mutable_Some(4)[OF inv n(2)] by fastforce
  have ne: "kstrcmp old new \<noteq> 0" using ex n by (auto simp: kstrcmp_eq_0)
  note f = find_mutable_Some[OF inv n(1) i]
  let ?s1 = "upd_file i (\<lambda>f. fs_copy_name f new) s"
  obtain ok2 s2 where c: "fs_commit_changes E ?s1 = (ok2, s2)" by fastforce
  have ren: "files_inv (FILES ?s1)" "records_used (FILES ?s1) = records_used (FILES s)"
    using rename_slot[OF inv f(1,2) n(2) _ nf] valid_nameD(1)[OF _ n(2)] u(2) renamedD(2)[of "FILES s" "FILES ?s1"] inv
    by (simp_all add: upd_file_def user_name_def renamed_def)
  have "ok2" "healthy (world s2)" "g_backend_status s2 = g_backend_status s"
    using live_commit[OF _ ren(1) _ c] h ren(2) ok by (simp_all add: upd_file_def fs_ok_def)
  moreover have "(r, s') = (if \<not> ok2 then (False, upd_file i (\<lambda>f. fs_copy_name f (saved_name (FILES s ! i))) s2) else (True, s2))"
    unfolding eq[symmetric] fs_rename_def fs_rename_internal_def i option.case Let_def option.sel c prod.case
    using u nf ne by (auto simp: user_name_def)
  ultimately show ?thesis by simp
qed

lemma live_remove:
  assumes ok: "fs_ok media dev_ok s" and h: "healthy (world s)" and n: "terminated n" and u: "user_name s n"
    and ex: "fs_view (FILES s) (cstr n) \<noteq> None" and eq: "fs_remove E (Some n) s = (r, s')"
  shows "r \<and> healthy (world s') \<and> g_backend_status s' = g_backend_status s"
proof -
  have inv: "files_inv (FILES s)" and b: "wf_file (g_mutation_backup s)" using ok by (auto simp: fs_ok_def)
  obtain i where i: "fs_find_mutable (Some n) s = Some i" using ex find_mutable_None(1)[OF inv n] by fastforce
  note f = find_mutable_Some[OF inv n i]
  have len: "i < length (FILES s)" using inv f(1) by (simp add: files_inv_def)
  let ?fs = "(FILES s)[i := fs_clear (FILES s ! i)]"
  have t: "upd_file i fs_clear (backup_file i s) = s\<lparr>FILES := ?fs, g_mutation_backup := FILES s ! i\<rparr>"
    using copy_file_id[OF f(5) b] by (simp add: upd_file_def backup_file_def)
  have c: "commit_or_restore E i True (upd_file i fs_clear (backup_file i s)) = (r, s')"
    using eq u i by (auto simp: fs_remove_def fs_remove_internal_def user_name_def)
  have inv': "files_inv ?fs" using view_clear(1)[OF inv len, of "fs_clear (FILES s ! i)"] f(5) by simp
  have "records_used ?fs \<le> FS_MAX_FILES" using records_update[OF len, of "fs_clear (FILES s ! i)"] ok by (simp add: fs_ok_def)
  then show ?thesis using live_commit_or_restore[OF _ _ c persistent_active[OF ok t]] h inv' t by simp
qed

section \<open>The self-test passes\<close>

text \<open>Reloading a persistent volume finds the files that were committed.\<close>

lemma live_reload:
  assumes ok: "fs_ok media dev_ok s" and h: "healthy (world s)" and p: "g_backend_status s = FS_BACKEND_PERSISTENT"
    and eq: "fs_self_test_reload E msg s = (r, s')"
  shows "r \<and> healthy (world s') \<and> g_backend_status s' = FS_BACKEND_PERSISTENT
    \<and> g_self_test_active s' = g_self_test_active s \<and> fs_listing (FILES s') = fs_listing (FILES s)"
proof -
  obtain q t where l: "fs_load_from_disk E s = (q, t)" by fastforce
  have sh: "fs_shape dev_ok s" and c: "committed (media (world s)) s (fs_listing (FILES s))" using ok p by (auto simp: fs_ok_shape)
  have q: "q = FS_DISK_LOADED" "healthy (world t)"
    using live_load(1)[OF h sh l, of "g_active_slot s"] c by (auto simp: committed_def)
  note x = load_shape[OF sh l] and ls = load_spec[OF fs_shapeD(1,4,7)[OF sh] l]
  have "trusted_order (media (world s)) (g_active_slot t)" using ls(3) q(1) by blast
  then have "g_active_slot t = g_active_slot s" using c by (simp add: committed_def trusted_order_def)
  then have "fs_listing (FILES t) = fs_listing (FILES s)" using x(2) x(5) q(1) c by (simp add: committed_def)
  then show ?thesis using eq q x(4) by (auto simp: fs_self_test_reload_def l)
qed

lemma user_names:
  assumes "g_self_test_active s"
  shows "user_name s (lit ''__fs_self_test__'')" "user_name s (lit ''__fs_self_renamed__'')"
  using assms by (auto simp: user_name_def fs_is_valid_name_def fs_name_is_system_log_def fs_name_is_system_managed_def system_managed_names_def lit_def)

lemma testing_write:
  assumes "testing media dev_ok healthy v s" and "view_records (v(cstr SELF_TEST \<mapsto> FS_SELF_TEST_PAYLOAD)) \<le> FS_MAX_FILES"
    and e: "fs_write_bytes E (Some SELF_TEST) (Some FS_SELF_TEST_PAYLOAD) (length FS_SELF_TEST_PAYLOAD) s = (r, s')"
  shows "r \<and> testing media dev_ok healthy (v(cstr SELF_TEST \<mapsto> FS_SELF_TEST_PAYLOAD)) s'"
proof -
  have x: "fs_ok media dev_ok s" "healthy (world s)" "g_self_test_active s" using assms(1) by (simp_all add: testing_def)
  show ?thesis
    using live_write_bytes[OF x(1,2) terminated_lit user_names(1)[OF x(3)] order_refl _ e] assms(1,2)
      write_internal_spec(1,2,4)[OF x(1) terminated_lit _ e[unfolded fs_write_bytes_def]]
    by (simp add: testing_def FS_SELF_TEST_PAYLOAD_def)
qed

lemma testing_reload:
  assumes "testing media dev_ok healthy v s" and e: "fs_self_test_reload E msg s = (r, s')"
  shows "r \<and> testing media dev_ok healthy v s'"
  using assms(1) live_reload[OF _ _ _ e] self_test_reload_ok[OF _ e] by (simp add: testing_def fs_view_def fs_ok_shape)

lemma testing_rename:
  assumes "testing media dev_ok healthy v s" and ne: "cstr SELF_TEST \<noteq> cstr SELF_RENAMED"
    and "v (cstr SELF_TEST) \<noteq> None" and "v (cstr SELF_RENAMED) = None" and e: "fs_rename E (Some SELF_TEST) (Some SELF_RENAMED) s = (r, s')"
  shows "r \<and> testing media dev_ok healthy (v(cstr SELF_TEST := None, cstr SELF_RENAMED := v (cstr SELF_TEST))) s'"
proof -
  have x: "fs_ok media dev_ok s" "healthy (world s)" "g_self_test_active s" using assms(1) by (simp_all add: testing_def)
  show ?thesis
    using live_rename[OF x(1,2) terminated_lit terminated_lit user_names[OF x(3)] _ _ e] assms(1-4)
      rename_internal_spec[OF x(1) terminated_lit terminated_lit e[unfolded fs_rename_def]]
    by (simp add: testing_def)
qed

lemma testing_remove:
  assumes "testing media dev_ok healthy v s" and "v (cstr SELF_RENAMED) \<noteq> None" and e: "fs_remove E (Some SELF_RENAMED) s = (r, s')"
  shows "r \<and> testing media dev_ok healthy (v(cstr SELF_RENAMED := None)) s'"
proof -
  have x: "fs_ok media dev_ok s" "healthy (world s)" "g_self_test_active s" using assms(1) by (simp_all add: testing_def)
  show ?thesis
    using live_remove[OF x(1,2) terminated_lit user_names(2)[OF x(3)] _ e] assms(1,2)
      remove_internal_spec[OF x(1) terminated_lit e[unfolded fs_remove_def]]
    by (simp add: testing_def)
qed

lemma live_self_test:
  assumes ok: "fs_ok media dev_ok s" and h: "healthy (world s)" and p: "g_backend_status s = FS_BACKEND_PERSISTENT"
    and none: "\<forall>f \<in> set (FILES s). \<not> fs_file_is_self_test_artifact (Some f)"
    and new: "fs_view (FILES s) (cstr SELF_TEST) = None" "fs_view (FILES s) (cstr SELF_RENAMED) = None"
    and room: "view_records (fs_view (FILES s)) < FS_MAX_FILES"
  shows "healthy (world (fs_self_test E s)) \<and> g_backend_status (fs_self_test E s) = FS_BACKEND_PERSISTENT
    \<and> fs_view (FILES (fs_self_test E s)) = fs_view (FILES s)"
proof -
  let ?v = "fs_view (FILES s)" and ?test = "testing media dev_ok healthy"
  let ?v1 = "?v(cstr SELF_TEST \<mapsto> FS_SELF_TEST_PAYLOAD)" and ?v3 = "?v(cstr SELF_RENAMED \<mapsto> FS_SELF_TEST_PAYLOAD)"
  have ne: "cstr SELF_TEST \<noteq> cstr SELF_RENAMED" by (simp add: cstr_lit plain_char_def)
  have v3: "?v1(cstr SELF_TEST := None, cstr SELF_RENAMED := ?v1 (cstr SELF_TEST)) = ?v3" "?v3(cstr SELF_RENAMED := None) = ?v"
    using new by (auto simp: fun_upd_idem)
  have fit: "view_records ?v1 \<le> FS_MAX_FILES"
    using view_records_upd[of ?v "cstr SELF_TEST" FS_SELF_TEST_PAYLOAD] room new(1)
    by (simp add: fun_upd_idem fs_disk_records_needed_def FS_SELF_TEST_PAYLOAD_def)
  define s0 where "s0 = s\<lparr>g_self_test_active := True\<rparr>"
  have c0: "snd (fs_clear_self_test_artifacts s0) = s0"
    using clear_artifacts(1,4)[of s0] none ok by (simp add: s0_def fs_ok_def)
  have x0: "?test ?v s0" using fs_ok_flag[OF ok] h p by (simp add: s0_def testing_def)
  obtain r1 s1 where e1: "fs_write_bytes E (Some SELF_TEST) (Some FS_SELF_TEST_PAYLOAD) (length FS_SELF_TEST_PAYLOAD) s0 = (r1, s1)" by fastforce
  have x1: "r1" "?test ?v1 s1" using testing_write[OF x0 fit e1] by simp_all
  obtain r2 s2 where e2: "fs_self_test_reload E ''FS: self-test (binary persistence reload) failed'' s1 = (r2, s2)" by fastforce
  have x2: "r2" "?test ?v1 s2" using testing_reload[OF x1(2) e2] by simp_all
  obtain r3 s3 where e3: "fs_rename E (Some SELF_TEST) (Some SELF_RENAMED) s2 = (r3, s3)" by fastforce
  have x3: "r3" "?test ?v3 s3" using testing_rename[OF x2(2) ne _ _ e3] v3(1) new ne by simp_all
  obtain r4 s4 where e4: "fs_self_test_reload E ''FS: self-test (rename persistence reload) failed'' s3 = (r4, s4)" by fastforce
  have x4: "r4" "?test ?v3 s4" using testing_reload[OF x3(2) e4] by simp_all
  obtain r5 s5 where e5: "fs_remove E (Some SELF_RENAMED) s4 = (r5, s5)" by fastforce
  have x5: "r5" "?test ?v s5" using testing_remove[OF x4(2) _ e5] v3(2) by simp_all
  obtain r6 s6 where e6: "fs_self_test_reload E ''FS: self-test (remove persistence reload) failed'' s5 = (r6, s6)" by fastforce
  have x6: "r6" "?test ?v s6" using testing_reload[OF x5(2) e6] by simp_all
  have "fs_self_test E s = fs_say E ''FS: persistent reload sequence complete'' (s6\<lparr>g_self_test_active := False\<rparr>)"
    unfolding fs_self_test_def Let_def s0_def[symmetric] c0 e1 e2 e3 e4 e5 e6 prod.case
    using x1(1) x2(1) x3(1) x4(1) x5(1) x6(1) testing_found[OF x2(2)] testing_found[OF x4(2)]
      testing_absent[OF x3(2)] testing_absent[OF x4(2)] testing_absent[OF x6(2)] new ne by simp
  then show ?thesis using x6 healthy_say by (simp add: testing_def)
qed

end

end
