(* ===== verification/Fs_Crash.thy ===== *)
theory Fs_Crash
  imports Fs_Capacity
begin

text \<open>
  Interrupted syncs and whole boots.  A power cut is the device failing every request from some
  moment on, so a statement about every outcome of a sync on a device that may fail at any point
  covers it: the media then holds the old committed volume or the new one.
\<close>

section \<open>An interrupted sync\<close>

context atomic_device
begin

lemma disk_write_atomic:
  assumes "dev_ok (world s)" and "lba_range lba n" and "length buf = 512 * n" and "disk_write E lba n buf s = (r, s')"
  shows "media (world s') l = media (world s) l \<or> media (world s') l = store_sectors (media (world s)) lba n buf l"
proof -
  obtain w where "env_ata_write E lba n buf (world s) = (r, w)" "s' = s\<lparr>world := w\<rparr>"
    using assms(4) by (auto simp: disk_write_def split: prod.splits)
  then show ?thesis using write_atomic[OF assms(1-3)] by simp
qed

lemma sync_table_header:
  assumes "dev_ok (world s)" and "slot < 2" and "wf_table (g_disk_table s)"
    and "sync_table E verify (fs_slot_header_lba slot) s = (early, s')"
  shows "media (world s') (fs_slot_header_lba slot) = media (world s) (fs_slot_header_lba slot)"
proof -
  let ?lba = "fs_slot_header_lba slot" and ?b = "table_bytes (g_disk_table s)"
  obtain r1 s1 where w: "disk_write E (?lba + 1) FS_DISK_TABLE_SECTORS ?b s = (r1, s1)" by fastforce
  note wx = disk_write_spec[OF assms(1) slot_ranges(2)[OF assms(2)] length_table_bytes[OF assms(3)] w]
  obtain r2 s2 where rc: "fs_reconcile_table E ?lba s1 = (r2, s2)" by fastforce
  have t1: "g_disk_table s1 = g_disk_table s" using arg_cong[OF wx(1), of g_disk_table] by simp
  have q: "quiet media dev_ok s1 s2" using reconcile_table_spec[OF wx(2) assms(2) _ rc] assms(3) t1 by simp
  note say1 = say_world[OF wx(2)] and say2 = say_world[OF quietD(12)[OF q]]
  have "media (world s') = media (world s1)"
    using assms(4) quietD(13)[OF q] say1 say2 by (auto simp: sync_table_def w[simplified] rc Let_def split: if_splits)
  then show ?thesis using wx(3) by simp
qed

lemma sync_header_atomic:
  assumes "dev_ok (world s)" and "slot < 2" and "wf_table (g_disk_table s)"
    and "sync_header E verify slot (fs_slot_header_lba slot) gen s = (r, s')"
  shows "slot_table (media (world s')) slot = slot_table (media (world s)) slot"
    and "slot_header (media (world s')) slot = slot_header (media (world s)) slot
      \<or> slot_header (media (world s')) slot = commit_header (g_disk_table s) gen"
proof -
  let ?lba = "fs_slot_header_lba slot" and ?h = "commit_header (g_disk_table s) gen"
  have lenh: "length (header_bytes ?h) = 512 * 1" by (simp add: commit_header_def Let_def)
  obtain r1 s1 where w: "disk_write E ?lba 1 (header_bytes ?h) s = (r1, s1)" by fastforce
  note wx = disk_write_spec[OF assms(1) slot_ranges(1)[OF assms(2)] lenh w]
  have t1: "g_disk_table s1 = g_disk_table s" using arg_cong[OF wx(1), of g_disk_table] by simp
  obtain r2 s2 where rc: "fs_reconcile_slot E ?lba ?h s1 = (r2, s2)" by fastforce
  have q: "quiet media dev_ok s1 s2" using reconcile_slot_spec[OF wx(2) assms(2) _ _ rc] assms(3) t1 lenh by simp
  note say1 = say_world[OF wx(2)] and say2 = say_world[OF quietD(12)[OF q]]
  have m: "media (world s') = media (world s1)"
    using assms(4) quietD(13)[OF q] say1 say2
    by (auto simp: sync_header_def w[simplified] rc Let_def fs_accept_commit_def split: if_splits)
  show "slot_table (media (world s')) slot = slot_table (media (world s)) slot"
    unfolding slot_table_def m by (rule sectors_cong) (use wx(3) in auto)
  have "media (world s1) ?lba = media (world s) ?lba \<or> media (world s1) ?lba = header_bytes ?h"
    using disk_write_atomic[OF assms(1) slot_ranges(1)[OF assms(2)] lenh w, of ?lba] lenh by (simp add: store_sectors_def)
  then show "slot_header (media (world s')) slot = slot_header (media (world s)) slot \<or> slot_header (media (world s')) slot = ?h"
    by (auto simp: slot_header_def m)
qed

text \<open>Whatever happens to a sync, the target slot's header is the old one, or the new one on top
  of the complete new table.\<close>

lemma sync_atomic:
  assumes dev: "dev_ok (world s)" and eq: "fs_sync_to_disk_verified E verify s = (r, s')"
  shows "slot_header (media (world s')) (target_slot s) = slot_header (media (world s)) (target_slot s)
    \<or> fst (serialize_table (FILES s))
      \<and> slot_table (media (world s')) (target_slot s) = table_bytes (snd (serialize_table (FILES s)))
      \<and> slot_header (media (world s')) (target_slot s) = commit_header (snd (serialize_table (FILES s))) (g_active_generation s + 1)"
proof -
  let ?slot = "target_slot s" and ?t = "snd (serialize_table (FILES s))" and ?g = "g_active_generation s + 1"
  let ?lba = "fs_slot_header_lba ?slot"
  obtain r1 s1 where init: "disk_init E s = (r1, s1)" by fastforce
  note d1 = quietD[OF quiet_init[OF dev init]]
  have tgt: "(if g_active_slot s1 < FS_SLOT_COUNT then g_active_slot s1 XOR 1 else 0) = ?slot"
    by (simp add: target_slot_def d1)
  define s2 where "s2 = s1\<lparr>g_disk_table := ?t\<rparr>"
  have ser: "fs_serialize s1 = (fst (serialize_table (FILES s)), s2)" using d1(1) by (simp add: fs_serialize_def s2_def case_prod_beta)
  have dev2: "dev_ok (world s2)" "wf_table (g_disk_table s2)" "media (world s2) = media (world s)"
    using d1 wf_serialize_table by (simp_all add: s2_def)
  obtain e s3 where st: "sync_table E verify ?lba s2 = (e, s3)" by fastforce
  note t3 = sync_table_spec[OF dev2(1) target_slot_less dev2(2) st] and h3 = sync_table_header[OF dev2(1) target_slot_less dev2(2) st]
  have tab3: "g_disk_table s3 = ?t" "dev_ok (world s3)" using t3 touchesD(2,12)[of media dev_ok "slot_sectors ?slot" s2 s3] by (auto simp: s2_def)
  have same3: "slot_header (media (world s3)) ?slot = slot_header (media (world s)) ?slot" using h3 dev2(3) by (simp add: slot_header_def)
  obtain r4 s4 where sh: "sync_header E verify ?slot ?lba ?g s3 = (r4, s4)" by fastforce
  note h4 = sync_header_atomic[OF tab3(2) target_slot_less _ sh]
  have say: "media (world (fs_say E msg s1)) = media (world s)" "media (world (fs_say E msg s2)) = media (world s)" for msg
    using say_world d1(12,13) dev2 by simp_all
  have "(r, s') = (if r1 \<noteq> ATA_INIT_READY then (FS_SYNC_FAILED,
               fs_say E (if r1 = ATA_INIT_NO_DEVICE then ''FS: Disk sync failed (no ATA drive)''
                         else ''FS: Disk sync failed (ATA initialization error)'') s1)
      else if \<not> fst (serialize_table (FILES s)) then (FS_SYNC_FAILED, fs_say E ''FS: Disk sync failed (record table full)'' s2)
      else case e of Some r \<Rightarrow> (r, s3) | None \<Rightarrow> (r4, s4))"
    using eq[symmetric] by (simp only: fs_sync_to_disk_verified_def init ser tgt d1(5) st sh Let_def prod.case)
  then have "media (world s') = media (world s) \<or> s' = s3 \<or> fst (serialize_table (FILES s)) \<and> e = None \<and> s' = s4"
    using say by (auto split: if_splits option.splits)
  then show ?thesis
    using same3 h4 t3 tab3(1) wf_serialize_table by (auto simp: slot_header_def s2_def)
qed

lemma crash_load:
  assumes dev: "dev_ok (world s)" and inv: "files_inv (FILES s)" and com: "committed (media (world s)) s L"
    and eq: "fs_sync_to_disk_verified E verify s = (r, s')"
    and t: "fs_shape dev_ok t" "media (world t) = media (world s')" "fs_load_from_disk E t = (FS_DISK_LOADED, t')"
  shows "fs_listing (FILES t') = L \<or> fs_listing (FILES t') = fs_listing (FILES s)"
    and "r = FS_SYNC_COMMITTED \<Longrightarrow> fs_listing (FILES t') = fs_listing (FILES s)"
proof -
  let ?m = "media (world s)" and ?m' = "media (world s')" and ?k = "target_slot s" and ?a = "g_active_slot s"
  let ?T = "snd (serialize_table (FILES s))"
  note f = sync_frame[OF dev eq]
  have a: "?a < FS_SLOT_COUNT" "slot_listing ?m ?a = Some L" "trusted_order ?m ?a" using com by (auto simp: committed_def)
  have out: "l \<notin> slot_sectors ?k \<Longrightarrow> ?m' l = ?m l" for l by (rule f(10))
  note af = active_frame[OF a(1) out]
  have ld: "trusted_order ?m' (g_active_slot t')" "slot_listing ?m' (g_active_slot t') = Some (fs_listing (FILES t'))"
    using load_spec(3)[OF fs_shapeD(1,4,7)[OF t(1)] t(3)] t(2) by (auto simp: slot_mounted_def)
  have new: "fs_listing (FILES t') = fs_listing (FILES s)"
    if h: "fst (serialize_table (FILES s))" "slot_table ?m' ?k = table_bytes ?T" "slot_header ?m' ?k = commit_header ?T (g_active_generation s + 1)"
  proof -
    have "trusted_order ?m' ?k" by (rule trusted_commit[OF committed_active[OF com] out h(3)])
    then have "g_active_slot t' = ?k" using ld(1) by (simp add: trusted_order_def)
    then show ?thesis using ld(2) listing_commit[OF inv h(1,3,2)] by simp
  qed
  have old: "fs_listing (FILES t') = L" if h: "slot_header ?m' ?k = slot_header ?m ?k"
  proof -
    have "slot_header ?m' 0 = slot_header ?m 0 \<and> slot_header ?m' 1 = slot_header ?m 1"
      using h af(2) a(1) by (auto simp: target_slot_def slot_cases split: if_splits)
    then have "preferred_slot ?m' = preferred_slot ?m" by (simp add: preferred_slot_def)
    then have "g_active_slot t' = ?a" using ld(1) a(3) by (simp add: trusted_order_def)
    then show ?thesis using ld(2) af(1) a(2) by simp
  qed
  show "fs_listing (FILES t') = L \<or> fs_listing (FILES t') = fs_listing (FILES s)"
    using sync_atomic[OF dev eq] new old by blast
  assume "r = FS_SYNC_COMMITTED"
  then show "fs_listing (FILES t') = fs_listing (FILES s)"
    using sync_spec[OF dev eq] new by (auto simp: fs_accept_commit_def)
qed

end

section \<open>Volatile volumes\<close>

context block_device
begin

text \<open>A volume that is not persistent is never written back.\<close>

lemma volatile_commit:
  assumes "dev_ok (world s)" and "files_inv (FILES s)" and "g_backend_status s \<noteq> FS_BACKEND_PERSISTENT" and "fs_commit_changes E s = (ok, s')"
  shows "media (world s') = media (world s)"
  using commit_spec(4)[OF assms(1,2) _ assms(4,3)] assms(3) by blast

lemma init_keeps_media:
  assumes "dev_ok w" and l: "fs_load_from_disk E (fs_activate_virtual_system_log (fs_boot w)) = (r, t)"
    and r: "r \<noteq> FS_DISK_LOADED" "r \<noteq> FS_DISK_BLANK"
  shows "media (world (fs_init E (fs_boot w))) = media w \<and> g_backend_status (fs_init E (fs_boot w)) \<noteq> FS_BACKEND_PERSISTENT"
proof -
  let ?s = "fs_activate_virtual_system_log (fs_boot w)"
  have sh: "fs_shape dev_ok ?s" using assms(1) by (rule boot_shape)
  note x = load_shape[OF sh l]
  have w: "media (world t) = media w" "dev_ok (world t)"
    using x(2) fs_shapeD(1)[OF x(1)] by (simp_all add: fs_activate_virtual_system_log_def fs_boot_def)
  show ?thesis
  proof (cases "is_loaded r")
    case False
    obtain fs where fs: "fs_seed_defaults t = t\<lparr>FILES := fs\<rparr>" using seed_defaults_spec[OF fs_shapeD(2)[OF x(1)]] by blast
    have "media (world (fs_say E msg (t\<lparr>FILES := fs, g_backend_status := st\<rparr>))) = media w" for msg st
      using say_world[of "t\<lparr>FILES := fs, g_backend_status := st\<rparr>"] w by simp
    then show ?thesis using False r l fs by (auto simp: fs_init_def is_loaded_def fs_init_fresh_def Let_def)
  next
    case True
    let ?st = "if r = FS_DISK_LOADED_CORRUPT then FS_BACKEND_VOLATILE_CORRUPT else FS_BACKEND_VOLATILE_IO_ERROR"
    define s2 where "s2 = fs_say E (if r = FS_DISK_LOADED_CORRUPT then ''FS: recovered a volume while preserving corrupt storage''
      else ''FS: recovered a volume with incomplete header reads'') (t\<lparr>g_backend_status := ?st\<rparr>)"
    have sh2: "fs_shape dev_ok s2" "media (world s2) = media w" "g_backend_status s2 = ?st"
      using x(1) w say_world[of "t\<lparr>g_backend_status := ?st\<rparr>"] by (simp_all add: s2_def fs_shape_def)
    obtain q s3 where q: "fs_quarantine_self_test_artifacts s2 = (q, s3)" by fastforce
    define had where "had = (fs_find_mutable (Some (lit ''system.log'')) s3 \<noteq> None)"
    obtain l' s4 where l': "(if had then fs_quarantine_physical_system_log s3 else (False, s3)) = (l', s4)" by fastforce
    note qd = refilesD[OF quarantine_spec(1)[OF sh2(1) q l']]
    have mw: "media (world (say_if E b msg s)) = media (world s) \<and> dev_ok (world (say_if E b msg s))" if "dev_ok (world s)" for b msg s
      using say_if_world[OF that] by blast
    have "fs_init_mounted E r t = say_if E l' ''FS: legacy system.log recovery name is session-only''
        (say_if E q ''FS: self-test recovery name is session-only''
          (say_if E (g_legacy_upgrade_status (say_if E (had \<and> \<not> l') ''FS: could not preserve the legacy physical system.log name'' s4) = FS_LEGACY_UPGRADE_AVAILABLE)
             ''FS: explicit legacy snapshot upgrade available; run fsupgrade for details''
             (say_if E (had \<and> \<not> l') ''FS: could not preserve the legacy physical system.log name'' s4)))"
      using r(1) l' by (cases "fs_find_mutable (Some (lit ''system.log'')) s3")
        (simp_all add: fs_init_mounted_def Let_def s2_def[symmetric] q had_def split: prod.splits)
    then show ?thesis using True l r qd sh2 mw by (simp add: fs_init_def is_loaded_def)
  qed
qed

end

section \<open>Formatting on a healthy drive\<close>

context reliable_device
begin

lemma live_format:
  assumes h: "healthy w" and blank: "\<forall>i \<in> {0, 1}. fs_header_is_blank (slot_header (media w) i) \<and> fs_bytes_are_blank (slot_table (media w) i)"
  shows "g_backend_status (fs_init E (fs_boot w)) = FS_BACKEND_PERSISTENT \<and> healthy (world (fs_init E (fs_boot w)))"
proof -
  let ?s = "fs_activate_virtual_system_log (fs_boot w)" and ?m = "''FS: blank storage detected; mounted fresh volume''"
  have sh: "fs_shape dev_ok ?s" using healthy_ok[OF h] by (rule boot_shape)
  have w: "world ?s = w" by (simp add: fs_activate_virtual_system_log_def fs_boot_def)
  obtain r t where l: "fs_load_from_disk E ?s = (r, t)" by fastforce
  have r: "r = FS_DISK_BLANK" "healthy (world t)" using live_load(2)[OF _ sh l] h blank w by simp_all
  note x = load_shape[OF sh l]
  obtain fs where fs: "fs_seed_defaults t = t\<lparr>FILES := fs\<rparr>" "files_inv fs" "records_used fs \<le> 4"
    "fs_view fs (cstr SELF_TEST) = None" "fs_view fs (cstr SELF_RENAMED) = None"
    "\<forall>f \<in> set fs. \<not> fs_file_is_self_test_artifact (Some f)"
    using seed_defaults_spec[OF fs_shapeD(2)[OF x(1)]] by blast
  define s2 where "s2 = fs_say E ?m (t\<lparr>FILES := fs\<rparr>)"
  have h2: "healthy (world s2)" "FILES s2 = fs" using r(2) healthy_say by (simp_all add: s2_def)
  obtain q s3 where q: "fs_sync_to_disk E s2 = (q, s3)" by fastforce
  have l3: "q = FS_SYNC_COMMITTED" "healthy (world s3)"
    using live_sync[OF h2(1) _ _ q[unfolded fs_sync_to_disk_def]] h2(2) fs(2,3) by simp_all
  define s4 where "s4 = fs_say E ''FS: filesystem formatted and saved'' (s3\<lparr>g_backend_status := FS_BACKEND_PERSISTENT\<rparr>)"
  note f = sync_frame[OF healthy_ok[OF h2(1)] q[unfolded fs_sync_to_disk_def]]
  have a2: "active_ok (media (world s2)) s2"
    using x(8) r(1) say_world[of "t\<lparr>FILES := fs\<rparr>"] healthy_ok[OF r(2)] by (simp add: s2_def active_ok_def)
  have c3: "committed (media (world s3)) s3 fs'" if "fs' = fs_listing fs" for fs'
    using sync_commits(1)[OF healthy_ok[OF h2(1)] _ a2 q[unfolded fs_sync_to_disk_def l3(1)]] h2(2) fs(2) that by simp
  have leg: "g_legacy_upgrade_status s3 \<noteq> FS_LEGACY_UPGRADE_AVAILABLE" using f(4) x(9) r(1) by (auto simp: s2_def)
  have ok4: "fs_ok media dev_ok s4"
    unfolding s4_def
  proof (rule fs_ok_say)
    let ?t = "s3\<lparr>g_backend_status := FS_BACKEND_PERSISTENT\<rparr>"
    have "fs_shape dev_ok ?t" using fs_shapeD[OF x(1)] f fs(2,3) by (auto simp: fs_shape_def s2_def)
    then show "fs_ok media dev_ok ?t"
      using c3[OF refl] committed_cong[of ?t s3] leg f(1) h2(2) by (simp add: fs_ok_shape)
  qed
  have F4: "FILES s4 = fs" "healthy (world s4)" "g_backend_status s4 = FS_BACKEND_PERSISTENT"
    using f(1) h2(2) l3(2) healthy_say by (simp_all add: s4_def)
  have "view_records (fs_view fs) < FS_MAX_FILES" using records_view[OF fs(2)] fs(3) by simp
  then have "g_backend_status (fs_self_test E s4) = FS_BACKEND_PERSISTENT \<and> healthy (world (fs_self_test E s4))"
    using live_self_test[OF ok4 F4(2,3)] fs F4(1) by simp
  moreover have "fs_init E (fs_boot w) = fs_self_test E s4"
    using r(1) l3(1) by (simp add: fs_init_def l fs_init_fresh_def fs(1) Let_def s2_def[symmetric] q s4_def[symmetric])
  ultimately show ?thesis by simp
qed

end

end
