(* ===== verification/Fs_Props.thy ===== *)
theory Fs_Props
  imports Fs_Crash
begin

text \<open>
  What the filesystem promises, for any device that keeps the contract of the ATA driver, with
  witnesses on the kernel's own driver over a PIO drive.
\<close>

section \<open>A formatted drive\<close>

text \<open>The state after booting on a healthy drive of zeroed sectors: the witnesses start here.\<close>

definition formatted :: "pio_drive io fs_state" where
  "formatted = fs_init kernel_env (fs_boot (zero_drive 0x48))"

lemma zero_drive_healthy: "drive_healthy (zero_drive 0x48)"
  using zero_drive_ok by (simp add: drive_healthy_def faultless_def zero_drive_def)

lemma zero_drive_blank:
  "\<forall>i \<in> {0, 1}. fs_header_is_blank (slot_header (drive_media (zero_drive st)) i) \<and> fs_bytes_are_blank (slot_table (drive_media (zero_drive st)) i)"
proof -
  have m: "drive_media (zero_drive st) = (\<lambda>_. replicate 512 0)" by (simp add: drive_media_def disk_media_def zero_drive_def)
  have "set (sectors (\<lambda>_. replicate 512 0) a n) \<subseteq> {0 :: u8}" for a n by (auto simp: sectors_def)
  then have "fs_bytes_are_blank (slot_table (\<lambda>_. replicate 512 0) i)" for i
    unfolding slot_table_def fs_bytes_are_blank_def list_all_iff by blast
  moreover have "fs_header_is_blank (header_of_bytes (replicate 512 0))"
    by (simp add: fs_header_is_blank_def header_of_bytes_def header_bytes_def list_all_iff le32_bytes_def le32_of_def numeral_eq_Suc)
  ultimately show ?thesis unfolding m slot_header_def by blast
qed

lemma formatted_facts:
  "fs_reachable kernel_env drive_ok formatted" "g_backend_status formatted = FS_BACKEND_PERSISTENT" "drive_healthy (world formatted)"
  "fs_ok drive_media drive_ok formatted" "committed (drive_media (world formatted)) formatted (fs_listing (FILES formatted))"
proof -
  show r: "fs_reachable kernel_env drive_ok formatted" unfolding formatted_def by (rule reach_boot) (rule zero_drive_ok)
  show "g_backend_status formatted = FS_BACKEND_PERSISTENT" "drive_healthy (world formatted)"
    using pio_reliable.live_format[OF zero_drive_healthy zero_drive_blank] by (simp_all add: formatted_def)
  then show "fs_ok drive_media drive_ok formatted" "committed (drive_media (world formatted)) formatted (fs_listing (FILES formatted))"
    using block_device.reachable_ok[OF pio.block_device_axioms r] by (auto simp: fs_ok_def)
qed

section \<open>Properties\<close>

text \<open>C1: in every state the kernel can reach by booting and then calling the
  filesystem in any order, with the drive failing in any way its driver allows, the file table
  is well formed, its files fit one disk table, and a volume reported persistent is exactly the
  volume committed on disk in the slot the next boot will prefer.\<close>

theorem fs_reachable_invariant:
  assumes "block_device E media dev_ok" and "fs_reachable E dev_ok s"
  shows "fs_ok media dev_ok s"
  by (rule block_device.reachable_ok[OF assms])

theorem fs_reachable_invariant_witness:
  "fs_ok drive_media drive_ok (snd (fs_append kernel_env (Some (lit ''a'')) (Some (lit ''b'')) formatted))"
  by (rule fs_reachable_invariant[OF pio.block_device_axioms reach_step[OF formatted_facts(1) step_append]])
    (simp_all add: terminated_lit)

text \<open>C3: after a reboot, a load that reports a sound volume shows exactly
  the files, in the same order, that a persistent volume showed before it.\<close>

theorem fs_reload_finds_committed:
  assumes "block_device E media dev_ok" and "fs_reachable E dev_ok s" and "g_backend_status s = FS_BACKEND_PERSISTENT"
    and "dev_ok w" and "media w = media (world s)"
    and "fs_load_from_disk E (fs_activate_virtual_system_log (fs_boot w)) = (FS_DISK_LOADED, t)"
  shows "fs_listing (FILES t) = fs_listing (FILES s)"
proof -
  let ?s = "fs_activate_virtual_system_log (fs_boot w)"
  have c: "committed (media (world s)) s (fs_listing (FILES s))"
    using block_device.reachable_ok[OF assms(1,2)] assms(3) by (simp add: fs_ok_def)
  have sh: "fs_shape dev_ok ?s" using assms(4) by (rule boot_shape)
  have w: "world ?s = w" by (simp add: fs_activate_virtual_system_log_def fs_boot_def)
  have "trusted_order (media w) (g_active_slot t) \<and> slot_mounted (media w) (g_active_slot t) t"
    using block_device.load_spec(3)[OF assms(1) fs_shapeD(1,4,7)[OF sh] assms(6)] w by simp
  then show ?thesis using c assms(5) by (auto simp: committed_def trusted_order_def slot_mounted_def)
qed

lemma reload_formatted:
  "\<exists>t. fs_load_from_disk kernel_env (fs_activate_virtual_system_log (fs_boot (world formatted))) = (FS_DISK_LOADED, t)"
proof -
  let ?s = "fs_activate_virtual_system_log (fs_boot (world formatted))"
  obtain r t where l: "fs_load_from_disk kernel_env ?s = (r, t)" by fastforce
  have w: "world ?s = world formatted" by (simp add: fs_activate_virtual_system_log_def fs_boot_def)
  have "drive_ok (world formatted)" using formatted_facts(3) by (simp add: drive_healthy_def)
  then have sh: "fs_shape drive_ok ?s" by (rule boot_shape)
  have "r = FS_DISK_LOADED"
    using pio_reliable.live_load(1)[OF _ sh l, of "g_active_slot formatted"] formatted_facts(3,5) w by (simp add: committed_def)
  then show ?thesis using l by blast
qed

theorem fs_reload_finds_committed_witness:
  "fs_listing (FILES (snd (fs_load_from_disk kernel_env (fs_activate_virtual_system_log (fs_boot (world formatted))))))
   = fs_listing (FILES formatted)"
proof -
  obtain t where t: "fs_load_from_disk kernel_env (fs_activate_virtual_system_log (fs_boot (world formatted))) = (FS_DISK_LOADED, t)"
    using reload_formatted by blast
  have "drive_ok (world formatted)" using formatted_facts(3) by (simp add: drive_healthy_def)
  from fs_reload_finds_committed[OF pio.block_device_axioms formatted_facts(1,2) this refl t] show ?thesis by (simp add: t)
qed

text \<open>C2: however a sync of a committed volume ends, power cuts included, the next
  load that reports a sound volume finds the old files or the new files, whole; and after a
  sync that reported success it finds the new ones.\<close>

theorem fs_crash_atomic:
  assumes "atomic_device E media dev_ok" and "dev_ok (world s)" and "files_inv (FILES s)" and "committed (media (world s)) s L"
    and "fs_sync_to_disk_verified E verify s = (r, s')" and "dev_ok w" and "media w = media (world s')"
    and "fs_load_from_disk E (fs_activate_virtual_system_log (fs_boot w)) = (FS_DISK_LOADED, t)"
  shows "(fs_listing (FILES t) = L \<or> fs_listing (FILES t) = fs_listing (FILES s))
    \<and> (r = FS_SYNC_COMMITTED \<longrightarrow> fs_listing (FILES t) = fs_listing (FILES s))"
proof -
  let ?s = "fs_activate_virtual_system_log (fs_boot w)"
  have sh: "fs_shape dev_ok ?s" using assms(6) by (rule boot_shape)
  have "media (world ?s) = media (world s')" using assms(7) by (simp add: fs_activate_virtual_system_log_def fs_boot_def)
  note c = atomic_device.crash_load[OF assms(1-5) sh this assms(8)]
  then show ?thesis by blast
qed

text \<open>A sync of the empty file table over the formatted volume.\<close>

lemma emptied_facts:
  assumes "s = formatted\<lparr>FILES := blank_files\<rparr>" and "fs_sync_to_disk_verified kernel_env False s = (r, s')"
  shows "drive_ok (world s)" "files_inv (FILES s)" "committed (drive_media (world s)) s (fs_listing (FILES formatted))"
    "drive_ok (world s')" "\<exists>t. fs_load_from_disk kernel_env (fs_activate_virtual_system_log (fs_boot (world s'))) = (FS_DISK_LOADED, t)"
proof -
  show c: "committed (drive_media (world s)) s (fs_listing (FILES formatted))" and d: "drive_ok (world s)"
    using formatted_facts(3,5) assms(1) by (simp_all add: committed_def drive_healthy_def)
  show i: "files_inv (FILES s)" using assms(1) by (simp add: files_inv_def fs_listing_def blank_files_def blank_file_def wf_file_def list_all_iff)
  have "fs_listing (FILES s) = []" using assms(1) by (simp add: fs_listing_def blank_files_def blank_file_def)
  then have rec: "records_used (FILES s) \<le> FS_MAX_FILES" using i by (simp add: records_of_listing files_inv_def)
  have h: "drive_healthy (world s)" using formatted_facts(3) assms(1) by simp
  have l: "r = FS_SYNC_COMMITTED" "drive_healthy (world s')" using pio_reliable.live_sync[OF h i rec assms(2)] by simp_all
  show d': "drive_ok (world s')" using l(2) by (simp add: drive_healthy_def)
  have c': "committed (drive_media (world s')) s' (fs_listing (FILES s))"
    using block_device.sync_commits(1)[OF pio.block_device_axioms d i committed_active[OF c]] assms(2) l(1) by simp
  let ?t = "fs_activate_virtual_system_log (fs_boot (world s'))"
  have w: "world ?t = world s'" by (simp add: fs_activate_virtual_system_log_def fs_boot_def)
  have sh: "fs_shape drive_ok ?t" using d' by (rule boot_shape)
  obtain q t where q: "fs_load_from_disk kernel_env ?t = (q, t)" by fastforce
  have "q = FS_DISK_LOADED" using pio_reliable.live_load(1)[OF _ sh q, of "g_active_slot s'"] l(2) c' w by (simp add: committed_def)
  then show "\<exists>t. fs_load_from_disk kernel_env ?t = (FS_DISK_LOADED, t)" using q by blast
qed

theorem fs_crash_atomic_witness:
  "\<exists>r s' t. fs_sync_to_disk_verified kernel_env False (formatted\<lparr>FILES := blank_files\<rparr>) = (r, s')
    \<and> fs_load_from_disk kernel_env (fs_activate_virtual_system_log (fs_boot (world s'))) = (FS_DISK_LOADED, t)
    \<and> (fs_listing (FILES t) = fs_listing (FILES formatted) \<or> fs_listing (FILES t) = fs_listing blank_files)"
proof -
  define s where "s = formatted\<lparr>FILES := blank_files\<rparr>"
  obtain r s' where e: "fs_sync_to_disk_verified kernel_env False s = (r, s')" by fastforce
  note f = emptied_facts[OF s_def e]
  obtain t where t: "fs_load_from_disk kernel_env (fs_activate_virtual_system_log (fs_boot (world s'))) = (FS_DISK_LOADED, t)"
    using f(5) by blast
  from fs_crash_atomic[OF pio_atomic.atomic_device_axioms f(1,2,3) e f(4) refl t] e t show ?thesis by (auto simp: s_def)
qed

text \<open>C6: a sync that reports success has committed the new files in the other slot
  and left the old slot readable; a sync that does not has left the active slot, and the state's
  record of it, as they were.\<close>

theorem fs_sync_outcome:
  assumes "block_device E media dev_ok" and "dev_ok (world s)" and "files_inv (FILES s)" and "committed (media (world s)) s L"
  shows "case fs_sync_to_disk_verified E verify s of (r, s') \<Rightarrow>
    slot_listing (media (world s')) (g_active_slot s) = Some L
    \<and> (if r = FS_SYNC_COMMITTED
       then committed (media (world s')) s' (fs_listing (FILES s)) \<and> g_active_slot s' \<noteq> g_active_slot s
         \<and> g_active_generation s' = g_active_generation s + 1
       else g_active_slot s' = g_active_slot s \<and> g_active_generation s' = g_active_generation s)"
proof -
  obtain r s' where e: "fs_sync_to_disk_verified E verify s = (r, s')" by fastforce
  have a: "g_active_slot s < FS_SLOT_COUNT" "slot_listing (media (world s)) (g_active_slot s) = Some L"
    using assms(4) by (auto simp: committed_def)
  note f = block_device.sync_frame[OF assms(1,2) e]
  have "slot_listing (media (world s')) (g_active_slot s) = Some L" using active_frame(1)[OF a(1) f(10)] a(2) by simp
  moreover have "committed (media (world s')) s' (fs_listing (FILES s))" if "r = FS_SYNC_COMMITTED"
    using block_device.sync_commits(1)[OF assms(1,2,3) committed_active[OF assms(4)]] e that by simp
  moreover have "g_active_slot s' = target_slot s \<and> g_active_generation s' = g_active_generation s + 1" if "r = FS_SYNC_COMMITTED"
    using block_device.sync_spec[OF assms(1,2) e] that by (auto simp: fs_accept_commit_def)
  moreover have "target_slot s \<noteq> g_active_slot s" using a(1) by (auto simp: target_slot_def slot_cases)
  ultimately show ?thesis using f(11) by (simp add: e)
qed

theorem fs_sync_outcome_witness:
  "slot_listing (drive_media (world (snd (fs_sync_to_disk_verified kernel_env False (formatted\<lparr>FILES := blank_files\<rparr>)))))
     (g_active_slot formatted) = Some (fs_listing (FILES formatted))"
proof -
  define s where "s = formatted\<lparr>FILES := blank_files\<rparr>"
  obtain r s' where e: "fs_sync_to_disk_verified kernel_env False s = (r, s')" by fastforce
  note f = emptied_facts[OF s_def e]
  show ?thesis using fs_sync_outcome[OF pio.block_device_axioms f(1,2,3), of False] e by (simp add: s_def[symmetric]) (simp add: s_def)
qed

text \<open>C7: seen as a map from names to contents, a write that returns true binds the
  name to exactly the bytes given, and was made under a valid name that is not reserved for the
  system; a write that returns false, for whatever reason, leaves every file as it was.\<close>

theorem fs_write_refines:
  assumes "block_device E media dev_ok" and "fs_ok media dev_ok s" and "terminated n" and "len \<le> length c"
  shows "case fs_write_bytes E (Some n) (Some c) len s of (r, s') \<Rightarrow> fs_ok media dev_ok s'
    \<and> fs_view (FILES s') = (if r then (fs_view (FILES s))(cstr n \<mapsto> take len c) else fs_view (FILES s))
    \<and> (r \<longrightarrow> user_name s n \<and> len < FS_MAX_FILE_SIZE)"
proof -
  obtain r s' where e: "fs_write_bytes E (Some n) (Some c) len s = (r, s')" by fastforce
  note w = block_device.write_internal_spec[OF assms(1-3) _ e[unfolded fs_write_bytes_def]]
  have "r \<Longrightarrow> user_name s n \<and> len < FS_MAX_FILE_SIZE"
    using e by (auto simp: fs_write_bytes_def fs_write_bytes_internal_def user_name_def split: if_splits)
  then show ?thesis using w(1,2) assms(4) by (simp add: e)
qed

theorem fs_write_refines_witness:
  "case fs_write_bytes kernel_env (Some (lit ''notes.txt'')) (Some [1, 2, 3]) 2 formatted of (r, s') \<Rightarrow>
    fs_view (FILES s') = (if r then (fs_view (FILES formatted))(cstr (lit ''notes.txt'') \<mapsto> [1, 2]) else fs_view (FILES formatted))"
  using fs_write_refines[OF pio.block_device_axioms formatted_facts(4) terminated_lit, of 2 "[1, 2, 3]" "''notes.txt''"]
  by (auto split: prod.splits)

text \<open>C8: an append that returns true extends the file, new or existing, by exactly
  the text given; otherwise every file is as it was.\<close>

theorem fs_append_refines:
  assumes "block_device E media dev_ok" and "fs_ok media dev_ok s" and "terminated n"
  shows "case fs_append E (Some n) (Some c) s of (r, s') \<Rightarrow> fs_ok media dev_ok s'
    \<and> fs_view (FILES s') = (if r then (fs_view (FILES s))(cstr n \<mapsto> old_content (fs_view (FILES s)) (cstr n) @ cstr c)
        else fs_view (FILES s))
    \<and> (r \<longrightarrow> user_name s n)"
proof -
  obtain r s' where e: "fs_append E (Some n) (Some c) s = (r, s')" by fastforce
  note a = block_device.append_spec[OF assms e]
  have "r \<Longrightarrow> user_name s n" using e by (auto simp: fs_append_def user_name_def split: if_splits)
  then show ?thesis using a by (simp add: e)
qed

theorem fs_append_refines_witness:
  "case fs_append kernel_env (Some (lit ''motd.txt'')) (Some (lit ''!'')) formatted of (r, s') \<Rightarrow> r \<longrightarrow>
    fs_view (FILES s') (cstr (lit ''motd.txt'')) = Some (old_content (fs_view (FILES formatted)) (cstr (lit ''motd.txt'')) @ cstr (lit ''!''))"
  using fs_append_refines[OF pio.block_device_axioms formatted_facts(4) terminated_lit, of "''motd.txt''" "lit ''!''"]
  by (auto split: prod.splits)

text \<open>C9: a rename that returns true found the old name, never overwrote another
  file, and moved the contents unchanged; otherwise every file is as it was.\<close>

theorem fs_rename_refines:
  assumes "block_device E media dev_ok" and "fs_ok media dev_ok s" and "terminated old" and "terminated new"
  shows "case fs_rename E (Some old) (Some new) s of (r, s') \<Rightarrow> fs_ok media dev_ok s'
    \<and> fs_view (FILES s') = (if r \<and> cstr old \<noteq> cstr new
        then (fs_view (FILES s))(cstr old := None, cstr new := fs_view (FILES s) (cstr old)) else fs_view (FILES s))
    \<and> (r \<longrightarrow> fs_view (FILES s) (cstr old) \<noteq> None \<and> (cstr old \<noteq> cstr new \<longrightarrow> fs_view (FILES s) (cstr new) = None))"
proof -
  obtain r s' where e: "fs_rename E (Some old) (Some new) s = (r, s')" by fastforce
  note a = block_device.rename_internal_spec[OF assms e[unfolded fs_rename_def]]
  then show ?thesis by (simp add: e)
qed

theorem fs_rename_refines_witness:
  "case fs_rename kernel_env (Some (lit ''motd.txt'')) (Some (lit ''m.txt'')) formatted of (r, s') \<Rightarrow> r \<longrightarrow>
    fs_view (FILES s') (cstr (lit ''m.txt'')) = fs_view (FILES formatted) (cstr (lit ''motd.txt''))"
  using fs_rename_refines[OF pio.block_device_axioms formatted_facts(4) terminated_lit terminated_lit, of "''motd.txt''" "''m.txt''"]
  by (auto split: prod.splits if_splits)

text \<open>C10: a removal that returns true removed exactly the named file; otherwise every
  file is as it was.\<close>

theorem fs_remove_refines:
  assumes "block_device E media dev_ok" and "fs_ok media dev_ok s" and "terminated n"
  shows "case fs_remove E (Some n) s of (r, s') \<Rightarrow> fs_ok media dev_ok s'
    \<and> fs_view (FILES s') = (if r then (fs_view (FILES s))(cstr n := None) else fs_view (FILES s))
    \<and> (r \<longrightarrow> fs_view (FILES s) (cstr n) \<noteq> None)"
proof -
  obtain r s' where e: "fs_remove E (Some n) s = (r, s')" by fastforce
  note a = block_device.remove_internal_spec[OF assms e[unfolded fs_remove_def]]
  then show ?thesis by (simp add: e)
qed

theorem fs_remove_refines_witness:
  "case fs_remove kernel_env (Some (lit ''motd.txt'')) formatted of (r, s') \<Rightarrow> r \<longrightarrow> fs_view (FILES s') (cstr (lit ''motd.txt'')) = None"
  using fs_remove_refines[OF pio.block_device_axioms formatted_facts(4) terminated_lit, of "''motd.txt''"]
  by (auto split: prod.splits)

text \<open>C4: booting on a healthy drive whose two slots are blank ends with a persistent
  volume: the format is committed and the write, rename, remove and reload self-test passes.\<close>

theorem fs_format_live:
  assumes "reliable_device E media dev_ok healthy" and "healthy w"
    and "\<forall>i \<in> {0, 1}. fs_header_is_blank (slot_header (media w) i) \<and> fs_bytes_are_blank (slot_table (media w) i)"
  shows "g_backend_status (fs_init E (fs_boot w)) = FS_BACKEND_PERSISTENT"
  using reliable_device.live_format[OF assms] by blast

theorem fs_format_live_witness:
  "g_backend_status (fs_init kernel_env (fs_boot (zero_drive 0x48))) = FS_BACKEND_PERSISTENT"
  by (rule fs_format_live[OF pio_reliable.reliable_device_axioms zero_drive_healthy zero_drive_blank])



text \<open>C11: a boot that could neither mount a volume it trusts nor find blank media
  writes nothing to the drive and continues on a volatile volume.\<close>

theorem fs_init_preserves_media:
  assumes "block_device E media dev_ok" and "dev_ok w"
    and "fst (fs_load_from_disk E (fs_activate_virtual_system_log (fs_boot w))) \<notin> {FS_DISK_LOADED, FS_DISK_BLANK}"
  shows "media (world (fs_init E (fs_boot w))) = media w \<and> g_backend_status (fs_init E (fs_boot w)) \<noteq> FS_BACKEND_PERSISTENT"
proof -
  obtain r t where l: "fs_load_from_disk E (fs_activate_virtual_system_log (fs_boot w)) = (r, t)" by fastforce
  show ?thesis by (rule block_device.init_keeps_media[OF assms(1,2) l]) (use assms(3) l in auto)
qed

theorem fs_init_preserves_media_witness:
  "drive_media (world (fs_init kernel_env (fs_boot (zero_drive 0xFF)))) = drive_media (zero_drive 0xFF)"
proof -
  have "fst (env_ata_init kernel_env (zero_drive 0xFF)) = ATA_INIT_NO_DEVICE"
    by (simp add: kernel_env_def driver_env_def ata_init_def inb_def pio_ports_def pio_inb_def shown_status_def upd_view_def zero_drive_def Let_def)
  then have "fst (fs_load_from_disk kernel_env (fs_activate_virtual_system_log (fs_boot (zero_drive 0xFF)))) = FS_DISK_NO_DRIVE"
    by (simp add: fs_load_from_disk_def disk_init_def fs_activate_virtual_system_log_def fs_boot_def case_prod_beta)
  then show ?thesis using fs_init_preserves_media[OF pio.block_device_axioms zero_drive_ok, of "0xFF"] by simp
qed

lemma upgrade_guarded:
  assumes "block_device E media dev_ok" and "fs_ok media dev_ok s" and "arg_ok confirmation"
  shows "case fs_upgrade_legacy_snapshot E confirmation s of (q, s') \<Rightarrow>
    (q = FS_LEGACY_UPGRADE_NOT_AVAILABLE \<or> q = FS_LEGACY_UPGRADE_CONFIRMATION_REQUIRED \<longrightarrow> s' = s)
    \<and> (q = FS_LEGACY_UPGRADE_SUCCEEDED \<longrightarrow> g_backend_status s' = FS_BACKEND_PERSISTENT
        \<and> committed (media (world s')) s' (fs_listing (FILES s)))
    \<and> (q \<noteq> FS_LEGACY_UPGRADE_NOT_AVAILABLE \<and> q \<noteq> FS_LEGACY_UPGRADE_CONFIRMATION_REQUIRED \<longrightarrow>
        g_active_slot s < FS_SLOT_COUNT
        \<and> slot_listing (media (world s')) (g_active_slot s) = slot_listing (media (world s)) (g_active_slot s)
        \<and> (\<exists>c. confirmation = Some c \<and> cstr c = cstr (lit ''CONFIRM-LEGACY-SNAPSHOT'')))"
proof (cases "fst (fs_upgrade_legacy_snapshot E confirmation s) \<in> {FS_LEGACY_UPGRADE_NOT_AVAILABLE, FS_LEGACY_UPGRADE_CONFIRMATION_REQUIRED}")
  case True
  then show ?thesis by (auto simp: fs_upgrade_legacy_snapshot_def Let_def split: if_splits prod.splits)
next
  case False
  then have g: "g_legacy_upgrade_status s = FS_LEGACY_UPGRADE_AVAILABLE" "g_active_slot s < FS_SLOT_COUNT"
    "\<exists>c. confirmation = Some c \<and> kstrcmp c (lit ''CONFIRM-LEGACY-SNAPSHOT'') = 0"
    by (auto simp: fs_upgrade_legacy_snapshot_def split: if_splits option.splits)
  obtain c where c: "confirmation = Some c" "cstr c = cstr (lit ''CONFIRM-LEGACY-SNAPSHOT'')"
    using g(3) assms(3) by (auto simp: kstrcmp_eq_0 terminated_lit)
  obtain r t where e: "fs_sync_to_disk_verified E True s = (r, t)" by fastforce
  have dev: "dev_ok (world s)" "files_inv (FILES s)" "active_ok (media (world s)) s" using assms(2) g(1) by (auto simp: fs_ok_def)
  note f = block_device.sync_frame[OF assms(1) dev(1) e]
  have say: "media (world (fs_say E msg u)) = media (world u)" if "dev_ok (world u)" for msg u
    using block_device.say_world[OF assms(1) that] by blast
  have com: "committed (media (world t)) t (fs_listing (FILES s))" if "r = FS_SYNC_COMMITTED"
    using block_device.sync_commits(1)[OF assms(1) dev] e that by simp
  obtain q s' where u: "fs_upgrade_legacy_snapshot E confirmation s = (q, s')" by fastforce
  have "media (world s') = media (world t) \<and> (q = FS_LEGACY_UPGRADE_SUCCEEDED \<longrightarrow> r = FS_SYNC_COMMITTED
      \<and> g_backend_status s' = FS_BACKEND_PERSISTENT \<and> committed (media (world t)) s' L = committed (media (world t)) t L)" for L
    using u False g(3) say f(8)
    by (auto simp: fs_upgrade_legacy_snapshot_def e Let_def committed_def block_device.say_simps[OF assms(1)] split: if_splits option.splits)
  moreover have "slot_listing (media (world t)) (g_active_slot s) = slot_listing (media (world s)) (g_active_slot s)"
    by (rule active_frame(1)[OF g(2) f(10)])
  ultimately show ?thesis unfolding u using com c g(2) False u by auto
qed

text \<open>C12: a volume whose two legacy snapshots differ, so that the upgrade is on offer,
  is not written by the boot that finds it.  \<open>fs_upgrade_legacy_snapshot\<close> changes nothing unless
  it is given the exact confirmation text; success means that the mounted files are committed and
  the volume is persistent, and every outcome leaves the files of the selected legacy slot on the
  medium.  (A legacy volume whose order is trusted is migrated by the boot itself.)\<close>

theorem fs_upgrade_guarded:
  assumes "block_device E media dev_ok" and "fs_ok media dev_ok s" and "arg_ok confirmation"
  shows "(\<forall>w q t. dev_ok w \<and> fs_load_from_disk E (fs_activate_virtual_system_log (fs_boot w)) = (q, t)
      \<and> g_legacy_upgrade_status t = FS_LEGACY_UPGRADE_AVAILABLE \<longrightarrow> media (world (fs_init E (fs_boot w))) = media w)
    \<and> (case fs_upgrade_legacy_snapshot E confirmation s of (q, s') \<Rightarrow>
    (q = FS_LEGACY_UPGRADE_NOT_AVAILABLE \<or> q = FS_LEGACY_UPGRADE_CONFIRMATION_REQUIRED \<longrightarrow> s' = s)
    \<and> (q = FS_LEGACY_UPGRADE_SUCCEEDED \<longrightarrow> g_backend_status s' = FS_BACKEND_PERSISTENT
        \<and> committed (media (world s')) s' (fs_listing (FILES s)))
    \<and> (q \<noteq> FS_LEGACY_UPGRADE_NOT_AVAILABLE \<and> q \<noteq> FS_LEGACY_UPGRADE_CONFIRMATION_REQUIRED \<longrightarrow>
        g_active_slot s < FS_SLOT_COUNT
        \<and> slot_listing (media (world s')) (g_active_slot s) = slot_listing (media (world s)) (g_active_slot s)
        \<and> (\<exists>c. confirmation = Some c \<and> cstr c = cstr (lit ''CONFIRM-LEGACY-SNAPSHOT''))))"
proof (intro conjI allI impI, elim conjE)
  fix w q t
  assume w: "dev_ok w" and l: "fs_load_from_disk E (fs_activate_virtual_system_log (fs_boot w)) = (q, t)"
    and a: "g_legacy_upgrade_status t = FS_LEGACY_UPGRADE_AVAILABLE"
  have sh: "fs_shape dev_ok (fs_activate_virtual_system_log (fs_boot w))" using w by (rule boot_shape)
  have "q \<noteq> FS_DISK_LOADED" "is_loaded q"
    using block_device.load_spec(6,7)[OF assms(1) fs_shapeD(1,4,7)[OF sh] l] a by blast+
  then have "q \<noteq> FS_DISK_LOADED" "q \<noteq> FS_DISK_BLANK" by auto
  then show "media (world (fs_init E (fs_boot w))) = media w" using block_device.init_keeps_media[OF assms(1) w l] by blast
qed (rule upgrade_guarded[OF assms])

text \<open>The formatted volume as it would be mounted from the selected one of two differing snapshots.\<close>

definition offered :: "pio_drive io fs_state" where
  "offered = formatted\<lparr>g_legacy_upgrade_status := FS_LEGACY_UPGRADE_AVAILABLE, g_backend_status := FS_BACKEND_VOLATILE_CORRUPT,
     g_loaded_version := 4\<rparr>"

lemma offered_facts: "fs_ok drive_media drive_ok offered" "drive_healthy (world offered)" "g_active_slot offered < FS_SLOT_COUNT"
proof -
  have "active_ok (drive_media (world formatted)) formatted" using formatted_facts(5) by (rule committed_active)
  then show "fs_ok drive_media drive_ok offered" using formatted_facts(4) by (simp add: fs_ok_def offered_def active_ok_def)
  show "drive_healthy (world offered)" using formatted_facts(3) by (simp add: offered_def)
  show "g_active_slot offered < FS_SLOT_COUNT" using formatted_facts(5) by (simp add: offered_def committed_def)
qed

lemma offered_mount:
  "g_legacy_upgrade_status offered = FS_LEGACY_UPGRADE_AVAILABLE" "g_backend_status offered = FS_BACKEND_VOLATILE_CORRUPT"
  "(FS_DISK_VERSION \<le> g_loaded_version offered) = False" "(FS_SLOT_COUNT \<le> g_active_slot offered) = False"
  using offered_facts(3) by (simp_all add: offered_def)

theorem fs_upgrade_guarded_witness:
  "\<exists>s'. fs_upgrade_legacy_snapshot kernel_env (Some (lit ''CONFIRM-LEGACY-SNAPSHOT'')) offered = (FS_LEGACY_UPGRADE_SUCCEEDED, s')
    \<and> g_backend_status s' = FS_BACKEND_PERSISTENT \<and> committed (drive_media (world s')) s' (fs_listing (FILES offered))"
proof -
  let ?c = "lit ''CONFIRM-LEGACY-SNAPSHOT''"
  obtain r t where e: "fs_sync_to_disk_verified kernel_env True offered = (r, t)" by fastforce
  have "r = FS_SYNC_COMMITTED"
    using pio_reliable.live_sync[OF offered_facts(2) _ _ e] offered_facts(1) by (simp add: fs_ok_def)
  moreover have "kstrcmp ?c ?c = 0" by (simp add: kstrcmp_eq_0 terminated_lit)
  ultimately obtain s' where u: "fs_upgrade_legacy_snapshot kernel_env (Some ?c) offered = (FS_LEGACY_UPGRADE_SUCCEEDED, s')"
    using e by (simp add: fs_upgrade_legacy_snapshot_def offered_mount)
  then show ?thesis
    using fs_upgrade_guarded[OF pio.block_device_axioms offered_facts(1), of "Some ?c"] by (simp add: terminated_lit)
qed

lemma file_at_scan_iff:
  "case file_at_scan s i fs seen of Inl f \<Rightarrow> seen \<le> i \<and> i < seen + length (filter (\<lambda>f. \<not> fs_hidden s f) fs)
    | Inr k \<Rightarrow> k = seen + length (filter (\<lambda>f. \<not> fs_hidden s f) fs) \<and> (i < seen \<or> k \<le> i)"
  by (induction s i fs seen rule: file_at_scan.induct) (auto split: sum.splits)

lemma file_count_filter:
  "fs_file_count s = length (filter (\<lambda>f. \<not> fs_hidden s f) (FILES s)) + (if g_system_log_is_virtual s then 1 else 0)"
proof -
  have "foldl (\<lambda>count f. if f_in_use f \<and> \<not> fs_file_is_self_test_artifact (Some f) \<and>
      \<not> (g_system_log_is_virtual s \<and> fs_name_is_system_log (Some (f_name f))) then count + 1 else count) n fs
    = n + length (filter (\<lambda>f. \<not> fs_hidden s f) fs)" for n fs
    by (induction fs arbitrary: n) (auto simp: fs_hidden_def)
  then show ?thesis by (simp add: fs_file_count_def)
qed

text \<open>C13: enumerating with \<open>fs_file_at\<close> yields a file for exactly the indices below
  \<open>fs_file_count\<close>.\<close>

theorem fs_listing_complete:
  "fst (fs_file_at E i s) \<noteq> None \<longleftrightarrow> i < fs_file_count s"
  using file_at_scan_iff[where s = s and i = i and fs = "FILES s" and seen = 0]
  by (auto simp: fs_file_at_def file_count_filter Let_def split: sum.splits)

end
