(* ===== verification/Ata_Props.thy ===== *)
theory Ata_Props
  imports Drive_Laws
begin


section \<open>Properties\<close>





text \<open>C39: the request check admits exactly the requests that name a
  buffer, at least one sector, and only sectors below \<open>2 ^ 28\<close>; on any port hardware a refused
  request reports failure without a single port access.\<close>

theorem ata_requests_checked:
  "(ata_valid_request lba count buffer \<longleftrightarrow> buffer \<noteq> None \<and> count \<noteq> 0 \<and> unat lba + unat count \<le> 2 ^ 28)
   \<and> (\<not> ata_valid_request lba count buffer \<longrightarrow>
        ata_read P lba count buffer s = (False, buffer, s) \<and> ata_write P lba count buffer s = (ATA_WRITE_FAILED, s))"
  using valid_request_iff by (auto simp: ata_read_def ata_write_def split: option.splits)

theorem ata_requests_checked_witness:
  "ata_write pio_ports 0x0FFFFFFF 2 (Some (replicate 1024 0)) (zero_drive 0x48) = (ATA_WRITE_FAILED, zero_drive 0x48)"
  using ata_requests_checked[of "0x0FFFFFFF" 2 "Some (replicate 1024 0)" pio_ports "zero_drive 0x48"] by simp

end
