(* ===== verification/Heap.thy ===== *)
theory Heap
  imports Syslog
begin

text \<open>
  The kernel heap of \<open>src/kernel/heap.c\<close>.  Block headers live in a store from addresses to
  headers and are linked by address, as in the source; address 0 is NULL.  The list walks are
  \<open>partial_function\<close>s over \<open>option\<close>: following a pointer to an address without a header,
  or walking a cyclic list, has no value, and the results show that neither can happen.
  Sizes and addresses are natural numbers; the one addition of the source that could exceed
  \<open>SIZE_MAX\<close> is reduced modulo \<open>2 ^ 64\<close>.
\<close>

section \<open>Definitions\<close>

record heap_block =
  hb_size :: nat
  is_free :: bool
  hb_next :: nat

record heap =
  h_mem :: "nat \<rightharpoonup> heap_block"
  g_head :: nat
  g_heap_total_size :: nat
  g_heap_used_size :: nat
  g_heap_start :: nat
  g_heap_end :: nat
  h_log :: syslog

abbreviation HEADER :: nat where "HEADER \<equiv> 48"
abbreviation SIZE_MAX :: nat where "SIZE_MAX \<equiv> 2 ^ 64 - 1"

definition heap_say :: "string \<Rightarrow> heap \<Rightarrow> heap" where
  "heap_say msg h = h\<lparr>h_log := syslog_write (Some (lit msg)) (h_log h)\<rparr>"

definition heap_init :: "nat \<Rightarrow> nat \<Rightarrow> heap \<Rightarrow> heap" where
  "heap_init start_addr size_bytes h =
     (let h = h\<lparr>g_head := 0, g_heap_total_size := 0, g_heap_used_size := 0, g_heap_start := 0, g_heap_end := 0\<rparr>;
          misalignment = start_addr mod 16;
          adjustment = (if misalignment \<noteq> 0 then 16 - misalignment else 0)
      in if misalignment \<noteq> 0 \<and> size_bytes \<le> adjustment then h
         else
           let start_addr = start_addr + adjustment; size_bytes = size_bytes - adjustment
           in if size_bytes < HEADER then heap_say ''Heap: Too small to initialize'' h
              else heap_say ''Heap: Initialized (16-byte aligned)''
                (h\<lparr>h_mem := (h_mem h)(start_addr \<mapsto> \<lparr>hb_size = size_bytes - HEADER, is_free = True, hb_next = 0\<rparr>),
                   g_head := start_addr, g_heap_total_size := size_bytes, g_heap_start := start_addr,
                   g_heap_end := start_addr + size_bytes\<rparr>))"

text \<open>The walk of \<open>kmalloc\<close>: the first block that fits, or NULL.\<close>

partial_function (option) find_fit :: "(nat \<rightharpoonup> heap_block) \<Rightarrow> nat \<Rightarrow> nat \<Rightarrow> nat option" where
  "find_fit mem aligned_size cur =
     (if cur = 0 then Some 0
      else case mem cur of
             None \<Rightarrow> None
           | Some b \<Rightarrow> if is_free b \<and> hb_size b \<ge> aligned_size then Some cur
                       else find_fit mem aligned_size (hb_next b))"

definition take_block :: "nat \<Rightarrow> nat \<Rightarrow> heap_block \<Rightarrow> heap \<Rightarrow> heap" where
  "take_block cur aligned_size b h =
     (let (b, mem) =
        (if hb_size b \<ge> (aligned_size + HEADER + 16) mod 2 ^ 64
         then let new_block = cur + HEADER + aligned_size
              in (b\<lparr>hb_size := aligned_size, hb_next := new_block\<rparr>,
                  (h_mem h)(new_block \<mapsto> \<lparr>hb_size = hb_size b - aligned_size - HEADER, is_free = True, hb_next = hb_next b\<rparr>))
         else (b, h_mem h))
      in h\<lparr>h_mem := mem(cur \<mapsto> b\<lparr>is_free := False\<rparr>), g_heap_used_size := g_heap_used_size h + hb_size b\<rparr>)"

definition kmalloc :: "nat \<Rightarrow> heap \<Rightarrow> (nat \<times> heap) option" where
  "kmalloc sz h =
     (if sz = 0 \<or> g_head h = 0 then Some (0, h)
      else if sz > SIZE_MAX - 15 then Some (0, heap_say ''Heap: allocation size overflow'' h)
      else
        let aligned_size = (sz + 15) div 16 * 16
        in case find_fit (h_mem h) aligned_size (g_head h) of
             None \<Rightarrow> None
           | Some cur \<Rightarrow>
               if cur = 0 then Some (0, heap_say ''Heap: Out of memory'' h)
               else case h_mem h cur of
                      None \<Rightarrow> None
                    | Some b \<Rightarrow> Some (cur + HEADER, take_block cur aligned_size b h))"

text \<open>The walk of \<open>kfree\<close>: the block whose payload starts at \<open>ptr\<close>, or NULL.\<close>

partial_function (option) find_payload :: "(nat \<rightharpoonup> heap_block) \<Rightarrow> nat \<Rightarrow> nat \<Rightarrow> nat option" where
  "find_payload mem ptr cur =
     (if cur = 0 then Some 0
      else case mem cur of
             None \<Rightarrow> None
           | Some b \<Rightarrow> if cur + HEADER = ptr then Some cur else find_payload mem ptr (hb_next b))"

text \<open>Merging a block with its successor, when both are free.\<close>

definition merge_next :: "(nat \<rightharpoonup> heap_block) \<Rightarrow> nat \<Rightarrow> heap_block \<Rightarrow> heap_block \<Rightarrow> nat \<rightharpoonup> heap_block" where
  "merge_next mem cur b n = mem(cur \<mapsto> b\<lparr>hb_size := hb_size b + HEADER + hb_size n, hb_next := hb_next n\<rparr>)"

text \<open>The release of one block, up to the merge pass: its flag, and the merge with its successor.\<close>

definition release_mem :: "(nat \<rightharpoonup> heap_block) \<Rightarrow> nat \<Rightarrow> heap_block \<Rightarrow> nat \<rightharpoonup> heap_block" where
  "release_mem mem x b =
     (let b = b\<lparr>is_free := True\<rparr>; mem = mem(x \<mapsto> b)
      in case (if hb_next b = 0 then None else mem (hb_next b)) of
           None \<Rightarrow> mem | Some n \<Rightarrow> if is_free n then merge_next mem x b n else mem)"

partial_function (option) merge_pass :: "(nat \<rightharpoonup> heap_block) \<Rightarrow> nat \<Rightarrow> (nat \<rightharpoonup> heap_block) option" where
  "merge_pass mem cur =
     (if cur = 0 then Some mem
      else case mem cur of
             None \<Rightarrow> None
           | Some b \<Rightarrow>
               if hb_next b = 0 then Some mem
               else (case mem (hb_next b) of
                       None \<Rightarrow> None
                     | Some n \<Rightarrow> if is_free b \<and> is_free n then merge_pass (merge_next mem cur b n) cur
                                 else merge_pass mem (hb_next b)))"

definition kfree :: "nat \<Rightarrow> heap \<Rightarrow> heap option" where
  "kfree ptr h =
     (if ptr = 0 then Some h
      else if ptr < g_heap_start h + HEADER \<or> ptr \<ge> g_heap_end h \<or> ptr mod 16 \<noteq> 0
      then Some (heap_say ''Heap: rejected invalid free'' h)
      else
        case find_payload (h_mem h) ptr (g_head h) of
          None \<Rightarrow> None
        | Some block \<Rightarrow>
            (case (if block = 0 then None else h_mem h block) of
               None \<Rightarrow> Some (heap_say ''Heap: rejected invalid or duplicate free'' h)
             | Some b \<Rightarrow>
                 if is_free b then Some (heap_say ''Heap: rejected invalid or duplicate free'' h)
                 else
                   let h = (if hb_size b \<le> g_heap_used_size h
                            then h\<lparr>g_heap_used_size := g_heap_used_size h - hb_size b\<rparr>
                            else heap_say ''Heap: allocation accounting recovered'' (h\<lparr>g_heap_used_size := 0\<rparr>));
                       mem = release_mem (h_mem h) block b
                   in map_option (\<lambda>mem. h\<lparr>h_mem := mem\<rparr>) (merge_pass mem (g_head h))))"

partial_function (option) free_walk :: "(nat \<rightharpoonup> heap_block) \<Rightarrow> nat \<Rightarrow> nat \<Rightarrow> nat option" where
  "free_walk mem acc cur =
     (if cur = 0 then Some acc
      else case mem cur of
             None \<Rightarrow> None
           | Some b \<Rightarrow> free_walk mem (if is_free b then acc + hb_size b else acc) (hb_next b))"

definition heap_free_space :: "heap \<Rightarrow> nat option" where
  "heap_free_space h = free_walk (h_mem h) 0 (g_head h)"

definition heap_used_space :: "heap \<Rightarrow> nat" where
  "heap_used_space h = g_heap_used_size h"

text \<open>The blocks of a list segment, from address \<open>a\<close> up to the link to \<open>z\<close>: address, size, free
  flag.\<close>

type_synonym blk = "nat \<times> nat \<times> bool"

fun lseg :: "(nat \<rightharpoonup> heap_block) \<Rightarrow> nat \<Rightarrow> blk list \<Rightarrow> nat \<Rightarrow> bool" where
  "lseg mem a [] z \<longleftrightarrow> a = z"
| "lseg mem a ((x, n, f) # bs) z \<longleftrightarrow> a = x \<and> x \<noteq> 0 \<and>
     (\<exists>b. mem x = Some b \<and> hb_size b = n \<and> is_free b = f \<and> lseg mem (hb_next b) bs z)"

abbreviation blocks :: "(nat \<rightharpoonup> heap_block) \<Rightarrow> nat \<Rightarrow> blk list \<Rightarrow> bool" where
  "blocks mem a bs \<equiv> lseg mem a bs 0"

text \<open>They tile the region from \<open>a\<close> to \<open>e\<close> without gaps, at 16-byte aligned addresses, and no
  two neighbours are free.\<close>

fun tiled :: "nat \<Rightarrow> nat \<Rightarrow> blk list \<Rightarrow> bool" where
  "tiled a e [] \<longleftrightarrow> a = e"
| "tiled a e ((x, n, f) # bs) \<longleftrightarrow> a = x \<and> x mod 16 = 0 \<and> tiled (x + HEADER + n) e bs"

fun coalesced :: "blk list \<Rightarrow> bool" where
  "coalesced ((x, n, f) # (y, m, g) # bs) \<longleftrightarrow> \<not> (f \<and> g) \<and> coalesced ((y, m, g) # bs)"
| "coalesced bs \<longleftrightarrow> True"

text \<open>What the merge pass does to the list of blocks.\<close>

fun merge :: "blk list \<Rightarrow> blk list" where
  "merge ((x, n, f) # (y, m, g) # bs) =
     (if f \<and> g then merge ((x, n + HEADER + m, True) # bs) else (x, n, f) # merge ((y, m, g) # bs))"
| "merge bs = bs"

text \<open>The allocations in use: payload address and size.\<close>

definition live_of :: "blk list \<Rightarrow> (nat \<times> nat) list" where
  "live_of bs = map (\<lambda>(x, n, f). (x + HEADER, n)) (filter (\<lambda>(x, n, f). \<not> f) bs)"

definition heap_blocks :: "heap \<Rightarrow> blk list \<Rightarrow> bool" where
  "heap_blocks h bs \<longleftrightarrow> blocks (h_mem h) (g_head h) bs \<and>
     (if bs = [] then g_heap_used_size h = 0 \<and> g_heap_total_size h = 0
      else tiled (g_heap_start h) (g_heap_end h) bs \<and> coalesced bs \<and> g_heap_end h < 2 ^ 64
        \<and> g_heap_end h = g_heap_start h + g_heap_total_size h
        \<and> g_heap_used_size h = sum_list (map snd (live_of bs)) \<and> (\<forall>(p, k) \<in> set (live_of bs). 0 < k))"

text \<open>The size \<open>kmalloc\<close> rounds a request to.\<close>

definition aligned :: "nat \<Rightarrow> nat" where
  "aligned sz = (sz + 15) div 16 * 16"

definition heap_inv :: "heap \<Rightarrow> bool" where
  "heap_inv h \<longleftrightarrow> (\<exists>bs. heap_blocks h bs)"

definition heap_live :: "heap \<Rightarrow> (nat \<times> nat) set" where
  "heap_live h = {e. \<exists>bs. heap_blocks h bs \<and> e \<in> set (live_of bs)}"

text \<open>The heap's statics before initialisation, and the heap \<open>kernel_main\<close> sets up on a machine with
  at least 24 MiB.\<close>

definition heap_boot :: heap where
  "heap_boot = \<lparr>h_mem = (\<lambda>_. None), g_head = 0, g_heap_total_size = 0, g_heap_used_size = 0,
     g_heap_start = 0, g_heap_end = 0, h_log = syslog_boot\<rparr>"

definition kernel_heap :: heap where
  "kernel_heap = heap_init 8388608 16777216 heap_boot"

section \<open>Lists of blocks\<close>

lemma lseg_unique: "lseg mem a bs 0 \<Longrightarrow> lseg mem a cs 0 \<Longrightarrow> bs = cs"
proof (induction bs arbitrary: a cs)
  case Nil
  then show ?case by (cases cs) auto
next
  case (Cons b bs)
  obtain x n f where b: "b = (x, n, f)" by (metis prod_cases3)
  obtain y m g ds where "cs = (y, m, g) # ds" using Cons.prems b by (cases cs) auto
  then show ?case using Cons b by auto
qed

lemma lseg_append: "lseg mem a (bs @ cs) z \<longleftrightarrow> (\<exists>m. lseg mem a bs m \<and> lseg mem m cs z)"
proof (induction bs arbitrary: a)
  case (Cons b bs)
  obtain x n f where b: "b = (x, n, f)" by (metis prod_cases3)
  show ?case by (simp add: b Cons.IH) blast
qed simp

text \<open>An update of the store outside a list's addresses keeps the list.\<close>

lemma lseg_cong: "\<forall>x \<in> fst ` set bs. mem' x = mem x \<Longrightarrow> lseg mem' a bs z = lseg mem a bs z"
  by (induction mem' a bs z rule: lseg.induct) auto

lemma lseg_upd [simp]: "x \<notin> fst ` set bs \<Longrightarrow> lseg (mem(x \<mapsto> b)) a bs z = lseg mem a bs z"
  by (rule lseg_cong) auto

lemma tiled_bounds: "tiled a e bs \<Longrightarrow> a \<le> e"
  by (induction a e bs rule: tiled.induct) auto

lemma tiled_append: "tiled a e (bs @ cs) \<longleftrightarrow> (\<exists>m. tiled a m bs \<and> tiled m e cs)"
  by (induction bs arbitrary: a) auto

lemma tiled_addrs: "tiled a e bs \<Longrightarrow> x \<in> fst ` set bs \<Longrightarrow> a \<le> x \<and> x < e"
proof (induction a e bs rule: tiled.induct)
  case (2 a e y n f bs)
  then show ?case using tiled_bounds[of "y + HEADER + n" e bs] by fastforce
qed simp

lemma tiled_member:
  assumes "tiled a e bs" and "(x, n, f) \<in> set bs"
  shows "a \<le> x \<and> x + HEADER + n \<le> e \<and> x mod 16 = 0"
proof -
  obtain ps qs where bs: "bs = ps @ (x, n, f) # qs" using split_list[OF assms(2)] by blast
  obtain m where "tiled a m ps" "m = x" "x mod 16 = 0" "tiled (x + HEADER + n) e qs" using assms(1) by (auto simp: bs tiled_append)
  then show ?thesis using tiled_bounds[of a m ps] tiled_bounds[of "x + HEADER + n" e qs] by simp
qed

lemma live_append [simp]: "live_of (bs @ cs) = live_of bs @ live_of cs"
  by (simp add: live_of_def)

lemma live_Cons [simp]: "live_of ((x, n, f) # bs) = (if f then live_of bs else (x + HEADER, n) # live_of bs)"
  by (simp add: live_of_def)

lemma live_Nil [simp]: "live_of [] = []"
  by (simp add: live_of_def)

section \<open>The walks\<close>

lemma find_fit_spec:
  "lseg mem a bs 0 \<Longrightarrow> find_fit mem k a = Some (case find (\<lambda>(x, n, f). f \<and> k \<le> n) bs of None \<Rightarrow> 0 | Some b \<Rightarrow> fst b)"
proof (induction bs arbitrary: a)
  case Nil
  then show ?case by (simp add: find_fit.simps)
next
  case (Cons b bs)
  obtain x n f where b: "b = (x, n, f)" by (metis prod_cases3)
  obtain h where h: "a = x" "x \<noteq> 0" "mem x = Some h" "hb_size h = n" "is_free h = f" "lseg mem (hb_next h) bs 0"
    using Cons.prems b by auto
  show ?case by (subst find_fit.simps) (use h b Cons.IH[OF h(6)] in simp)
qed

lemma find_payload_spec:
  "lseg mem a bs 0 \<Longrightarrow> find_payload mem p a = Some (case find (\<lambda>b. fst b + HEADER = p) bs of None \<Rightarrow> 0 | Some b \<Rightarrow> fst b)"
proof (induction bs arbitrary: a)
  case Nil
  then show ?case by (simp add: find_payload.simps)
next
  case (Cons b bs)
  obtain x n f where b: "b = (x, n, f)" by (metis prod_cases3)
  obtain h where h: "a = x" "x \<noteq> 0" "mem x = Some h" "hb_size h = n" "is_free h = f" "lseg mem (hb_next h) bs 0"
    using Cons.prems b by auto
  show ?case by (subst find_payload.simps) (use h b Cons.IH[OF h(6)] in simp)
qed

lemma free_walk_spec:
  "lseg mem a bs 0 \<Longrightarrow> free_walk mem t a = Some (t + sum_list (map (\<lambda>(x, n, f). if f then n else 0) bs))"
proof (induction bs arbitrary: a t)
  case Nil
  then show ?case by (simp add: free_walk.simps)
next
  case (Cons b bs)
  obtain x n f where b: "b = (x, n, f)" by (metis prod_cases3)
  obtain h where h: "a = x" "x \<noteq> 0" "mem x = Some h" "hb_size h = n" "is_free h = f" "lseg mem (hb_next h) bs 0"
    using Cons.prems b by auto
  show ?case by (subst free_walk.simps) (use h b Cons.IH[OF h(6)] in simp)
qed

lemma merge_pass_single: "lseg mem a [b] 0 \<Longrightarrow> merge_pass mem a = Some mem"
  by (subst merge_pass.simps) (cases b; auto)

lemma merge_pass_spec:
  assumes "lseg mem a bs 0" and "distinct (map fst bs)"
  shows "\<exists>mem'. merge_pass mem a = Some mem' \<and> lseg mem' a (merge bs) 0 \<and> (\<forall>x. x \<notin> fst ` set bs \<longrightarrow> mem' x = mem x)"
  using assms
proof (induction bs arbitrary: mem a rule: merge.induct)
  case (1 x n f y m g bs)
  obtain h k where h: "a = x" "x \<noteq> 0" "y \<noteq> 0" "mem x = Some h" "hb_size h = n" "is_free h = f" "hb_next h = y"
    "mem y = Some k" "hb_size k = m" "is_free k = g" "lseg mem (hb_next k) bs 0"
    using 1(3) by auto
  have d: "x \<noteq> y" "x \<notin> fst ` set bs" "y \<notin> fst ` set bs" "distinct (map fst bs)" using 1(4) by auto
  show ?case
  proof (cases "f \<and> g")
    case True
    have "lseg (merge_next mem x h k) x ((x, n + HEADER + m, True) # bs) 0"
      using h d True by (simp add: merge_next_def)
    moreover have "distinct (map fst ((x, n + HEADER + m, True) # bs))" using d by simp
    ultimately obtain mem' where mem': "merge_pass (merge_next mem x h k) x = Some mem'"
      "lseg mem' x (merge ((x, n + HEADER + m, True) # bs)) 0"
      "\<forall>z. z \<notin> fst ` set ((x, n + HEADER + m, True) # bs) \<longrightarrow> mem' z = merge_next mem x h k z"
      using 1(1)[OF True] by blast
    have "merge_pass mem x = Some mem'" by (subst merge_pass.simps) (use h True mem'(1) in simp)
    then show ?thesis using mem' True h(1) by (auto simp: merge_next_def)
  next
    case False
    have "lseg mem y ((y, m, g) # bs) 0" using h by simp
    then obtain mem' where mem': "merge_pass mem y = Some mem'" "lseg mem' y (merge ((y, m, g) # bs)) 0"
      "\<forall>z. z \<notin> fst ` set ((y, m, g) # bs) \<longrightarrow> mem' z = mem z"
      using 1(2)[OF False, of mem y] d by auto
    have "merge_pass mem x = Some mem'" by (subst merge_pass.simps) (use h False mem'(1) in auto)
    moreover have "mem' x = Some h" using mem'(3) d h(4) by simp
    ultimately show ?thesis using mem' False h(1,2,5-7) by (intro exI[of _ mem']) auto
  qed
next
  case "2_1"
  then show ?case by (auto simp: merge_pass.simps)
qed (auto simp: merge_pass_single)

lemma merge_live [simp]: "live_of (merge bs) = live_of bs"
  by (induction bs rule: merge.induct) auto

lemma merge_coalesced: "coalesced (merge bs)"
proof (induction bs rule: merge.induct)
  case (1 x n f y m g bs)
  have hd: "\<exists>m' g' cs. merge ((y, m, g) # bs) = (y, m', g') # cs \<and> (g' \<longrightarrow> g)" for y m g and bs :: "blk list"
    by (induction "(y, m, g) # bs" arbitrary: m g bs rule: merge.induct) auto
  show ?case
  proof (cases "f \<and> g")
    case False
    obtain m' g' cs where "merge ((y, m, g) # bs) = (y, m', g') # cs" "g' \<longrightarrow> g" using hd by blast
    then show ?thesis using 1(2)[OF False] False by auto
  qed (use 1(1) in simp)
qed simp_all

lemma merge_tiled: "tiled a e bs \<Longrightarrow> tiled a e (merge bs)"
  by (induction bs arbitrary: a rule: merge.induct) (auto simp: add.assoc)

section \<open>Allocation and release\<close>

lemma heap_blocks_say [simp]: "heap_blocks (heap_say msg h) bs = heap_blocks h bs"
  by (simp add: heap_blocks_def heap_say_def)

lemma tiled_distinct: "tiled a e bs \<Longrightarrow> distinct (map fst bs)"
proof (induction a e bs rule: tiled.induct)
  case (2 a e x n f bs)
  then show ?case using tiled_addrs[of "x + HEADER + n" e bs x] by auto
qed simp

lemma heap_blocksD:
  assumes "heap_blocks h bs" and "bs \<noteq> []"
  shows "blocks (h_mem h) (g_head h) bs" "tiled (g_heap_start h) (g_heap_end h) bs" "coalesced bs" "g_heap_end h < 2 ^ 64"
    "g_heap_end h = g_heap_start h + g_heap_total_size h" "g_heap_used_size h = sum_list (map snd (live_of bs))"
    "\<forall>(p, k) \<in> set (live_of bs). 0 < k" "distinct (map fst bs)"
  using assms tiled_distinct[of "g_heap_start h" "g_heap_end h" bs] unfolding heap_blocks_def by auto

text \<open>A list cut at one of its blocks.\<close>

lemma lseg_at:
  assumes "blocks mem a (ps @ (x, n, f) # qs)" and "distinct (map fst (ps @ (x, n, f) # qs))"
  obtains b where "mem x = Some b" "hb_size b = n" "is_free b = f" "x \<noteq> 0" "lseg mem a ps x" "blocks mem (hb_next b) qs"
    "x \<notin> fst ` set ps" "x \<notin> fst ` set qs"
  using assms that by (auto simp: lseg_append)

text \<open>Splitting the found block leaves a tiled, coalesced list.\<close>

lemma coalesced_append:
  "coalesced (ps @ (x, n, f) # qs) \<longleftrightarrow> coalesced (ps @ [(x, n, f)]) \<and> coalesced ((x, n, f) # qs)"
  by (induction ps rule: coalesced.induct) auto

lemma coalesced_busy: "coalesced (ps @ [(x, n, f)]) \<Longrightarrow> coalesced (ps @ [(x, k, False)])"
  by (induction ps rule: coalesced.induct) auto

lemma coalesced_tail: "coalesced ((x, n, f) # qs) \<Longrightarrow> coalesced ((y, m, f) # qs)"
  by (cases qs) auto

lemma aligned_props: "aligned sz mod 16 = 0" "sz \<le> aligned sz" "0 < sz \<Longrightarrow> 0 < aligned sz"
proof -
  show "aligned sz mod 16 = 0" by (simp add: aligned_def)
  show le: "sz \<le> aligned sz" unfolding aligned_def by presburger
  show "0 < sz \<Longrightarrow> 0 < aligned sz" using le by simp
qed

lemma take_block_spec:
  assumes h: "heap_blocks h (ps @ (x, n, True) # qs)" and k: "k \<le> n" "0 < k" "k mod 16 = 0" and b: "h_mem h x = Some b"
  obtains m qs' where "heap_blocks (take_block x k b h) (ps @ (x, m, False) # qs')" "live_of qs' = live_of qs" "k \<le> m" "m \<le> n"
proof -
  let ?bs = "ps @ (x, n, True) # qs"
  note d = heap_blocksD[OF h, simplified]
  obtain b' where b': "h_mem h x = Some b'" "hb_size b' = n" "is_free b' = True" "x \<noteq> 0" "lseg (h_mem h) (g_head h) ps x"
    "blocks (h_mem h) (hb_next b') qs" "x \<notin> fst ` set ps" "x \<notin> fst ` set qs"
    by (rule lseg_at[OF d(1)]) (use d(8) in simp_all)
  have bb: "b' = b" using b b'(1) by simp
  have t: "tiled (g_heap_start h) x ps" "x mod 16 = 0" "tiled (x + HEADER + n) (g_heap_end h) qs" using d(2) by (auto simp: tiled_append)
  have e: "x + HEADER + n \<le> g_heap_end h" "16 \<le> x" using tiled_bounds[OF t(3)] t(2) b'(4) by (simp, presburger)
  then have wrap: "(k + HEADER + 16) mod 2 ^ 64 = k + HEADER + 16" using d(4) k(1) by simp
  have co: "coalesced (ps @ [(x, n, True)])" "coalesced ((x, n, True) # qs)" using d(3) coalesced_append by blast+
  show thesis
  proof (cases "k + HEADER + 16 \<le> n")
    case True
    let ?y = "x + HEADER + k" and ?m = "n - k - HEADER"
    let ?cs = "ps @ (x, k, False) # (?y, ?m, True) # qs"
    have y: "?y \<notin> fst ` set ps" "?y \<notin> fst ` set qs" "?y \<noteq> x"
      using tiled_addrs[OF t(1), of ?y] tiled_addrs[OF t(3), of ?y] True by auto
    have "take_block x k b h = h\<lparr>h_mem := (h_mem h)(?y \<mapsto> \<lparr>hb_size = ?m, is_free = True, hb_next = hb_next b\<rparr>,
        x \<mapsto> b\<lparr>hb_size := k, hb_next := ?y, is_free := False\<rparr>), g_heap_used_size := g_heap_used_size h + k\<rparr>"
      using True wrap b'(2) bb by (simp add: take_block_def Let_def)
    moreover have "tiled (g_heap_start h) (g_heap_end h) ?cs"
    proof -
      have "tiled (HEADER + (x + n)) (g_heap_end h) qs" using t(3) by (simp add: ac_simps)
      then show ?thesis using t(1,2) True k(3) by (auto simp: tiled_append)
    qed
    moreover have "coalesced ((x, k, False) # (?y, ?m, True) # qs)" using coalesced_tail[OF co(2), of ?y ?m] by simp
    then have "coalesced ?cs" using coalesced_busy[OF co(1), of k] coalesced_append by blast
    ultimately have "heap_blocks (take_block x k b h) ?cs"
      using d(4,5,6,7) b' bb y k(2) by (auto simp: heap_blocks_def lseg_append)
    then show thesis by (rule that) (use k True in simp_all)
  next
    case False
    let ?cs = "ps @ (x, n, False) # qs"
    have "take_block x k b h = h\<lparr>h_mem := (h_mem h)(x \<mapsto> b\<lparr>is_free := False\<rparr>), g_heap_used_size := g_heap_used_size h + n\<rparr>"
      using False wrap b'(2) bb by (simp add: take_block_def Let_def)
    moreover have "tiled (g_heap_start h) (g_heap_end h) ?cs" using t by (auto simp: tiled_append)
    moreover have "coalesced ((x, n, False) # qs)" using co(2) by (cases qs) auto
    then have "coalesced ?cs" using coalesced_busy[OF co(1), of n] coalesced_append by blast
    ultimately have "heap_blocks (take_block x k b h) ?cs"
      using d(4,5,6,7) b' bb k by (auto simp: heap_blocks_def lseg_append)
    then show thesis by (rule that) (use k in simp_all)
  qed
qed

lemma find_split:
  assumes "find P xs = Some y"
  obtains ps qs where "xs = ps @ y # qs" "P y" "\<forall>z \<in> set ps. \<not> P z"
proof -
  obtain i where i: "i < length xs" "P (xs ! i)" "y = xs ! i" "\<forall>j < i. \<not> P (xs ! j)" using assms by (auto simp: find_Some_iff)
  show thesis
  proof (rule that)
    show "xs = take i xs @ y # drop (Suc i) xs" using id_take_nth_drop[OF i(1)] i(3) by simp
    show "P y" using i by simp
    show "\<forall>z \<in> set (take i xs). \<not> P z" using i(1,4) by (auto simp: in_set_conv_nth)
  qed
qed

lemma kmalloc_spec:
  assumes h: "heap_blocks h bs"
  obtains p h' cs where "kmalloc sz h = Some (p, h')" "heap_blocks h' cs"
    "p = 0 \<Longrightarrow> cs = bs" "p = 0 \<Longrightarrow> sz = 0 \<or> sz > SIZE_MAX - 15 \<or> (\<forall>(x, n, f) \<in> set bs. f \<longrightarrow> n < aligned sz)"
    "p \<noteq> 0 \<Longrightarrow> \<exists>ps qs m. (p, m) \<in> set (live_of cs) \<and> live_of bs = ps @ qs \<and> live_of cs = ps @ (p, m) # qs \<and> sz \<le> m"
proof (cases "sz = 0 \<or> g_head h = 0 \<or> sz > SIZE_MAX - 15")
  case True
  have "bs = []" if "g_head h = 0" using h that by (cases bs) (auto simp: heap_blocks_def)
  then show thesis using True h by (intro that[of 0 "snd (the (kmalloc sz h))" bs]) (auto simp: kmalloc_def)
next
  case False
  then have ne: "bs \<noteq> []" using h by (auto simp: heap_blocks_def)
  note d = heap_blocksD[OF h ne]
  have w: "find_fit (h_mem h) (aligned sz) (g_head h) = Some (case find (\<lambda>(x, n, f). f \<and> aligned sz \<le> n) bs of None \<Rightarrow> 0 | Some b \<Rightarrow> fst b)"
    by (rule find_fit_spec[OF d(1)])
  show thesis
  proof (cases "find (\<lambda>(x, n, f). f \<and> aligned sz \<le> n) bs")
    case None
    then have "\<forall>(x, n, f) \<in> set bs. f \<longrightarrow> n < aligned sz" unfolding find_None_iff by (auto simp flip: not_le)
    then show thesis using False w None h
      by (intro that[of 0 "heap_say ''Heap: Out of memory'' h" bs]) (auto simp: kmalloc_def aligned_def)
  next
    case (Some y)
    obtain ps qs where sp: "bs = ps @ y # qs" "(\<lambda>(x, n, f). f \<and> aligned sz \<le> n) y" by (rule find_split[OF Some])
    obtain x n where y: "y = (x, n, True)" "aligned sz \<le> n" using sp(2) by (cases y) auto
    have bs: "bs = ps @ (x, n, True) # qs" using sp(1) y(1) by simp
    obtain b where b: "h_mem h x = Some b" "x \<noteq> 0" using d(1) bs by (auto simp: lseg_append)
    obtain m qs' where m: "heap_blocks (take_block x (aligned sz) b h) (ps @ (x, m, False) # qs')" "live_of qs' = live_of qs"
      "aligned sz \<le> m"
      by (rule take_block_spec[OF h[unfolded bs] y(2) _ _ b(1)]) (use aligned_props False in auto)
    have k: "kmalloc sz h = Some (x + HEADER, take_block x (aligned sz) b h)"
      using False w Some y(1) b by (simp add: kmalloc_def aligned_def Let_def)
    have "\<exists>us vs l. (x + HEADER, l) \<in> set (live_of (ps @ (x, m, False) # qs')) \<and> live_of bs = us @ vs
      \<and> live_of (ps @ (x, m, False) # qs') = us @ (x + HEADER, l) # vs \<and> sz \<le> l"
      using m(2,3) aligned_props(2)[of sz] bs by (intro exI[of _ "live_of ps"] exI[of _ "live_of qs"] exI[of _ m]) simp
    then show thesis by (intro that[OF k m(1)]) simp_all
  qed
qed

lemma release_mem_spec:
  assumes l: "blocks mem a (ps @ (x, n, f) # qs)" and d: "distinct (map fst (ps @ (x, n, f) # qs))"
    and t: "tiled s e (ps @ (x, n, f) # qs)" and b: "mem x = Some b"
  obtains cs where "blocks (release_mem mem x b) a cs" "tiled s e cs" "distinct (map fst cs)" "live_of cs = live_of ps @ live_of qs"
proof -
  obtain b' where b': "mem x = Some b'" "hb_size b' = n" "is_free b' = f" "x \<noteq> 0" "lseg mem a ps x" "blocks mem (hb_next b') qs"
    "x \<notin> fst ` set ps" "x \<notin> fst ` set qs" by (rule lseg_at[OF l d])
  have bb: "b' = b" using b b'(1) by simp
  have t1: "tiled s e (ps @ (x, n, True) # qs)" using t by (simp add: tiled_append)
  have l1: "blocks (mem(x \<mapsto> b\<lparr>is_free := True\<rparr>)) a (ps @ (x, n, True) # qs)" using b' bb by (auto simp: lseg_append)
  show thesis
  proof (cases "\<exists>y m qs'. qs = (y, m, True) # qs'")
    case True
    then obtain y m qs' where qs: "qs = (y, m, True) # qs'" by blast
    obtain c where c: "hb_next b = y" "y \<noteq> 0" "mem y = Some c" "hb_size c = m" "is_free c" "blocks mem (hb_next c) qs'" using b'(6) bb qs by auto
    have ne: "y \<noteq> x" "x \<notin> fst ` set qs'" using b'(8) qs by auto
    let ?cs = "ps @ (x, n + HEADER + m, True) # qs'"
    have "blocks (release_mem mem x b) a ?cs"
      using b' bb c ne by (auto simp: release_mem_def Let_def merge_next_def lseg_append)
    moreover have "tiled s e ?cs" using t1 qs by (auto simp: tiled_append add.assoc)
    ultimately show thesis using tiled_distinct[of s e ?cs] qs by (intro that[of ?cs]) auto
  next
    case False
    have "release_mem mem x b = mem(x \<mapsto> b\<lparr>is_free := True\<rparr>)"
      using b'(6,8) bb False by (cases qs) (auto simp: release_mem_def Let_def)
    then show thesis using l1 t1 d by (intro that[of "ps @ (x, n, True) # qs"]) auto
  qed
qed

lemma kfree_spec:
  assumes h: "heap_blocks h bs"
  obtains h' cs where "kfree ptr h = Some h'" "heap_blocks h' cs" "live_of cs = filter (\<lambda>e. fst e \<noteq> ptr) (live_of bs)"
    "ptr \<notin> fst ` set (live_of bs) \<Longrightarrow> cs = bs"
proof (cases "ptr \<in> fst ` set (live_of bs)")
  case False
  have fl: "filter (\<lambda>e. fst e \<noteq> ptr) (live_of bs) = live_of bs" using False by (auto simp: filter_id_conv)
  have w: "find_payload (h_mem h) ptr (g_head h) = Some (case find (\<lambda>b. fst b + HEADER = ptr) bs of None \<Rightarrow> 0 | Some b \<Rightarrow> fst b)"
    using h by (intro find_payload_spec) (simp add: heap_blocks_def)
  have "\<exists>msg. kfree ptr h = Some h \<or> kfree ptr h = Some (heap_say msg h)"
  proof (cases "find (\<lambda>b. fst b + HEADER = ptr) bs")
    case None
    then show ?thesis using w by (auto simp: kfree_def)
  next
    case (Some y)
    obtain ps qs where sp: "bs = ps @ y # qs" "fst y + HEADER = ptr" by (rule find_split[OF Some])
    obtain x n f where y: "y = (x, n, f)" by (metis prod_cases3)
    have f: f using False sp y by (cases f) auto
    obtain b where "h_mem h x = Some b" "x \<noteq> 0" "is_free b" using h sp y f by (auto simp: heap_blocks_def lseg_append)
    then show ?thesis using w Some y by (auto simp: kfree_def)
  qed
  then show thesis using h fl by (auto intro: that)
next
  case True
  then have ne: "bs \<noteq> []" by auto
  note d = heap_blocksD[OF h ne]
  obtain ps x n qs where bs: "bs = ps @ (x, n, False) # qs" and ptr: "ptr = x + HEADER"
  proof -
    obtain e where "e \<in> set (live_of bs)" "fst e = ptr" using True by blast
    then obtain x n where "(x, n, False) \<in> set bs" "ptr = x + HEADER" by (auto simp: live_of_def)
    then show thesis using split_list[of "(x, n, False)" bs] that by blast
  qed
  obtain b where b: "h_mem h x = Some b" "hb_size b = n" "\<not> is_free b" "x \<noteq> 0"
    by (rule lseg_at[OF d(1)[unfolded bs] d(8)[unfolded bs]]) auto
  obtain ds where ds: "blocks (release_mem (h_mem h) x b) (g_head h) ds" "tiled (g_heap_start h) (g_heap_end h) ds"
    "distinct (map fst ds)" "live_of ds = live_of ps @ live_of qs"
    by (rule release_mem_spec[OF d(1)[unfolded bs] d(8)[unfolded bs] d(2)[unfolded bs] b(1)])
  obtain mem' where mem': "merge_pass (release_mem (h_mem h) x b) (g_head h) = Some mem'" "blocks mem' (g_head h) (merge ds)"
    using merge_pass_spec[OF ds(1,3)] by blast
  have u: "n \<le> g_heap_used_size h" "g_heap_used_size h - n = sum_list (map snd (live_of (merge ds)))" using d(6) bs ds(4) by auto
  have m: "0 < n" "g_heap_start h \<le> x" "x + HEADER + n \<le> g_heap_end h" "x mod 16 = 0"
    using d(7) bs tiled_member[OF d(2), of x n False] by auto
  have fp: "find_payload (h_mem h) ptr (g_head h) = Some x"
  proof -
    have "find (\<lambda>b. fst b + HEADER = ptr) bs = Some (x, n, False)" using d(8) unfolding bs ptr by (induction ps) auto
    then show ?thesis using find_payload_spec[OF d(1), of ptr] by simp
  qed
  have k: "kfree ptr h = Some (h\<lparr>g_heap_used_size := g_heap_used_size h - n, h_mem := mem'\<rparr>)"
  proof -
    have "\<not> (ptr < g_heap_start h + HEADER \<or> g_heap_end h \<le> ptr \<or> ptr mod 16 \<noteq> 0)" using m ptr by auto
    then show ?thesis using fp b u(1) ptr mem'(1) by (simp add: kfree_def Let_def)
  qed
  have fl: "live_of (merge ds) = filter (\<lambda>e. fst e \<noteq> ptr) (live_of bs)"
  proof -
    have "ptr \<notin> fst ` set (live_of ps)" "ptr \<notin> fst ` set (live_of qs)" using d(8) bs ptr by (force simp: live_of_def)+
    then have "filter (\<lambda>e. fst e \<noteq> ptr) (live_of ps) = live_of ps" "filter (\<lambda>e. fst e \<noteq> ptr) (live_of qs) = live_of qs"
      by (auto simp: filter_id_conv)
    then show ?thesis using ds(4) bs ptr by simp
  qed
  have "\<forall>(p, k) \<in> set (live_of (merge ds)). 0 < k" using d(7) unfolding fl by auto
  moreover have "merge ds \<noteq> []" using merge_tiled[OF ds(2)] m by auto
  ultimately have "heap_blocks (h\<lparr>g_heap_used_size := g_heap_used_size h - n, h_mem := mem'\<rparr>) (merge ds)"
    using mem'(2) u(2) d(4,5) merge_tiled[OF ds(2)] merge_coalesced[of ds] ds(2) by (auto simp: heap_blocks_def)
  then show thesis by (rule that[OF k _ fl]) (use True in blast)
qed

section \<open>The invariant and the live allocations\<close>

lemma heap_blocks_unique: "heap_blocks h bs \<Longrightarrow> heap_blocks h cs \<Longrightarrow> bs = cs"
  unfolding heap_blocks_def using lseg_unique by blast

lemma heap_live_eq: "heap_blocks h bs \<Longrightarrow> heap_live h = set (live_of bs)"
  unfolding heap_live_def using heap_blocks_unique by blast

lemma tiled_disjoint:
  "tiled a e bs \<Longrightarrow> (p, j) \<in> set (live_of bs) \<Longrightarrow> (q, k) \<in> set (live_of bs) \<Longrightarrow> (p, j) \<noteq> (q, k) \<Longrightarrow> p + j \<le> q \<or> q + k \<le> p"
proof (induction a e bs rule: tiled.induct)
  case (2 a e x n f bs)
  have "x + HEADER + n \<le> y" if "(y, m, g) \<in> set bs" for y m g using 2(2) tiled_member[of "x + HEADER + n" e bs y m g] that by simp
  then have "x + HEADER + n \<le> r" if "(r, l) \<in> set (live_of bs)" for r l using that by (fastforce simp: live_of_def)
  then show ?case using 2 by (auto split: if_splits)
qed simp

lemma live_inside:
  assumes "heap_blocks h bs" and "(p, k) \<in> set (live_of bs)"
  shows "0 < k \<and> p mod 16 = 0 \<and> g_heap_start h + HEADER \<le> p \<and> p + k \<le> g_heap_end h"
proof -
  have ne: "bs \<noteq> []" using assms(2) by auto
  obtain x where x: "(x, k, False) \<in> set bs" "p = x + HEADER" using assms(2) by (auto simp: live_of_def)
  show ?thesis using tiled_member[OF heap_blocksD(2)[OF assms(1) ne] x(1)] x(2) heap_blocksD(7)[OF assms(1) ne] assms(2) by auto
qed

lemma tiled_sizes:
  "tiled a e bs \<Longrightarrow> a + HEADER * length bs + sum_list (map snd (live_of bs)) + sum_list (map (\<lambda>(x, n, f). if f then n else 0) bs) = e"
  by (induction a e bs rule: tiled.induct) auto

text \<open>Free blocks lie between blocks in use.\<close>

lemma coalesced_length: "coalesced bs \<Longrightarrow> length bs \<le> 2 * length (live_of bs) + (if bs \<noteq> [] \<and> snd (snd (hd bs)) then 1 else 0)"
proof (induction bs rule: coalesced.induct)
  case (1 x n f y m g bs)
  then show ?case by (cases f; cases g) auto
qed auto

lemma heap_init_inv:
  assumes "0 < start" and "start + len < 2 ^ 64"
  shows "heap_inv (heap_init start len h) \<and> heap_live (heap_init start len h) = {}"
proof -
  define adj where "adj = (if start mod 16 \<noteq> 0 then 16 - start mod 16 else 0)"
  define h0 where "h0 = h\<lparr>g_head := 0, g_heap_total_size := 0, g_heap_used_size := 0, g_heap_start := 0, g_heap_end := 0\<rparr>"
  define b where "b = \<lparr>hb_size = len - adj - HEADER, is_free = True, hb_next = 0\<rparr>"
  have al: "(start + adj) mod 16 = 0" unfolding adj_def by presburger
  have hi: "heap_init start len h =
      (if start mod 16 \<noteq> 0 \<and> len \<le> adj then h0
       else if len - adj < HEADER then heap_say ''Heap: Too small to initialize'' h0
       else heap_say ''Heap: Initialized (16-byte aligned)''
              (h0\<lparr>h_mem := (h_mem h0)(start + adj \<mapsto> b), g_head := start + adj, g_heap_total_size := len - adj,
                  g_heap_start := start + adj, g_heap_end := start + adj + (len - adj)\<rparr>))"
    unfolding heap_init_def Let_def adj_def h0_def b_def by (rule refl)
  have "heap_blocks (heap_init start len h) [] \<or> heap_blocks (heap_init start len h) [(start + adj, len - adj - HEADER, True)]"
  proof (cases "start mod 16 \<noteq> 0 \<and> len \<le> adj \<or> len - adj < HEADER")
    case True
    have "heap_blocks h0 []" by (simp add: heap_blocks_def h0_def)
    then have "heap_blocks (heap_init start len h) []" using True unfolding hi by (elim disjE) simp_all
    then show ?thesis ..
  next
    case False
    then have "start + adj + (len - adj) < 2 ^ 64" "HEADER \<le> len - adj" using assms(2) by auto
    then have "heap_blocks (heap_init start len h) [(start + adj, len - adj - HEADER, True)]"
      using False al assms(1) unfolding hi by (auto simp: heap_blocks_def h0_def b_def heap_say_def)
    then show ?thesis ..
  qed
  then show ?thesis by (auto simp: heap_inv_def heap_live_eq)
qed

lemma kernel_heap_ok: "heap_inv kernel_heap" "heap_live kernel_heap = {}"
  unfolding kernel_heap_def using heap_init_inv[of 8388608 16777216 heap_boot] by auto

section \<open>The allocator's contract\<close>

locale allocator =
  fixes alloc :: "nat \<Rightarrow> 's \<Rightarrow> (nat \<times> 's) option" and release :: "nat \<Rightarrow> 's \<Rightarrow> 's option"
    and ok :: "'s \<Rightarrow> bool" and live :: "'s \<Rightarrow> (nat \<times> nat) set"
  assumes alloc_total: "ok s \<Longrightarrow> \<exists>p s'. alloc n s = Some (p, s') \<and> ok s' \<and>
        (if p = 0 then live s' = live s else \<exists>k. n \<le> k \<and> (p, k) \<notin> live s \<and> live s' = insert (p, k) (live s))"
    and release_total: "ok s \<Longrightarrow> \<exists>s'. release p s = Some s' \<and> ok s' \<and> live s' = {e \<in> live s. fst e \<noteq> p}"
    and live_disjoint: "ok s \<Longrightarrow> (p, j) \<in> live s \<Longrightarrow> (q, k) \<in> live s \<Longrightarrow> (p, j) \<noteq> (q, k) \<Longrightarrow> p + j \<le> q \<or> q + k \<le> p"
begin

text \<open>A new allocation does not overlap any live one.\<close>

lemma alloc_disjoint:
  assumes "ok s" and "alloc n s = Some (p, s')" and "p \<noteq> 0" and "(q, k) \<in> live s"
  shows "p + n \<le> q \<or> q + k \<le> p"
proof -
  obtain l where l: "n \<le> l" "(p, l) \<notin> live s" "live s' = insert (p, l) (live s)" "ok s'"
    using alloc_total[OF assms(1), of n] assms(2,3) by auto
  then have "p + l \<le> q \<or> q + k \<le> p" using live_disjoint[OF l(4), of p l q k] assms(4) by auto
  then show ?thesis using l(1) by auto
qed

end

lemma live_distinct:
  assumes "heap_blocks h bs"
  shows "distinct (live_of bs)"
proof (cases "bs = []")
  case False
  have "distinct (map fst (filter (\<lambda>(x, n, f). \<not> f) bs))" using heap_blocksD(8)[OF assms False] distinct_map_filter by blast
  then show ?thesis unfolding live_of_def by (auto simp: distinct_map inj_on_def)
qed simp

interpretation kheap: allocator kmalloc kfree heap_inv heap_live
proof
  fix h n
  assume "heap_inv h"
  then obtain bs where bs: "heap_blocks h bs" by (auto simp: heap_inv_def)
  show "\<exists>p h'. kmalloc n h = Some (p, h') \<and> heap_inv h' \<and>
        (if p = 0 then heap_live h' = heap_live h else \<exists>k. n \<le> k \<and> (p, k) \<notin> heap_live h \<and> heap_live h' = insert (p, k) (heap_live h))"
  proof (rule kmalloc_spec[OF bs, of n])
    fix p h' cs
    assume k: "kmalloc n h = Some (p, h')" "heap_blocks h' cs" "p = 0 \<Longrightarrow> cs = bs"
      "p \<noteq> 0 \<Longrightarrow> \<exists>ps qs m. (p, m) \<in> set (live_of cs) \<and> live_of bs = ps @ qs \<and> live_of cs = ps @ (p, m) # qs \<and> n \<le> m"
    show ?thesis
    proof (cases "p = 0")
      case True
      then show ?thesis using k(1-3) heap_live_eq[OF bs] heap_live_eq[OF k(2)] by (auto simp: heap_inv_def)
    next
      case False
      then obtain ps qs m where m: "live_of bs = ps @ qs" "live_of cs = ps @ (p, m) # qs" "n \<le> m" using k(4) by blast
      have "distinct (live_of cs)" using live_distinct[OF k(2)] .
      then show ?thesis using k(1,2) m False heap_live_eq[OF bs] heap_live_eq[OF k(2)] by (auto simp: heap_inv_def)
    qed
  qed
next
  fix h p
  assume "heap_inv h"
  then obtain bs where bs: "heap_blocks h bs" by (auto simp: heap_inv_def)
  obtain h' cs where "kfree p h = Some h'" "heap_blocks h' cs" "live_of cs = filter (\<lambda>e. fst e \<noteq> p) (live_of bs)"
    by (rule kfree_spec[OF bs])
  then show "\<exists>h'. kfree p h = Some h' \<and> heap_inv h' \<and> heap_live h' = {e \<in> heap_live h. fst e \<noteq> p}"
    using heap_live_eq[OF bs] by (auto simp: heap_inv_def heap_live_eq)
next
  fix h p j q k
  assume "heap_inv h" and e: "(p, j) \<in> heap_live h" "(q, k) \<in> heap_live h" "(p, j) \<noteq> (q, k)"
  then obtain bs where bs: "heap_blocks h bs" by (auto simp: heap_inv_def)
  then have "bs \<noteq> []" using e(1) heap_live_eq[OF bs] by auto
  then show "p + j \<le> q \<or> q + k \<le> p"
    using tiled_disjoint[OF heap_blocksD(2)[OF bs]] e heap_live_eq[OF bs] by auto
qed

section \<open>Properties\<close>

text \<open>C14: on a well-formed heap every allocation request returns, and keeps the heap
  well formed.  It either fails without changing the live allocations, and then only for a zero
  size, an overflowing size, an uninitialised heap or the lack of a free block of the rounded size;
  or the pointer is 16-byte aligned, the requested bytes lie inside the heap and overlap no live
  allocation.\<close>

theorem kmalloc_safe:
  assumes "heap_inv h"
  shows "\<exists>p h'. kmalloc sz h = Some (p, h') \<and> heap_inv h' \<and>
    (if p = 0
     then heap_live h' = heap_live h \<and>
       (sz = 0 \<or> g_head h = 0 \<or> sz > SIZE_MAX - 15 \<or>
        (\<forall>bs x n. heap_blocks h bs \<and> (x, n, True) \<in> set bs \<longrightarrow> n < aligned sz))
     else p mod 16 = 0 \<and> g_heap_start h' + HEADER \<le> p \<and> p + sz \<le> g_heap_end h'
       \<and> (\<forall>q k. (q, k) \<in> heap_live h \<longrightarrow> p + sz \<le> q \<or> q + k \<le> p)
       \<and> (\<exists>k \<ge> sz. heap_live h' = insert (p, k) (heap_live h)))"
proof -
  obtain p h' where k: "kmalloc sz h = Some (p, h')" "heap_inv h'"
    "if p = 0 then heap_live h' = heap_live h else \<exists>k. sz \<le> k \<and> (p, k) \<notin> heap_live h \<and> heap_live h' = insert (p, k) (heap_live h)"
    using kheap.alloc_total[OF assms] by blast
  show ?thesis
  proof (cases "p = 0")
    case True
    obtain bs where bs: "heap_blocks h bs" using assms by (auto simp: heap_inv_def)
    have "sz = 0 \<or> g_head h = 0 \<or> sz > SIZE_MAX - 15 \<or> (\<forall>(x, n, f) \<in> set bs. f \<longrightarrow> n < aligned sz)"
      by (rule kmalloc_spec[OF bs, of sz]) (use k(1) True in auto)
    then have "sz = 0 \<or> g_head h = 0 \<or> sz > SIZE_MAX - 15 \<or>
        (\<forall>bs x n. heap_blocks h bs \<and> (x, n, True) \<in> set bs \<longrightarrow> n < aligned sz)"
      using heap_blocks_unique[OF bs] by (elim disjE) auto
    then show ?thesis using k True by auto
  next
    case False
    then obtain m where m: "sz \<le> m" "heap_live h' = insert (p, m) (heap_live h)" using k(3) by auto
    obtain cs where cs: "heap_blocks h' cs" using k(2) by (auto simp: heap_inv_def)
    have "(p, m) \<in> set (live_of cs)" using m(2) heap_live_eq[OF cs] by auto
    then show ?thesis using live_inside[OF cs] m k False kheap.alloc_disjoint[OF assms k(1) False] by fastforce
  qed
qed

theorem kmalloc_safe_witness:
  "\<exists>p h'. kmalloc 100 kernel_heap = Some (p, h') \<and> heap_inv h'"
  using kmalloc_safe[OF kernel_heap_ok(1), of 100] by blast

text \<open>C15: on a well-formed heap a release with any pointer whatever returns and keeps the
  heap well formed.  It removes exactly the live allocation at that pointer; a pointer that is no
  live allocation (a bad, interior or already released one) leaves blocks and accounting unchanged.\<close>

theorem kfree_exact:
  assumes "heap_inv h"
  shows "\<exists>h'. kfree ptr h = Some h' \<and> heap_inv h' \<and> heap_live h' = {e \<in> heap_live h. fst e \<noteq> ptr}
    \<and> (ptr \<notin> fst ` heap_live h \<longrightarrow> (\<forall>bs. heap_blocks h' bs = heap_blocks h bs))"
proof -
  obtain bs where bs: "heap_blocks h bs" using assms by (auto simp: heap_inv_def)
  obtain h' cs where k: "kfree ptr h = Some h'" "heap_blocks h' cs" "live_of cs = filter (\<lambda>e. fst e \<noteq> ptr) (live_of bs)"
    "ptr \<notin> fst ` set (live_of bs) \<Longrightarrow> cs = bs" by (rule kfree_spec[OF bs]) blast
  have "ptr \<notin> fst ` heap_live h \<longrightarrow> (\<forall>xs. heap_blocks h' xs = heap_blocks h xs)"
    using k(2,4) bs heap_live_eq[OF bs] heap_blocks_unique by metis
  then show ?thesis using k(1-3) heap_live_eq[OF bs] heap_live_eq[OF k(2)] by (auto simp: heap_inv_def)
qed

theorem kfree_exact_witness: "\<exists>h'. kfree 5000 kernel_heap = Some h' \<and> heap_inv h' \<and> heap_live h' = {}"
  using kfree_exact[OF kernel_heap_ok(1), of 5000] unfolding kernel_heap_ok(2) by blast

text \<open>C17: the byte counts the heap reports are exact.  What is in use is the sum of the
  live allocations; what is in use, what is free and one header for each block of the list add up
  to the managed size; and there are at most twice as many blocks, and one, as live allocations, so
  the headers and the free space are bounded by what is live.  Once every allocation has been
  released the free space is the whole heap but one header: nothing is lost to fragmentation.\<close>

theorem heap_accounting:
  assumes "heap_blocks h bs" and "bs \<noteq> []"
  shows "\<exists>free. heap_free_space h = Some free \<and> heap_used_space h = (\<Sum>(p, k) \<in> heap_live h. k)
    \<and> heap_used_space h + free + HEADER * length bs = g_heap_total_size h
    \<and> length bs \<le> 2 * card (heap_live h) + 1
    \<and> (heap_live h = {} \<longrightarrow> heap_used_space h = 0 \<and> free = g_heap_total_size h - HEADER)"
proof -
  note d = heap_blocksD[OF assms]
  let ?free = "sum_list (map (\<lambda>(x, n, f). if f then n else 0) bs)"
  have f: "heap_free_space h = Some ?free" using free_walk_spec[OF d(1), of 0] by (simp add: heap_free_space_def)
  have eq: "heap_used_space h + ?free + HEADER * length bs = g_heap_total_size h"
    using tiled_sizes[OF d(2)] d(5,6) by (simp add: heap_used_space_def)
  have l: "heap_live h = set (live_of bs)" "distinct (live_of bs)"
    using heap_live_eq[OF assms(1)] live_distinct[OF assms(1)] by simp_all
  have u: "heap_used_space h = (\<Sum>(p, k) \<in> heap_live h. k)"
    using d(6) sum_list_distinct_conv_sum_set[OF l(2), of snd] by (simp add: l(1) heap_used_space_def split_def)
  have n: "length bs \<le> 2 * card (heap_live h) + 1"
    using coalesced_length[OF d(3)] distinct_card[OF l(2)] by (simp add: l(1) split: if_splits)
  have "length bs = 1 \<and> heap_used_space h = 0" if "heap_live h = {}"
    using that n u assms(2) by (cases bs) auto
  then show ?thesis using f eq u n by auto
qed

theorem heap_accounting_witness:
  "heap_blocks kernel_heap [(8388608, 16777168, True)] \<and> heap_free_space kernel_heap = Some 16777168"
proof -
  have "g_heap_total_size kernel_heap = 16777216" "heap_blocks kernel_heap [(8388608, 16777168, True)]"
    by (simp_all add: kernel_heap_def heap_init_def heap_say_def Let_def heap_blocks_def)
  then show ?thesis using heap_accounting[of kernel_heap "[(8388608, 16777168, True)]"] kernel_heap_ok(2) by auto
qed

end
