(* ===== verification/Checked.thy ===== *)
theory Checked
  imports Prelude "HOL-Library.Monad_Syntax"
begin

text \<open>
  Checked loads: a read of a byte buffer is a value of \<open>option\<close>, and a read outside the
  buffer has none.  Parsers of untrusted data are written over these, so that a parser that
  returns a value for every input has been shown never to read outside its buffer.
\<close>

section \<open>Definitions\<close>

definition load8 :: "bytes \<Rightarrow> nat \<Rightarrow> u8 option" where
  "load8 b i = (if i < length b then Some (b ! i) else None)"

definition load_bytes :: "bytes \<Rightarrow> nat \<Rightarrow> nat \<Rightarrow> bytes option" where
  "load_bytes b i n = (if i + n \<le> length b then Some (take n (drop i b)) else None)"

definition read_u16_le :: "bytes \<Rightarrow> nat \<Rightarrow> u16 option" where
  "read_u16_le b i = do {
     b0 \<leftarrow> load8 b i; b1 \<leftarrow> load8 b (i + 1);
     Some (ucast b0 OR push_bit 8 (ucast b1)) }"

definition read_u32_le :: "bytes \<Rightarrow> nat \<Rightarrow> u32 option" where
  "read_u32_le b i = do {
     b0 \<leftarrow> load8 b i; b1 \<leftarrow> load8 b (i + 1); b2 \<leftarrow> load8 b (i + 2); b3 \<leftarrow> load8 b (i + 3);
     Some (ucast b0 OR push_bit 8 (ucast b1) OR push_bit 16 (ucast b2) OR push_bit 24 (ucast b3)) }"

definition read_u64_le :: "bytes \<Rightarrow> nat \<Rightarrow> u64 option" where
  "read_u64_le b i = do {
     lo \<leftarrow> read_u32_le b i; hi \<leftarrow> read_u32_le b (i + 4);
     Some (ucast lo OR push_bit 32 (ucast hi)) }"

section \<open>Rounding by a mask\<close>

lemma unat_and_not_mask: "unat (x AND NOT (mask n) :: 'a::len word) = unat x div 2 ^ n * 2 ^ n"
proof -
  have "x AND NOT (mask n) = push_bit n (drop_bit n x)"
    by (rule bit_word_eqI) (auto simp: bit_simps)
  moreover have "unat x div 2 ^ n * 2 ^ n < 2 ^ LENGTH('a)"
    by (rule le_less_trans[OF _ unsigned_less[of x]]) (simp add: div_times_less_eq_dividend)
  moreover have "unat (push_bit n (drop_bit n x)) = take_bit LENGTH('a) (unat x div 2 ^ n * 2 ^ n)"
    by (simp only: unsigned_push_bit_eq unat_drop_bit) (simp only: push_bit_eq_mult drop_bit_eq_div)
  ultimately show ?thesis by (simp add: take_bit_nat_eq_self)
qed

lemma unat_and_mask: "unat (x AND mask n :: 'a::len word) = unat x mod 2 ^ n"
  by (simp only: unsigned_take_bit_eq flip: take_bit_eq_mask) (simp only: take_bit_eq_mod)

section \<open>Loads inside the buffer have a value\<close>

named_theorems load_simps \<open>loads inside the buffer\<close>

lemma load8_in [load_simps]: "i < length b \<Longrightarrow> load8 b i = Some (b ! i)"
  by (simp add: load8_def)

lemma load8_SomeD: "load8 b i = Some x \<Longrightarrow> i < length b \<and> x = b ! i"
  by (auto simp: load8_def split: if_splits)

lemma load_bytes_in [load_simps]: "i + n \<le> length b \<Longrightarrow> load_bytes b i n = Some (take n (drop i b))"
  by (simp add: load_bytes_def)

lemma read_u16_le_in: "i + 2 \<le> length b \<Longrightarrow> \<exists>v. read_u16_le b i = Some v"
  by (simp add: read_u16_le_def load8_def)

lemma read_u32_le_in: "i + 4 \<le> length b \<Longrightarrow> \<exists>v. read_u32_le b i = Some v"
  by (simp add: read_u32_le_def load8_def)

lemma read_u64_le_in: "i + 8 \<le> length b \<Longrightarrow> \<exists>v. read_u64_le b i = Some v"
  using read_u32_le_in[of i b] read_u32_le_in[of "i + 4" b] by (auto simp: read_u64_le_def)

text \<open>Folding a sum into 16 bits makes it smaller.\<close>

lemma halves_fold:
  assumes "drop_bit 16 acc \<noteq> (0 :: 'a::len word)"
  shows "unat ((acc AND 0xffff) + drop_bit 16 acc) = unat acc mod 65536 + unat acc div 65536"
    and "unat ((acc AND 0xffff) + drop_bit 16 acc) < unat acc"
proof -
  let ?s = "unat acc"
  have m: "(0xffff :: 'a word) = mask 16" by (simp add: mask_eq_exp_minus_1)
  have a: "unat (acc AND 0xffff) = ?s mod 65536" unfolding m unat_and_mask by simp
  have d: "unat (drop_bit 16 acc) = ?s div 65536" unfolding unat_drop_bit_eq by (simp add: drop_bit_eq_div)
  have "?s div 65536 \<noteq> 0" using assms d by (metis unat_eq_zero)
  moreover have "?s = ?s div 65536 * 65536 + ?s mod 65536" by simp
  ultimately have less: "?s mod 65536 + ?s div 65536 < ?s" by linarith
  then have "?s mod 65536 + ?s div 65536 < 2 ^ LENGTH('a)" using unsigned_less[of acc, where 'a = nat] by linarith
  then show eq: "unat ((acc AND 0xffff) + drop_bit 16 acc) = ?s mod 65536 + ?s div 65536"
    unfolding unat_word_ariths a d by simp
  show "unat ((acc AND 0xffff) + drop_bit 16 acc) < ?s" using less eq by simp
qed

end
