(* ===== verification/Elf_Loader.thy ===== *)
theory Elf_Loader
  imports Checked
begin

text \<open>
  The ELF loader of \<open>src/kernel/elf64_loader.c\<close>: inspection of an untrusted image into a load
  plan, and the copy of the planned segments into a contiguous destination.  Field values are
  64-bit words with the wrap-around of the source; reads of the image are checked.  The image
  is the list of its \<open>image_size\<close> bytes.
\<close>

section \<open>Definitions\<close>

record elf64_load_segment =
  ls_virtual_address :: u64
  ls_memory_size :: u64
  ls_file_size :: u64
  ls_file_offset :: u64
  ls_alignment :: u64
  ls_flags :: u32

record elf64_image_plan =
  entry_point :: u64
  virtual_base :: u64
  virtual_end :: u64
  image_span :: nat
  segment_count :: nat
  segments :: "elf64_load_segment list"

datatype elf64_load_result =
    ELF64_LOAD_OK
  | ELF64_LOAD_INVALID_ARGUMENT
  | ELF64_LOAD_TRUNCATED
  | ELF64_LOAD_BAD_MAGIC
  | ELF64_LOAD_UNSUPPORTED_FORMAT
  | ELF64_LOAD_UNSUPPORTED_ARCHITECTURE
  | ELF64_LOAD_UNSUPPORTED_FEATURE
  | ELF64_LOAD_TOO_MANY_HEADERS
  | ELF64_LOAD_TOO_MANY_SEGMENTS
  | ELF64_LOAD_INVALID_SEGMENT
  | ELF64_LOAD_SEGMENT_OUT_OF_RANGE
  | ELF64_LOAD_SEGMENT_OVERLAP
  | ELF64_LOAD_WRITABLE_CODE
  | ELF64_LOAD_INVALID_ENTRY_POINT
  | ELF64_LOAD_IMAGE_TOO_LARGE
  | ELF64_LOAD_DESTINATION_TOO_SMALL
  | ELF64_LOAD_BUFFER_OVERLAP

abbreviation ELF64_LOADER_MAX_PROGRAM_HEADERS :: u16 where "ELF64_LOADER_MAX_PROGRAM_HEADERS \<equiv> 32"
abbreviation ELF64_LOADER_MAX_LOAD_SEGMENTS :: nat where "ELF64_LOADER_MAX_LOAD_SEGMENTS \<equiv> 16"
abbreviation ELF64_LOADER_MAX_IMAGE_SPAN :: u64 where "ELF64_LOADER_MAX_IMAGE_SPAN \<equiv> 16777216"
abbreviation ELF64_LOADER_MIN_USER_VADDR :: u64 where "ELF64_LOADER_MIN_USER_VADDR \<equiv> 0x0000010000000000"
abbreviation ELF64_LOADER_MAX_USER_VADDR :: u64 where "ELF64_LOADER_MAX_USER_VADDR \<equiv> 0x000001ffffffffff"
abbreviation ELF64_SEGMENT_EXECUTE :: u32 where "ELF64_SEGMENT_EXECUTE \<equiv> 1"
abbreviation ELF64_SEGMENT_WRITE :: u32 where "ELF64_SEGMENT_WRITE \<equiv> 2"
abbreviation ELF64_SEGMENT_READ :: u32 where "ELF64_SEGMENT_READ \<equiv> 4"

definition range_fits_size :: "u64 \<Rightarrow> u64 \<Rightarrow> u64 \<Rightarrow> bool" where
  "range_fits_size offset len container_size \<longleftrightarrow> offset \<le> container_size \<and> len \<le> container_size - offset"

definition is_power_of_two :: "u64 \<Rightarrow> bool" where
  "is_power_of_two value \<longleftrightarrow> value \<noteq> 0 \<and> value AND (value - 1) = 0"

definition virtual_ranges_overlap :: "u64 \<Rightarrow> u64 \<Rightarrow> u64 \<Rightarrow> u64 \<Rightarrow> bool" where
  "virtual_ranges_overlap first_start first_end second_start second_end \<longleftrightarrow>
     first_start < second_end \<and> second_start < first_end"

definition host_ranges_overlap :: "u64 \<Rightarrow> u64 \<Rightarrow> u64 \<Rightarrow> u64 \<Rightarrow> bool" where
  "host_ranges_overlap first_start first_size second_start second_size \<longleftrightarrow>
     (if first_size = 0 \<or> second_size = 0 then False
      else if first_start > - 1 - first_size \<or> second_start > - 1 - second_size then True
      else first_start < second_start + second_size \<and> second_start < first_start + first_size)"

text \<open>The page rounding of \<open>inspect_load_segment\<close>, for the new and for an existing segment.\<close>

definition page_start :: "u64 \<Rightarrow> u64" where
  "page_start a = a AND NOT (4096 - 1)"

definition page_end :: "u64 \<Rightarrow> u64" where
  "page_end a = (a + 4096 - 1) AND NOT (4096 - 1)"

text \<open>The loop of \<open>inspect_load_segment\<close> over the segments planned so far.\<close>

fun segment_conflict :: "u64 \<Rightarrow> u64 \<Rightarrow> u32 \<Rightarrow> elf64_load_segment list \<Rightarrow> elf64_load_result" where
  "segment_conflict virtual_address virt_end fl [] = ELF64_LOAD_OK"
| "segment_conflict virtual_address virt_end fl (existing # rest) =
     (let existing_end = ls_virtual_address existing + ls_memory_size existing;
          combined_flags = fl OR ls_flags existing
      in if virtual_ranges_overlap virtual_address virt_end (ls_virtual_address existing) existing_end
         then ELF64_LOAD_SEGMENT_OVERLAP
         else if virtual_ranges_overlap (page_start virtual_address) (page_end virt_end)
                   (page_start (ls_virtual_address existing)) (page_end existing_end)
                 \<and> combined_flags AND ELF64_SEGMENT_WRITE \<noteq> 0
                 \<and> combined_flags AND ELF64_SEGMENT_EXECUTE \<noteq> 0
         then ELF64_LOAD_WRITABLE_CODE
         else segment_conflict virtual_address virt_end fl rest)"

text \<open>The checks on one \<open>PT_LOAD\<close> header, before the loop over the planned segments.\<close>

definition check_segment :: "elf64_load_segment \<Rightarrow> u64 \<Rightarrow> elf64_load_result" where
  "check_segment s image_size =
     (if ls_flags s AND NOT (ELF64_SEGMENT_READ OR ELF64_SEGMENT_WRITE OR ELF64_SEGMENT_EXECUTE) \<noteq> 0
         \<or> ls_memory_size s = 0 \<or> ls_file_size s > ls_memory_size s
      then ELF64_LOAD_INVALID_SEGMENT
      else if ls_flags s AND ELF64_SEGMENT_WRITE \<noteq> 0 \<and> ls_flags s AND ELF64_SEGMENT_EXECUTE \<noteq> 0
      then ELF64_LOAD_WRITABLE_CODE
      else if \<not> range_fits_size (ls_file_offset s) (ls_file_size s) image_size
      then ELF64_LOAD_SEGMENT_OUT_OF_RANGE
      else if ls_virtual_address s < ELF64_LOADER_MIN_USER_VADDR
         \<or> ls_virtual_address s > ELF64_LOADER_MAX_USER_VADDR
         \<or> ls_memory_size s - 1 > ELF64_LOADER_MAX_USER_VADDR - ls_virtual_address s
      then ELF64_LOAD_SEGMENT_OUT_OF_RANGE
      else if ls_alignment s > 1 \<and> (\<not> is_power_of_two (ls_alignment s)
         \<or> ls_virtual_address s AND (ls_alignment s - 1) \<noteq> ls_file_offset s AND (ls_alignment s - 1))
      then ELF64_LOAD_INVALID_SEGMENT
      else ELF64_LOAD_OK)"

definition plan_add :: "elf64_load_segment \<Rightarrow> elf64_image_plan \<Rightarrow> elf64_image_plan" where
  "plan_add s plan =
     (let virt_end = ls_virtual_address s + ls_memory_size s;
          plan = plan\<lparr>segments := blit (segments plan) (segment_count plan) [s], segment_count := segment_count plan + 1\<rparr>;
          plan = (if virtual_base plan = - 1 \<or> ls_virtual_address s < virtual_base plan
                  then plan\<lparr>virtual_base := ls_virtual_address s\<rparr> else plan)
      in if virt_end > virtual_end plan then plan\<lparr>virtual_end := virt_end\<rparr> else plan)"

definition inspect_load_segment ::
  "bytes \<Rightarrow> nat \<Rightarrow> elf64_image_plan \<Rightarrow> bool \<Rightarrow> (elf64_load_result \<times> elf64_image_plan \<times> bool) option" where
  "inspect_load_segment image_bytes program_header plan entry_is_executable = do {
     fl \<leftarrow> read_u32_le image_bytes (program_header + 4);
     file_offset \<leftarrow> read_u64_le image_bytes (program_header + 8);
     virtual_address \<leftarrow> read_u64_le image_bytes (program_header + 16);
     file_size \<leftarrow> read_u64_le image_bytes (program_header + 32);
     memory_size \<leftarrow> read_u64_le image_bytes (program_header + 40);
     alignment \<leftarrow> read_u64_le image_bytes (program_header + 48);
     let s = \<lparr>ls_virtual_address = virtual_address, ls_memory_size = memory_size, ls_file_size = file_size,
              ls_file_offset = file_offset, ls_alignment = alignment, ls_flags = fl\<rparr>;
     let checked = check_segment s (of_nat (length image_bytes));
     if checked \<noteq> ELF64_LOAD_OK then Some (checked, plan, entry_is_executable)
     else if segment_count plan \<ge> ELF64_LOADER_MAX_LOAD_SEGMENTS
     then Some (ELF64_LOAD_TOO_MANY_SEGMENTS, plan, entry_is_executable)
     else do {
       let conflict = segment_conflict virtual_address (virtual_address + memory_size) fl (take (segment_count plan) (segments plan));
       if conflict \<noteq> ELF64_LOAD_OK then Some (conflict, plan, entry_is_executable)
       else Some (ELF64_LOAD_OK, plan_add s plan,
              entry_is_executable \<or> fl AND ELF64_SEGMENT_EXECUTE \<noteq> 0
                \<and> entry_point plan \<ge> virtual_address \<and> entry_point plan - virtual_address < file_size)
     } }"

text \<open>The loop of \<open>elf64_inspect\<close> over the program headers at the given offsets.\<close>

fun inspect_headers ::
  "bytes \<Rightarrow> nat list \<Rightarrow> elf64_image_plan \<Rightarrow> bool \<Rightarrow> (elf64_load_result \<times> elf64_image_plan \<times> bool) option" where
  "inspect_headers image_bytes [] plan entry_is_executable = Some (ELF64_LOAD_OK, plan, entry_is_executable)"
| "inspect_headers image_bytes (program_header # headers) plan entry_is_executable = do {
     type \<leftarrow> read_u32_le image_bytes program_header;
     if type = 2 \<or> type = 3 \<or> type = 7 then Some (ELF64_LOAD_UNSUPPORTED_FEATURE, plan, entry_is_executable)
     else if type \<noteq> 1 then inspect_headers image_bytes headers plan entry_is_executable
     else do {
       (result, plan, entry_is_executable) \<leftarrow> inspect_load_segment image_bytes program_header plan entry_is_executable;
       if result \<noteq> ELF64_LOAD_OK then Some (result, plan, entry_is_executable)
       else inspect_headers image_bytes headers plan entry_is_executable
     } }"

definition zero_segment :: elf64_load_segment where
  "zero_segment = \<lparr>ls_virtual_address = 0, ls_memory_size = 0, ls_file_size = 0, ls_file_offset = 0, ls_alignment = 0, ls_flags = 0\<rparr>"

definition empty_plan :: "u64 \<Rightarrow> elf64_image_plan" where
  "empty_plan entry = \<lparr>entry_point = entry, virtual_base = - 1, virtual_end = 0, image_span = 0, segment_count = 0,
     segments = replicate ELF64_LOADER_MAX_LOAD_SEGMENTS zero_segment\<rparr>"

text \<open>The checks of \<open>elf64_inspect\<close> on the file header.\<close>

definition check_header :: "bytes \<Rightarrow> elf64_load_result option" where
  "check_header image_bytes = do {
     b0 \<leftarrow> load8 image_bytes 0; b1 \<leftarrow> load8 image_bytes 1; b2 \<leftarrow> load8 image_bytes 2; b3 \<leftarrow> load8 image_bytes 3;
     b4 \<leftarrow> load8 image_bytes 4; b5 \<leftarrow> load8 image_bytes 5; b6 \<leftarrow> load8 image_bytes 6;
     version \<leftarrow> read_u32_le image_bytes 20; type \<leftarrow> read_u16_le image_bytes 16;
     header_size \<leftarrow> read_u16_le image_bytes 52; program_size \<leftarrow> read_u16_le image_bytes 54;
     machine \<leftarrow> read_u16_le image_bytes 18;
     Some (if b0 \<noteq> 0x7f \<or> b1 \<noteq> 0x45 \<or> b2 \<noteq> 0x4c \<or> b3 \<noteq> 0x46 then ELF64_LOAD_BAD_MAGIC
           else if b4 \<noteq> 2 \<or> b5 \<noteq> 1 \<or> b6 \<noteq> 1 \<or> version \<noteq> 1 \<or> type \<noteq> 2 \<or> header_size \<noteq> 64 \<or> program_size \<noteq> 56
           then ELF64_LOAD_UNSUPPORTED_FORMAT
           else if machine \<noteq> 62 then ELF64_LOAD_UNSUPPORTED_ARCHITECTURE
           else ELF64_LOAD_OK) }"

definition elf64_inspect ::
  "bytes option \<Rightarrow> elf64_image_plan option \<Rightarrow> (elf64_load_result \<times> elf64_image_plan option) option" where
  "elf64_inspect img out_plan =
     (case (img, out_plan) of
        (Some image_bytes, Some _) \<Rightarrow>
          if length image_bytes < 64 then Some (ELF64_LOAD_TRUNCATED, out_plan)
          else do {
            header \<leftarrow> check_header image_bytes;
            if header \<noteq> ELF64_LOAD_OK then Some (header, out_plan)
            else do {
              program_offset \<leftarrow> read_u64_le image_bytes 32;
              program_count \<leftarrow> read_u16_le image_bytes 56;
              if program_count = 0 \<or> program_count > ELF64_LOADER_MAX_PROGRAM_HEADERS
              then Some (ELF64_LOAD_TOO_MANY_HEADERS, out_plan)
              else if program_offset < 64
                \<or> \<not> range_fits_size program_offset (ucast program_count * 56) (of_nat (length image_bytes))
              then Some (ELF64_LOAD_TRUNCATED, out_plan)
              else do {
                entry \<leftarrow> read_u64_le image_bytes 24;
                (result, plan, entry_is_executable) \<leftarrow>
                  inspect_headers image_bytes (map (\<lambda>index. unat program_offset + index * 56) [0..<unat program_count])
                    (empty_plan entry) False;
                let span = virtual_end plan - virtual_base plan;
                Some (if result \<noteq> ELF64_LOAD_OK then (result, out_plan)
                      else if segment_count plan = 0 then (ELF64_LOAD_INVALID_SEGMENT, out_plan)
                      else if \<not> entry_is_executable then (ELF64_LOAD_INVALID_ENTRY_POINT, out_plan)
                      else if span = 0 \<or> span > ELF64_LOADER_MAX_IMAGE_SPAN then (ELF64_LOAD_IMAGE_TOO_LARGE, out_plan)
                      else (ELF64_LOAD_OK, Some (plan\<lparr>image_span := unat span\<rparr>)))
              } } }
      | _ \<Rightarrow> Some (ELF64_LOAD_INVALID_ARGUMENT, out_plan))"

text \<open>The copy loop of \<open>elf64_load_contiguous\<close>.\<close>

fun copy_segments :: "bytes \<Rightarrow> u64 \<Rightarrow> elf64_load_segment list \<Rightarrow> bytes \<Rightarrow> bytes option" where
  "copy_segments source base [] loaded = Some loaded"
| "copy_segments source base (s # rest) loaded = do {
     chunk \<leftarrow> load_bytes source (unat (ls_file_offset s)) (unat (ls_file_size s));
     copy_segments source base rest (blit loaded (unat (ls_virtual_address s - base)) chunk) }"

text \<open>The image and the destination are given with their addresses.\<close>

definition elf64_load_contiguous ::
  "(u64 \<times> bytes) option \<Rightarrow> (u64 \<times> bytes) option \<Rightarrow> elf64_image_plan option
     \<Rightarrow> (elf64_load_result \<times> bytes option \<times> elf64_image_plan option) option" where
  "elf64_load_contiguous img dest out_plan =
     (case (img, dest) of
        (Some (image_addr, source), Some (dest_addr, destination)) \<Rightarrow> do {
          (result, plan) \<leftarrow> elf64_inspect (Some source) (Some (empty_plan 0));
          case plan of None \<Rightarrow> None
          | Some plan \<Rightarrow>
              if result \<noteq> ELF64_LOAD_OK then Some (result, Some destination, out_plan)
              else if length destination < image_span plan
              then Some (ELF64_LOAD_DESTINATION_TOO_SMALL, Some destination, out_plan)
              else if host_ranges_overlap image_addr (of_nat (length source)) dest_addr (of_nat (image_span plan))
              then Some (ELF64_LOAD_BUFFER_OVERLAP, Some destination, out_plan)
              else do {
                loaded \<leftarrow> copy_segments source (virtual_base plan) (take (segment_count plan) (segments plan))
                  (blit destination 0 (replicate (image_span plan) 0));
                Some (ELF64_LOAD_OK, Some loaded, map_option (\<lambda>_. plan) out_plan)
              } }
      | _ \<Rightarrow> Some (ELF64_LOAD_INVALID_ARGUMENT, map_option snd dest, out_plan))"

fun elf64_load_result_text :: "elf64_load_result \<Rightarrow> string" where
  "elf64_load_result_text ELF64_LOAD_OK = ''ok''"
| "elf64_load_result_text ELF64_LOAD_INVALID_ARGUMENT = ''invalid argument''"
| "elf64_load_result_text ELF64_LOAD_TRUNCATED = ''truncated ELF image''"
| "elf64_load_result_text ELF64_LOAD_BAD_MAGIC = ''not an ELF image''"
| "elf64_load_result_text ELF64_LOAD_UNSUPPORTED_FORMAT = ''unsupported ELF format''"
| "elf64_load_result_text ELF64_LOAD_UNSUPPORTED_ARCHITECTURE = ''ELF is not x86-64''"
| "elf64_load_result_text ELF64_LOAD_UNSUPPORTED_FEATURE = ''ELF uses an unsupported runtime feature''"
| "elf64_load_result_text ELF64_LOAD_TOO_MANY_HEADERS = ''too many ELF program headers''"
| "elf64_load_result_text ELF64_LOAD_TOO_MANY_SEGMENTS = ''too many loadable ELF segments''"
| "elf64_load_result_text ELF64_LOAD_INVALID_SEGMENT = ''invalid ELF load segment''"
| "elf64_load_result_text ELF64_LOAD_SEGMENT_OUT_OF_RANGE = ''ELF load segment is out of range''"
| "elf64_load_result_text ELF64_LOAD_SEGMENT_OVERLAP = ''ELF load segments overlap''"
| "elf64_load_result_text ELF64_LOAD_WRITABLE_CODE = ''ELF contains writable executable memory''"
| "elf64_load_result_text ELF64_LOAD_INVALID_ENTRY_POINT = ''ELF entry point is not executable file data''"
| "elf64_load_result_text ELF64_LOAD_IMAGE_TOO_LARGE = ''ELF virtual image is too large''"
| "elf64_load_result_text ELF64_LOAD_DESTINATION_TOO_SMALL = ''ELF destination buffer is too small''"
| "elf64_load_result_text ELF64_LOAD_BUFFER_OVERLAP = ''ELF source and destination overlap''"

text \<open>What a plan promises of its segments.\<close>

definition seg_range :: "elf64_load_segment \<Rightarrow> nat set" where
  "seg_range s = {unat (ls_virtual_address s) ..< unat (ls_virtual_address s) + unat (ls_memory_size s)}"

definition writable :: "elf64_load_segment \<Rightarrow> bool" where
  "writable s \<longleftrightarrow> ls_flags s AND ELF64_SEGMENT_WRITE \<noteq> 0"

definition executable :: "elf64_load_segment \<Rightarrow> bool" where
  "executable s \<longleftrightarrow> ls_flags s AND ELF64_SEGMENT_EXECUTE \<noteq> 0"

definition seg_ok :: "nat \<Rightarrow> elf64_load_segment \<Rightarrow> bool" where
  "seg_ok len s \<longleftrightarrow> unat (ls_file_offset s) + unat (ls_file_size s) \<le> len
     \<and> 0 < unat (ls_memory_size s) \<and> unat (ls_file_size s) \<le> unat (ls_memory_size s)
     \<and> 2 ^ 40 \<le> unat (ls_virtual_address s) \<and> unat (ls_virtual_address s) + unat (ls_memory_size s) \<le> 2 ^ 41
     \<and> ls_flags s AND NOT (ELF64_SEGMENT_READ OR ELF64_SEGMENT_WRITE OR ELF64_SEGMENT_EXECUTE) = 0
     \<and> \<not> (writable s \<and> executable s)"

definition seg_apart :: "elf64_load_segment \<Rightarrow> elf64_load_segment \<Rightarrow> bool" where
  "seg_apart s t \<longleftrightarrow> seg_range s \<inter> seg_range t = {}
     \<and> (writable s \<and> executable t \<or> executable s \<and> writable t \<longrightarrow>
          (\<forall>a \<in> seg_range s. \<forall>b \<in> seg_range t. a div 4096 \<noteq> b div 4096))"

abbreviation planned :: "elf64_image_plan \<Rightarrow> elf64_load_segment list" where
  "planned p \<equiv> take (segment_count p) (segments p)"

definition enters :: "u64 \<Rightarrow> elf64_load_segment \<Rightarrow> bool" where
  "enters entry s \<longleftrightarrow> executable s \<and> unat (ls_virtual_address s) \<le> unat entry
     \<and> unat entry < unat (ls_virtual_address s) + unat (ls_file_size s)"

definition plan_inv :: "nat \<Rightarrow> elf64_image_plan \<Rightarrow> bool \<Rightarrow> bool" where
  "plan_inv len p e \<longleftrightarrow> length (segments p) = ELF64_LOADER_MAX_LOAD_SEGMENTS \<and> segment_count p \<le> ELF64_LOADER_MAX_LOAD_SEGMENTS
     \<and> (\<forall>s \<in> set (planned p). seg_ok len s \<and> virtual_base p \<le> ls_virtual_address s
          \<and> seg_range s \<subseteq> {unat (virtual_base p) ..< unat (virtual_end p)})
     \<and> sorted_wrt seg_apart (planned p) \<and> unat (virtual_end p) \<le> 2 ^ 41
     \<and> (if segment_count p = 0 then virtual_base p = - 1 \<and> virtual_end p = 0
        else virtual_base p \<in> ls_virtual_address ` set (planned p))
     \<and> (e \<longrightarrow> (\<exists>s \<in> set (planned p). enters (entry_point p) s))"

text \<open>A minimal program: one executable segment with one byte of code.\<close>

definition sample_elf :: bytes where
  "sample_elf =
     [0x7f, 0x45, 0x4c, 0x46, 2, 1, 1, 0, 0, 0, 0, 0, 0, 0, 0, 0, 2, 0, 62, 0, 1, 0, 0, 0, 0, 0, 0, 0, 0, 1, 0, 0,
      64, 0, 0, 0, 0, 0, 0, 0, 0, 0, 0, 0, 0, 0, 0, 0, 0, 0, 0, 0, 64, 0, 56, 0, 1, 0, 0, 0, 0, 0, 0, 0,
      1, 0, 0, 0, 5, 0, 0, 0, 120, 0, 0, 0, 0, 0, 0, 0, 0, 0, 0, 0, 0, 1, 0, 0, 0, 0, 0, 0, 0, 0, 0, 0,
      1, 0, 0, 0, 0, 0, 0, 0, 4, 0, 0, 0, 0, 0, 0, 0, 1, 0, 0, 0, 0, 0, 0, 0, 0xc3]"

text \<open>What an accepted image's plan satisfies.\<close>

definition plan_ok :: "nat \<Rightarrow> elf64_image_plan \<Rightarrow> bool" where
  "plan_ok len p \<longleftrightarrow> plan_inv len p True \<and> planned p \<noteq> [] \<and> 0 < image_span p \<and> image_span p \<le> 16777216
     \<and> image_span p = unat (virtual_end p) - unat (virtual_base p)"

text \<open>The byte an image file gives the address \<open>a\<close>: that of the segment holding it, or 0.\<close>

definition image_byte :: "bytes \<Rightarrow> elf64_load_segment list \<Rightarrow> nat \<Rightarrow> u8" where
  "image_byte img ss a =
     (case find (\<lambda>s. unat (ls_virtual_address s) \<le> a \<and> a < unat (ls_virtual_address s) + unat (ls_file_size s)) ss of
        None \<Rightarrow> 0
      | Some s \<Rightarrow> img ! (unat (ls_file_offset s) + (a - unat (ls_virtual_address s))))"

section \<open>Pages\<close>

lemma page_mask: "(4096 - 1 :: u64) = mask 12"
  by (simp add: mask_eq_exp_minus_1)

lemma unat_page_start: "unat (page_start a) = unat a div 4096 * 4096"
  unfolding page_start_def page_mask unat_and_not_mask by simp

lemma unat_page_end:
  assumes "unat a \<le> 2 ^ 41"
  shows "unat (page_end a) = (unat a + 4095) div 4096 * 4096"
proof -
  have "unat (a + 4096 - 1) = unat a + 4095"
    using assms by (simp add: unat_word_ariths)
  then show ?thesis unfolding page_end_def page_mask unat_and_not_mask by simp
qed

lemma page_ranges_apart:
  assumes "\<not> (x div 4096 * 4096 < (f + 4095) div 4096 * 4096 \<and> y div 4096 * 4096 < (e + 4095) div 4096 * (4096 :: nat))"
    and "x \<le> a" "a < e" "y \<le> b" "b < f"
  shows "a div 4096 \<noteq> b div 4096"
proof
  assume eq: "a div 4096 = b div 4096"
  have below: "u div 4096 * 4096 < (v + 4095) div 4096 * 4096" if "u < v" for u v :: nat using that by linarith
  have "x div 4096 \<le> b div 4096" "y div 4096 \<le> a div 4096" using assms(2,4) eq by (metis div_le_mono)+
  then have "x div 4096 * 4096 \<le> b div 4096 * 4096" "y div 4096 * 4096 \<le> a div 4096 * 4096" by simp_all
  then show False using assms(1) below[OF assms(3)] below[OF assms(5)] by linarith
qed

section \<open>One segment\<close>

lemma unat_end:
  "seg_ok len s \<Longrightarrow> unat (ls_virtual_address s + ls_memory_size s) = unat (ls_virtual_address s) + unat (ls_memory_size s)"
  by (auto simp: seg_ok_def unat_word_ariths)

lemma check_segment_ok:
  assumes "check_segment s (of_nat len) = ELF64_LOAD_OK" and "len < 2 ^ 64"
  shows "seg_ok len s"
proof -
  let ?va = "unat (ls_virtual_address s)" and ?ms = "unat (ls_memory_size s)"
  have l: "unat (of_nat len :: u64) = len" using assms(2) by (simp add: unat_of_nat take_bit_nat_eq_self)
  have c: "ls_memory_size s \<noteq> 0" "ls_file_size s \<le> ls_memory_size s" "\<not> (writable s \<and> executable s)"
    "ls_file_offset s \<le> of_nat len" "ls_file_size s \<le> of_nat len - ls_file_offset s"
    "ELF64_LOADER_MIN_USER_VADDR \<le> ls_virtual_address s" "ls_virtual_address s \<le> ELF64_LOADER_MAX_USER_VADDR"
    "ls_memory_size s - 1 \<le> ELF64_LOADER_MAX_USER_VADDR - ls_virtual_address s"
    "ls_flags s AND NOT (ELF64_SEGMENT_READ OR ELF64_SEGMENT_WRITE OR ELF64_SEGMENT_EXECUTE) = 0"
    using assms(1) by (auto simp: check_segment_def range_fits_size_def writable_def executable_def split: if_splits)
  have f: "unat (ls_file_offset s) \<le> len" "unat (ls_file_size s) \<le> len - unat (ls_file_offset s)"
    using c(4,5) l by (auto simp: word_le_nat_alt unat_sub)
  have v: "2 ^ 40 \<le> ?va" "?va < 2 ^ 41" using c(6,7) by (auto simp: word_le_nat_alt)
  have "?ms - 1 \<le> 2 ^ 41 - 1 - ?va"
  proof -
    have "unat (ls_memory_size s - 1) = ?ms - 1" using c(1) by (simp add: unat_minus_one)
    moreover have "unat (ELF64_LOADER_MAX_USER_VADDR - ls_virtual_address s) = 2 ^ 41 - 1 - ?va" using c(7) by (simp add: unat_sub)
    ultimately show ?thesis using c(8) by (simp add: word_le_nat_alt)
  qed
  moreover have "0 < ?ms" using c(1) by (simp add: unat_gt_0)
  ultimately show ?thesis using c(2,3,9) f v by (auto simp: seg_ok_def word_le_nat_alt)
qed

lemma segment_conflict_ok:
  assumes "segment_conflict (ls_virtual_address s) (ls_virtual_address s + ls_memory_size s) (ls_flags s) ts = ELF64_LOAD_OK"
    and "seg_ok len s" and "\<forall>t \<in> set ts. seg_ok len t"
  shows "\<forall>t \<in> set ts. seg_apart t s"
  using assms(1,3)
proof (induction ts)
  case (Cons t ts)
  have t: "seg_ok len t" using Cons.prems(2) by simp
  note ends = unat_end[OF assms(2)] unat_end[OF t]
  have b: "unat (ls_virtual_address s) + unat (ls_memory_size s) \<le> 2 ^ 41" "unat (ls_virtual_address t) + unat (ls_memory_size t) \<le> 2 ^ 41"
    using assms(2) t by (auto simp: seg_ok_def)
  have c: "\<not> virtual_ranges_overlap (ls_virtual_address s) (ls_virtual_address s + ls_memory_size s) (ls_virtual_address t) (ls_virtual_address t + ls_memory_size t)"
    "\<not> (virtual_ranges_overlap (page_start (ls_virtual_address s)) (page_end (ls_virtual_address s + ls_memory_size s))
        (page_start (ls_virtual_address t)) (page_end (ls_virtual_address t + ls_memory_size t))
      \<and> (ls_flags s OR ls_flags t) AND ELF64_SEGMENT_WRITE \<noteq> 0 \<and> (ls_flags s OR ls_flags t) AND ELF64_SEGMENT_EXECUTE \<noteq> 0)"
    "segment_conflict (ls_virtual_address s) (ls_virtual_address s + ls_memory_size s) (ls_flags s) ts = ELF64_LOAD_OK"
    using Cons.prems(1) by (simp_all add: Let_def split: if_splits)
  have d: "seg_range t \<inter> seg_range s = {}"
    using c(1) unfolding virtual_ranges_overlap_def word_less_nat_alt ends by (auto simp: seg_range_def)
  have "(ls_flags s OR ls_flags t) AND w \<noteq> 0" if "ls_flags s AND w \<noteq> 0 \<or> ls_flags t AND w \<noteq> 0" for w
    using that unfolding bit.conj_disj_distrib2 by (auto simp: or_eq_0_iff)
  then have "\<not> virtual_ranges_overlap (page_start (ls_virtual_address s)) (page_end (ls_virtual_address s + ls_memory_size s))
        (page_start (ls_virtual_address t)) (page_end (ls_virtual_address t + ls_memory_size t))"
    if "writable t \<and> executable s \<or> executable t \<and> writable s" using c(2) that unfolding writable_def executable_def by blast
  then have "\<forall>a \<in> seg_range t. \<forall>b \<in> seg_range s. a div 4096 \<noteq> b div 4096"
    if "writable t \<and> executable s \<or> executable t \<and> writable s"
    using that page_ranges_apart unfolding virtual_ranges_overlap_def word_less_nat_alt unat_page_start
      unat_page_end[OF b(1)[folded ends(1)]] unat_page_end[OF b(2)[folded ends(2)]] ends seg_range_def
    by (metis atLeastLessThan_iff)
  then show ?case using Cons.IH[OF c(3)] Cons.prems(2) d by (auto simp: seg_apart_def)
qed simp

lemma find_SomeD: "find P xs = Some x \<Longrightarrow> x \<in> set xs \<and> P x"
  by (induction xs) (auto split: if_splits)

section \<open>The plan\<close>

lemma plan_add_fields [simp]:
  "segments (plan_add s p) = blit (segments p) (segment_count p) [s]" "segment_count (plan_add s p) = Suc (segment_count p)"
  "entry_point (plan_add s p) = entry_point p" "image_span (plan_add s p) = image_span p"
  "virtual_base (plan_add s p) = (if virtual_base p = - 1 \<or> ls_virtual_address s < virtual_base p then ls_virtual_address s else virtual_base p)"
  "virtual_end (plan_add s p) =
     (if ls_virtual_address s + ls_memory_size s > virtual_end p then ls_virtual_address s + ls_memory_size s else virtual_end p)"
  by (simp_all add: plan_add_def Let_def)

lemma planned_add:
  "length (segments p) = ELF64_LOADER_MAX_LOAD_SEGMENTS \<Longrightarrow> segment_count p < ELF64_LOADER_MAX_LOAD_SEGMENTS
     \<Longrightarrow> planned (plan_add s p) = planned p @ [s]"
  using take_blit[of "segment_count p" "segments p" "[s]"] by simp

lemma plan_inv_empty: "plan_inv len (empty_plan entry) False"
  by (simp add: plan_inv_def empty_plan_def)

lemma plan_inv_add:
  assumes inv: "plan_inv len p e" and ok: "seg_ok len s" and ap: "\<forall>t \<in> set (planned p). seg_apart t s"
    and room: "segment_count p < ELF64_LOADER_MAX_LOAD_SEGMENTS" and en: "e' \<Longrightarrow> e \<or> enters (entry_point p) s"
  shows "plan_inv len (plan_add s p) e'"
proof -
  have pl: "planned (plan_add s p) = planned p @ [s]" using inv room by (intro planned_add) (simp_all add: plan_inv_def)
  have base: "virtual_base (plan_add s p) \<le> ls_virtual_address s" "virtual_base (plan_add s p) \<le> virtual_base p" by auto
  have endr: "unat (ls_virtual_address s) + unat (ls_memory_size s) \<le> unat (virtual_end (plan_add s p))"
    "unat (virtual_end p) \<le> unat (virtual_end (plan_add s p))"
    using unat_end[OF ok] by (auto simp: word_less_nat_alt)
  have "seg_ok len t \<and> virtual_base (plan_add s p) \<le> ls_virtual_address t
      \<and> seg_range t \<subseteq> {unat (virtual_base (plan_add s p)) ..< unat (virtual_end (plan_add s p))}" if t: "t \<in> set (planned p)" for t
  proof -
    have "seg_ok len t" "virtual_base p \<le> ls_virtual_address t" "seg_range t \<subseteq> {unat (virtual_base p) ..< unat (virtual_end p)}"
      using inv t by (auto simp: plan_inv_def)
    then show ?thesis using base(2) endr(2) by (auto simp: word_le_nat_alt subset_iff simp del: plan_add_fields)
  qed
  moreover have "seg_range s \<subseteq> {unat (virtual_base (plan_add s p)) ..< unat (virtual_end (plan_add s p))}"
    using base(1) endr(1) by (auto simp: seg_range_def word_le_nat_alt simp del: plan_add_fields)
  moreover have "virtual_base (plan_add s p) \<in> ls_virtual_address ` set (planned p @ [s])"
    using inv by (auto simp: plan_inv_def split: if_splits)
  moreover have "length (segments (plan_add s p)) = ELF64_LOADER_MAX_LOAD_SEGMENTS"
    using inv room by (simp add: plan_inv_def buf_simps)
  moreover have "e' \<longrightarrow> (\<exists>t \<in> set (planned p @ [s]). enters (entry_point p) t)" using en inv by (auto simp: plan_inv_def)
  moreover have "sorted_wrt seg_apart (planned p @ [s])" using inv ap by (auto simp: plan_inv_def sorted_wrt_append)
  moreover have "unat (virtual_end (plan_add s p)) \<le> 2 ^ 41"
    using inv ok unat_end[OF ok] by (auto simp: plan_inv_def seg_ok_def)
  ultimately show ?thesis using base(1) ok room unfolding plan_inv_def pl by (simp del: plan_add_fields(1,5,6))
qed

lemma inspect_load_segment_ok:
  assumes inv: "plan_inv (length img) p e" and len: "length img < 2 ^ 64" and ph: "ph + 56 \<le> length img"
  obtains r p' e' where "inspect_load_segment img ph p e = Some (r, p', e')" "r = ELF64_LOAD_OK \<Longrightarrow> plan_inv (length img) p' e'"
    "entry_point p' = entry_point p" "image_span p' = image_span p"
proof -
  obtain fl fo va fs ms al where rd: "read_u32_le img (ph + 4) = Some fl" "read_u64_le img (ph + 8) = Some fo"
    "read_u64_le img (ph + 16) = Some va" "read_u64_le img (ph + 32) = Some fs" "read_u64_le img (ph + 40) = Some ms"
    "read_u64_le img (ph + 48) = Some al"
    using ph read_u32_le_in[of "ph + 4" img] read_u64_le_in[of "ph + 8" img] read_u64_le_in[of "ph + 16" img]
      read_u64_le_in[of "ph + 32" img] read_u64_le_in[of "ph + 40" img] read_u64_le_in[of "ph + 48" img] by auto
  define s where "s = \<lparr>ls_virtual_address = va, ls_memory_size = ms, ls_file_size = fs, ls_file_offset = fo, ls_alignment = al, ls_flags = fl\<rparr>"
  let ?check = "check_segment s (of_nat (length img))" and ?conf = "segment_conflict va (va + ms) fl (planned p)"
  let ?e = "e \<or> fl AND ELF64_SEGMENT_EXECUTE \<noteq> 0 \<and> entry_point p \<ge> va \<and> entry_point p - va < fs"
  have eq: "inspect_load_segment img ph p e =
     (if ?check \<noteq> ELF64_LOAD_OK then Some (?check, p, e)
      else if segment_count p \<ge> ELF64_LOADER_MAX_LOAD_SEGMENTS then Some (ELF64_LOAD_TOO_MANY_SEGMENTS, p, e)
      else if ?conf \<noteq> ELF64_LOAD_OK then Some (?conf, p, e)
      else Some (ELF64_LOAD_OK, plan_add s p, ?e))"
    unfolding inspect_load_segment_def rd s_def by (simp add: Let_def)
  show thesis
  proof (cases "?check \<noteq> ELF64_LOAD_OK \<or> segment_count p \<ge> ELF64_LOADER_MAX_LOAD_SEGMENTS \<or> ?conf \<noteq> ELF64_LOAD_OK")
    case True
    have "\<exists>r. r \<noteq> ELF64_LOAD_OK \<and> inspect_load_segment img ph p e = Some (r, p, e)" unfolding eq using True by auto
    then show thesis using that by blast
  next
    case False
    have ok: "seg_ok (length img) s" using False check_segment_ok len by blast
    have "\<forall>t \<in> set (planned p). seg_apart t s"
      using False inv by (intro segment_conflict_ok[OF _ ok]) (auto simp: s_def plan_inv_def)
    moreover have "e \<or> enters (entry_point p) s" if ?e
      using that by (auto simp: enters_def executable_def s_def word_le_nat_alt word_less_nat_alt unat_sub)
    ultimately have "plan_inv (length img) (plan_add s p) ?e" using False by (intro plan_inv_add[OF inv ok]) auto
    moreover have "inspect_load_segment img ph p e = Some (ELF64_LOAD_OK, plan_add s p, ?e)" unfolding eq using False by simp
    ultimately show thesis by (intro that[of ELF64_LOAD_OK "plan_add s p" ?e]) simp_all
  qed
qed

lemma inspect_headers_ok:
  assumes "plan_inv (length img) p e" and "length img < 2 ^ 64" and "\<forall>ph \<in> set phs. ph + 56 \<le> length img"
  shows "\<exists>r p' e'. inspect_headers img phs p e = Some (r, p', e') \<and> (r = ELF64_LOAD_OK \<longrightarrow> plan_inv (length img) p' e')
    \<and> entry_point p' = entry_point p \<and> image_span p' = image_span p"
  using assms(1,3)
proof (induction phs arbitrary: p e)
  case (Cons ph phs)
  obtain ty where ty: "read_u32_le img ph = Some ty" using read_u32_le_in[of ph img] Cons.prems(2) by auto
  consider "ty = 2 \<or> ty = 3 \<or> ty = 7" | "ty \<notin> {1, 2, 3, 7}" | "ty = 1" by auto
  then show ?case
  proof cases
    case 3
    obtain r p' e' where r: "inspect_load_segment img ph p e = Some (r, p', e')" "r = ELF64_LOAD_OK \<Longrightarrow> plan_inv (length img) p' e'"
      "entry_point p' = entry_point p" "image_span p' = image_span p"
      by (rule inspect_load_segment_ok[OF Cons.prems(1) assms(2)]) (use Cons.prems(2) in auto)
    show ?thesis
    proof (cases "r = ELF64_LOAD_OK")
      case True
      then obtain q f t where "inspect_headers img phs p' e' = Some (t, q, f)" "t = ELF64_LOAD_OK \<longrightarrow> plan_inv (length img) q f"
        "entry_point q = entry_point p'" "image_span q = image_span p'" using Cons.IH[of p' e'] r(2) Cons.prems(2) by auto
      then show ?thesis using True ty 3 r by simp
    qed (use ty 3 r in simp)
  qed (use ty Cons in auto)
qed simp

lemma plan_ok_segments:
  assumes "plan_ok len p"
  shows "\<forall>s \<in> set (planned p). seg_ok len s \<and> virtual_base p \<le> ls_virtual_address s
    \<and> seg_range s \<subseteq> {unat (virtual_base p) ..< unat (virtual_base p) + image_span p}"
proof -
  have "unat (virtual_base p) + image_span p = unat (virtual_end p)" using assms unfolding plan_ok_def by linarith
  then show ?thesis using assms unfolding plan_ok_def plan_inv_def by simp
qed

lemma check_header_in: "64 \<le> length img \<Longrightarrow> \<exists>r. check_header img = Some r"
  using read_u32_le_in[of 20 img] read_u16_le_in[of 16 img] read_u16_le_in[of 52 img] read_u16_le_in[of 54 img] read_u16_le_in[of 18 img]
  by (auto simp: check_header_def load8_def)

lemma header_offsets:
  assumes "range_fits_size po (ucast (pc :: u16) * 56) (of_nat len)" and "len < 2 ^ 64"
    and "ph \<in> set (map (\<lambda>index. unat po + index * 56) [0..<unat pc])"
  shows "ph + 56 \<le> len"
proof -
  have l: "unat (of_nat len :: u64) = len" using assms(2) by (simp add: unat_of_nat take_bit_nat_eq_self)
  have "unat pc < 2 ^ 16" using unsigned_less[of pc] by simp
  then have "unat (ucast pc * 56 :: u64) = unat pc * 56"
    using unat_ucast_up[of pc, where 'b = 64] by (simp add: unat_word_ariths)
  then have "unat po \<le> len" "unat pc * 56 \<le> len - unat po"
    using assms(1) l by (auto simp: range_fits_size_def word_le_nat_alt unat_sub)
  then show ?thesis using assms(3) by auto
qed

lemma inspect_total:
  assumes "length img < 2 ^ 64"
  shows "\<exists>r p. elf64_inspect (Some img) (Some out) = Some (r, Some p) \<and> (if r = ELF64_LOAD_OK then plan_ok (length img) p else p = out)"
proof (cases "length img < 64")
  case False
  then obtain hd where hd: "check_header img = Some hd" using check_header_in by fastforce
  obtain po pc en where rd: "read_u64_le img 32 = Some po" "read_u16_le img 56 = Some pc" "read_u64_le img 24 = Some en"
    using False read_u64_le_in[of 32 img] read_u16_le_in[of 56 img] read_u64_le_in[of 24 img] by auto
  let ?fits = "range_fits_size po (ucast pc * 56) (of_nat (length img))"
  let ?phs = "map (\<lambda>index. unat po + index * 56) [0..<unat pc]"
  have eq: "elf64_inspect (Some img) (Some out) =
     (if hd \<noteq> ELF64_LOAD_OK then Some (hd, Some out)
      else if pc = 0 \<or> pc > ELF64_LOADER_MAX_PROGRAM_HEADERS then Some (ELF64_LOAD_TOO_MANY_HEADERS, Some out)
      else if po < 64 \<or> \<not> ?fits then Some (ELF64_LOAD_TRUNCATED, Some out)
      else do {
        (result, plan, entry_is_executable) \<leftarrow> inspect_headers img ?phs (empty_plan en) False;
        let span = virtual_end plan - virtual_base plan;
        Some (if result \<noteq> ELF64_LOAD_OK then (result, Some out)
              else if segment_count plan = 0 then (ELF64_LOAD_INVALID_SEGMENT, Some out)
              else if \<not> entry_is_executable then (ELF64_LOAD_INVALID_ENTRY_POINT, Some out)
              else if span = 0 \<or> span > ELF64_LOADER_MAX_IMAGE_SPAN then (ELF64_LOAD_IMAGE_TOO_LARGE, Some out)
              else (ELF64_LOAD_OK, Some (plan\<lparr>image_span := unat span\<rparr>))) })"
    unfolding elf64_inspect_def using False hd rd by simp
  show ?thesis
  proof (cases ?fits)
    case True
    obtain r p e where ih: "inspect_headers img ?phs (empty_plan en) False = Some (r, p, e)" "r = ELF64_LOAD_OK \<Longrightarrow> plan_inv (length img) p e"
      using inspect_headers_ok[OF plan_inv_empty assms, of ?phs en] header_offsets[OF True assms] by blast
    let ?span = "virtual_end p - virtual_base p"
    have "plan_ok (length img) (p\<lparr>image_span := unat ?span\<rparr>)"
      if c: "r = ELF64_LOAD_OK" "segment_count p \<noteq> 0" e "?span \<noteq> 0" "?span \<le> ELF64_LOADER_MAX_IMAGE_SPAN"
    proof -
      have inv: "plan_inv (length img) p True" using ih(2) c by simp
      then obtain s where s: "s \<in> set (planned p)" by (auto simp: plan_inv_def)
      have "seg_ok (length img) s" "seg_range s \<subseteq> {unat (virtual_base p) ..< unat (virtual_end p)}" using inv s unfolding plan_inv_def by blast+
      then have "unat (virtual_base p) < unat (virtual_end p)" by (auto simp: seg_range_def seg_ok_def)
      then have "unat ?span = unat (virtual_end p) - unat (virtual_base p)" by (simp add: unat_sub word_le_nat_alt)
      moreover have "0 < unat ?span" "unat ?span \<le> 16777216" using c(4,5) by (auto simp: word_le_nat_alt unat_gt_0)
      moreover have "plan_inv (length img) (p\<lparr>image_span := unat ?span\<rparr>) True" using inv by (simp add: plan_inv_def)
      ultimately show ?thesis using s c(2) by (auto simp: plan_ok_def)
    qed
    then show ?thesis unfolding eq ih(1) by (auto simp: Let_def not_less)
  qed (use eq in auto)
qed (auto simp: elf64_inspect_def)

section \<open>The copy\<close>

lemma copy_segments_ok:
  assumes "\<forall>s \<in> set ss. seg_ok (length img) s \<and> base \<le> ls_virtual_address s \<and> seg_range s \<subseteq> {unat base ..< unat base + n}"
    and "sorted_wrt seg_apart ss" and "n \<le> length d"
  shows "\<exists>d'. copy_segments img base ss d = Some d' \<and> length d' = length d
    \<and> (\<forall>i < length d. d' ! i = (if i < n \<and> (\<exists>s \<in> set ss. unat (ls_virtual_address s) \<le> unat base + i
          \<and> unat base + i < unat (ls_virtual_address s) + unat (ls_file_size s)) then image_byte img ss (unat base + i) else d ! i))"
  using assms
proof (induction ss arbitrary: d)
  case (Cons s ss)
  let ?fo = "unat (ls_file_offset s)" and ?fs = "unat (ls_file_size s)" and ?va = "unat (ls_virtual_address s)" and ?b = "unat base"
  let ?in = "\<lambda>s i. unat (ls_virtual_address s) \<le> ?b + i \<and> ?b + i < unat (ls_virtual_address s) + unat (ls_file_size s)"
  have s: "seg_ok (length img) s" "base \<le> ls_virtual_address s" "seg_range s \<subseteq> {?b ..< ?b + n}" using Cons.prems(1) by auto
  have fo: "?fo + ?fs \<le> length img" "?fs \<le> unat (ls_memory_size s)" "0 < unat (ls_memory_size s)" using s(1) by (auto simp: seg_ok_def)
  have va: "?b \<le> ?va" "unat (ls_virtual_address s - base) = ?va - ?b" using s(2) by (auto simp: word_le_nat_alt unat_sub)
  have "?va + unat (ls_memory_size s) - 1 \<in> seg_range s" using fo(3) by (auto simp: seg_range_def)
  then have "?va + unat (ls_memory_size s) - 1 < ?b + n" using s(3) by (auto simp: subset_iff)
  then have fit: "?va - ?b + ?fs \<le> n" using fo(2,3) va(1) by linarith
  define c where "c = take ?fs (drop ?fo img)"
  have c: "length c = ?fs" using fo(1) by (simp add: c_def)
  let ?d = "blit d (?va - ?b) c"
  have ld: "length ?d = length d" using fit Cons.prems(3) c by (simp add: buf_simps)
  obtain d' where d': "copy_segments img base ss ?d = Some d'" "length d' = length ?d"
    "\<forall>i < length ?d. d' ! i = (if i < n \<and> (\<exists>t \<in> set ss. ?in t i) then image_byte img ss (?b + i) else ?d ! i)"
    using Cons.IH[of ?d] Cons.prems ld by auto
  have apart: "\<not> (?in s i \<and> ?in t i)" if "t \<in> set ss" for t i
  proof -
    have "seg_range s \<inter> seg_range t = {}" "unat (ls_file_size t) \<le> unat (ls_memory_size t)"
      using Cons.prems(1,2) that by (auto simp: seg_apart_def seg_ok_def)
    then show ?thesis using fo(2) by (auto simp: seg_range_def disjoint_iff)
  qed
  have "d' ! i = (if i < n \<and> (\<exists>t \<in> set (s # ss). ?in t i) then image_byte img (s # ss) (?b + i) else d ! i)" if i: "i < length d" for i
  proof (cases "?in s i")
    case True
    then have "i < n" using fit va(1) by linarith
    have "d' ! i = ?d ! i" using d'(3) i ld True apart by auto
    also have "\<dots> = c ! (i - (?va - ?b))" using nth_blit[of "?va - ?b" c d i] True va(1) fit Cons.prems(3) i c by auto
    also have "\<dots> = img ! (?fo + (?b + i - ?va))"
    proof -
      have "i - (?va - ?b) = ?b + i - ?va" "?b + i - ?va < ?fs" using True va(1) by linarith+
      then show ?thesis using fo(1) by (simp add: c_def)
    qed
    finally show ?thesis using True \<open>i < n\<close> by (simp add: image_byte_def)
  next
    case False
    then have "?d ! i = d ! i" using nth_blit[of "?va - ?b" c d i] va(1) fit Cons.prems(3) i c by auto
    moreover have "image_byte img (s # ss) (?b + i) = image_byte img ss (?b + i)" using False by (auto simp: image_byte_def)
    ultimately show ?thesis using d'(3) i ld False by auto
  qed
  then show ?case using d'(1,2) ld va(2) fo(1) by (auto simp: load_bytes_in c_def[symmetric])
qed simp

section \<open>Properties\<close>

text \<open>C23: inspecting any byte sequence whatever as an ELF image reads only inside it and
  returns a result.  When it accepts, every load segment's file range lies inside the image and its
  memory range inside the user window, no segment is writable and executable, segments do not
  overlap, no page holds bytes of a writable and of an executable segment, the entry point is in
  the file-backed bytes of an executable segment, and the span is at most 16 MiB.  When it rejects,
  the caller's plan is unchanged.\<close>

theorem elf64_inspect_safe:
  assumes "length img < 2 ^ 64"
  shows "\<exists>r p. elf64_inspect (Some img) (Some out) = Some (r, Some p) \<and>
    (if r = ELF64_LOAD_OK
     then planned p \<noteq> [] \<and> length (planned p) \<le> ELF64_LOADER_MAX_LOAD_SEGMENTS \<and> (\<forall>s \<in> set (planned p). seg_ok (length img) s)
       \<and> sorted_wrt seg_apart (planned p) \<and> (\<exists>s \<in> set (planned p). enters (entry_point p) s)
       \<and> image_span p \<le> 16777216
       \<and> (\<forall>s \<in> set (planned p). seg_range s \<subseteq> {unat (virtual_base p) ..< unat (virtual_base p) + image_span p})
     else p = out)"
proof -
  obtain r p where r: "elf64_inspect (Some img) (Some out) = Some (r, Some p)" "if r = ELF64_LOAD_OK then plan_ok (length img) p else p = out"
    using inspect_total[OF assms] by blast
  show ?thesis
  proof (cases "r = ELF64_LOAD_OK")
    case True
    then have ok: "plan_ok (length img) p" using r(2) by simp
    show ?thesis using r(1) True plan_ok_segments[OF ok] ok unfolding plan_ok_def plan_inv_def by auto
  qed (use r in auto)
qed

theorem elf64_inspect_safe_witness:
  "length sample_elf < 2 ^ 64 \<and> (\<exists>p. elf64_inspect (Some sample_elf) (Some (empty_plan 0)) = Some (ELF64_LOAD_OK, Some p)
     \<and> (\<exists>s \<in> set (planned p). enters (entry_point p) s))"
proof -
  have len: "length sample_elf < 2 ^ 64" by (simp add: sample_elf_def)
  have "map_option fst (elf64_inspect (Some sample_elf) (Some (empty_plan 0))) = Some ELF64_LOAD_OK" by code_simp
  then show ?thesis using elf64_inspect_safe[OF len, of "empty_plan 0"] len by auto
qed

text \<open>C24: loading any image at any destination writes only inside the destination.
  An accepted image's span is filled with exactly the bytes its file gives each address, zero where
  the file gives none, and what follows the span is unchanged; on any other result neither the
  destination nor the caller's plan changes.\<close>

theorem elf64_load_exact:
  assumes "length img < 2 ^ 64"
  shows "\<exists>r d q. elf64_load_contiguous (Some (ia, img)) (Some (da, dest)) out = Some (r, Some d, q) \<and> length d = length dest \<and>
    (if r = ELF64_LOAD_OK
     then \<exists>p. elf64_inspect (Some img) (Some (empty_plan 0)) = Some (ELF64_LOAD_OK, Some p) \<and> image_span p \<le> length dest
       \<and> (\<forall>i < length dest. d ! i =
            (if i < image_span p then image_byte img (planned p) (unat (virtual_base p) + i) else dest ! i))
     else d = dest \<and> q = out)"
proof -
  obtain r p where r: "elf64_inspect (Some img) (Some (empty_plan 0)) = Some (r, Some p)"
    "if r = ELF64_LOAD_OK then plan_ok (length img) p else p = empty_plan 0" using inspect_total[OF assms] by blast
  let ?over = "host_ranges_overlap ia (of_nat (length img)) da (of_nat (image_span p))"
  let ?clear = "blit dest 0 (replicate (image_span p) 0)"
  have eq: "elf64_load_contiguous (Some (ia, img)) (Some (da, dest)) out =
     (if r \<noteq> ELF64_LOAD_OK then Some (r, Some dest, out)
      else if length dest < image_span p then Some (ELF64_LOAD_DESTINATION_TOO_SMALL, Some dest, out)
      else if ?over then Some (ELF64_LOAD_BUFFER_OVERLAP, Some dest, out)
      else do { d \<leftarrow> copy_segments img (virtual_base p) (planned p) ?clear; Some (ELF64_LOAD_OK, Some d, map_option (\<lambda>_. p) out) })"
    unfolding elf64_load_contiguous_def using r(1) by simp
  show ?thesis
  proof (cases "r \<noteq> ELF64_LOAD_OK \<or> length dest < image_span p \<or> ?over")
    case True
    then show ?thesis unfolding eq by auto
  next
    case False
    then have ok: "plan_ok (length img) p" "image_span p \<le> length dest" using r(2) by auto
    have lc: "length ?clear = length dest" using ok(2) by (simp add: buf_simps)
    have base: "\<forall>s \<in> set (planned p). seg_ok (length img) s \<and> virtual_base p \<le> ls_virtual_address s
        \<and> seg_range s \<subseteq> {unat (virtual_base p) ..< unat (virtual_base p) + image_span p}"
      by (rule plan_ok_segments[OF ok(1)])
    moreover have "sorted_wrt seg_apart (planned p)" using ok(1) by (simp add: plan_ok_def plan_inv_def)
    ultimately obtain d where d: "copy_segments img (virtual_base p) (planned p) ?clear = Some d" "length d = length dest"
      "\<forall>i < length dest. d ! i = (if i < image_span p \<and> (\<exists>s \<in> set (planned p). unat (ls_virtual_address s) \<le> unat (virtual_base p) + i
          \<and> unat (virtual_base p) + i < unat (ls_virtual_address s) + unat (ls_file_size s))
          then image_byte img (planned p) (unat (virtual_base p) + i) else ?clear ! i)"
      using copy_segments_ok[of "planned p" img "virtual_base p" "image_span p" ?clear] ok(2) lc by auto
    have "d ! i = (if i < image_span p then image_byte img (planned p) (unat (virtual_base p) + i) else dest ! i)" if i: "i < length dest" for i
    proof -
      have "?clear ! i = (if i < image_span p then 0 else dest ! i)" using nth_blit[of 0 "replicate (image_span p) 0" dest i] ok(2) i by auto
      moreover have "image_byte img (planned p) (unat (virtual_base p) + i) = 0"
        if "\<not> (\<exists>s \<in> set (planned p). unat (ls_virtual_address s) \<le> unat (virtual_base p) + i
          \<and> unat (virtual_base p) + i < unat (ls_virtual_address s) + unat (ls_file_size s))"
        using that by (auto simp: image_byte_def find_None_iff split: option.splits dest!: find_SomeD)
      ultimately show ?thesis using d(3) i by auto
    qed
    then show ?thesis using False d(1,2) ok(2) r(1) unfolding eq by auto
  qed
qed

theorem elf64_load_exact_witness:
  "\<exists>d q. elf64_load_contiguous (Some (4096, sample_elf)) (Some (8192, replicate 8 255)) None = Some (ELF64_LOAD_OK, Some d, q) \<and> length d = 8"
proof -
  have "map_option fst (elf64_load_contiguous (Some (4096, sample_elf)) (Some (8192, replicate 8 255)) None) = Some ELF64_LOAD_OK" by code_simp
  moreover have "length sample_elf < 2 ^ 64" by (simp add: sample_elf_def)
  ultimately show ?thesis using elf64_load_exact[of sample_elf 4096 8192 "replicate 8 255" None] by auto
qed

end
