(* ===== verification/App_Manifest.thy ===== *)
theory App_Manifest
  imports Prelude
begin

text \<open>
  Application manifests, the application registry (\<open>src/kernel/app_manifest.c\<close>) and the system
  call table of the application ABI (\<open>src/kernel/app_abi.c\<close>).  The text fields of a manifest
  are arrays of their declared capacity; \<open>manifest_shape\<close> says so.
\<close>

section \<open>Definitions\<close>

abbreviation NOSTALUX_APP_MANIFEST_VERSION :: u32 where "NOSTALUX_APP_MANIFEST_VERSION \<equiv> 1"
abbreviation NOSTALUX_APP_ABI_VERSION :: u32 where "NOSTALUX_APP_ABI_VERSION \<equiv> 1"
abbreviation APP_ID_CAPACITY :: nat where "APP_ID_CAPACITY \<equiv> 32"
abbreviation APP_DISPLAY_CAPACITY :: nat where "APP_DISPLAY_CAPACITY \<equiv> 48"
abbreviation APP_EXECUTABLE_CAPACITY :: nat where "APP_EXECUTABLE_CAPACITY \<equiv> 32"
abbreviation APP_DESCRIPTION_CAPACITY :: nat where "APP_DESCRIPTION_CAPACITY \<equiv> 96"
abbreviation APP_REGISTRY_CAPACITY :: nat where "APP_REGISTRY_CAPACITY \<equiv> 32"

abbreviation APP_CAPABILITY_LOG :: u64 where "APP_CAPABILITY_LOG \<equiv> 1"
abbreviation APP_CAPABILITY_TIME :: u64 where "APP_CAPABILITY_TIME \<equiv> 2"
abbreviation APP_CAPABILITY_FILE_READ :: u64 where "APP_CAPABILITY_FILE_READ \<equiv> 4"
abbreviation APP_CAPABILITY_FILE_WRITE :: u64 where "APP_CAPABILITY_FILE_WRITE \<equiv> 8"
abbreviation APP_CAPABILITY_INPUT :: u64 where "APP_CAPABILITY_INPUT \<equiv> 16"
abbreviation APP_CAPABILITY_WINDOW :: u64 where "APP_CAPABILITY_WINDOW \<equiv> 32"
abbreviation APP_CAPABILITY_MEMORY :: u64 where "APP_CAPABILITY_MEMORY \<equiv> 64"
abbreviation APP_CAPABILITY_NETWORK :: u64 where "APP_CAPABILITY_NETWORK \<equiv> 128"

definition APP_CAPABILITY_ALL :: u64 where
  "APP_CAPABILITY_ALL = APP_CAPABILITY_LOG OR APP_CAPABILITY_TIME OR APP_CAPABILITY_FILE_READ OR
     APP_CAPABILITY_FILE_WRITE OR APP_CAPABILITY_INPUT OR APP_CAPABILITY_WINDOW OR APP_CAPABILITY_MEMORY OR
     APP_CAPABILITY_NETWORK"

record app_manifest =
  manifest_version :: u32
  abi_version :: u32
  am_capabilities :: u64
  am_id :: bytes
  am_display_name :: bytes
  am_executable :: bytes
  am_description :: bytes

datatype app_manifest_result =
    APP_MANIFEST_OK
  | APP_MANIFEST_INVALID_ARGUMENT
  | APP_MANIFEST_UNSUPPORTED_VERSION
  | APP_MANIFEST_UNSUPPORTED_ABI
  | APP_MANIFEST_INVALID_CAPABILITY
  | APP_MANIFEST_INVALID_ID
  | APP_MANIFEST_INVALID_DISPLAY_NAME
  | APP_MANIFEST_INVALID_EXECUTABLE
  | APP_MANIFEST_INVALID_DESCRIPTION
  | APP_MANIFEST_DUPLICATE_ID
  | APP_MANIFEST_DUPLICATE_EXECUTABLE
  | APP_MANIFEST_REGISTRY_FULL

record app_registry =
  g_registry :: "app_manifest list"
  g_registry_count :: nat

text \<open>The length of the string in the first \<open>capacity\<close> bytes, when it ends there.\<close>

definition string_is_terminated :: "bytes \<Rightarrow> nat \<Rightarrow> nat option" where
  "string_is_terminated text capacity = find_idx (\<lambda>c. c = 0) (take capacity text)"

fun strings_equal_bounded :: "bytes \<Rightarrow> bytes \<Rightarrow> nat \<Rightarrow> bool" where
  "strings_equal_bounded (a # first) (b # second) (Suc capacity) =
     (if a \<noteq> b then False else if a = 0 then True else strings_equal_bounded first second capacity)"
| "strings_equal_bounded _ _ _ = False"

definition is_lower_letter :: "u8 \<Rightarrow> bool" where
  "is_lower_letter v \<longleftrightarrow> of_char (CHR ''a'') \<le> v \<and> v \<le> of_char (CHR ''z'')"

definition is_digit :: "u8 \<Rightarrow> bool" where
  "is_digit v \<longleftrightarrow> of_char (CHR ''0'') \<le> v \<and> v \<le> of_char (CHR ''9'')"

definition is_printable_ascii :: "u8 \<Rightarrow> bool" where
  "is_printable_ascii v \<longleftrightarrow> 0x20 \<le> v \<and> v \<le> 0x7e"

definition id_is_valid :: "bytes \<Rightarrow> bool" where
  "id_is_valid app_id = (case string_is_terminated app_id APP_ID_CAPACITY of
     None \<Rightarrow> False
   | Some len \<Rightarrow> len \<noteq> 0 \<and> is_lower_letter (app_id ! 0) \<and>
       (\<forall>index \<in> set [1..<len]. is_lower_letter (app_id ! index) \<or> is_digit (app_id ! index)
          \<or> app_id ! index = of_char (CHR ''-'') \<or> app_id ! index = of_char (CHR ''_'')))"

definition display_name_is_valid :: "bytes \<Rightarrow> bool" where
  "display_name_is_valid display_name = (case string_is_terminated display_name APP_DISPLAY_CAPACITY of
     None \<Rightarrow> False
   | Some len \<Rightarrow> len \<noteq> 0 \<and> display_name ! 0 \<noteq> of_char (CHR '' '') \<and> display_name ! (len - 1) \<noteq> of_char (CHR '' '')
       \<and> (\<forall>index \<in> set [0..<len]. is_printable_ascii (display_name ! index)))"

definition executable_is_valid :: "bytes \<Rightarrow> bool" where
  "executable_is_valid executable = (case string_is_terminated executable APP_EXECUTABLE_CAPACITY of
     None \<Rightarrow> False
   | Some len \<Rightarrow> len > 4
       \<and> (\<forall>index \<in> set [0..<len]. is_lower_letter (executable ! index) \<or> is_digit (executable ! index)
            \<or> executable ! index = of_char (CHR ''-'') \<or> executable ! index = of_char (CHR ''_'')
            \<or> executable ! index = of_char (CHR ''.''))
       \<and> executable ! (len - 4) = of_char (CHR ''.'') \<and> executable ! (len - 3) = of_char (CHR ''e'')
       \<and> executable ! (len - 2) = of_char (CHR ''l'') \<and> executable ! (len - 1) = of_char (CHR ''f''))"

definition description_is_valid :: "bytes \<Rightarrow> bool" where
  "description_is_valid description = (case string_is_terminated description APP_DESCRIPTION_CAPACITY of
     None \<Rightarrow> False
   | Some len \<Rightarrow> \<forall>index \<in> set [0..<len]. is_printable_ascii (description ! index))"

definition app_manifest_validate :: "app_manifest option \<Rightarrow> app_manifest_result" where
  "app_manifest_validate manifest = (case manifest of
     None \<Rightarrow> APP_MANIFEST_INVALID_ARGUMENT
   | Some m \<Rightarrow>
       if manifest_version m \<noteq> NOSTALUX_APP_MANIFEST_VERSION then APP_MANIFEST_UNSUPPORTED_VERSION
       else if abi_version m \<noteq> NOSTALUX_APP_ABI_VERSION then APP_MANIFEST_UNSUPPORTED_ABI
       else if am_capabilities m AND NOT APP_CAPABILITY_ALL \<noteq> 0 then APP_MANIFEST_INVALID_CAPABILITY
       else if \<not> id_is_valid (am_id m) then APP_MANIFEST_INVALID_ID
       else if \<not> display_name_is_valid (am_display_name m) then APP_MANIFEST_INVALID_DISPLAY_NAME
       else if \<not> executable_is_valid (am_executable m) then APP_MANIFEST_INVALID_EXECUTABLE
       else if \<not> description_is_valid (am_description m) then APP_MANIFEST_INVALID_DESCRIPTION
       else APP_MANIFEST_OK)"

definition app_registry_reset :: "app_registry \<Rightarrow> app_registry" where
  "app_registry_reset r = r\<lparr>g_registry := map (\<lambda>m. m\<lparr>am_id := (am_id m)[0 := 0]\<rparr>) (g_registry r), g_registry_count := 0\<rparr>"

text \<open>The duplicate check of \<open>app_registry_register\<close>.\<close>

fun find_duplicate :: "app_manifest \<Rightarrow> app_manifest list \<Rightarrow> app_manifest_result" where
  "find_duplicate m [] = APP_MANIFEST_OK"
| "find_duplicate m (e # es) =
     (if strings_equal_bounded (am_id e) (am_id m) APP_ID_CAPACITY then APP_MANIFEST_DUPLICATE_ID
      else if strings_equal_bounded (am_executable e) (am_executable m) APP_EXECUTABLE_CAPACITY
      then APP_MANIFEST_DUPLICATE_EXECUTABLE
      else find_duplicate m es)"

definition app_registry_register :: "app_manifest option \<Rightarrow> app_registry \<Rightarrow> app_manifest_result \<times> app_registry" where
  "app_registry_register manifest r =
     (let result = app_manifest_validate manifest
      in if result \<noteq> APP_MANIFEST_OK then (result, r)
         else
           let m = the manifest; dup = find_duplicate m (take (g_registry_count r) (g_registry r))
           in if dup \<noteq> APP_MANIFEST_OK then (dup, r)
              else if g_registry_count r \<ge> APP_REGISTRY_CAPACITY then (APP_MANIFEST_REGISTRY_FULL, r)
              else (APP_MANIFEST_OK, r\<lparr>g_registry := blit (g_registry r) (g_registry_count r) [m],
                                       g_registry_count := g_registry_count r + 1\<rparr>))"

definition app_registry_count :: "app_registry \<Rightarrow> nat" where
  "app_registry_count r = g_registry_count r"

definition app_registry_at :: "nat \<Rightarrow> app_registry \<Rightarrow> app_manifest option" where
  "app_registry_at index r = (if index \<ge> g_registry_count r then None else Some (g_registry r ! index))"

definition app_registry_find_id :: "bytes option \<Rightarrow> app_registry \<Rightarrow> app_manifest option" where
  "app_registry_find_id app_id r = (case app_id of
     None \<Rightarrow> None
   | Some i \<Rightarrow> find (\<lambda>e. strings_equal_bounded (am_id e) i APP_ID_CAPACITY) (take (g_registry_count r) (g_registry r)))"

definition app_registry_find_executable :: "bytes option \<Rightarrow> app_registry \<Rightarrow> app_manifest option" where
  "app_registry_find_executable executable r = (case executable of
     None \<Rightarrow> None
   | Some x \<Rightarrow> find (\<lambda>e. strings_equal_bounded (am_executable e) x APP_EXECUTABLE_CAPACITY) (take (g_registry_count r) (g_registry r)))"

fun app_manifest_result_text :: "app_manifest_result \<Rightarrow> string" where
  "app_manifest_result_text APP_MANIFEST_OK = ''ok''"
| "app_manifest_result_text APP_MANIFEST_INVALID_ARGUMENT = ''invalid argument''"
| "app_manifest_result_text APP_MANIFEST_UNSUPPORTED_VERSION = ''unsupported manifest version''"
| "app_manifest_result_text APP_MANIFEST_UNSUPPORTED_ABI = ''unsupported application ABI''"
| "app_manifest_result_text APP_MANIFEST_INVALID_CAPABILITY = ''manifest requests an unknown capability''"
| "app_manifest_result_text APP_MANIFEST_INVALID_ID = ''invalid application id''"
| "app_manifest_result_text APP_MANIFEST_INVALID_DISPLAY_NAME = ''invalid application display name''"
| "app_manifest_result_text APP_MANIFEST_INVALID_EXECUTABLE = ''invalid application executable''"
| "app_manifest_result_text APP_MANIFEST_INVALID_DESCRIPTION = ''invalid application description''"
| "app_manifest_result_text APP_MANIFEST_DUPLICATE_ID = ''application id is already registered''"
| "app_manifest_result_text APP_MANIFEST_DUPLICATE_EXECUTABLE = ''application executable is already registered''"
| "app_manifest_result_text APP_MANIFEST_REGISTRY_FULL = ''application registry is full''"

text \<open>The system calls, in the order of their numbers from \<open>0x1000\<close>, with the capability each
  requires.\<close>

datatype app_syscall_id =
    APP_SYSCALL_ABI_QUERY | APP_SYSCALL_EXIT | APP_SYSCALL_YIELD | APP_SYSCALL_LOG_WRITE | APP_SYSCALL_TIME_GET
  | APP_SYSCALL_FILE_OPEN | APP_SYSCALL_FILE_READ | APP_SYSCALL_FILE_WRITE | APP_SYSCALL_FILE_CLOSE
  | APP_SYSCALL_WINDOW_CREATE | APP_SYSCALL_WINDOW_PRESENT | APP_SYSCALL_WINDOW_CLOSE | APP_SYSCALL_INPUT_POLL
  | APP_SYSCALL_MEMORY_MAP | APP_SYSCALL_MEMORY_UNMAP | APP_SYSCALL_ARGUMENT_GET | APP_SYSCALL_FILE_REPLACE
  | APP_SYSCALL_NETWORK_STATUS | APP_SYSCALL_NETWORK_HTTP_START | APP_SYSCALL_NETWORK_REQUEST_STATUS
  | APP_SYSCALL_NETWORK_REQUEST_READ | APP_SYSCALL_NETWORK_REQUEST_CANCEL | APP_SYSCALL_NETWORK_REQUEST_CLOSE
  | APP_SYSCALL_FILE_CREATE_EXCLUSIVE

definition app_syscalls :: "app_syscall_id list" where
  "app_syscalls =
     [APP_SYSCALL_ABI_QUERY, APP_SYSCALL_EXIT, APP_SYSCALL_YIELD, APP_SYSCALL_LOG_WRITE, APP_SYSCALL_TIME_GET,
      APP_SYSCALL_FILE_OPEN, APP_SYSCALL_FILE_READ, APP_SYSCALL_FILE_WRITE, APP_SYSCALL_FILE_CLOSE,
      APP_SYSCALL_WINDOW_CREATE, APP_SYSCALL_WINDOW_PRESENT, APP_SYSCALL_WINDOW_CLOSE, APP_SYSCALL_INPUT_POLL,
      APP_SYSCALL_MEMORY_MAP, APP_SYSCALL_MEMORY_UNMAP, APP_SYSCALL_ARGUMENT_GET, APP_SYSCALL_FILE_REPLACE,
      APP_SYSCALL_NETWORK_STATUS, APP_SYSCALL_NETWORK_HTTP_START, APP_SYSCALL_NETWORK_REQUEST_STATUS,
      APP_SYSCALL_NETWORK_REQUEST_READ, APP_SYSCALL_NETWORK_REQUEST_CANCEL, APP_SYSCALL_NETWORK_REQUEST_CLOSE,
      APP_SYSCALL_FILE_CREATE_EXCLUSIVE]"

definition syscall_of :: "u64 \<Rightarrow> app_syscall_id option" where
  "syscall_of syscall_id =
     (if 0x1000 \<le> syscall_id \<and> unat (syscall_id - 0x1000) < length app_syscalls
      then Some (app_syscalls ! unat (syscall_id - 0x1000)) else None)"

definition app_abi_syscall_known :: "u64 \<Rightarrow> bool" where
  "app_abi_syscall_known syscall_id \<longleftrightarrow> 0x1000 \<le> syscall_id \<and> syscall_id \<le> 0x1017"

fun required_capability :: "app_syscall_id \<Rightarrow> u64" where
  "required_capability APP_SYSCALL_ABI_QUERY = 0"
| "required_capability APP_SYSCALL_EXIT = 0"
| "required_capability APP_SYSCALL_YIELD = 0"
| "required_capability APP_SYSCALL_ARGUMENT_GET = 0"
| "required_capability APP_SYSCALL_LOG_WRITE = APP_CAPABILITY_LOG"
| "required_capability APP_SYSCALL_TIME_GET = APP_CAPABILITY_TIME"
| "required_capability APP_SYSCALL_NETWORK_STATUS = APP_CAPABILITY_NETWORK"
| "required_capability APP_SYSCALL_NETWORK_HTTP_START = APP_CAPABILITY_NETWORK"
| "required_capability APP_SYSCALL_NETWORK_REQUEST_STATUS = APP_CAPABILITY_NETWORK"
| "required_capability APP_SYSCALL_NETWORK_REQUEST_READ = APP_CAPABILITY_NETWORK"
| "required_capability APP_SYSCALL_NETWORK_REQUEST_CANCEL = APP_CAPABILITY_NETWORK"
| "required_capability APP_SYSCALL_NETWORK_REQUEST_CLOSE = APP_CAPABILITY_NETWORK"
| "required_capability APP_SYSCALL_FILE_OPEN = 0"
| "required_capability APP_SYSCALL_FILE_READ = APP_CAPABILITY_FILE_READ"
| "required_capability APP_SYSCALL_FILE_WRITE = APP_CAPABILITY_FILE_WRITE"
| "required_capability APP_SYSCALL_FILE_REPLACE = APP_CAPABILITY_FILE_WRITE"
| "required_capability APP_SYSCALL_FILE_CREATE_EXCLUSIVE = APP_CAPABILITY_FILE_WRITE"
| "required_capability APP_SYSCALL_FILE_CLOSE = 0"
| "required_capability APP_SYSCALL_WINDOW_CREATE = APP_CAPABILITY_WINDOW"
| "required_capability APP_SYSCALL_WINDOW_PRESENT = APP_CAPABILITY_WINDOW"
| "required_capability APP_SYSCALL_WINDOW_CLOSE = APP_CAPABILITY_WINDOW"
| "required_capability APP_SYSCALL_INPUT_POLL = APP_CAPABILITY_INPUT"
| "required_capability APP_SYSCALL_MEMORY_MAP = APP_CAPABILITY_MEMORY"
| "required_capability APP_SYSCALL_MEMORY_UNMAP = APP_CAPABILITY_MEMORY"

definition app_abi_required_capability :: "u64 \<Rightarrow> u64" where
  "app_abi_required_capability syscall_id =
     (case syscall_of syscall_id of Some s \<Rightarrow> required_capability s | None \<Rightarrow> - 1)"

fun syscall_name :: "app_syscall_id \<Rightarrow> string" where
  "syscall_name APP_SYSCALL_ABI_QUERY = ''abi_query''"
| "syscall_name APP_SYSCALL_EXIT = ''exit''"
| "syscall_name APP_SYSCALL_YIELD = ''yield''"
| "syscall_name APP_SYSCALL_LOG_WRITE = ''log_write''"
| "syscall_name APP_SYSCALL_TIME_GET = ''time_get''"
| "syscall_name APP_SYSCALL_FILE_OPEN = ''file_open''"
| "syscall_name APP_SYSCALL_FILE_READ = ''file_read''"
| "syscall_name APP_SYSCALL_FILE_WRITE = ''file_write''"
| "syscall_name APP_SYSCALL_FILE_CLOSE = ''file_close''"
| "syscall_name APP_SYSCALL_WINDOW_CREATE = ''window_create''"
| "syscall_name APP_SYSCALL_WINDOW_PRESENT = ''window_present''"
| "syscall_name APP_SYSCALL_WINDOW_CLOSE = ''window_close''"
| "syscall_name APP_SYSCALL_INPUT_POLL = ''input_poll''"
| "syscall_name APP_SYSCALL_MEMORY_MAP = ''memory_map''"
| "syscall_name APP_SYSCALL_MEMORY_UNMAP = ''memory_unmap''"
| "syscall_name APP_SYSCALL_ARGUMENT_GET = ''argument_get''"
| "syscall_name APP_SYSCALL_FILE_REPLACE = ''file_replace''"
| "syscall_name APP_SYSCALL_NETWORK_STATUS = ''network_status''"
| "syscall_name APP_SYSCALL_NETWORK_HTTP_START = ''network_http_start''"
| "syscall_name APP_SYSCALL_NETWORK_REQUEST_STATUS = ''network_request_status''"
| "syscall_name APP_SYSCALL_NETWORK_REQUEST_READ = ''network_request_read''"
| "syscall_name APP_SYSCALL_NETWORK_REQUEST_CANCEL = ''network_request_cancel''"
| "syscall_name APP_SYSCALL_NETWORK_REQUEST_CLOSE = ''network_request_close''"
| "syscall_name APP_SYSCALL_FILE_CREATE_EXCLUSIVE = ''file_create_exclusive''"

definition app_abi_syscall_name :: "u64 \<Rightarrow> string" where
  "app_abi_syscall_name syscall_id =
     (case syscall_of syscall_id of Some s \<Rightarrow> syscall_name s | None \<Rightarrow> ''unknown'')"

definition manifest_shape :: "app_manifest \<Rightarrow> bool" where
  "manifest_shape m \<longleftrightarrow> length (am_id m) = APP_ID_CAPACITY \<and> length (am_display_name m) = APP_DISPLAY_CAPACITY
     \<and> length (am_executable m) = APP_EXECUTABLE_CAPACITY \<and> length (am_description m) = APP_DESCRIPTION_CAPACITY"

abbreviation registered :: "app_registry \<Rightarrow> app_manifest list" where
  "registered r \<equiv> take (g_registry_count r) (g_registry r)"

text \<open>The registry: valid manifests, no identifier and no executable twice.\<close>

definition app_registry_inv :: "app_registry \<Rightarrow> bool" where
  "app_registry_inv r \<longleftrightarrow> length (g_registry r) = APP_REGISTRY_CAPACITY \<and> g_registry_count r \<le> APP_REGISTRY_CAPACITY
     \<and> (\<forall>m \<in> set (registered r). manifest_shape m \<and> app_manifest_validate (Some m) = APP_MANIFEST_OK)
     \<and> distinct (map (\<lambda>m. cstr (am_id m)) (registered r)) \<and> distinct (map (\<lambda>m. cstr (am_executable m)) (registered r))"

text \<open>A manifest, and the empty registry.\<close>

definition sample_manifest :: app_manifest where
  "sample_manifest = \<lparr>manifest_version = 1, abi_version = 1, am_capabilities = 3,
     am_id = lit ''notepad'' @ replicate 24 0, am_display_name = lit ''Notepad'' @ replicate 40 0,
     am_executable = lit ''notepad.elf'' @ replicate 20 0, am_description = lit ''Text editor'' @ replicate 84 0\<rparr>"

definition sample_apps :: app_registry where
  "sample_apps = \<lparr>g_registry = replicate APP_REGISTRY_CAPACITY sample_manifest, g_registry_count = 0\<rparr>"

section \<open>Bounded strings\<close>

lemma string_is_terminated_iff:
  "string_is_terminated text n = Some len \<longleftrightarrow> terminated (take n text) \<and> len = length (cstr (take n text))"
proof -
  have "find_idx (\<lambda>c. c = 0) b = (if terminated b then Some (length (cstr b)) else None)" for b :: bytes
    by (induction b) (auto simp: terminated_def cstr_def)
  then show ?thesis by (auto simp: string_is_terminated_def)
qed

lemma strings_equal_bounded_iff:
  "strings_equal_bounded a b n \<longleftrightarrow> terminated (take n a) \<and> terminated (take n b) \<and> cstr (take n a) = cstr (take n b)"
  by (induction a b n rule: strings_equal_bounded.induct) (auto simp: terminated_def cstr_def take_Cons split: nat.splits)

lemma valid_terminated:
  assumes "app_manifest_validate (Some m) = APP_MANIFEST_OK" and "manifest_shape m"
  shows "terminated (am_id m)" "terminated (am_executable m)" "cstr (am_id m) \<noteq> []"
  using assms by (auto simp: app_manifest_validate_def id_is_valid_def executable_is_valid_def manifest_shape_def
      string_is_terminated_iff split: if_splits option.splits)

section \<open>Registration\<close>

lemma find_duplicate_ok:
  "find_duplicate m es = APP_MANIFEST_OK \<longleftrightarrow> (\<forall>e \<in> set es. \<not> strings_equal_bounded (am_id e) (am_id m) APP_ID_CAPACITY
     \<and> \<not> strings_equal_bounded (am_executable e) (am_executable m) APP_EXECUTABLE_CAPACITY)"
  by (induction es) auto

lemma registry_full_take: "manifest_shape m \<Longrightarrow> take APP_ID_CAPACITY (am_id m) = am_id m \<and> take APP_EXECUTABLE_CAPACITY (am_executable m) = am_executable m"
  by (simp add: manifest_shape_def)

lemma register_ok:
  assumes inv: "app_registry_inv r" and sh: "manifest_shape m"
    and new: "app_registry_register (Some m) r = (APP_MANIFEST_OK, r')"
  shows "app_registry_inv r' \<and> registered r' = registered r @ [m]"
proof -
  have v: "app_manifest_validate (Some m) = APP_MANIFEST_OK" "find_duplicate m (registered r) = APP_MANIFEST_OK"
    "g_registry_count r < APP_REGISTRY_CAPACITY"
    "r' = r\<lparr>g_registry := blit (g_registry r) (g_registry_count r) [m], g_registry_count := g_registry_count r + 1\<rparr>"
    using new by (auto simp: app_registry_register_def Let_def split: if_splits)
  have reg: "registered r' = registered r @ [m]"
    using take_blit[of "g_registry_count r" "g_registry r" "[m]"] inv v(3,4) by (simp add: app_registry_inv_def)
  have e: "manifest_shape e \<and> app_manifest_validate (Some e) = APP_MANIFEST_OK" if "e \<in> set (registered r)" for e
    using inv that by (auto simp: app_registry_inv_def)
  have "cstr (am_id e) \<noteq> cstr (am_id m) \<and> cstr (am_executable e) \<noteq> cstr (am_executable m)" if "e \<in> set (registered r)" for e
    using that v(2) e[OF that] valid_terminated[OF v(1) sh] valid_terminated[of e] registry_full_take[OF sh] registry_full_take[of e]
    by (auto simp: find_duplicate_ok strings_equal_bounded_iff)
  then have "cstr (am_id m) \<notin> (\<lambda>m. cstr (am_id m)) ` set (registered r)" "cstr (am_executable m) \<notin> (\<lambda>m. cstr (am_executable m)) ` set (registered r)"
    by (force dest: sym)+
  then show ?thesis using inv v(1,3,4) sh unfolding app_registry_inv_def reg by (auto simp: length_blit)
qed

lemma register_rejected: "app_registry_register m r = (c, r') \<Longrightarrow> c \<noteq> APP_MANIFEST_OK \<Longrightarrow> r' = r"
  by (auto simp: app_registry_register_def Let_def split: if_splits)

lemma find_by:
  assumes "distinct (map f es)" and "m \<in> set es" and "\<And>e. e \<in> set es \<Longrightarrow> P e \<longleftrightarrow> f e = f m"
  shows "find P es = Some m"
  using assms
proof (induction es)
  case (Cons e es)
  show ?case
  proof (cases "f e = f m")
    case True
    then have "m = e" using Cons.prems(1,2) by (auto simp: image_iff)
    then show ?thesis using Cons.prems(3)[of e] by simp
  next
    case False
    then have "m \<in> set es" using Cons.prems(2) by auto
    moreover have "\<not> P e" using Cons.prems(3)[of e] False by simp
    ultimately show ?thesis using Cons.IH Cons.prems(1,3) by simp
  qed
qed simp

text \<open>Every known system call but the universal ones needs exactly one known capability; an unknown one
  needs more than any manifest can hold.\<close>

lemma syscall_known_iff: "app_abi_syscall_known n \<longleftrightarrow> syscall_of n \<noteq> None"
proof (cases "0x1000 \<le> n")
  case True
  then have "unat (n - 0x1000) = unat n - 0x1000" by (simp add: unat_sub)
  moreover have "length app_syscalls = 24" by (simp add: app_syscalls_def)
  ultimately show ?thesis using True by (auto simp: app_abi_syscall_known_def syscall_of_def word_le_nat_alt)
qed (simp add: app_abi_syscall_known_def syscall_of_def)

lemma capability_all: "APP_CAPABILITY_ALL = 255"
  by (simp add: APP_CAPABILITY_ALL_def)

lemma required_capability_single: "required_capability s \<in> {0, 1, 2, 4, 8, 16, 32, 64, 128}"
  by (cases s) simp_all

section \<open>Properties\<close>

text \<open>C28: the registry stays a table of valid manifests in which no identifier and no
  executable occurs twice.  A registration that succeeds appends the manifest and makes it the one
  found under its identifier and under its executable, without changing what is found for the
  others; one that fails changes nothing.\<close>

theorem app_registry_keyed:
  assumes "app_registry_inv r" and "manifest_shape m" and "app_registry_register (Some m) r = (c, r')"
  shows "app_registry_inv r' \<and> (if c = APP_MANIFEST_OK
      then registered r' = registered r @ [m]
        \<and> (\<forall>e \<in> set (registered r'). app_registry_find_id (Some (am_id e)) r' = Some e
            \<and> app_registry_find_executable (Some (am_executable e)) r' = Some e)
      else r' = r)"
proof (cases "c = APP_MANIFEST_OK")
  case True
  then have ok: "app_registry_inv r'" "registered r' = registered r @ [m]" using register_ok[OF assms(1,2)] assms(3) by auto
  have sh: "manifest_shape e \<and> terminated (am_id e) \<and> terminated (am_executable e)" if "e \<in> set (registered r')" for e
    using ok(1) that valid_terminated[of e] by (auto simp: app_registry_inv_def)
  have "app_registry_find_id (Some (am_id e)) r' = Some e \<and> app_registry_find_executable (Some (am_executable e)) r' = Some e"
    if e: "e \<in> set (registered r')" for e
  proof -
    have "strings_equal_bounded (am_id f) (am_id e) APP_ID_CAPACITY \<longleftrightarrow> cstr (am_id f) = cstr (am_id e)"
      "strings_equal_bounded (am_executable f) (am_executable e) APP_EXECUTABLE_CAPACITY \<longleftrightarrow> cstr (am_executable f) = cstr (am_executable e)"
      if "f \<in> set (registered r')" for f
      using sh[OF that] sh[OF e] registry_full_take[of e] registry_full_take[of f] by (auto simp: strings_equal_bounded_iff)
    then show ?thesis
      using find_by[of "\<lambda>m. cstr (am_id m)" "registered r'" e] find_by[of "\<lambda>m. cstr (am_executable m)" "registered r'" e] ok(1) e
      by (simp add: app_registry_find_id_def app_registry_find_executable_def app_registry_inv_def)
  qed
  then show ?thesis using True ok by simp
next
  case False
  then show ?thesis using register_rejected[OF assms(3)] assms(1) by simp
qed

theorem app_registry_keyed_witness:
  "\<exists>r'. app_registry_register (Some sample_manifest) sample_apps = (APP_MANIFEST_OK, r')
     \<and> app_registry_find_id (Some (am_id sample_manifest)) r' = Some sample_manifest"
proof -
  have "manifest_shape sample_manifest" by (simp add: manifest_shape_def sample_manifest_def lit_def)
  moreover have "app_registry_inv sample_apps" by (simp add: app_registry_inv_def sample_apps_def)
  moreover have "fst (app_registry_register (Some sample_manifest) sample_apps) = APP_MANIFEST_OK" by code_simp
  ultimately show ?thesis
    using app_registry_keyed[of sample_apps sample_manifest APP_MANIFEST_OK "snd (app_registry_register (Some sample_manifest) sample_apps)"]
    by (cases "app_registry_register (Some sample_manifest) sample_apps") auto
qed

end
