(* ===== verification/App_Process.thy ===== *)
theory App_Process
  imports Elf_Loader App_Manifest
begin

text \<open>
  The application process table of \<open>src/kernel/app_process.c\<close>: sixteen slots, the life cycle of
  an application, and the chronological listing.  \<open>app_services_release_process\<close> acts on the
  rest of the kernel; it is the argument \<open>release\<close> of the operations that call it, on a state
  \<open>'w\<close> that is threaded through them.
\<close>

section \<open>Definitions\<close>

abbreviation APP_PROCESS_CAPACITY :: nat where "APP_PROCESS_CAPACITY \<equiv> 16"
abbreviation APP_STARTUP_ARGUMENT_MAX :: nat where "APP_STARTUP_ARGUMENT_MAX \<equiv> 255"

datatype app_process_state =
    APP_PROCESS_UNUSED | APP_PROCESS_LOADED | APP_PROCESS_STARTING | APP_PROCESS_RUNNING | APP_PROCESS_EXITED | APP_PROCESS_FAULTED

record app_fault_record =
  fault_vector :: u8
  has_error_code :: bool
  error_code :: u64
  instruction_pointer :: u64
  stack_pointer :: u64
  fault_address :: u64

record app_process_info =
  pi_id :: u64
  pi_app_id :: bytes
  pi_display_name :: bytes
  pi_startup_argument :: bytes
  pi_state :: app_process_state
  pi_exit_code :: "64 word"
  pi_capabilities :: u64
  pi_virtual_base :: u64
  pi_virtual_end :: u64
  pi_entry_point :: u64
  pi_fault :: app_fault_record

record process_table =
  g_processes :: "app_process_info list"
  g_process_count :: nat
  g_next_process_id :: u64

datatype app_process_result =
    APP_PROCESS_OK | APP_PROCESS_INVALID_ARGUMENT | APP_PROCESS_TABLE_FULL | APP_PROCESS_ID_EXHAUSTED
  | APP_PROCESS_NOT_FOUND | APP_PROCESS_INVALID_TRANSITION

definition zero_fault :: app_fault_record where
  "zero_fault = \<lparr>fault_vector = 0, has_error_code = False, error_code = 0, instruction_pointer = 0, stack_pointer = 0, fault_address = 0\<rparr>"

definition zero_process :: app_process_info where
  "zero_process = \<lparr>pi_id = 0, pi_app_id = replicate APP_ID_CAPACITY 0, pi_display_name = replicate APP_DISPLAY_CAPACITY 0,
     pi_startup_argument = replicate (APP_STARTUP_ARGUMENT_MAX + 1) 0, pi_state = APP_PROCESS_UNUSED, pi_exit_code = 0,
     pi_capabilities = 0, pi_virtual_base = 0, pi_virtual_end = 0, pi_entry_point = 0, pi_fault = zero_fault\<rparr>"

definition copy_string :: "bytes \<Rightarrow> nat \<Rightarrow> bytes option \<Rightarrow> bytes" where
  "copy_string destination capacity source =
     blit destination 0 ((case source of None \<Rightarrow> [] | Some s \<Rightarrow> cstr_run (capacity - 1) s) @ [0])"

definition find_process :: "u64 \<Rightarrow> process_table \<Rightarrow> nat option" where
  "find_process pid t =
     (if pid = 0 then None
      else find_idx (\<lambda>p. pi_state p \<noteq> APP_PROCESS_UNUSED \<and> pi_id p = pid) (g_processes t))"

definition find_free_slot :: "process_table \<Rightarrow> nat option" where
  "find_free_slot t = find_idx (\<lambda>p. pi_state p = APP_PROCESS_UNUSED) (g_processes t)"

definition terminal :: "app_process_info \<Rightarrow> bool" where
  "terminal p \<longleftrightarrow> pi_state p = APP_PROCESS_EXITED \<or> pi_state p = APP_PROCESS_FAULTED"

text \<open>The loop of \<open>find_oldest_terminal_slot\<close>: slot index, oldest so far.\<close>

fun oldest_terminal :: "nat \<Rightarrow> (nat \<times> app_process_info) option \<Rightarrow> app_process_info list \<Rightarrow> (nat \<times> app_process_info) option" where
  "oldest_terminal index oldest [] = oldest"
| "oldest_terminal index oldest (p # ps) =
     oldest_terminal (index + 1)
       (if \<not> terminal p then oldest
        else case oldest of
               None \<Rightarrow> Some (index, p)
             | Some (i, q) \<Rightarrow> if pi_id p < pi_id q then Some (index, p) else oldest) ps"

definition find_oldest_terminal_slot :: "process_table \<Rightarrow> nat option" where
  "find_oldest_terminal_slot t = map_option fst (oldest_terminal 0 None (g_processes t))"

text \<open>The checks of \<open>plan_is_consistent\<close> on one segment, against the ones before it.\<close>

definition segment_consistent :: "elf64_image_plan \<Rightarrow> elf64_load_segment list \<Rightarrow> elf64_load_segment \<Rightarrow> bool" where
  "segment_consistent img before s \<longleftrightarrow>
     ls_memory_size s \<noteq> 0 \<and> ls_file_size s \<le> ls_memory_size s
     \<and> ls_virtual_address s \<ge> virtual_base img \<and> ls_virtual_address s < virtual_end img
     \<and> ls_memory_size s \<le> virtual_end img - ls_virtual_address s
     \<and> ls_flags s AND NOT (ELF64_SEGMENT_READ OR ELF64_SEGMENT_WRITE OR ELF64_SEGMENT_EXECUTE) = 0
     \<and> \<not> (ls_flags s AND ELF64_SEGMENT_WRITE \<noteq> 0 \<and> ls_flags s AND ELF64_SEGMENT_EXECUTE \<noteq> 0)
     \<and> (\<forall>other \<in> set before. \<not> (ls_virtual_address s < ls_virtual_address other + ls_memory_size other
          \<and> ls_virtual_address other < ls_virtual_address s + ls_memory_size s))"

definition entry_in_segment :: "elf64_image_plan \<Rightarrow> elf64_load_segment \<Rightarrow> bool" where
  "entry_in_segment img s \<longleftrightarrow> ls_flags s AND ELF64_SEGMENT_EXECUTE \<noteq> 0
     \<and> entry_point img \<ge> ls_virtual_address s \<and> entry_point img - ls_virtual_address s < ls_file_size s"

definition plan_is_consistent :: "elf64_image_plan option \<Rightarrow> bool" where
  "plan_is_consistent plan = (case plan of
     None \<Rightarrow> False
   | Some img \<Rightarrow>
       segment_count img \<noteq> 0 \<and> segment_count img \<le> ELF64_LOADER_MAX_LOAD_SEGMENTS
       \<and> virtual_base img \<ge> ELF64_LOADER_MIN_USER_VADDR \<and> virtual_base img < virtual_end img
       \<and> virtual_end img - 1 \<le> ELF64_LOADER_MAX_USER_VADDR
       \<and> virtual_end img - virtual_base img = of_nat (image_span img) \<and> of_nat (image_span img) \<le> ELF64_LOADER_MAX_IMAGE_SPAN
       \<and> entry_point img \<ge> virtual_base img \<and> entry_point img < virtual_end img
       \<and> (\<forall>index \<in> set [0..<segment_count img].
            segment_consistent img (take index (segments img)) (segments img ! index))
       \<and> (\<exists>index \<in> set [0..<segment_count img]. entry_in_segment img (segments img ! index)))"

definition app_process_table_reset :: "(u64 \<Rightarrow> 'w \<Rightarrow> 'w) \<Rightarrow> process_table \<times> 'w \<Rightarrow> process_table \<times> 'w" where
  "app_process_table_reset release = (\<lambda>(t, w).
     (\<lparr>g_processes = replicate APP_PROCESS_CAPACITY zero_process, g_process_count = 0, g_next_process_id = 1\<rparr>,
      fold (\<lambda>p w. if pi_state p \<noteq> APP_PROCESS_UNUSED then release (pi_id p) w else w) (g_processes t) w))"

definition put_process :: "nat \<Rightarrow> app_process_info \<Rightarrow> process_table \<Rightarrow> process_table" where
  "put_process i p t = t\<lparr>g_processes := (g_processes t)[i := p]\<rparr>"

text \<open>\<open>app_process_track_loaded\<close> returns the new process identifier when it stores one.\<close>

definition app_process_track_loaded ::
  "app_manifest option \<Rightarrow> elf64_image_plan option \<Rightarrow> bool \<Rightarrow> process_table \<Rightarrow> app_process_result \<times> u64 option \<times> process_table" where
  "app_process_track_loaded manifest plan out_process_id t =
     (if \<not> out_process_id \<or> app_manifest_validate manifest \<noteq> APP_MANIFEST_OK \<or> \<not> plan_is_consistent plan
      then (APP_PROCESS_INVALID_ARGUMENT, None, t)
      else if g_next_process_id t = 0 then (APP_PROCESS_ID_EXHAUSTED, None, t)
      else
        let reclaimed = (case find_free_slot t of
              Some i \<Rightarrow> Some (i, t)
            | None \<Rightarrow> (case find_oldest_terminal_slot t of
                 None \<Rightarrow> None
               | Some i \<Rightarrow> Some (i, (put_process i zero_process t)\<lparr>g_process_count := szsub (g_process_count t) 1\<rparr>)))
        in case reclaimed of
             None \<Rightarrow> (APP_PROCESS_TABLE_FULL, None, t)
           | Some (i, t) \<Rightarrow>
               let m = the manifest; img = the plan; pid = g_next_process_id t;
                   p = zero_process\<lparr>pi_id := pid,
                         pi_app_id := copy_string (pi_app_id zero_process) APP_ID_CAPACITY (Some (am_id m)),
                         pi_display_name := copy_string (pi_display_name zero_process) APP_DISPLAY_CAPACITY (Some (am_display_name m)),
                         pi_state := APP_PROCESS_LOADED, pi_capabilities := am_capabilities m,
                         pi_virtual_base := virtual_base img, pi_virtual_end := virtual_end img, pi_entry_point := entry_point img\<rparr>
               in (APP_PROCESS_OK, Some pid,
                   (put_process i p t)\<lparr>g_process_count := g_process_count t + 1,
                      g_next_process_id := (if g_next_process_id t = - 1 then 0 else g_next_process_id t + 1)\<rparr>))"

text \<open>A transition: find the process, check its state, update it.\<close>

definition transition ::
  "u64 \<Rightarrow> app_process_state set \<Rightarrow> (app_process_info \<Rightarrow> app_process_info) \<Rightarrow> process_table \<Rightarrow> app_process_result \<times> process_table" where
  "transition pid from f t =
     (case find_process pid t of
        None \<Rightarrow> (APP_PROCESS_NOT_FOUND, t)
      | Some i \<Rightarrow>
          if pi_state (g_processes t ! i) \<notin> from then (APP_PROCESS_INVALID_TRANSITION, t)
          else (APP_PROCESS_OK, put_process i (f (g_processes t ! i)) t))"

definition app_process_mark_starting :: "u64 \<Rightarrow> process_table \<Rightarrow> app_process_result \<times> process_table" where
  "app_process_mark_starting pid t =
     transition pid {APP_PROCESS_LOADED} (\<lambda>p. p\<lparr>pi_state := APP_PROCESS_STARTING\<rparr>) t"

text \<open>The checks of \<open>app_process_set_startup_argument\<close> on the argument.\<close>

definition argument_ok :: "bytes \<Rightarrow> bool" where
  "argument_ok s \<longleftrightarrow> (\<forall>v \<in> set (cstr_run (APP_STARTUP_ARGUMENT_MAX + 1) s). \<not> (v < 32 \<or> v > 126))
     \<and> length (cstr_run (APP_STARTUP_ARGUMENT_MAX + 1) s) \<le> APP_STARTUP_ARGUMENT_MAX"

definition app_process_set_startup_argument :: "u64 \<Rightarrow> bytes option \<Rightarrow> process_table \<Rightarrow> app_process_result \<times> process_table" where
  "app_process_set_startup_argument pid argument t =
     (case find_process pid t of
        None \<Rightarrow> (APP_PROCESS_NOT_FOUND, t)
      | Some i \<Rightarrow>
          let p = g_processes t ! i
          in if pi_state p \<noteq> APP_PROCESS_LOADED then (APP_PROCESS_INVALID_TRANSITION, t)
             else if (case argument of None \<Rightarrow> False | Some s \<Rightarrow> \<not> argument_ok s) then (APP_PROCESS_INVALID_ARGUMENT, t)
             else (APP_PROCESS_OK,
                   put_process i (p\<lparr>pi_startup_argument := copy_string (pi_startup_argument p) (APP_STARTUP_ARGUMENT_MAX + 1) argument\<rparr>) t))"

definition app_process_mark_running :: "u64 \<Rightarrow> process_table \<Rightarrow> app_process_result \<times> process_table" where
  "app_process_mark_running pid t =
     transition pid {APP_PROCESS_STARTING} (\<lambda>p. p\<lparr>pi_state := APP_PROCESS_RUNNING\<rparr>) t"

text \<open>Operations that end a process also release what it holds.\<close>

definition releasing :: "(u64 \<Rightarrow> 'w \<Rightarrow> 'w) \<Rightarrow> u64 \<Rightarrow> 'w \<Rightarrow> app_process_result \<times> process_table \<Rightarrow> app_process_result \<times> process_table \<times> 'w" where
  "releasing release pid w = (\<lambda>(r, t). (r, t, if r = APP_PROCESS_OK then release pid w else w))"

definition app_process_mark_exited ::
  "(u64 \<Rightarrow> 'w \<Rightarrow> 'w) \<Rightarrow> u64 \<Rightarrow> 64 word \<Rightarrow> process_table \<times> 'w \<Rightarrow> app_process_result \<times> process_table \<times> 'w" where
  "app_process_mark_exited release pid code = (\<lambda>(t, w).
     releasing release pid w (transition pid {APP_PROCESS_STARTING, APP_PROCESS_RUNNING}
       (\<lambda>p. p\<lparr>pi_exit_code := code, pi_state := APP_PROCESS_EXITED\<rparr>) t))"

definition app_process_record_fault ::
  "(u64 \<Rightarrow> 'w \<Rightarrow> 'w) \<Rightarrow> u64 \<Rightarrow> app_fault_record option \<Rightarrow> process_table \<times> 'w \<Rightarrow> app_process_result \<times> process_table \<times> 'w" where
  "app_process_record_fault release pid fault = (\<lambda>(t, w).
     case fault of
       None \<Rightarrow> (APP_PROCESS_INVALID_ARGUMENT, t, w)
     | Some f \<Rightarrow> releasing release pid w (transition pid {APP_PROCESS_STARTING, APP_PROCESS_RUNNING}
         (\<lambda>p. p\<lparr>pi_fault := f, pi_state := APP_PROCESS_FAULTED\<rparr>) t))"

definition app_process_release ::
  "(u64 \<Rightarrow> 'w \<Rightarrow> 'w) \<Rightarrow> u64 \<Rightarrow> process_table \<times> 'w \<Rightarrow> app_process_result \<times> process_table \<times> 'w" where
  "app_process_release release pid = (\<lambda>(t, w).
     case transition pid {APP_PROCESS_LOADED, APP_PROCESS_EXITED, APP_PROCESS_FAULTED} (\<lambda>p. zero_process) t of
       (r, t) \<Rightarrow> if r \<noteq> APP_PROCESS_OK then (r, t, w)
                 else (r, t\<lparr>g_process_count := szsub (g_process_count t) 1\<rparr>, release pid w))"

definition app_process_count :: "process_table \<Rightarrow> nat" where
  "app_process_count t = g_process_count t"

text \<open>The inner loop of \<open>app_process_snapshot\<close>: the oldest process younger than \<open>previous_id\<close>.\<close>

fun next_process :: "u64 \<Rightarrow> app_process_info option \<Rightarrow> app_process_info list \<Rightarrow> app_process_info option" where
  "next_process previous_id next_p [] = next_p"
| "next_process previous_id next_p (c # cs) =
     next_process previous_id
       (if pi_state c = APP_PROCESS_UNUSED \<or> pi_id c \<le> previous_id then next_p
        else case next_p of None \<Rightarrow> Some c | Some n \<Rightarrow> if pi_id c < pi_id n then Some c else next_p) cs"

fun snapshot_loop :: "nat \<Rightarrow> u64 \<Rightarrow> app_process_info list \<Rightarrow> app_process_info option" where
  "snapshot_loop 0 previous_id ps = next_process previous_id None ps"
| "snapshot_loop (Suc n) previous_id ps =
     (case next_process previous_id None ps of None \<Rightarrow> None | Some p \<Rightarrow> snapshot_loop n (pi_id p) ps)"

definition app_process_snapshot :: "nat \<Rightarrow> process_table \<Rightarrow> app_process_info option" where
  "app_process_snapshot index t =
     (if index \<ge> g_process_count t then None else snapshot_loop index 0 (g_processes t))"

definition app_process_find :: "u64 \<Rightarrow> process_table \<Rightarrow> app_process_info option" where
  "app_process_find pid t = map_option (\<lambda>i. g_processes t ! i) (find_process pid t)"

definition app_process_get_startup_argument ::
  "u64 \<Rightarrow> bytes option \<Rightarrow> nat \<Rightarrow> process_table \<Rightarrow> (bytes \<times> nat) option" where
  "app_process_get_startup_argument pid out_argument capacity t =
     (case out_argument of
        None \<Rightarrow> None
      | Some out \<Rightarrow>
          if capacity = 0 then None
          else case find_process pid t of
                 None \<Rightarrow> None
               | Some i \<Rightarrow>
                   let arg = pi_startup_argument (g_processes t ! i); len = length (cstr arg)
                   in if len + 1 > capacity then None
                      else Some (copy_string out capacity (Some arg), len))"

definition app_runtime_features :: u32 where
  "app_runtime_features = 1 OR 2 OR 4 OR 8 OR 16 OR 32"

definition app_runtime_execution_implemented :: bool where
  "app_runtime_execution_implemented \<longleftrightarrow> app_runtime_features AND 8 \<noteq> 0"

fun app_process_result_text :: "app_process_result \<Rightarrow> string" where
  "app_process_result_text APP_PROCESS_OK = ''ok''"
| "app_process_result_text APP_PROCESS_INVALID_ARGUMENT = ''invalid argument''"
| "app_process_result_text APP_PROCESS_TABLE_FULL = ''application process table is full''"
| "app_process_result_text APP_PROCESS_ID_EXHAUSTED = ''application process ids are exhausted''"
| "app_process_result_text APP_PROCESS_NOT_FOUND = ''application process not found''"
| "app_process_result_text APP_PROCESS_INVALID_TRANSITION = ''invalid application process state transition''"

text \<open>The operations on the table, as steps.\<close>

datatype process_op =
    Reset | Track "app_manifest option" "elf64_image_plan option"
  | Start u64 | Argument u64 "bytes option" | Run u64 | Exit u64 "64 word" | Fault u64 "app_fault_record option" | Release u64

fun process_step :: "(u64 \<Rightarrow> 'w \<Rightarrow> 'w) \<Rightarrow> process_op \<Rightarrow> process_table \<times> 'w \<Rightarrow> app_process_result \<times> process_table \<times> 'w" where
  "process_step release Reset tw = (APP_PROCESS_OK, app_process_table_reset release tw)"
| "process_step release (Track m img) (t, w) = (case app_process_track_loaded m img True t of (r, _, t) \<Rightarrow> (r, t, w))"
| "process_step release (Start pid) (t, w) = (case app_process_mark_starting pid t of (r, t) \<Rightarrow> (r, t, w))"
| "process_step release (Argument pid a) (t, w) = (case app_process_set_startup_argument pid a t of (r, t) \<Rightarrow> (r, t, w))"
| "process_step release (Run pid) (t, w) = (case app_process_mark_running pid t of (r, t) \<Rightarrow> (r, t, w))"
| "process_step release (Exit pid c) tw = app_process_mark_exited release pid c tw"
| "process_step release (Fault pid f) tw = app_process_record_fault release pid f tw"
| "process_step release (Release pid) tw = app_process_release release pid tw"

definition used :: "process_table \<Rightarrow> app_process_info list" where
  "used t = filter (\<lambda>p. pi_state p \<noteq> APP_PROCESS_UNUSED) (g_processes t)"

definition process_inv :: "process_table \<Rightarrow> bool" where
  "process_inv t \<longleftrightarrow> length (g_processes t) = APP_PROCESS_CAPACITY \<and> g_process_count t = length (used t)
     \<and> distinct (map pi_id (used t))
     \<and> (\<forall>p \<in> set (used t). pi_id p \<noteq> 0 \<and> (g_next_process_id t \<noteq> 0 \<longrightarrow> pi_id p < g_next_process_id t))
     \<and> (\<forall>p \<in> set (g_processes t). length (pi_app_id p) = APP_ID_CAPACITY \<and> length (pi_display_name p) = APP_DISPLAY_CAPACITY
          \<and> length (pi_startup_argument p) = APP_STARTUP_ARGUMENT_MAX + 1)"

text \<open>The state of a process identifier, and the moves its life cycle allows.\<close>

definition state_of :: "process_table \<Rightarrow> u64 \<Rightarrow> app_process_state option" where
  "state_of t = map_of (map (\<lambda>p. (pi_id p, pi_state p)) (used t))"

definition lifecycle :: "app_process_state option \<Rightarrow> app_process_state option \<Rightarrow> bool" where
  "lifecycle s s' \<longleftrightarrow> s' = s \<or> (s, s') \<in>
     {(None, Some APP_PROCESS_LOADED), (Some APP_PROCESS_LOADED, Some APP_PROCESS_STARTING),
      (Some APP_PROCESS_STARTING, Some APP_PROCESS_RUNNING),
      (Some APP_PROCESS_STARTING, Some APP_PROCESS_EXITED), (Some APP_PROCESS_STARTING, Some APP_PROCESS_FAULTED),
      (Some APP_PROCESS_RUNNING, Some APP_PROCESS_EXITED), (Some APP_PROCESS_RUNNING, Some APP_PROCESS_FAULTED),
      (Some APP_PROCESS_LOADED, None), (Some APP_PROCESS_EXITED, None), (Some APP_PROCESS_FAULTED, None)}"

definition keep :: "app_process_info \<Rightarrow> app_process_info list" where
  "keep p = (if pi_state p = APP_PROCESS_UNUSED then [] else [p])"

definition process_shape :: "app_process_info \<Rightarrow> bool" where
  "process_shape p \<longleftrightarrow> length (pi_app_id p) = APP_ID_CAPACITY \<and> length (pi_display_name p) = APP_DISPLAY_CAPACITY
     \<and> length (pi_startup_argument p) = APP_STARTUP_ARGUMENT_MAX + 1"

definition younger :: "u64 \<Rightarrow> app_process_info list \<Rightarrow> app_process_info list" where
  "younger k ps = filter (\<lambda>p. k < pi_id p) (filter (\<lambda>p. pi_state p \<noteq> APP_PROCESS_UNUSED) ps)"

abbreviation live_state :: "app_process_state option \<Rightarrow> bool" where
  "live_state s \<equiv> s = Some APP_PROCESS_STARTING \<or> s = Some APP_PROCESS_RUNNING"

text \<open>A table with one running process.\<close>

definition sample_table :: process_table where
  "sample_table = \<lparr>g_processes = zero_process\<lparr>pi_id := 1, pi_state := APP_PROCESS_RUNNING\<rparr> # replicate 15 zero_process,
     g_process_count = 1, g_next_process_id = 2\<rparr>"

section \<open>Slots\<close>

lemma sample_table_inv: "process_inv sample_table"
  by (simp add: process_inv_def sample_table_def used_def zero_process_def)


lemma shape_zero [simp]: "process_shape zero_process"
  by (simp add: process_shape_def zero_process_def)

lemma put_simps [simp]:
  "g_process_count (put_process i p t) = g_process_count t" "g_next_process_id (put_process i p t) = g_next_process_id t"
  "length (g_processes (put_process i p t)) = length (g_processes t)"
  "used (t\<lparr>g_process_count := n\<rparr>) = used t" "used (t\<lparr>g_next_process_id := k\<rparr>) = used t"
  by (simp_all add: put_process_def used_def)

text \<open>The processes around one slot.\<close>

lemma used_around:
  assumes "i < length (g_processes t)"
  obtains A B where "used t = A @ keep (g_processes t ! i) @ B" "\<And>q. used (put_process i q t) = A @ keep q @ B"
proof
  let ?u = "filter (\<lambda>p. pi_state p \<noteq> APP_PROCESS_UNUSED)"
  show "used t = ?u (take i (g_processes t)) @ keep (g_processes t ! i) @ ?u (drop (Suc i) (g_processes t))"
    using arg_cong[OF id_take_nth_drop[OF assms], of ?u] by (simp add: used_def keep_def)
  show "used (put_process i q t) = ?u (take i (g_processes t)) @ keep q @ ?u (drop (Suc i) (g_processes t))" for q
    using assms by (simp add: used_def put_process_def keep_def upd_conv_take_nth_drop)
qed

lemma process_invI:
  assumes "process_inv t" and "process_shape q" and "g_process_count t' = length (used t')" and "distinct (map pi_id (used t'))"
    and "\<forall>p \<in> set (used t'). pi_id p \<noteq> 0 \<and> (g_next_process_id t' \<noteq> 0 \<longrightarrow> pi_id p < g_next_process_id t')"
    and "g_processes t' = (g_processes t)[i := q]"
  shows "process_inv t'"
proof -
  have "\<forall>p \<in> set (g_processes t'). process_shape p"
    using assms(1,2) set_update_subset_insert[of "g_processes t" i q] unfolding assms(6) by (auto simp: process_inv_def process_shape_def)
  then show ?thesis using assms by (simp add: process_inv_def process_shape_def)
qed

lemma map_of_mid:
  "distinct (map fst (xs @ (k, v) # ys)) \<Longrightarrow> map_of (xs @ (k, v) # ys) = (map_of (xs @ ys))(k \<mapsto> v)"
  by (rule ext) (auto simp: map_add_def map_of_eq_None_iff[symmetric] split: option.splits dest!: map_of_SomeD intro: rev_image_eqI)

lemma put_same:
  assumes inv: "process_inv t" and i: "i < APP_PROCESS_CAPACITY" and p: "pi_state (g_processes t ! i) \<noteq> APP_PROCESS_UNUSED"
    and q: "pi_id q = pi_id (g_processes t ! i)" "pi_state q \<noteq> APP_PROCESS_UNUSED" "process_shape q"
  shows "process_inv (put_process i q t) \<and> state_of (put_process i q t) = (state_of t)(pi_id q \<mapsto> pi_state q)"
proof -
  have len: "i < length (g_processes t)" using inv i by (simp add: process_inv_def)
  obtain A B where u: "used t = A @ keep (g_processes t ! i) @ B" "used (put_process i q t) = A @ keep q @ B" using used_around[OF len] by metis
  let ?f = "\<lambda>p. (pi_id p, pi_state p)"
  have d: "distinct (map pi_id (A @ q # B))" using inv u(1) p q(1) by (simp add: process_inv_def keep_def)
  have "process_inv (put_process i q t)"
    using inv u p q d by (intro process_invI[OF inv q(3), of _ i]) (auto simp: process_inv_def keep_def put_process_def[of i q t])
  moreover have "map_of (map ?f (A @ q # B)) = (map_of (map ?f (A @ B)))(pi_id q \<mapsto> pi_state q)"
    "map_of (map ?f (A @ (g_processes t ! i) # B)) = (map_of (map ?f (A @ B)))(pi_id q \<mapsto> pi_state (g_processes t ! i))"
    using map_of_mid[of "map ?f A" "pi_id q" "pi_state q" "map ?f B"] map_of_mid[of "map ?f A" "pi_id q" "pi_state (g_processes t ! i)" "map ?f B"]
      d q(1) by (simp_all add: comp_def)
  ultimately show ?thesis using u p q(1,2) by (simp add: state_of_def keep_def)
qed

lemma put_clear:
  assumes inv: "process_inv t" and i: "i < APP_PROCESS_CAPACITY" and p: "pi_state (g_processes t ! i) \<noteq> APP_PROCESS_UNUSED"
  defines "t' \<equiv> (put_process i zero_process t)\<lparr>g_process_count := szsub (g_process_count t) 1\<rparr>"
  shows "process_inv t' \<and> state_of t' = (state_of t)(pi_id (g_processes t ! i) := None) \<and> pi_state (g_processes t' ! i) = APP_PROCESS_UNUSED"
proof -
  have len: "i < length (g_processes t)" using inv i by (simp add: process_inv_def)
  obtain A B where AB: "used t = A @ keep (g_processes t ! i) @ B" "\<And>q. used (put_process i q t) = A @ keep q @ B"
    by (rule used_around[OF len]) blast
  have u: "used t = A @ keep (g_processes t ! i) @ B" "used t' = A @ B" using AB by (simp_all add: t'_def keep_def zero_process_def)
  let ?f = "\<lambda>p. (pi_id p, pi_state p)" and ?p = "g_processes t ! i"
  have d: "distinct (map pi_id (A @ ?p # B))" using inv u(1) p by (simp add: process_inv_def keep_def)
  have cnt: "g_process_count t = Suc (length (A @ B))" using inv u(1) p by (simp add: process_inv_def keep_def)
  have "length (used t) \<le> 16" using inv length_filter_le[of _ "g_processes t"] by (simp add: process_inv_def used_def)
  then have "g_process_count t \<le> 16" using inv by (simp add: process_inv_def)
  then have "g_process_count t' = length (A @ B)" using cnt by (simp add: t'_def)
  then have "process_inv t'"
    using inv u p d by (intro process_invI[OF inv shape_zero, of _ i]) (auto simp: process_inv_def keep_def t'_def put_process_def)
  moreover have "map_of (map ?f (A @ ?p # B)) = (map_of (map ?f (A @ B)))(pi_id ?p \<mapsto> pi_state ?p)"
    using map_of_mid[of "map ?f A" "pi_id ?p" "pi_state ?p" "map ?f B"] d by (simp add: comp_def)
  moreover have "map_of (map ?f (A @ B)) (pi_id ?p) = None" using d by (auto simp: map_of_eq_None_iff image_iff)
  moreover have "pi_state (g_processes t' ! i) = APP_PROCESS_UNUSED" using len by (simp add: t'_def put_process_def zero_process_def)
  ultimately show ?thesis using u p by (auto simp: state_of_def keep_def)
qed

lemma put_new:
  assumes inv: "process_inv t" and i: "i < APP_PROCESS_CAPACITY" and p: "pi_state (g_processes t ! i) = APP_PROCESS_UNUSED"
    and k: "g_next_process_id t \<noteq> 0" and q: "pi_id q = g_next_process_id t" "pi_state q = APP_PROCESS_LOADED" "process_shape q"
  defines "t' \<equiv> (put_process i q t)\<lparr>g_process_count := g_process_count t + 1,
      g_next_process_id := (if g_next_process_id t = - 1 then 0 else g_next_process_id t + 1)\<rparr>"
  shows "process_inv t' \<and> state_of t' = (state_of t)(g_next_process_id t \<mapsto> APP_PROCESS_LOADED) \<and> state_of t (g_next_process_id t) = None"
proof -
  have len: "i < length (g_processes t)" using inv i by (simp add: process_inv_def)
  obtain A B where AB: "used t = A @ keep (g_processes t ! i) @ B" "\<And>q. used (put_process i q t) = A @ keep q @ B"
    by (rule used_around[OF len]) blast
  have u: "used t = A @ B" "used t' = A @ q # B" using AB p q(2) by (simp_all add: t'_def keep_def)
  let ?f = "\<lambda>p. (pi_id p, pi_state p)" and ?k = "g_next_process_id t"
  have lt: "\<forall>r \<in> set (A @ B). pi_id r \<noteq> 0 \<and> pi_id r < ?k" using inv u(1) k by (simp add: process_inv_def)
  then have d: "distinct (map pi_id (A @ q # B))" using inv u(1) q(1) by (auto simp: process_inv_def)
  have nx: "x < ?k + 1" if "x \<le> ?k" "?k \<noteq> - 1" for x
  proof -
    have "1 + ?k \<noteq> 0" using that(2) by (metis add.commute add_eq_0_iff)
    then have "unat (?k + 1) = Suc (unat ?k)" using unatSuc[of ?k] by (simp add: add.commute)
    then show ?thesis using that(1) by (simp add: word_less_nat_alt word_le_nat_alt)
  qed
  have "process_inv t'"
    using inv u p q(1) d lt k nx by (intro process_invI[OF inv q(3), of _ i]) (auto simp: process_inv_def t'_def put_process_def less_imp_le)
  moreover have "map_of (map ?f (A @ q # B)) = (map_of (map ?f (A @ B)))(?k \<mapsto> APP_PROCESS_LOADED)"
    using map_of_mid[of "map ?f A" ?k APP_PROCESS_LOADED "map ?f B"] d q(1,2) by (simp add: comp_def)
  moreover have "map_of (map ?f (A @ B)) ?k = None" using lt by (auto simp: map_of_eq_None_iff image_iff)
  ultimately show ?thesis using u by (simp add: state_of_def)
qed

section \<open>Operations\<close>

lemma find_process_SomeD:
  assumes "process_inv t" and "find_process pid t = Some i"
  shows "i < APP_PROCESS_CAPACITY" "pi_state (g_processes t ! i) \<noteq> APP_PROCESS_UNUSED" "pi_id (g_processes t ! i) = pid"
    "state_of t pid = Some (pi_state (g_processes t ! i))" "process_shape (g_processes t ! i)"
proof -
  have f: "i < length (g_processes t)" "pi_state (g_processes t ! i) \<noteq> APP_PROCESS_UNUSED" "pi_id (g_processes t ! i) = pid"
    using assms(2) find_idx_SomeD by (auto simp: find_process_def split: if_splits)
  then show "i < APP_PROCESS_CAPACITY" "pi_state (g_processes t ! i) \<noteq> APP_PROCESS_UNUSED" "pi_id (g_processes t ! i) = pid"
    using assms(1) by (auto simp: process_inv_def)
  have "g_processes t ! i \<in> set (used t)" using f by (simp add: used_def)
  moreover have "distinct (map fst (map (\<lambda>p. (pi_id p, pi_state p)) (used t)))" using assms(1) by (simp add: process_inv_def comp_def)
  ultimately show "state_of t pid = Some (pi_state (g_processes t ! i))"
    unfolding state_of_def using f(3) by (intro map_of_is_SomeI) auto
  show "process_shape (g_processes t ! i)" using assms(1) f(1) by (simp add: process_inv_def process_shape_def)
qed

lemma transition_keep:
  assumes inv: "process_inv t" and f: "\<And>p. pi_id (f p) = pi_id p" "\<And>p. pi_state (f p) = new" "\<And>p. process_shape p \<Longrightarrow> process_shape (f p)"
    and new: "new \<noteq> APP_PROCESS_UNUSED" and tr: "transition pid from f t = (r, t')"
  shows "process_inv t' \<and> (if r = APP_PROCESS_OK then (\<exists>s \<in> from. state_of t pid = Some s) \<and> state_of t' = (state_of t)(pid \<mapsto> new) else t' = t)"
proof (cases "find_process pid t")
  case None
  then show ?thesis using tr inv by (auto simp: transition_def)
next
  case (Some i)
  note fp = find_process_SomeD[OF inv Some]
  have "process_inv (put_process i (f (g_processes t ! i)) t)
    \<and> state_of (put_process i (f (g_processes t ! i)) t) = (state_of t)(pid \<mapsto> new)"
    using put_same[OF inv fp(1,2), of "f (g_processes t ! i)"] f fp(3,5) new by simp
  then show ?thesis using tr inv Some fp(4) by (auto simp: transition_def split: if_splits)
qed

lemma release_ok:
  assumes inv: "process_inv t" and tr: "app_process_release rel pid (t, w) = (r, t', w')"
  shows "process_inv t' \<and> (if r = APP_PROCESS_OK
      then w' = rel pid w \<and> state_of t pid \<in> Some ` {APP_PROCESS_LOADED, APP_PROCESS_EXITED, APP_PROCESS_FAULTED} \<and> state_of t' = (state_of t)(pid := None)
      else t' = t \<and> w' = w)"
proof (cases "find_process pid t")
  case None
  then show ?thesis using tr inv by (auto simp: app_process_release_def transition_def)
next
  case (Some i)
  note fp = find_process_SomeD[OF inv Some]
  have "process_inv ((put_process i zero_process t)\<lparr>g_process_count := szsub (g_process_count t) 1\<rparr>)
    \<and> state_of ((put_process i zero_process t)\<lparr>g_process_count := szsub (g_process_count t) 1\<rparr>) = (state_of t)(pid := None)"
    using put_clear[OF inv fp(1,2)] fp(3) by simp
  then show ?thesis using tr inv Some fp(4) by (auto simp: app_process_release_def transition_def split: if_splits)
qed

lemma oldest_terminal_spec:
  assumes "oldest_terminal k old ps = Some (i, p)"
  shows "old = Some (i, p) \<or> (k \<le> i \<and> i < k + length ps \<and> p = ps ! (i - k) \<and> terminal p)"
  using assms
proof (induction k old ps rule: oldest_terminal.induct)
  case (2 k old q ps)
  let ?old = "if \<not> terminal q then old else case old of None \<Rightarrow> Some (k, q) | Some (i, r) \<Rightarrow> if pi_id q < pi_id r then Some (k, q) else old"
  have "?old = Some (i, p) \<or> (k + 1 \<le> i \<and> i < k + 1 + length ps \<and> p = ps ! (i - (k + 1)) \<and> terminal p)" using 2 by simp
  then consider "?old = Some (i, p)" | "k + 1 \<le> i" "i < k + 1 + length ps" "p = ps ! (i - (k + 1))" "terminal p" by blast
  then show ?case
  proof cases
    case 1
    then show ?thesis by (auto split: if_splits option.splits prod.splits)
  next
    case 2
    then show ?thesis by (auto simp: nth_Cons')
  qed
qed simp

lemma find_oldest_SomeD:
  assumes "process_inv t" and "find_oldest_terminal_slot t = Some i"
  shows "i < APP_PROCESS_CAPACITY \<and> terminal (g_processes t ! i)"
proof -
  obtain p where "oldest_terminal 0 None (g_processes t) = Some (i, p)" using assms(2) by (auto simp: find_oldest_terminal_slot_def)
  then show ?thesis using oldest_terminal_spec[of 0 None "g_processes t" i p] assms(1) by (auto simp: process_inv_def)
qed

lemma copy_string_length: "length dst = n \<Longrightarrow> 0 < n \<Longrightarrow> length (copy_string dst n src) = n"
proof -
  assume "length dst = n" "0 < n"
  moreover have "length (case src of None \<Rightarrow> [] | Some s \<Rightarrow> cstr_run (n - 1) s) \<le> n - 1" by (auto simp: cstr_run_eq split: option.splits)
  ultimately show ?thesis unfolding copy_string_def by (subst length_blit) auto
qed

lemma in_used_state:
  assumes "process_inv t" and "p \<in> set (used t)"
  shows "state_of t (pi_id p) = Some (pi_state p)"
proof -
  have "distinct (map fst (map (\<lambda>p. (pi_id p, pi_state p)) (used t)))" using assms(1) by (simp add: process_inv_def comp_def)
  then show ?thesis unfolding state_of_def using assms(2) by (intro map_of_is_SomeI) auto
qed

lemma next_unknown: "process_inv t \<Longrightarrow> g_next_process_id t \<noteq> 0 \<Longrightarrow> state_of t (g_next_process_id t) = None"
  by (force simp: state_of_def map_of_eq_None_iff process_inv_def)

text \<open>Tracking: the new process, and possibly the removal of one that has ended.\<close>

lemma track_ok:
  assumes inv: "process_inv t" and tr: "app_process_track_loaded m img b t = (r, out, t')"
  shows "process_inv t' \<and> (if r = APP_PROCESS_OK
     then out = Some (g_next_process_id t) \<and> state_of t (g_next_process_id t) = None \<and>
       (\<exists>D. (\<forall>pid \<in> D. state_of t pid \<in> {Some APP_PROCESS_EXITED, Some APP_PROCESS_FAULTED}) \<and>
         state_of t' = (\<lambda>pid. if pid = g_next_process_id t then Some APP_PROCESS_LOADED else if pid \<in> D then None else state_of t pid))
     else t' = t)"
proof (cases "\<not> b \<or> app_manifest_validate m \<noteq> APP_MANIFEST_OK \<or> \<not> plan_is_consistent img \<or> g_next_process_id t = 0
    \<or> (find_free_slot t = None \<and> find_oldest_terminal_slot t = None)")
  case True
  then have "r \<noteq> APP_PROCESS_OK \<and> t' = t" using tr by (auto simp: app_process_track_loaded_def Let_def split: if_splits)
  then show ?thesis using inv by simp
next
  case False
  let ?k = "g_next_process_id t"
  define q where "q = zero_process\<lparr>pi_id := ?k,
       pi_app_id := copy_string (pi_app_id zero_process) APP_ID_CAPACITY (Some (am_id (the m))),
       pi_display_name := copy_string (pi_display_name zero_process) APP_DISPLAY_CAPACITY (Some (am_display_name (the m))),
       pi_state := APP_PROCESS_LOADED, pi_capabilities := am_capabilities (the m),
       pi_virtual_base := virtual_base (the img), pi_virtual_end := virtual_end (the img), pi_entry_point := entry_point (the img)\<rparr>"
  define add where "add i t = (put_process i q t)\<lparr>g_process_count := g_process_count t + 1,
      g_next_process_id := (if g_next_process_id t = - 1 then 0 else g_next_process_id t + 1)\<rparr>" for i t
  have q: "pi_id q = ?k" "pi_state q = APP_PROCESS_LOADED" "process_shape q"
    by (auto simp: q_def process_shape_def zero_process_def copy_string_length)
  show ?thesis
  proof (cases "find_free_slot t")
    case (Some i)
    have i: "i < APP_PROCESS_CAPACITY" "pi_state (g_processes t ! i) = APP_PROCESS_UNUSED"
      using find_idx_SomeD[OF Some[unfolded find_free_slot_def]] inv by (auto simp: process_inv_def)
    have "r = APP_PROCESS_OK" "out = Some ?k" "t' = add i t"
      using tr False Some unfolding app_process_track_loaded_def add_def q_def by (auto simp: Let_def)
    then show ?thesis using put_new[OF inv i _ q] False by (auto simp: add_def intro!: exI[of _ "{}"])
  next
    case None
    then obtain i where i: "find_oldest_terminal_slot t = Some i" using False by auto
    note o = find_oldest_SomeD[OF inv i]
    then have p: "pi_state (g_processes t ! i) \<noteq> APP_PROCESS_UNUSED" by (auto simp: terminal_def)
    define c where "c = (put_process i zero_process t)\<lparr>g_process_count := szsub (g_process_count t) 1\<rparr>"
    have c: "process_inv c" "state_of c = (state_of t)(pi_id (g_processes t ! i) := None)" "pi_state (g_processes c ! i) = APP_PROCESS_UNUSED"
      "g_next_process_id c = ?k" using put_clear[OF inv _ p] o by (auto simp: c_def)
    have "r = APP_PROCESS_OK" "out = Some ?k" "t' = add i c"
      using tr False None i unfolding app_process_track_loaded_def add_def q_def c_def by (auto simp: Let_def)
    moreover have "g_processes t ! i \<in> set (used t)" using o p inv by (simp add: used_def process_inv_def)
    then have "state_of t (pi_id (g_processes t ! i)) \<in> {Some APP_PROCESS_EXITED, Some APP_PROCESS_FAULTED}" "pi_id (g_processes t ! i) < ?k"
      using in_used_state[OF inv, of "g_processes t ! i"] o inv False by (auto simp: terminal_def process_inv_def)
    ultimately show ?thesis using put_new[OF c(1) _ c(3), of q] o q c(2,4) False next_unknown[OF inv]
      by (auto simp: add_def intro!: exI[of _ "{pi_id (g_processes t ! i)}"])
  qed
qed

lemma transition_ok:
  "transition pid from f t = (r, t') \<Longrightarrow> r \<noteq> APP_PROCESS_OK \<Longrightarrow> t' = t"
  by (auto simp: transition_def split: option.splits if_splits)

lemma lifecycle_refl [simp]: "lifecycle s s"
  by (simp add: lifecycle_def)

lemma lifecycle_moves [simp]:
  "lifecycle None (Some APP_PROCESS_LOADED)" "lifecycle (Some APP_PROCESS_LOADED) (Some APP_PROCESS_STARTING)"
  "lifecycle (Some APP_PROCESS_STARTING) (Some APP_PROCESS_RUNNING)" "lifecycle (Some APP_PROCESS_STARTING) (Some APP_PROCESS_EXITED)"
  "lifecycle (Some APP_PROCESS_STARTING) (Some APP_PROCESS_FAULTED)" "lifecycle (Some APP_PROCESS_RUNNING) (Some APP_PROCESS_EXITED)"
  "lifecycle (Some APP_PROCESS_RUNNING) (Some APP_PROCESS_FAULTED)" "lifecycle (Some APP_PROCESS_LOADED) None"
  "lifecycle (Some APP_PROCESS_EXITED) None" "lifecycle (Some APP_PROCESS_FAULTED) None"
  by (simp_all add: lifecycle_def)

text \<open>The step of every operation.\<close>

lemma step_transition:
  assumes "process_inv t" and "transition pid from f t = (r, t')"
    and "\<And>p. pi_id (f p) = pi_id p" and "\<And>p. pi_state (f p) = new" and "\<And>p. process_shape p \<Longrightarrow> process_shape (f p)"
    and "new \<noteq> APP_PROCESS_UNUSED" and "\<And>s. s \<in> from \<Longrightarrow> lifecycle (Some s) (Some new)"
  shows "process_inv t' \<and> (\<forall>pid. lifecycle (state_of t pid) (state_of t' pid)) \<and> (r \<noteq> APP_PROCESS_OK \<longrightarrow> t' = t)
    \<and> (r = APP_PROCESS_OK \<longrightarrow> state_of t' = (state_of t)(pid \<mapsto> new))"
proof -
  have k: "process_inv t' \<and> (if r = APP_PROCESS_OK then (\<exists>s \<in> from. state_of t pid = Some s) \<and> state_of t' = (state_of t)(pid \<mapsto> new) else t' = t)"
    by (rule transition_keep[OF assms(1,3-6,2)])
  then show ?thesis using assms(7) by (cases "r = APP_PROCESS_OK") auto
qed

lemma reset_ok:
  assumes "app_process_table_reset rel (t, w) = (t', w')"
  shows "process_inv t' \<and> (\<forall>pid. state_of t' pid = None) \<and> w' = fold rel (map pi_id (used t)) w"
proof -
  have "fold (\<lambda>p w. if pi_state p \<noteq> APP_PROCESS_UNUSED then rel (pi_id p) w else w) ps w
      = fold rel (map pi_id (filter (\<lambda>p. pi_state p \<noteq> APP_PROCESS_UNUSED) ps)) w" for ps
    by (induction ps arbitrary: w) auto
  then show ?thesis using assms
    by (auto simp: app_process_table_reset_def process_inv_def state_of_def used_def zero_process_def)
qed

lemma process_step_ok:
  assumes inv: "process_inv t" and st: "process_step rel op (t, w) = (r, t', w')" and "op \<noteq> Reset"
  shows "process_inv t' \<and> (\<forall>pid. lifecycle (state_of t pid) (state_of t' pid)) \<and> (r \<noteq> APP_PROCESS_OK \<longrightarrow> t' = t \<and> w' = w)
    \<and> (\<forall>pid. live_state (state_of t pid) \<and> \<not> live_state (state_of t' pid) \<longrightarrow> w' = rel pid w)"
proof (cases op)
  case Reset
  then show ?thesis using assms(3) by simp
next
  case (Track m img)
  then obtain out where tr: "app_process_track_loaded m img True t = (r, out, t')" "w' = w" using st by (auto split: prod.splits)
  show ?thesis
  proof (cases "r = APP_PROCESS_OK")
    case True
    then obtain D where D: "process_inv t'" "state_of t (g_next_process_id t) = None"
      "\<forall>pid \<in> D. state_of t pid \<in> {Some APP_PROCESS_EXITED, Some APP_PROCESS_FAULTED}"
      "state_of t' = (\<lambda>pid. if pid = g_next_process_id t then Some APP_PROCESS_LOADED else if pid \<in> D then None else state_of t pid)"
      using track_ok[OF inv tr(1)] by auto
    have "lifecycle (state_of t pid) (state_of t' pid) \<and> \<not> (live_state (state_of t pid) \<and> \<not> live_state (state_of t' pid))" for pid
      using D(2) D(3)[rule_format, of pid] unfolding D(4) by (cases "pid = g_next_process_id t"; cases "pid \<in> D") auto
    then show ?thesis using True D(1) by blast
  qed (use track_ok[OF inv tr(1)] tr(2) in auto)
next
  case (Start pid)
  then have tr: "transition pid {APP_PROCESS_LOADED} (\<lambda>p. p\<lparr>pi_state := APP_PROCESS_STARTING\<rparr>) t = (r, t')" "w' = w"
    using st by (auto simp: app_process_mark_starting_def split: prod.splits)
  then show ?thesis using step_transition[OF inv tr(1), of APP_PROCESS_STARTING] by (cases "r = APP_PROCESS_OK") (auto simp: process_shape_def split: if_splits)
next
  case (Argument pid a)
  then have tr: "app_process_set_startup_argument pid a t = (r, t')" "w' = w" using st by (auto split: prod.splits)
  show ?thesis
  proof (cases "r = APP_PROCESS_OK")
    case True
    then obtain i where i: "find_process pid t = Some i"
      "t' = put_process i ((g_processes t ! i)\<lparr>pi_startup_argument := copy_string (pi_startup_argument (g_processes t ! i)) (APP_STARTUP_ARGUMENT_MAX + 1) a\<rparr>) t"
      using tr(1) by (auto simp: app_process_set_startup_argument_def Let_def split: option.splits if_splits)
    note fp = find_process_SomeD[OF inv i(1)]
    have "process_inv t' \<and> state_of t' = (state_of t)(pid \<mapsto> pi_state (g_processes t ! i))"
      unfolding i(2) using put_same[OF inv fp(1,2), of "(g_processes t ! i)\<lparr>pi_startup_argument :=
        copy_string (pi_startup_argument (g_processes t ! i)) (APP_STARTUP_ARGUMENT_MAX + 1) a\<rparr>"] fp
      by (auto simp: process_shape_def copy_string_length)
    moreover have "(state_of t)(pid \<mapsto> pi_state (g_processes t ! i)) = state_of t" using fp(4) by auto
    ultimately show ?thesis using True tr(2) by auto
  next
    case False
    then have "t' = t" using tr(1) by (auto simp: app_process_set_startup_argument_def Let_def split: option.splits if_splits)
    then show ?thesis using tr(2) inv by auto
  qed
next
  case (Run pid)
  then have tr: "transition pid {APP_PROCESS_STARTING} (\<lambda>p. p\<lparr>pi_state := APP_PROCESS_RUNNING\<rparr>) t = (r, t')" "w' = w"
    using st by (auto simp: app_process_mark_running_def split: prod.splits)
  then show ?thesis using step_transition[OF inv tr(1), of APP_PROCESS_RUNNING] by (cases "r = APP_PROCESS_OK") (auto simp: process_shape_def split: if_splits)
next
  case (Exit pid c)
  then have tr: "transition pid {APP_PROCESS_STARTING, APP_PROCESS_RUNNING} (\<lambda>p. p\<lparr>pi_exit_code := c, pi_state := APP_PROCESS_EXITED\<rparr>) t = (r, t')"
    "w' = (if r = APP_PROCESS_OK then rel pid w else w)"
    using st by (auto simp: app_process_mark_exited_def releasing_def split: prod.splits)
  have "process_inv t' \<and> (\<forall>pid. lifecycle (state_of t pid) (state_of t' pid)) \<and> (r \<noteq> APP_PROCESS_OK \<longrightarrow> t' = t)
      \<and> (r = APP_PROCESS_OK \<longrightarrow> state_of t' = (state_of t)(pid \<mapsto> APP_PROCESS_EXITED))"
    by (rule step_transition[OF inv tr(1)]) (auto simp: process_shape_def)
  then show ?thesis using tr(2) by (cases "r = APP_PROCESS_OK") (auto split: if_splits)
next
  case (Fault pid f)
  show ?thesis
  proof (cases f)
    case None
    then show ?thesis using Fault st inv by (auto simp: app_process_record_fault_def)
  next
    case (Some x)
    then have tr: "transition pid {APP_PROCESS_STARTING, APP_PROCESS_RUNNING} (\<lambda>p. p\<lparr>pi_fault := x, pi_state := APP_PROCESS_FAULTED\<rparr>) t = (r, t')"
      "w' = (if r = APP_PROCESS_OK then rel pid w else w)"
      using st Fault by (auto simp: app_process_record_fault_def releasing_def split: prod.splits)
    have "process_inv t' \<and> (\<forall>pid. lifecycle (state_of t pid) (state_of t' pid)) \<and> (r \<noteq> APP_PROCESS_OK \<longrightarrow> t' = t)
      \<and> (r = APP_PROCESS_OK \<longrightarrow> state_of t' = (state_of t)(pid \<mapsto> APP_PROCESS_FAULTED))"
    by (rule step_transition[OF inv tr(1)]) (auto simp: process_shape_def)
  then show ?thesis using tr(2) by (cases "r = APP_PROCESS_OK") (auto split: if_splits)
  qed
next
  case (Release pid)
  then have "app_process_release rel pid (t, w) = (r, t', w')" using st by simp
  from release_ok[OF inv this] show ?thesis by (auto split: if_splits)
qed

section \<open>The listing\<close>

lemma next_process_spec:
  "case next_process k old ps of
     None \<Rightarrow> old = None \<and> younger k ps = []
   | Some p \<Rightarrow> (old = Some p \<or> p \<in> set (younger k ps)) \<and> (\<forall>q \<in> set (younger k ps). pi_id p \<le> pi_id q)
       \<and> (\<forall>o'. old = Some o' \<longrightarrow> pi_id p \<le> pi_id o')"
proof (induction k old ps rule: next_process.induct)
  case (2 k old c cs)
  then show ?case by (auto simp: younger_def not_less not_le split: option.splits if_splits)
qed (auto simp: younger_def split: option.splits)

text \<open>In a list sorted by identifier, the next one is the first with a larger identifier.\<close>

lemma next_process_sorted:
  assumes "distinct (map pi_id us)" and "sorted (map pi_id us)" and "set us = set (filter (\<lambda>p. pi_state p \<noteq> APP_PROCESS_UNUSED) ps)"
    and "n < length us" and "\<forall>p \<in> set us. k < pi_id p \<longleftrightarrow> pi_id (us ! n) \<le> pi_id p"
  shows "next_process k None ps = Some (us ! n)"
proof -
  have y: "set (younger k ps) = {p \<in> set us. pi_id (us ! n) \<le> pi_id p}" using assms(3,5) by (auto simp: younger_def)
  have m: "us ! n \<in> set (younger k ps)" using assms(4) y by auto
  then obtain p where p: "next_process k None ps = Some p" using next_process_spec[where k = k and old = None and ps = ps] by (cases "next_process k None ps") auto
  then have "p \<in> set (younger k ps)" "pi_id p \<le> pi_id (us ! n)" using next_process_spec[where k = k and old = None and ps = ps] m by auto
  then have "p \<in> set us" "pi_id p = pi_id (us ! n)" using y by auto
  then have "p = us ! n" using assms(1,4) by (auto simp: distinct_map inj_on_def)
  then show ?thesis using p by simp
qed

lemma snapshot_sorted:
  assumes d: "distinct (map pi_id us)" and so: "sorted (map pi_id us)" and se: "set us = set (filter (\<lambda>p. pi_state p \<noteq> APP_PROCESS_UNUSED) ps)"
  shows "n + j < length us \<Longrightarrow> \<forall>p \<in> set us. k < pi_id p \<longleftrightarrow> pi_id (us ! j) \<le> pi_id p \<Longrightarrow> snapshot_loop n k ps = Some (us ! (n + j))"
proof (induction n arbitrary: j k)
  case 0
  then show ?case using next_process_sorted[OF d so se, of j k] by simp
next
  case (Suc n)
  have nx: "next_process k None ps = Some (us ! j)" using Suc.prems by (intro next_process_sorted[OF d so se]) auto
  have "pi_id (us ! j) < pi_id p \<longleftrightarrow> pi_id (us ! Suc j) \<le> pi_id p" if p: "p \<in> set us" for p
  proof -
    obtain i where i: "i < length us" "p = us ! i" using p by (auto simp: in_set_conv_nth)
    have mono: "a < b \<Longrightarrow> b < length us \<Longrightarrow> pi_id (us ! a) < pi_id (us ! b)" for a b
      using so d sorted_wrt_nth_less[of "(<)" "map pi_id us" a b] by (simp add: strict_sorted_iff)
    have sj: "Suc j < length us" using Suc.prems(1) by simp
    show ?thesis
    proof (cases "i \<le> j")
      case True
      then have "pi_id (us ! i) \<le> pi_id (us ! j)" using mono[of i j] sj by (cases "i = j") auto
      moreover have "pi_id (us ! i) < pi_id (us ! Suc j)" using mono[of i "Suc j"] True sj by simp
      ultimately show ?thesis using i(2) by (simp add: leD)
    next
      case False
      then have "pi_id (us ! Suc j) \<le> pi_id (us ! i)" using mono[of "Suc j" i] i(1) by (cases "i = Suc j") auto
      moreover have "pi_id (us ! j) < pi_id (us ! i)" using mono[of j i] False i(1) by simp
      ultimately show ?thesis using i(2) by simp
    qed
  qed
  then have "snapshot_loop n (pi_id (us ! j)) ps = Some (us ! (n + Suc j))" using Suc.prems(1) by (intro Suc.IH) auto
  then show ?case using nx by simp
qed

section \<open>Accepted images\<close>

lemma seg_ok_consistent:
  assumes ok: "plan_ok len p" and s: "s \<in> set (planned p)" and b: "\<forall>t \<in> set before. seg_apart t s \<and> seg_ok len t"
  shows "segment_consistent p before s"
proof -
  have so: "seg_ok len s" "virtual_base p \<le> ls_virtual_address s" "seg_range s \<subseteq> {unat (virtual_base p) ..< unat (virtual_base p) + image_span p}"
    "unat (virtual_base p) + image_span p = unat (virtual_end p)"
    using plan_ok_segments[OF ok] s ok by (auto simp: plan_ok_def)
  have m: "0 < unat (ls_memory_size s)" using so(1) by (simp add: seg_ok_def)
  have e: "unat (ls_virtual_address s) + unat (ls_memory_size s) \<le> unat (virtual_end p)"
  proof -
    have "unat (ls_virtual_address s) + unat (ls_memory_size s) - 1 \<in> seg_range s" using m by (auto simp: seg_range_def)
    then have "unat (ls_virtual_address s) + unat (ls_memory_size s) - 1 < unat (virtual_end p)" using so(3,4) by (auto simp: subset_iff)
    then show ?thesis using m by linarith
  qed
  then have "ls_virtual_address s < virtual_end p" using m by (simp add: word_less_nat_alt)
  moreover have "ls_memory_size s \<le> virtual_end p - ls_virtual_address s" using e by (simp add: word_le_nat_alt unat_sub)
  moreover have "\<not> (ls_virtual_address s < ls_virtual_address t + ls_memory_size t \<and> ls_virtual_address t < ls_virtual_address s + ls_memory_size s)"
    if t: "t \<in> set before" for t
  proof -
    have "seg_range t \<inter> seg_range s = {}" "seg_ok len t" using b t by (auto simp: seg_apart_def)
    then have "unat (ls_virtual_address t) + unat (ls_memory_size t) \<le> unat (ls_virtual_address s)
      \<or> unat (ls_virtual_address s) + unat (ls_memory_size s) \<le> unat (ls_virtual_address t)"
      using m by (auto simp: seg_range_def seg_ok_def disjoint_iff not_less)
    then show ?thesis unfolding word_less_nat_alt unat_end[OF so(1)] unat_end[OF \<open>seg_ok len t\<close>] by linarith
  qed
  ultimately show ?thesis using so(1,2) m unfolding segment_consistent_def seg_ok_def writable_def executable_def
    by (auto simp: word_le_nat_alt unat_gt_0)
qed

lemma plan_ok_consistent:
  assumes ok: "plan_ok len p"
  shows "plan_is_consistent (Some p)"
proof -
  have inv: "plan_inv len p True" and span: "0 < image_span p" "image_span p \<le> 16777216" "image_span p = unat (virtual_end p) - unat (virtual_base p)"
    and ne: "planned p \<noteq> []" using ok by (auto simp: plan_ok_def)
  have len: "length (segments p) = 16" "segment_count p \<le> 16" "segment_count p \<noteq> 0" "unat (virtual_end p) \<le> 2 ^ 41"
    using inv ne by (auto simp: plan_inv_def)
  have lt: "unat (virtual_base p) < unat (virtual_end p)" using span by linarith
  obtain s where s: "s \<in> set (planned p)" "virtual_base p = ls_virtual_address s" using inv len(3) by (auto simp: plan_inv_def)
  have base: "2 ^ 40 \<le> unat (virtual_base p)" using s inv by (auto simp: plan_inv_def seg_ok_def)
  obtain e where e: "e \<in> set (planned p)" "enters (entry_point p) e" using inv by (auto simp: plan_inv_def)
  have "segment_consistent p [] e" using seg_ok_consistent[OF ok e(1), of "[]"] by simp
  then have c: "ls_file_size e \<le> ls_memory_size e" "virtual_base p \<le> ls_virtual_address e" "ls_virtual_address e < virtual_end p"
    "ls_memory_size e \<le> virtual_end p - ls_virtual_address e" unfolding segment_consistent_def by auto
  have "unat (virtual_end p - ls_virtual_address e) = unat (virtual_end p) - unat (ls_virtual_address e)" using c(3) by (intro unat_sub) simp
  then have "unat (ls_memory_size e) \<le> unat (virtual_end p) - unat (ls_virtual_address e)" using c(4) by (simp add: word_le_nat_alt)
  then have "unat (ls_virtual_address e) + unat (ls_file_size e) \<le> unat (virtual_end p)" using c(1,3) by (simp add: word_le_nat_alt word_less_nat_alt)
  then have entry: "virtual_base p \<le> entry_point p" "entry_point p < virtual_end p" "entry_in_segment p e"
    using e(2) c(2) by (auto simp: enters_def executable_def entry_in_segment_def word_le_nat_alt word_less_nat_alt unat_sub)
  have idx: "planned p ! i = segments p ! i" "segments p ! i \<in> set (planned p)" "take i (segments p) = take i (planned p)" if "i < segment_count p" for i
    using that len by (auto simp: in_set_conv_nth min_def intro!: exI[of _ i])
  have "segment_consistent p (take i (segments p)) (segments p ! i)" if i: "i < segment_count p" for i
  proof (rule seg_ok_consistent[OF ok idx(2)[OF i]])
    have "seg_apart (planned p ! j) (planned p ! i) \<and> seg_ok len (planned p ! j)" if "j < i" for j
      using inv i that len sorted_wrt_nth_less[of seg_apart "planned p" j i] nth_mem[of j "planned p"] by (auto simp: plan_inv_def)
    then show "\<forall>t \<in> set (take i (segments p)). seg_apart t (segments p ! i) \<and> seg_ok len t"
      unfolding idx(3)[OF i] idx(1)[OF i, symmetric] using i len by (auto simp: in_set_conv_nth)
  qed
  moreover have "\<exists>i < segment_count p. entry_in_segment p (segments p ! i)"
    using e(1) entry(3) len by (auto simp: in_set_conv_nth)
  moreover have "virtual_end p - virtual_base p = of_nat (image_span p)" using span(3) lt
    by (simp add: of_nat_diff less_imp_le)
  moreover have "of_nat (image_span p) \<le> ELF64_LOADER_MAX_IMAGE_SPAN" using span(2) by (simp add: word_le_nat_alt unat_of_nat take_bit_nat_eq_self)
  moreover have "virtual_end p - 1 \<le> ELF64_LOADER_MAX_USER_VADDR"
  proof -
    have "virtual_end p \<noteq> 0" using lt by auto
    then show ?thesis using len(4) unat_minus_one[of "virtual_end p"] by (simp add: word_le_nat_alt)
  qed
  ultimately show ?thesis using len base lt entry(1,2) by (auto simp: plan_is_consistent_def word_le_nat_alt word_less_nat_alt)
qed

section \<open>Properties\<close>

text \<open>C25: every operation on the process table keeps it well formed (distinct non-zero
  identifiers below the next one, an exact count, fields of the declared sizes).  The reset empties
  it and releases the services of each process it held, once.  Every other operation moves each
  process only along its life cycle: loaded, starting, running, then exited or faulted; only a
  loaded or ended process can disappear, so a starting or running one is never reclaimed, and when
  one stops its services are released.  A refused operation changes nothing.\<close>

theorem app_process_lifecycle:
  assumes "process_inv t" and "process_step rel op (t, w) = (r, t', w')"
  shows "process_inv t' \<and>
    (if op = Reset then (\<forall>pid. state_of t' pid = None) \<and> w' = fold rel (map pi_id (used t)) w
     else (\<forall>pid. lifecycle (state_of t pid) (state_of t' pid)) \<and> (r \<noteq> APP_PROCESS_OK \<longrightarrow> t' = t \<and> w' = w)
       \<and> (\<forall>pid. live_state (state_of t pid) \<and> \<not> live_state (state_of t' pid) \<longrightarrow> w' = rel pid w))"
proof (cases "op = Reset")
  case True
  then show ?thesis using reset_ok[of rel t w t' w'] assms(2) by simp
qed (use process_step_ok[OF assms] in simp)

theorem app_process_lifecycle_witness:
  "(\<exists>t'. process_step (\<lambda>p w. p # w) Reset (sample_table, []) = (APP_PROCESS_OK, t', [1]) \<and> state_of t' 1 = None) \<and>
    (\<exists>t'. process_step (\<lambda>p w. p # w) (Exit 1 7) (sample_table, []) = (APP_PROCESS_OK, t', [1]) \<and> process_inv t')"
proof -
  obtain t0 w0 where z: "process_step (\<lambda>p w. p # w) Reset (sample_table, []) = (APP_PROCESS_OK, t0, w0)"
    by (metis process_step.simps(1) prod.collapse)
  have s: "process_step (\<lambda>p w. p # w) (Exit 1 7) (sample_table, []) =
      (APP_PROCESS_OK, snd (transition 1 {APP_PROCESS_STARTING, APP_PROCESS_RUNNING} (\<lambda>p. p\<lparr>pi_exit_code := 7, pi_state := APP_PROCESS_EXITED\<rparr>) sample_table), [1])"
    by (simp add: app_process_mark_exited_def releasing_def transition_def find_process_def sample_table_def zero_process_def)
  have "map pi_id (used sample_table) = [1]" by (simp add: used_def sample_table_def zero_process_def)
  then have "w0 = [1]" "state_of t0 1 = None" using app_process_lifecycle[OF sample_table_inv z] by simp_all
  then show ?thesis using z app_process_lifecycle[OF sample_table_inv s] s by auto
qed

text \<open>C26: the listing gives, for each index below the count, the process that is that
  far in launch order, and nothing beyond it: every process is listed once, oldest first, whatever
  slots the table reused.\<close>

theorem app_process_listing:
  assumes "process_inv t"
  shows "app_process_snapshot i t = (if i < app_process_count t then Some (sort_key pi_id (used t) ! i) else None)"
proof (cases "i < app_process_count t")
  case True
  let ?us = "sort_key pi_id (used t)"
  have d: "distinct (map pi_id ?us)" using assms by (simp add: process_inv_def distinct_map)
  have so: "sorted (map pi_id ?us)" by simp
  have se: "set ?us = set (filter (\<lambda>p. pi_state p \<noteq> APP_PROCESS_UNUSED) (g_processes t))" by (simp add: used_def)
  have len: "i < length ?us" using True assms by (simp add: app_process_count_def process_inv_def)
  have "0 < pi_id p \<longleftrightarrow> pi_id (?us ! 0) \<le> pi_id p" if p: "p \<in> set ?us" for p
  proof -
    obtain j where "j < length ?us" "p = ?us ! j" using p unfolding in_set_conv_nth by blast
    then have "pi_id (?us ! 0) \<le> pi_id p" using sorted_nth_mono[OF so, of 0 j] nth_map[of 0 ?us pi_id] by fastforce
    moreover have "pi_id p \<noteq> 0" using assms p by (simp add: process_inv_def)
    ultimately show ?thesis by (simp add: word_greater_zero_iff)
  qed
  then have "snapshot_loop i 0 (g_processes t) = Some (?us ! (i + 0))" using len by (intro snapshot_sorted[OF d so se]) auto
  then show ?thesis using True by (simp add: app_process_snapshot_def app_process_count_def)
next
  case False
  then show ?thesis by (simp add: app_process_snapshot_def app_process_count_def)
qed

theorem app_process_listing_witness: "app_process_snapshot 0 sample_table = Some (zero_process\<lparr>pi_id := 1, pi_state := APP_PROCESS_RUNNING\<rparr>)"
  using app_process_listing[OF sample_table_inv, of 0]
  by (simp add: sample_table_def app_process_count_def used_def zero_process_def)

text \<open>C27: an application whose image passes inspection and whose manifest is valid
  can always be tracked, unless identifiers have run out or all sixteen slots hold processes that
  have not ended: the consistency check on the plan never rejects what the loader accepted.\<close>

theorem accepted_image_trackable:
  assumes "length img < 2 ^ 64" and "elf64_inspect (Some img) (Some out) = Some (ELF64_LOAD_OK, Some plan)"
    and "app_manifest_validate (Some m) = APP_MANIFEST_OK" and "g_next_process_id t \<noteq> 0"
    and "find_free_slot t \<noteq> None \<or> find_oldest_terminal_slot t \<noteq> None"
  shows "\<exists>t'. app_process_track_loaded (Some m) (Some plan) True t = (APP_PROCESS_OK, Some (g_next_process_id t), t')"
proof -
  have "plan_ok (length img) plan" using inspect_total[OF assms(1), of out] assms(2) by auto
  then have "plan_is_consistent (Some plan)" by (rule plan_ok_consistent)
  then show ?thesis using assms(3-5) by (auto simp: app_process_track_loaded_def Let_def put_process_def split: option.splits)
qed

theorem accepted_image_trackable_witness:
  "\<exists>t'. app_process_track_loaded (Some sample_manifest) (snd (the (elf64_inspect (Some sample_elf) (Some (empty_plan 0))))) True sample_table =
     (APP_PROCESS_OK, Some 2, t')"
proof -
  have "length sample_elf < 2 ^ 64" by (simp add: sample_elf_def)
  moreover obtain p where "elf64_inspect (Some sample_elf) (Some (empty_plan 0)) = Some (ELF64_LOAD_OK, Some p)"
  proof -
    have "map_option fst (elf64_inspect (Some sample_elf) (Some (empty_plan 0))) = Some ELF64_LOAD_OK" by code_simp
    then show thesis using inspect_total[of sample_elf "empty_plan 0"] that by (auto simp: sample_elf_def)
  qed
  moreover have "app_manifest_validate (Some sample_manifest) = APP_MANIFEST_OK" by code_simp
  moreover have "g_next_process_id sample_table = 2" "find_free_slot sample_table \<noteq> None"
    by (simp_all add: sample_table_def find_free_slot_def zero_process_def)
  ultimately show ?thesis using accepted_image_trackable[of sample_elf "empty_plan 0" _ sample_manifest sample_table] by auto
qed

end
