(* ===== verification/Irq_Registry.thy ===== *)
theory Irq_Registry
  imports Prelude
begin

text \<open>
  The shared interrupt-line registry of \<open>src/kernel/irq_registry.c\<close>.  Handlers are opaque
  function pointers; dispatch is parametrised by what calling one does, which may change the
  registry itself (a handler may unregister itself) besides the rest of the world.
\<close>

section \<open>Definitions\<close>

abbreviation IRQ_REGISTRY_LINE_COUNT :: nat where "IRQ_REGISTRY_LINE_COUNT \<equiv> 16"
abbreviation IRQ_REGISTRY_HANDLERS_PER_LINE :: nat where "IRQ_REGISTRY_HANDLERS_PER_LINE \<equiv> 4"

record 'h irq_registry_slot =
  slot_handler :: "'h option"
  slot_context :: nat

type_synonym 'h irq_registry = "'h irq_registry_slot list list"

definition null_slot :: "'h irq_registry_slot" where
  "null_slot = \<lparr>slot_handler = None, slot_context = 0\<rparr>"

definition irq_registry_init :: "'h irq_registry \<Rightarrow> 'h irq_registry" where
  "irq_registry_init registry =
     replicate IRQ_REGISTRY_LINE_COUNT (replicate IRQ_REGISTRY_HANDLERS_PER_LINE null_slot)"

definition holds :: "'h \<Rightarrow> nat \<Rightarrow> 'h irq_registry_slot \<Rightarrow> bool" where
  "holds h c s \<longleftrightarrow> slot_handler s = Some h \<and> slot_context s = c"

text \<open>The loop of \<open>irq_registry_register\<close>: whether the handler is there, and the first free slot.\<close>

fun register_scan :: "'h \<Rightarrow> nat \<Rightarrow> nat \<Rightarrow> nat \<Rightarrow> 'h irq_registry_slot list \<Rightarrow> bool \<times> nat" where
  "register_scan h c slot free_slot [] = (False, free_slot)"
| "register_scan h c slot free_slot (s # ss) =
     (if holds h c s then (True, free_slot)
      else register_scan h c (slot + 1)
             (if slot_handler s = None \<and> free_slot = IRQ_REGISTRY_HANDLERS_PER_LINE then slot else free_slot) ss)"

definition irq_registry_register ::
  "'h irq_registry option \<Rightarrow> u8 \<Rightarrow> 'h option \<Rightarrow> nat \<Rightarrow> bool \<times> 'h irq_registry option" where
  "irq_registry_register registry irq handler context =
     (case (registry, handler) of
        (Some r, Some h) \<Rightarrow>
          if unat irq \<ge> IRQ_REGISTRY_LINE_COUNT then (False, registry)
          else
            let (found, free_slot) = register_scan h context 0 IRQ_REGISTRY_HANDLERS_PER_LINE (r ! unat irq)
            in if found then (True, registry)
               else if free_slot = IRQ_REGISTRY_HANDLERS_PER_LINE then (False, registry)
               else (True, Some (r[unat irq := (r ! unat irq)[free_slot := \<lparr>slot_handler = Some h, slot_context = context\<rparr>]]))
      | _ \<Rightarrow> (False, registry))"

fun unregister_scan :: "'h \<Rightarrow> nat \<Rightarrow> 'h irq_registry_slot list \<Rightarrow> bool \<times> 'h irq_registry_slot list" where
  "unregister_scan h c [] = (False, [])"
| "unregister_scan h c (s # ss) =
     (if holds h c s then (True, null_slot # ss)
      else let (r, ss) = unregister_scan h c ss in (r, s # ss))"

definition irq_registry_unregister ::
  "'h irq_registry option \<Rightarrow> u8 \<Rightarrow> 'h option \<Rightarrow> nat \<Rightarrow> bool \<times> 'h irq_registry option" where
  "irq_registry_unregister registry irq handler context =
     (case (registry, handler) of
        (Some r, Some h) \<Rightarrow>
          if unat irq \<ge> IRQ_REGISTRY_LINE_COUNT then (False, registry)
          else let (done, line) = unregister_scan h context (r ! unat irq)
               in (done, Some (r[unat irq := line]))
      | _ \<Rightarrow> (False, registry))"

text \<open>The loop of \<open>irq_registry_dispatch\<close> over the given slots; \<open>call\<close> is the handler call.\<close>

fun dispatch_slots ::
  "('h \<Rightarrow> u8 \<Rightarrow> nat \<Rightarrow> 'h irq_registry \<times> 'w \<Rightarrow> bool \<times> 'h irq_registry \<times> 'w)
     \<Rightarrow> u8 \<Rightarrow> nat list \<Rightarrow> bool \<Rightarrow> 'h irq_registry \<times> 'w \<Rightarrow> bool \<times> 'h irq_registry \<times> 'w" where
  "dispatch_slots call irq [] claimed (r, w) = (claimed, r, w)"
| "dispatch_slots call irq (slot # slots) claimed (r, w) =
     (let s = r ! unat irq ! slot
      in case slot_handler s of
           None \<Rightarrow> dispatch_slots call irq slots claimed (r, w)
         | Some h \<Rightarrow> let (c, rw) = call h irq (slot_context s) (r, w)
                     in dispatch_slots call irq slots (claimed \<or> c) rw)"

definition irq_registry_dispatch ::
  "('h \<Rightarrow> u8 \<Rightarrow> nat \<Rightarrow> 'h irq_registry \<times> 'w \<Rightarrow> bool \<times> 'h irq_registry \<times> 'w)
     \<Rightarrow> 'h irq_registry option \<Rightarrow> u8 \<Rightarrow> 'w \<Rightarrow> bool \<times> 'h irq_registry option \<times> 'w" where
  "irq_registry_dispatch call registry irq w =
     (case registry of
        None \<Rightarrow> (False, None, w)
      | Some r \<Rightarrow>
          if unat irq \<ge> IRQ_REGISTRY_LINE_COUNT then (False, registry, w)
          else let (claimed, r, w) = dispatch_slots call irq [0..<IRQ_REGISTRY_HANDLERS_PER_LINE] False (r, w)
               in (claimed, Some r, w))"

definition irq_registry_count :: "'h irq_registry option \<Rightarrow> u8 \<Rightarrow> nat" where
  "irq_registry_count registry irq =
     (case registry of
        None \<Rightarrow> 0
      | Some r \<Rightarrow> if unat irq \<ge> IRQ_REGISTRY_LINE_COUNT then 0
                 else length (filter (\<lambda>s. slot_handler s \<noteq> None) (r ! unat irq)))"

text \<open>The handlers of a line, in slot order; a registry's shape, no handler twice on a line.\<close>

definition entries :: "'h irq_registry_slot list \<Rightarrow> ('h \<times> nat) list" where
  "entries line = map (\<lambda>s. (the (slot_handler s), slot_context s)) (filter (\<lambda>s. slot_handler s \<noteq> None) line)"

definition registry_ok :: "'h irq_registry \<Rightarrow> bool" where
  "registry_ok r \<longleftrightarrow> length r = IRQ_REGISTRY_LINE_COUNT \<and>
     (\<forall>line \<in> set r. length line = IRQ_REGISTRY_HANDLERS_PER_LINE \<and> distinct (entries line))"

text \<open>A handler that logs its call, claims as \<open>claims\<close> says, and unregisters itself as \<open>leaves\<close> says.\<close>

definition logging_call ::
  "('h \<Rightarrow> nat \<Rightarrow> bool) \<Rightarrow> ('h \<Rightarrow> nat \<Rightarrow> bool) \<Rightarrow> 'h \<Rightarrow> u8 \<Rightarrow> nat
     \<Rightarrow> 'h irq_registry \<times> ('h \<times> nat) list \<Rightarrow> bool \<times> 'h irq_registry \<times> ('h \<times> nat) list" where
  "logging_call claims leaves h irq c rw =
     (case rw of (r, log) \<Rightarrow>
        (claims h c, if leaves h c then the (snd (irq_registry_unregister (Some r) irq (Some h) c)) else r, log @ [(h, c)]))"

text \<open>Two handlers on line 3.\<close>

definition sample_registry :: "string irq_registry" where
  "sample_registry = (irq_registry_init [])[3 :=
     [\<lparr>slot_handler = Some ''pit'', slot_context = 1\<rparr>, null_slot, \<lparr>slot_handler = Some ''net'', slot_context = 2\<rparr>, null_slot]]"

section \<open>One line\<close>

lemma entries_simps [simp]:
  "entries [] = []" "entries (s # ss) = (case slot_handler s of None \<Rightarrow> entries ss | Some h \<Rightarrow> (h, slot_context s) # entries ss)"
  by (auto simp: entries_def split: option.splits)

lemma entries_append [simp]: "entries (xs @ ys) = entries xs @ entries ys"
  by (simp add: entries_def)

lemma entries_mem: "(h, c) \<in> set (entries line) \<longleftrightarrow> (\<exists>s \<in> set line. holds h c s)"
  by (induction line) (auto simp: holds_def split: option.splits)

lemma register_scan_found: "(h, c) \<in> set (entries line) \<Longrightarrow> fst (register_scan h c k f line)"
proof (induction h c k f line rule: register_scan.induct)
  case (2 h c k f s ss)
  show ?case
  proof (cases "holds h c s")
    case False
    then have "(h, c) \<in> set (entries ss)" using 2(2) by (auto simp: holds_def split: option.splits)
    then show ?thesis using False 2(1)[OF False] by simp
  qed simp
qed simp

lemma register_scan_new:
  "(h, c) \<notin> set (entries line) \<Longrightarrow> k + length line \<le> 4 \<Longrightarrow> register_scan h c k f line =
     (False, if f = 4 then (case find_idx (\<lambda>s. slot_handler s = None) line of None \<Rightarrow> f | Some i \<Rightarrow> k + i) else f)"
proof (induction h c k f line rule: register_scan.induct)
  case (2 h c k f s ss)
  have h: "\<not> holds h c s" "(h, c) \<notin> set (entries ss)" using 2(2) by (auto simp: holds_def split: option.splits)
  then show ?case using 2(1)[OF h(1) h(2)] 2(3) by (cases "slot_handler s") (auto simp del: find_idx_None split: option.splits)
qed simp

lemma unregister_scan_spec:
  "distinct (entries line) \<Longrightarrow> unregister_scan h c line =
     ((h, c) \<in> set (entries line), map (\<lambda>s. if holds h c s then null_slot else s) line)"
proof (induction line)
  case (Cons s ss)
  show ?case
  proof (cases "holds h c s")
    case True
    then have "\<forall>t \<in> set ss. \<not> holds h c t" using Cons.prems entries_mem[of h c ss] by (auto simp: holds_def)
    then show ?thesis using True by (auto simp: holds_def intro!: map_idI[symmetric])
  next
    case False
    have "distinct (entries ss)" using Cons.prems by (auto split: option.splits)
    then show ?thesis using False Cons.IH by (auto simp: holds_def split: option.splits)
  qed
qed simp

lemma entries_erase: "entries (map (\<lambda>s. if holds h c s then null_slot else s) line) = filter (\<lambda>e. e \<noteq> (h, c)) (entries line)"
  by (induction line) (auto simp: holds_def null_slot_def split: option.splits)

lemma entries_upd:
  assumes "find_idx (\<lambda>s. slot_handler s = None) line = Some i"
  shows "\<exists>xs ys. entries line = xs @ ys \<and> entries (line[i := \<lparr>slot_handler = Some h, slot_context = c\<rparr>]) = xs @ (h, c) # ys"
proof -
  have i: "i < length line" "slot_handler (line ! i) = None" using find_idx_SomeD[OF assms] by auto
  have "entries line = entries (take i line) @ entries (drop (Suc i) line)"
    using i arg_cong[OF id_take_nth_drop[OF i(1)], of entries] by simp
  moreover have "entries (line[i := \<lparr>slot_handler = Some h, slot_context = c\<rparr>]) = entries (take i line) @ (h, c) # entries (drop (Suc i) line)"
    using i(1) by (simp add: upd_conv_take_nth_drop)
  ultimately show ?thesis by blast
qed

section \<open>The registry\<close>

lemma registry_ok_line:
  "registry_ok r \<Longrightarrow> i < IRQ_REGISTRY_LINE_COUNT \<Longrightarrow> length (r ! i) = IRQ_REGISTRY_HANDLERS_PER_LINE \<and> distinct (entries (r ! i))"
  by (simp add: registry_ok_def)

lemma registry_ok_upd:
  assumes "registry_ok r" and "length line = IRQ_REGISTRY_HANDLERS_PER_LINE" and "distinct (entries line)"
  shows "registry_ok (r[i := line])"
  using assms set_update_subset_insert[of r i line] by (auto simp: registry_ok_def)

lemma registry_ok_init: "registry_ok (irq_registry_init r)"
  by (simp add: registry_ok_def irq_registry_init_def null_slot_def entries_def)

lemma sample_registry_ok: "registry_ok sample_registry"
  unfolding sample_registry_def by (intro registry_ok_upd registry_ok_init) (auto simp: null_slot_def)

lemma count_entries: "length (filter (\<lambda>s. slot_handler s \<noteq> None) line) = length (entries line)"
  by (simp add: entries_def)

lemma register_line:
  assumes ok: "registry_ok r" and i: "unat irq < IRQ_REGISTRY_LINE_COUNT"
  obtains r' b where "irq_registry_register (Some r) irq (Some h) c = (b, Some r')" "registry_ok r'"
    "b \<longleftrightarrow> (h, c) \<in> set (entries (r ! unat irq)) \<or> irq_registry_count (Some r) irq < IRQ_REGISTRY_HANDLERS_PER_LINE"
    "set (entries (r' ! unat irq)) = (if b then insert (h, c) (set (entries (r ! unat irq))) else set (entries (r ! unat irq)))"
    "\<forall>j. j \<noteq> unat irq \<longrightarrow> r' ! j = r ! j"
proof -
  let ?line = "r ! unat irq"
  note l = registry_ok_line[OF ok i]
  have cnt: "irq_registry_count (Some r) irq = length (entries ?line)" using i by (simp add: irq_registry_count_def entries_def)
  have free: "(find_idx (\<lambda>s. slot_handler s = None) ?line = None) = (length (entries ?line) = IRQ_REGISTRY_HANDLERS_PER_LINE)"
  proof -
    have "(find_idx (\<lambda>s. slot_handler s = None) ?line = None) = (filter (\<lambda>s. slot_handler s \<noteq> None) ?line = ?line)" by (auto simp: filter_id_conv)
    also have "\<dots> = (length (filter (\<lambda>s. slot_handler s \<noteq> None) ?line) = length ?line)"
      by (metis filter_id_conv length_filter_less less_irrefl)
    finally show ?thesis using l count_entries[of ?line] by simp
  qed
  have le: "length (entries ?line) \<le> IRQ_REGISTRY_HANDLERS_PER_LINE" using l length_filter_le[of _ ?line] by (simp flip: count_entries)
  consider (found) "(h, c) \<in> set (entries ?line)" | (full) "(h, c) \<notin> set (entries ?line)" "find_idx (\<lambda>s. slot_handler s = None) ?line = None"
    | (room) j where "(h, c) \<notin> set (entries ?line)" "find_idx (\<lambda>s. slot_handler s = None) ?line = Some j" by fastforce
  then show thesis
  proof cases
    case found
    then show thesis using ok i register_scan_found[OF found, of 0 4]
      by (intro that[of True r]) (auto simp: irq_registry_register_def split: prod.splits)
  next
    case full
    then show thesis using ok i cnt free l register_scan_new[OF full(1), of 0 4]
      by (intro that[of False r]) (auto simp: irq_registry_register_def simp del: find_idx_None)
  next
    case room
    let ?new = "?line[j := \<lparr>slot_handler = Some h, slot_context = c\<rparr>]"
    have j: "j < 4" using find_idx_length[OF room(2)] l by simp
    obtain xs ys where e: "entries ?line = xs @ ys" "entries ?new = xs @ (h, c) # ys" using entries_upd[OF room(2)] by blast
    have "registry_ok (r[unat irq := ?new])" using l e room(1) by (intro registry_ok_upd[OF ok]) auto
    moreover have "irq_registry_register (Some r) irq (Some h) c = (True, Some (r[unat irq := ?new]))"
      using i j room l register_scan_new[OF room(1), of 0 4] by (auto simp: irq_registry_register_def)
    moreover have "unat irq < length r" using ok i by (simp add: registry_ok_def)
    ultimately show thesis using e cnt free le room by (intro that[of True "r[unat irq := ?new]"]) auto
  qed
qed

lemma unregister_line:
  assumes ok: "registry_ok r" and i: "unat irq < IRQ_REGISTRY_LINE_COUNT"
  shows "irq_registry_unregister (Some r) irq (Some h) c =
     ((h, c) \<in> set (entries (r ! unat irq)), Some (r[unat irq := map (\<lambda>s. if holds h c s then null_slot else s) (r ! unat irq)]))"
    and "registry_ok (r[unat irq := map (\<lambda>s. if holds h c s then null_slot else s) (r ! unat irq)])"
proof -
  note l = registry_ok_line[OF ok i]
  show "irq_registry_unregister (Some r) irq (Some h) c =
     ((h, c) \<in> set (entries (r ! unat irq)), Some (r[unat irq := map (\<lambda>s. if holds h c s then null_slot else s) (r ! unat irq)]))"
    using i l by (simp add: irq_registry_unregister_def unregister_scan_spec)
  show "registry_ok (r[unat irq := map (\<lambda>s. if holds h c s then null_slot else s) (r ! unat irq)])"
    using l by (intro registry_ok_upd[OF ok]) (auto simp: entries_erase)
qed

lemma erase_one:
  assumes "distinct (entries line)" and "k < length line" and "holds h c (line ! k)"
  shows "map (\<lambda>s. if holds h c s then null_slot else s) line = line[k := null_slot]"
proof (rule nth_equalityI)
  fix j
  assume j: "j < length (map (\<lambda>s. if holds h c s then null_slot else s) line)"
  have "\<not> holds h c (line ! j)" if "j \<noteq> k"
  proof -
    have "j = k" if a: "a < b" "b < length line" "holds h c (line ! a)" "holds h c (line ! b)" for a b
    proof -
      have "entries line = entries (take b line) @ (h, c) # entries (drop (Suc b) line)"
        using a(4) arg_cong[OF id_take_nth_drop[OF a(2)], of entries] by (simp add: holds_def)
      moreover have "(h, c) \<in> set (entries (take b line))" 
      proof -
        have "line ! a \<in> set (take b line)" using a(1,2) by (auto simp: in_set_conv_nth intro!: exI[of _ a])
        then show ?thesis using a(3) by (auto simp: entries_mem)
      qed
      ultimately show ?thesis using assms(1) by simp
    qed
    then show ?thesis using assms(2,3) j that by (metis length_map nat_neq_iff)
  qed
  then show "map (\<lambda>s. if holds h c s then null_slot else s) line ! j = line[k := null_slot] ! j"
    using j assms(2,3) by (cases "j = k") auto
qed simp

lemma logging_call_line:
  assumes ok: "registry_ok r" and i: "unat irq < IRQ_REGISTRY_LINE_COUNT" and k: "k < 4" and h: "holds h c (r ! unat irq ! k)"
  obtains r' where "logging_call claims leaves h irq c (r, log) = (claims h c, r', log @ [(h, c)])" "registry_ok r'"
    "r' ! unat irq = (if leaves h c then (r ! unat irq)[k := null_slot] else r ! unat irq)"
proof -
  note l = registry_ok_line[OF ok i]
  have er: "map (\<lambda>s. if holds h c s then null_slot else s) (r ! unat irq) = (r ! unat irq)[k := null_slot]"
    using l k h by (intro erase_one) auto
  let ?r = "if leaves h c then r[unat irq := (r ! unat irq)[k := null_slot]] else r"
  have "unat irq < length r" using ok i by (simp add: registry_ok_def)
  then show thesis using unregister_line[OF ok i, of h c, unfolded er] ok by (intro that[of ?r]) (auto simp: logging_call_def)
qed

text \<open>Dispatch over the slots from \<open>k\<close> on calls the handlers there, in order, even when
  handlers leave while the walk is under way.\<close>

lemma dispatch_from:
  assumes i: "unat irq < IRQ_REGISTRY_LINE_COUNT"
  shows "registry_ok r \<Longrightarrow> k \<le> 4 \<Longrightarrow> \<exists>r'. dispatch_slots (logging_call claims leaves) irq [k..<4] b (r, log) =
      (b \<or> (\<exists>(h, c) \<in> set (entries (drop k (r ! unat irq))). claims h c), r', log @ entries (drop k (r ! unat irq)))
    \<and> registry_ok r' \<and> take k (r' ! unat irq) = take k (r ! unat irq)
    \<and> entries (drop k (r' ! unat irq)) = filter (\<lambda>(h, c). \<not> leaves h c) (entries (drop k (r ! unat irq)))"
proof (induction "4 - k" arbitrary: k r log b)
  case 0
  then show ?case using registry_ok_line[OF 0(2) i] by simp
next
  case (Suc n)
  then have k: "k < 4" "n = 4 - Suc k" by auto
  let ?line = "r ! unat irq" and ?s = "r ! unat irq ! k"
  have len: "length ?line = 4" using registry_ok_line[OF Suc(3) i] by simp
  have cut: "drop k l = l ! k # drop (Suc k) l \<and> take (Suc k) l = take k l @ [l ! k]" if "length l = 4" for l :: "'a irq_registry_slot list"
    using that k(1) by (simp add: Cons_nth_drop_Suc take_Suc_conv_app_nth)
  have dr: "drop k ?line = ?s # drop (Suc k) ?line" using cut[OF len] by simp
  have up: "[k..<4] = k # [Suc k..<4]" using k(1) by (simp add: upt_rec)
  show ?case
  proof (cases "slot_handler ?s")
    case None
    obtain r' where r': "dispatch_slots (logging_call claims leaves) irq [Suc k..<4] b (r, log) =
        (b \<or> (\<exists>(h, c) \<in> set (entries (drop (Suc k) ?line)). claims h c), r', log @ entries (drop (Suc k) ?line))"
      "registry_ok r'" "take (Suc k) (r' ! unat irq) = take (Suc k) ?line"
      "entries (drop (Suc k) (r' ! unat irq)) = filter (\<lambda>(h, c). \<not> leaves h c) (entries (drop (Suc k) ?line))"
      using Suc(1)[OF k(2) Suc(3), of b log] k(1) by auto
    have len': "length (r' ! unat irq) = 4" using registry_ok_line[OF r'(2) i] by simp
    have t: "take k (r' ! unat irq) = take k ?line" "r' ! unat irq ! k = ?s" "drop k (r' ! unat irq) = ?s # drop (Suc k) (r' ! unat irq)"
      using r'(3) cut[OF len] cut[OF len'] by auto
    then show ?thesis using r' None dr unfolding up by auto
  next
    case (Some h)
    let ?c = "slot_context ?s"
    obtain r1 where r1: "logging_call claims leaves h irq ?c (r, log) = (claims h ?c, r1, log @ [(h, ?c)])" "registry_ok r1"
      "r1 ! unat irq = (if leaves h ?c then ?line[k := null_slot] else ?line)"
      by (rule logging_call_line[OF Suc(3) i k(1)]) (use Some in \<open>auto simp: holds_def\<close>)
    have same: "drop (Suc k) (r1 ! unat irq) = drop (Suc k) ?line" "take k (r1 ! unat irq) = take k ?line" using r1(3) by simp_all
    obtain r' where r': "dispatch_slots (logging_call claims leaves) irq [Suc k..<4] (b \<or> claims h ?c) (r1, log @ [(h, ?c)]) =
        ((b \<or> claims h ?c) \<or> (\<exists>(h, c) \<in> set (entries (drop (Suc k) ?line)). claims h c), r', (log @ [(h, ?c)]) @ entries (drop (Suc k) ?line))"
      "registry_ok r'" "take (Suc k) (r' ! unat irq) = take (Suc k) (r1 ! unat irq)"
      "entries (drop (Suc k) (r' ! unat irq)) = filter (\<lambda>(h, c). \<not> leaves h c) (entries (drop (Suc k) ?line))"
      using Suc(1)[OF k(2) r1(2), of "b \<or> claims h ?c" "log @ [(h, ?c)]"] k(1) same(1) by auto
    have len': "length (r' ! unat irq) = 4" "length (r1 ! unat irq) = 4" using registry_ok_line[OF r'(2) i] registry_ok_line[OF r1(2) i] by auto
    have t: "take k (r' ! unat irq) = take k ?line" "drop k (r' ! unat irq) = r1 ! unat irq ! k # drop (Suc k) (r' ! unat irq)"
      using r'(3) same(2) cut[OF len'(1)] cut[OF len'(2)] by auto
    have "entries [r1 ! unat irq ! k] = filter (\<lambda>(h, c). \<not> leaves h c) [(h, ?c)]"
      using r1(3) Some k(1) len by (auto simp: null_slot_def)
    then have "entries (drop k (r' ! unat irq)) = filter (\<lambda>(h, c). \<not> leaves h c) (entries (drop k ?line))"
      using t(2) r'(4) dr Some entries_append[of "[r1 ! unat irq ! k]"] by (metis (no_types) append_Cons append_Nil entries_simps(2) filter_append option.simps(5))
    moreover have "dispatch_slots (logging_call claims leaves) irq [k..<4] b (r, log) =
        (b \<or> (\<exists>(h, c) \<in> set (entries (drop k ?line)). claims h c), r', log @ entries (drop k ?line))"
      using r'(1) r1(1) Some dr unfolding up by (auto simp: Let_def)
    ultimately show ?thesis using r'(2) t(1) by blast
  qed
qed

text \<open>Each line is a set of at most four handlers: a registration succeeds
  exactly when the handler is already there or a slot is free, adds just that handler and touches
  no other line; an unregistration reports whether the handler was there and removes just it.\<close>

lemma irq_registry_is_bounded_set:
  assumes "registry_ok r" and "unat irq < IRQ_REGISTRY_LINE_COUNT"
  shows "(\<exists>b r'. irq_registry_register (Some r) irq (Some h) c = (b, Some r') \<and> registry_ok r'
      \<and> (b \<longleftrightarrow> (h, c) \<in> set (entries (r ! unat irq)) \<or> irq_registry_count (Some r) irq < IRQ_REGISTRY_HANDLERS_PER_LINE)
      \<and> set (entries (r' ! unat irq)) = (if b then insert (h, c) (set (entries (r ! unat irq))) else set (entries (r ! unat irq)))
      \<and> (\<forall>j. j \<noteq> unat irq \<longrightarrow> r' ! j = r ! j))
    \<and> (\<exists>r'. irq_registry_unregister (Some r) irq (Some h) c = ((h, c) \<in> set (entries (r ! unat irq)), Some r') \<and> registry_ok r'
      \<and> entries (r' ! unat irq) = filter (\<lambda>e. e \<noteq> (h, c)) (entries (r ! unat irq)) \<and> (\<forall>j. j \<noteq> unat irq \<longrightarrow> r' ! j = r ! j))"
proof -
  obtain b r' where "irq_registry_register (Some r) irq (Some h) c = (b, Some r')" "registry_ok r'"
    "b \<longleftrightarrow> (h, c) \<in> set (entries (r ! unat irq)) \<or> irq_registry_count (Some r) irq < IRQ_REGISTRY_HANDLERS_PER_LINE"
    "set (entries (r' ! unat irq)) = (if b then insert (h, c) (set (entries (r ! unat irq))) else set (entries (r ! unat irq)))"
    "\<forall>j. j \<noteq> unat irq \<longrightarrow> r' ! j = r ! j" by (rule register_line[OF assms, of h c]) blast
  moreover have "unat irq < length r" using assms by (simp add: registry_ok_def)
  ultimately show ?thesis using unregister_line[OF assms, of h c] by (auto simp: entries_erase)
qed

section \<open>Properties\<close>

text \<open>C30: dispatching a line calls every handler registered on it exactly once, in
  slot order, and reports whether any of them claimed the interrupt; a handler that unregisters
  itself from inside its own call neither hides nor repeats another one, and exactly those handlers
  are gone afterwards.\<close>

theorem irq_dispatch_complete:
  assumes "registry_ok r" and "unat irq < IRQ_REGISTRY_LINE_COUNT"
  shows "\<exists>r'. irq_registry_dispatch (logging_call claims leaves) (Some r) irq [] =
      (\<exists>(h, c) \<in> set (entries (r ! unat irq)). claims h c, Some r', entries (r ! unat irq))
    \<and> registry_ok r' \<and> entries (r' ! unat irq) = filter (\<lambda>(h, c). \<not> leaves h c) (entries (r ! unat irq))"
proof -
  obtain r' where r': "dispatch_slots (logging_call claims leaves) irq [0..<4] False (r, []) =
      (\<exists>(h, c) \<in> set (entries (r ! unat irq)). claims h c, r', entries (r ! unat irq))"
    "registry_ok r'" "entries (r' ! unat irq) = filter (\<lambda>(h, c). \<not> leaves h c) (entries (r ! unat irq))"
    using dispatch_from[OF assms(2,1), of 0 claims leaves False "[]"] by auto
  show ?thesis
    by (rule exI[of _ r']) (use assms(2) r'(2,3) in \<open>simp add: irq_registry_dispatch_def r'(1) del: upt_rec_numeral\<close>)
qed

theorem irq_dispatch_complete_witness:
  "\<exists>r'. irq_registry_dispatch (logging_call (\<lambda>h c. h = ''net'') (\<lambda>h c. h = ''pit'')) (Some sample_registry) 3 [] =
      (True, Some r', [(''pit'', 1), (''net'', 2)]) \<and> entries (r' ! 3) = [(''net'', 2)]"
proof -
  have "entries (sample_registry ! unat (3 :: u8)) = [(''pit'', 1), (''net'', 2)]" by (simp add: sample_registry_def irq_registry_init_def null_slot_def)
  then show ?thesis using irq_dispatch_complete[OF sample_registry_ok, of 3 "\<lambda>h c. h = ''net''" "\<lambda>h c. h = ''pit''"] by auto
qed

end
