(* ===== verification/User_Return.thy ===== *)
theory User_Return
  imports Prelude
begin

text \<open>
  The normalisation of a hardware frame before IRETQ (\<open>src/kernel/include/user_return.h\<close>), and
  the decoding of an absolute pointer packet (\<open>src/kernel/vmmouse_decode.c\<close>).
\<close>

section \<open>Definitions\<close>

abbreviation USER_RETURN_DATA_SELECTOR :: u64 where "USER_RETURN_DATA_SELECTOR \<equiv> 0x1b"
abbreviation USER_RETURN_CODE_SELECTOR :: u64 where "USER_RETURN_CODE_SELECTOR \<equiv> 0x23"
abbreviation USER_RETURN_RFLAGS_ALLOWED :: u64 where "USER_RETURN_RFLAGS_ALLOWED \<equiv> 0x250fd7"
abbreviation USER_RETURN_RFLAGS_REQUIRED :: u64 where "USER_RETURN_RFLAGS_REQUIRED \<equiv> 0x202"
abbreviation PAGING_USER_BASE :: u64 where "PAGING_USER_BASE \<equiv> 0x0000010000000000"
abbreviation PAGING_USER_LIMIT :: u64 where "PAGING_USER_LIMIT \<equiv> 0x0000020000000000"

record user_return_frame =
  rip :: u64
  cs :: u64
  rflags :: u64
  rsp :: u64
  ss :: u64

definition user_return_frame_is_user :: "user_return_frame option \<Rightarrow> bool" where
  "user_return_frame_is_user frame = (case frame of None \<Rightarrow> False | Some f \<Rightarrow> cs f AND 3 = 3)"

definition user_return_sanitize_rflags :: "u64 \<Rightarrow> u64" where
  "user_return_sanitize_rflags fl = (fl AND USER_RETURN_RFLAGS_ALLOWED) OR USER_RETURN_RFLAGS_REQUIRED"

definition user_return_frame_normalize :: "user_return_frame option \<Rightarrow> bool \<times> user_return_frame option" where
  "user_return_frame_normalize frame =
     (if \<not> user_return_frame_is_user frame then (True, frame)
      else
        let f = the frame; f = f\<lparr>rflags := user_return_sanitize_rflags (rflags f)\<rparr>;
            valid = (cs f = USER_RETURN_CODE_SELECTOR \<and> ss f = USER_RETURN_DATA_SELECTOR
              \<and> rip f \<ge> PAGING_USER_BASE \<and> rip f < PAGING_USER_LIMIT \<and> rsp f \<ge> PAGING_USER_BASE \<and> rsp f < PAGING_USER_LIMIT)
        in if valid then (True, Some f)
           else (False, Some \<lparr>rip = 0, cs = USER_RETURN_CODE_SELECTOR, rflags = USER_RETURN_RFLAGS_REQUIRED,
                              rsp = 0, ss = USER_RETURN_DATA_SELECTOR\<rparr>))"

abbreviation VMMOUSE_COORDINATE_MAX :: u32 where "VMMOUSE_COORDINATE_MAX \<equiv> 65535"
abbreviation VMMOUSE_BUTTON_LEFT :: u32 where "VMMOUSE_BUTTON_LEFT \<equiv> 0x20"
abbreviation VMMOUSE_BUTTON_RIGHT :: u32 where "VMMOUSE_BUTTON_RIGHT \<equiv> 0x10"

record MouseState =
  mouse_x :: "32 word"
  mouse_y :: "32 word"
  left_button :: bool
  right_button :: bool

text \<open>\<open>int\<close> values are 32-bit words read as signed; the product is taken in 64 bits.\<close>

definition scale_coordinate :: "u32 \<Rightarrow> 32 word \<Rightarrow> 32 word" where
  "scale_coordinate coordinate extent =
     (if sint extent \<le> 1 then 0
      else
        let coordinate = (if coordinate > VMMOUSE_COORDINATE_MAX then VMMOUSE_COORDINATE_MAX else coordinate)
        in ucast ((ucast coordinate * scast (extent - 1) + ucast (VMMOUSE_COORDINATE_MAX div 2 :: u32)
                   :: u64) div ucast VMMOUSE_COORDINATE_MAX))"

definition vmmouse_decode_event :: "u32 \<Rightarrow> u32 \<Rightarrow> u32 \<Rightarrow> 32 word \<Rightarrow> 32 word \<Rightarrow> MouseState" where
  "vmmouse_decode_event buttons absolute_x absolute_y framebuffer_width framebuffer_height =
     \<lparr>mouse_x = scale_coordinate absolute_x framebuffer_width,
      mouse_y = scale_coordinate absolute_y framebuffer_height,
      left_button = buttons AND VMMOUSE_BUTTON_LEFT \<noteq> 0,
      right_button = buttons AND VMMOUSE_BUTTON_RIGHT \<noteq> 0\<rparr>"

text \<open>The flags user code must not change: IOPL (12, 13), NT (14), VM (17), VIF (19), VIP (20), and the
  reserved bits from 22 on.\<close>

definition privileged_flag :: "nat \<Rightarrow> bool" where
  "privileged_flag n \<longleftrightarrow> n \<in> {12, 13, 14, 17, 19, 20} \<or> 22 \<le> n"

text \<open>A frame IRETQ can take without a fault at CPL 0: user selectors, canonical addresses in or
  below the user window, interrupts on, no privileged flag.\<close>

definition frame_returns :: "user_return_frame \<Rightarrow> bool" where
  "frame_returns f \<longleftrightarrow> cs f = USER_RETURN_CODE_SELECTOR \<and> ss f = USER_RETURN_DATA_SELECTOR
     \<and> rip f < PAGING_USER_LIMIT \<and> rsp f < PAGING_USER_LIMIT
     \<and> bit (rflags f) 1 \<and> bit (rflags f) 9 \<and> (\<forall>n. privileged_flag n \<longrightarrow> \<not> bit (rflags f) n)"

section \<open>The return frame\<close>

lemma allowed_bits: "bit USER_RETURN_RFLAGS_ALLOWED n \<Longrightarrow> \<not> privileged_flag n"
proof -
  assume b: "bit USER_RETURN_RFLAGS_ALLOWED n"
  then have "n < 64" using bit_imp_le_length by fastforce
  moreover have "\<forall>n \<in> set [0..<64]. bit USER_RETURN_RFLAGS_ALLOWED n \<longrightarrow> \<not> privileged_flag n"
    unfolding privileged_flag_def by code_simp
  ultimately show ?thesis using b by simp
qed

lemma required_bits: "bit USER_RETURN_RFLAGS_REQUIRED n \<longleftrightarrow> n = 1 \<or> n = 9"
proof -
  have "\<forall>n \<in> set [0..<64]. bit USER_RETURN_RFLAGS_REQUIRED n \<longleftrightarrow> n = 1 \<or> n = 9" by code_simp
  then show ?thesis using bit_imp_le_length[of USER_RETURN_RFLAGS_REQUIRED n] by (cases "n < 64") auto
qed

lemma sanitized:
  "bit (user_return_sanitize_rflags fl) 1 \<and> bit (user_return_sanitize_rflags fl) 9
     \<and> (\<forall>n. privileged_flag n \<longrightarrow> \<not> bit (user_return_sanitize_rflags fl) n)"
  unfolding user_return_sanitize_rflags_def bit_or_iff bit_and_iff required_bits
  using allowed_bits by (auto simp: privileged_flag_def)

section \<open>The pointer\<close>

lemma sint_small:
  assumes "unat (w :: 32 word) < 2147483648"
  shows "sint w = int (unat w)"
proof -
  have "int (unat w) < 2147483648" using assms by linarith
  then have "signed_take_bit 31 (int (unat w)) = int (unat w)" by (intro signed_take_bit_int_eq_self) (simp_all add: order_trans[OF _ uint_ge_0])
  then show ?thesis by (simp add: sint_uint)
qed

lemma sint_pos_small:
  assumes "0 < sint (w :: 32 word)"
  shows "unat w < 2147483648"
proof (rule ccontr)
  assume n: "\<not> unat w < 2147483648"
  have "unat w < 4294967296" using unsigned_less[of w] by simp
  then have "unat w div 2 ^ 31 = 1" using n by (intro div_nat_eqI) simp_all
  then have "bit (unat w) 31" unfolding bit_iff_odd by simp
  then have "bit w 31" by (simp add: bit_unsigned_iff)
  then have "sint w < 0" using bit_last_iff[of w] by simp
  then show False using assms by simp
qed

lemma scaled_bounds:
  fixes c e :: nat
  assumes "c \<le> 65535" and "0 < e"
  shows "(c * (e - 1) + 32767) div 65535 < e"
proof -
  have "c * (e - 1) \<le> 65535 * (e - 1)" using assms(1) by simp
  moreover have "65535 * e = 65535 * (e - 1) + 65535" using assms(2) by (cases e) auto
  ultimately have "c * (e - 1) + 32767 < 65535 * e" by linarith
  then show ?thesis by (simp add: div_less_iff_less_mult mult.commute)
qed

lemma scale_coordinate_exact:
  assumes "1 < sint extent"
  shows "sint (scale_coordinate c extent) = int ((min (unat c) 65535 * (unat extent - 1) + 32767) div 65535)"
    and "sint (scale_coordinate c extent) < sint extent"
proof -
  let ?c = "if c > VMMOUSE_COORDINATE_MAX then VMMOUSE_COORDINATE_MAX else c"
  let ?v = "(min (unat c) 65535 * (unat extent - 1) + 32767) div 65535"
  have e: "unat extent < 2147483648" "sint extent = int (unat extent)"
    using sint_pos_small[of extent] sint_small[of extent] assms by auto
  then have e2: "1 < unat extent" using assms by linarith
  have c: "unat ?c = min (unat c) 65535" "min (unat c) 65535 \<le> 65535" by (auto simp: word_less_nat_alt min_def)
  have e1: "unat (extent - 1) = unat extent - 1" using e2 unat_minus_one[of extent] by fastforce
  then have "sint (extent - 1) = int (unat extent - 1)" using e(1) sint_small[of "extent - 1"] by simp
  then have "scast (extent - 1) = (of_nat (unat extent - 1) :: u64)" by (simp only: scast_eq of_int_of_nat_eq)
  then have sc: "unat (scast (extent - 1) :: u64) = unat extent - 1" using e(1) by (simp only: unat_of_nat) (simp add: take_bit_nat_eq_self)
  have cc: "unat (ucast ?c :: u64) = min (unat c) 65535" using unat_ucast_up[of ?c, where 'b = 64] c(1) by simp
  have b: "min (unat c) 65535 * (unat extent - 1) \<le> 65535 * 2147483648"
    using c(2) e(1) by (intro mult_le_mono) auto
  have p: "unat (ucast ?c * scast (extent - 1) + ucast (VMMOUSE_COORDINATE_MAX div 2 :: u32) :: u64) =
      min (unat c) 65535 * (unat extent - 1) + 32767"
    unfolding unat_word_ariths cc sc using b by simp
  have lt: "?v < unat extent" using scaled_bounds[OF c(2), of "unat extent"] e2 by simp
  have "unat (scale_coordinate c extent) = ?v"
  proof -
    have "scale_coordinate c extent = ucast ((ucast ?c * scast (extent - 1) + ucast (VMMOUSE_COORDINATE_MAX div 2 :: u32) :: u64) div 65535)"
      using assms by (simp add: scale_coordinate_def Let_def)
    then show ?thesis using p lt e(1) by (simp add: unat_div unsigned_ucast_eq take_bit_nat_eq_self)
  qed
  then show "sint (scale_coordinate c extent) = int ?v" "sint (scale_coordinate c extent) < sint extent"
    using sint_small[of "scale_coordinate c extent"] lt e by linarith+
qed

text \<open>The decoded pointer is on the screen, whatever the packet.\<close>

lemma vmmouse_decode_inside:
  assumes "0 < sint w" and "0 < sint h"
  shows "0 \<le> sint (mouse_x (vmmouse_decode_event b x y w h)) \<and> sint (mouse_x (vmmouse_decode_event b x y w h)) < sint w
    \<and> 0 \<le> sint (mouse_y (vmmouse_decode_event b x y w h)) \<and> sint (mouse_y (vmmouse_decode_event b x y w h)) < sint h"
proof -
  have "0 \<le> sint (scale_coordinate c e) \<and> sint (scale_coordinate c e) < sint e" if "0 < sint e" for c e
  proof (cases "1 < sint e")
    case True
    then show ?thesis using scale_coordinate_exact[OF True, of c] by simp
  next
    case False
    then show ?thesis using that by (simp add: scale_coordinate_def)
  qed
  then show ?thesis using assms by (simp add: vmmouse_decode_event_def)
qed

section \<open>Properties\<close>

text \<open>C29: after normalisation every frame with a ring-3 code selector can be
  returned to: its selectors are the user ones, its addresses canonical user addresses or zero,
  interrupts are enabled and no privileged flag is set.  A well-formed user frame keeps its
  addresses, a malformed one returns to address zero, and a kernel frame is untouched.\<close>

theorem user_return_contained:
  "case user_return_frame_normalize (Some f) of (valid, g) \<Rightarrow>
     if cs f AND 3 = 3
     then (\<exists>g'. g = Some g' \<and> frame_returns g' \<and> (if valid then g' = f\<lparr>rflags := user_return_sanitize_rflags (rflags f)\<rparr>
              \<and> rip f \<ge> PAGING_USER_BASE \<and> rsp f \<ge> PAGING_USER_BASE else rip g' = 0 \<and> rsp g' = 0))
     else valid \<and> g = Some f"
proof -
  have "frame_returns \<lparr>rip = 0, cs = USER_RETURN_CODE_SELECTOR, rflags = USER_RETURN_RFLAGS_REQUIRED, rsp = 0, ss = USER_RETURN_DATA_SELECTOR\<rparr>"
    using sanitized[of 0] unfolding frame_returns_def by (simp add: user_return_sanitize_rflags_def)
  moreover have "frame_returns (f\<lparr>rflags := user_return_sanitize_rflags (rflags f)\<rparr>)"
    if "cs f = USER_RETURN_CODE_SELECTOR" "ss f = USER_RETURN_DATA_SELECTOR" "rip f < PAGING_USER_LIMIT" "rsp f < PAGING_USER_LIMIT"
    using that sanitized[of "rflags f"] by (simp add: frame_returns_def)
  ultimately show ?thesis
    by (auto simp: user_return_frame_normalize_def user_return_frame_is_user_def Let_def)
qed

end
