(* ===== verification/Net_Base.thy ===== *)
theory Net_Base
  imports Checked
begin

text \<open>
  The data of the IPv4 stack (\<open>src/kernel/include/net.h\<close>) and the helpers at the head of
  \<open>src/kernel/net.c\<close>: big-endian fields, Internet checksums, address classes.

  A received packet is the list of its bytes, a pointer into it the list from there on; reads of
  it are checked.  The world outside the stack (the link driver, the datagram handlers) is an
  environment \<open>net_env\<close> over a type \<open>'w\<close>; handlers may call back into the stack, so
  they act on the stack together with the world.
\<close>

section \<open>Definitions\<close>

abbreviation (input) NET_ETHERNET_ADDRESS_SIZE :: nat where "NET_ETHERNET_ADDRESS_SIZE \<equiv> 6"
abbreviation (input) NET_ETHERNET_HEADER_SIZE :: nat where "NET_ETHERNET_HEADER_SIZE \<equiv> 14"
abbreviation (input) NET_ETHERNET_FRAME_MAX :: nat where "NET_ETHERNET_FRAME_MAX \<equiv> 1514"
abbreviation (input) NET_IPV4_HEADER_MIN_SIZE :: nat where "NET_IPV4_HEADER_MIN_SIZE \<equiv> 20"
abbreviation (input) NET_IPV4_PAYLOAD_MAX :: nat where "NET_IPV4_PAYLOAD_MAX \<equiv> 1480"
abbreviation (input) NET_UDP_PAYLOAD_MAX :: nat where "NET_UDP_PAYLOAD_MAX \<equiv> 1472"
abbreviation (input) NET_ARP_CACHE_SIZE :: nat where "NET_ARP_CACHE_SIZE \<equiv> 8"
abbreviation (input) NET_UDP_BINDING_COUNT :: nat where "NET_UDP_BINDING_COUNT \<equiv> 8"
abbreviation (input) NET_DNS_NAME_MAX :: nat where "NET_DNS_NAME_MAX \<equiv> 253"
abbreviation (input) NET_DNS_CACHE_SIZE :: nat where "NET_DNS_CACHE_SIZE \<equiv> 8"
abbreviation (input) NET_DNS_NEGATIVE_TTL_MAX_SECONDS :: u32 where "NET_DNS_NEGATIVE_TTL_MAX_SECONDS \<equiv> 60"
abbreviation (input) NET_IPV4_PROTOCOL_ICMP :: u8 where "NET_IPV4_PROTOCOL_ICMP \<equiv> 1"
abbreviation (input) NET_IPV4_PROTOCOL_TCP :: u8 where "NET_IPV4_PROTOCOL_TCP \<equiv> 6"
abbreviation (input) NET_IPV4_PROTOCOL_UDP :: u8 where "NET_IPV4_PROTOCOL_UDP \<equiv> 17"
abbreviation (input) ETHERTYPE_IPV4 :: u16 where "ETHERTYPE_IPV4 \<equiv> 0x0800"
abbreviation (input) ETHERTYPE_ARP :: u16 where "ETHERTYPE_ARP \<equiv> 0x0806"
abbreviation (input) ARP_PACKET_SIZE :: nat where "ARP_PACKET_SIZE \<equiv> 28"
abbreviation (input) ARP_OPERATION_REQUEST :: u16 where "ARP_OPERATION_REQUEST \<equiv> 1"
abbreviation (input) ARP_OPERATION_REPLY :: u16 where "ARP_OPERATION_REPLY \<equiv> 2"
abbreviation (input) ICMP_ECHO_REPLY :: u8 where "ICMP_ECHO_REPLY \<equiv> 0"
abbreviation (input) ICMP_ECHO_REQUEST :: u8 where "ICMP_ECHO_REQUEST \<equiv> 8"
abbreviation (input) UINT32_MAX :: u32 where "UINT32_MAX \<equiv> 0xffffffff"
abbreviation (input) UINT64_MAX :: u64 where "UINT64_MAX \<equiv> 0xffffffffffffffff"

definition NET_IPV4 :: "u8 \<Rightarrow> u8 \<Rightarrow> u8 \<Rightarrow> u8 \<Rightarrow> u32" where
  "NET_IPV4 a b c d = push_bit 24 (ucast a) OR push_bit 16 (ucast b) OR push_bit 8 (ucast c) OR ucast d"

record net_ipv4_config =
  cfg_address :: u32
  cfg_netmask :: u32
  cfg_gateway :: u32
  cfg_dns :: u32

datatype net_send_result = NET_SEND_FAILED | NET_SEND_SENT | NET_SEND_QUEUED

record net_udp_datagram =
  dg_source_ip :: u32
  dg_destination_ip :: u32
  dg_source_port :: u16
  dg_destination_port :: u16
  dg_data :: bytes

datatype net_dhcp_state =
    NET_DHCP_OFF | NET_DHCP_DISCOVERING | NET_DHCP_REQUESTING | NET_DHCP_BOUND | NET_DHCP_RENEWING | NET_DHCP_REBINDING

datatype net_dns_state =
    NET_DNS_IDLE | NET_DNS_PENDING | NET_DNS_RESOLVED | NET_DNS_NOT_FOUND | NET_DNS_TIMED_OUT
  | NET_DNS_MALFORMED_RESPONSE | NET_DNS_SERVER_ERROR

record net_dns_result =
  res_state :: net_dns_state
  res_address :: u32
  res_ttl_seconds :: u32
  res_response_code :: u8

record net_icmp_echo_reply =
  er_valid :: bool
  er_source_ip :: u32
  er_identifier :: u16
  er_sequence :: u16
  er_round_trip_ms :: u64
  er_payload_size :: nat

record net_stats =
  frames_received :: u64
  frames_transmitted :: u64
  frames_dropped :: u64
  arp_requests_sent :: u64
  arp_replies_received :: u64
  ipv4_packets_received :: u64
  ipv4_packets_transmitted :: u64
  icmp_echo_requests_received :: u64
  icmp_echo_replies_received :: u64
  udp_datagrams_received :: u64
  udp_datagrams_transmitted :: u64

record net_arp_entry =
  arp_valid :: bool
  arp_ip :: u32
  arp_mac :: bytes
  arp_refreshed_ms :: u64

record net_udp_binding =
  ub_port :: u16
  ub_handler :: "nat option"
  ub_context :: nat

record net_pending_ipv4 =
  pend_valid :: bool
  pend_destination_ip :: u32
  pend_next_hop_ip :: u32
  pend_protocol :: u8
  pend_payload_size :: nat
  pend_payload :: bytes
  pend_arp_requested_ms :: u64
  pend_arp_attempts :: u32
  pend_transmit_attempts :: u32

record net_dhcp_client =
  dhcp_state :: net_dhcp_state
  dhcp_transaction_id :: u32
  dhcp_offered_ip :: u32
  dhcp_server_ip :: u32
  dhcp_offered_netmask :: u32
  dhcp_offered_gateway :: u32
  dhcp_offered_dns :: u32
  dhcp_lease_seconds :: u32
  dhcp_renewal_seconds :: u32
  dhcp_rebind_seconds :: u32
  dhcp_lease_started_ms :: u64
  dhcp_next_action_ms :: u64
  dhcp_attempts :: u32

record net_dns_client =
  dns_state :: net_dns_state
  dns_name :: bytes
  dns_transaction_id :: u16
  dns_source_port :: u16
  dns_result_address :: u32
  dns_ttl_seconds :: u32
  dns_response_code :: u8
  dns_next_action_ms :: u64
  dns_attempts :: u32

record net_dns_cache_entry =
  ce_valid :: bool
  ce_negative :: bool
  ce_name :: bytes
  ce_address :: u32
  ce_response_code :: u8
  ce_expires_ms :: u64
  ce_last_used_ms :: u64

record net_echo_request =
  eq_pending :: bool
  eq_destination_ip :: u32
  eq_identifier :: u16
  eq_sequence :: u16
  eq_sent_ms :: u64

record net_stack =
  link_send :: bool
  link_poll :: bool
  link_now_ms :: bool
  net_mac :: bytes
  net_ipv4 :: net_ipv4_config
  next_ipv4_id :: u16
  current_time_ms :: u64
  net_arp :: "net_arp_entry list"
  udp_bindings :: "net_udp_binding list"
  pending_ipv4 :: net_pending_ipv4
  net_dhcp :: net_dhcp_client
  net_dns :: net_dns_client
  dns_cache :: "net_dns_cache_entry list"
  dns_cache_hits :: u64
  dns_cache_misses :: u64
  dns_cache_evictions :: u64
  dns_cache_expirations :: u64
  tcp_handler :: "nat option"
  tcp_handler_context :: nat
  echo_request :: net_echo_request
  echo_reply :: net_icmp_echo_reply
  net_stats :: net_stats
  receive_frame :: bytes
  transmit_frame :: bytes

text \<open>The link driver and the handlers.  \<open>env_poll\<close> returns the frame, empty when none is ready;
  its length is the size the driver reports.\<close>

record 'w net_env =
  env_send :: "bytes \<Rightarrow> 'w \<Rightarrow> bool \<times> 'w"
  env_poll :: "'w \<Rightarrow> bytes \<times> 'w"
  env_now_ms :: "'w \<Rightarrow> u64 \<times> 'w"
  env_udp_handler :: "nat \<Rightarrow> nat \<Rightarrow> net_udp_datagram \<Rightarrow> net_stack \<times> 'w \<Rightarrow> net_stack \<times> 'w"
  env_tcp_handler :: "nat \<Rightarrow> nat \<Rightarrow> u32 \<Rightarrow> u32 \<Rightarrow> bytes \<Rightarrow> net_stack \<times> 'w \<Rightarrow> net_stack \<times> 'w"

definition upd_stats :: "(net_stats \<Rightarrow> net_stats) \<Rightarrow> net_stack \<Rightarrow> net_stack" where
  "upd_stats f s = s\<lparr>net_stats := f (net_stats s)\<rparr>"

definition read_u16_be :: "bytes \<Rightarrow> nat \<Rightarrow> u16 option" where
  "read_u16_be b i = do {
     b0 \<leftarrow> load8 b i; b1 \<leftarrow> load8 b (i + 1);
     Some (push_bit 8 (ucast b0) OR ucast b1) }"

definition read_u32_be :: "bytes \<Rightarrow> nat \<Rightarrow> u32 option" where
  "read_u32_be b i = do {
     b0 \<leftarrow> load8 b i; b1 \<leftarrow> load8 b (i + 1); b2 \<leftarrow> load8 b (i + 2); b3 \<leftarrow> load8 b (i + 3);
     Some (push_bit 24 (ucast b0) OR push_bit 16 (ucast b1) OR push_bit 8 (ucast b2) OR ucast b3) }"

definition be16 :: "u16 \<Rightarrow> bytes" where
  "be16 v = [ucast (drop_bit 8 v), ucast v]"

definition be32 :: "u32 \<Rightarrow> bytes" where
  "be32 v = [ucast (drop_bit 24 v), ucast (drop_bit 16 v), ucast (drop_bit 8 v), ucast v]"

definition write_u16_be :: "bytes \<Rightarrow> nat \<Rightarrow> u16 \<Rightarrow> bytes" where
  "write_u16_be b i v = blit b i (be16 v)"

definition write_u32_be :: "bytes \<Rightarrow> nat \<Rightarrow> u32 \<Rightarrow> bytes" where
  "write_u32_be b i v = blit b i (be32 v)"

definition write_u8 :: "bytes \<Rightarrow> nat \<Rightarrow> u8 \<Rightarrow> bytes" where
  "write_u8 b i v = blit b i [v]"

fun checksum_add :: "u32 \<Rightarrow> bytes \<Rightarrow> u32" where
  "checksum_add acc (a # b # rest) = checksum_add (acc + (push_bit 8 (ucast a) OR ucast b)) rest"
| "checksum_add acc [a] = acc + push_bit 8 (ucast a)"
| "checksum_add acc [] = acc"

function checksum_fold :: "u32 \<Rightarrow> u32" where
  "checksum_fold acc = (if drop_bit 16 acc \<noteq> 0 then checksum_fold ((acc AND 0xffff) + drop_bit 16 acc) else acc)"
  by pat_completeness auto

termination checksum_fold
  by (relation "measure unat") (use halves_fold(2) in auto)

declare checksum_fold.simps [simp del]

definition checksum_finish :: "u32 \<Rightarrow> u16" where
  "checksum_finish acc = ucast (NOT (checksum_fold acc))"

definition internet_checksum :: "bytes \<Rightarrow> u16" where
  "internet_checksum b = checksum_finish (checksum_add 0 b)"

definition pseudo_header :: "u32 \<Rightarrow> u32 \<Rightarrow> u8 \<Rightarrow> nat \<Rightarrow> bytes" where
  "pseudo_header source_ip destination_ip protocol sz = be32 source_ip @ be32 destination_ip @ [0, protocol] @ be16 (of_nat sz)"

definition transport_checksum :: "u32 \<Rightarrow> u32 \<Rightarrow> u8 \<Rightarrow> bytes \<Rightarrow> u16" where
  "transport_checksum source_ip destination_ip protocol b =
     checksum_finish (checksum_add (checksum_add 0 (pseudo_header source_ip destination_ip protocol (length b))) b)"

definition mac_is_broadcast :: "bytes \<Rightarrow> bool" where
  "mac_is_broadcast mac \<longleftrightarrow> mac = replicate NET_ETHERNET_ADDRESS_SIZE 0xff"

definition mac_is_zero :: "bytes \<Rightarrow> bool" where
  "mac_is_zero mac \<longleftrightarrow> mac = replicate NET_ETHERNET_ADDRESS_SIZE 0"

definition mac_is_valid_source :: "bytes \<Rightarrow> bool" where
  "mac_is_valid_source mac \<longleftrightarrow> \<not> mac_is_zero mac \<and> \<not> mac_is_broadcast mac \<and> mac ! 0 AND 1 = 0"

definition ipv4_is_multicast :: "u32 \<Rightarrow> bool" where
  "ipv4_is_multicast ip \<longleftrightarrow> ip AND 0xf0000000 = 0xe0000000"

definition ipv4_is_usable_unicast :: "u32 \<Rightarrow> bool" where
  "ipv4_is_usable_unicast ip \<longleftrightarrow>
     (let first_octet = ucast (drop_bit 24 ip) :: u8
      in first_octet \<noteq> 0 \<and> first_octet \<noteq> 127 \<and> first_octet < 224 \<and> ip \<noteq> UINT32_MAX)"

definition ipv4_netmask_is_valid :: "u32 \<Rightarrow> bool" where
  "ipv4_netmask_is_valid m \<longleftrightarrow> m \<noteq> 0 \<and> NOT m AND (NOT m + 1) = 0"

definition ipv4_is_subnet_broadcast :: "net_stack \<Rightarrow> u32 \<Rightarrow> bool" where
  "ipv4_is_subnet_broadcast s ip \<longleftrightarrow>
     (let m = cfg_netmask (net_ipv4 s)
      in if cfg_address (net_ipv4 s) = 0 \<or> m = 0 \<or> m = UINT32_MAX then False
         else ip = (cfg_address (net_ipv4 s) AND m) OR NOT m)"

definition ipv4_is_broadcast :: "net_stack \<Rightarrow> u32 \<Rightarrow> bool" where
  "ipv4_is_broadcast s ip \<longleftrightarrow> ip = UINT32_MAX \<or> ipv4_is_subnet_broadcast s ip"

definition ipv4_is_on_link :: "net_stack \<Rightarrow> u32 \<Rightarrow> bool" where
  "ipv4_is_on_link s ip \<longleftrightarrow>
     (if cfg_address (net_ipv4 s) = 0 then False
      else cfg_netmask (net_ipv4 s) = 0
        \<or> cfg_address (net_ipv4 s) AND cfg_netmask (net_ipv4 s) = ip AND cfg_netmask (net_ipv4 s))"

definition ipv4_destination_is_local :: "net_stack \<Rightarrow> u32 \<Rightarrow> bool" where
  "ipv4_destination_is_local s ip \<longleftrightarrow>
     ip = UINT32_MAX \<or> ipv4_is_subnet_broadcast s ip \<or> cfg_address (net_ipv4 s) \<noteq> 0 \<and> ip = cfg_address (net_ipv4 s)"

definition saturating_add_u64 :: "u64 \<Rightarrow> u64 \<Rightarrow> u64" where
  "saturating_add_u64 v a = (if a > UINT64_MAX - v then UINT64_MAX else v + a)"

definition seconds_to_ms :: "u32 \<Rightarrow> u64" where
  "seconds_to_ms secs = ucast secs * 1000"

definition deadline_reached :: "u64 \<Rightarrow> u64 \<Rightarrow> bool" where
  "deadline_reached now_ms deadline_ms \<longleftrightarrow> now_ms \<ge> deadline_ms"

section \<open>Big-endian fields\<close>

lemma length_be [simp]: "length (be16 v) = 2" "length (be32 w) = 4"
  by (simp_all add: be16_def be32_def)

lemma length_pseudo [simp]: "length (pseudo_header a b p n) = 12"
  by (simp add: pseudo_header_def)

lemma read_u16_be_in: "i + 2 \<le> length b \<Longrightarrow> \<exists>v. read_u16_be b i = Some v"
  by (simp add: read_u16_be_def load8_def)

lemma read_u32_be_in: "i + 4 \<le> length b \<Longrightarrow> \<exists>v. read_u32_be b i = Some v"
  by (simp add: read_u32_be_def load8_def)

lemma length_writes [simp]:
  "i + 2 \<le> length b \<Longrightarrow> length (write_u16_be b i v) = length b"
  "i + 4 \<le> length b \<Longrightarrow> length (write_u32_be b i w) = length b"
  "i < length b \<Longrightarrow> length (write_u8 b i x) = length b"
  by (simp_all add: write_u16_be_def write_u32_be_def write_u8_def length_blit)

lemma join16: "push_bit 8 (ucast (ucast (drop_bit 8 v) :: u8)) OR ucast (ucast v :: u8) = (v :: u16)"
  by (rule bit_word_eqI) (auto simp: bit_simps)

lemma join32:
  "push_bit 24 (ucast (ucast (drop_bit 24 v) :: u8)) OR push_bit 16 (ucast (ucast (drop_bit 16 v) :: u8))
     OR push_bit 8 (ucast (ucast (drop_bit 8 v) :: u8)) OR ucast (ucast v :: u8) = (v :: u32)"
proof (rule bit_word_eqI)
  fix n assume "n < LENGTH(32)"
  then consider "n < 8" | "8 \<le> n" "n < 16" | "16 \<le> n" "n < 24" | "24 \<le> n" "n < 32" by fastforce
  then show "bit (push_bit 24 (ucast (ucast (drop_bit 24 v) :: u8)) OR push_bit 16 (ucast (ucast (drop_bit 16 v) :: u8))
     OR push_bit 8 (ucast (ucast (drop_bit 8 v) :: u8)) OR ucast (ucast v :: u8) :: u32) n = bit v n"
    by cases (simp_all add: bit_simps, linarith+)
qed

lemma read_be16: "read_u16_be (p @ be16 v @ q) (length p) = Some v"
  by (simp add: read_u16_be_def load8_def be16_def nth_append join16)

lemma read_be32: "read_u32_be (p @ be32 v @ q) (length p) = Some v"
  by (simp add: read_u32_be_def load8_def be32_def nth_append join32)

end
