(* ===== verification/Net_Send.thy ===== *)
theory Net_Send
  imports Net_Base
begin

text \<open>
  The transmit side of \<open>src/kernel/net.c\<close>: Ethernet framing, the ARP cache, routing, IPv4
  output with one packet queued behind address resolution, UDP output and the handler tables.
  An operation takes and returns the stack and the world.  The stack is always present and a
  payload is the list of its bytes, so the guards against null pointers have no counterpart.
  Stores to consecutive fields of the transmit buffer are one store of their bytes.
\<close>

section \<open>Definitions\<close>

definition tx_put :: "nat \<Rightarrow> bytes \<Rightarrow> net_stack \<Rightarrow> net_stack" where
  "tx_put i b s = s\<lparr>transmit_frame := blit (transmit_frame s) i b\<rparr>"

definition link_transmit :: "'w net_env \<Rightarrow> nat \<Rightarrow> net_stack \<times> 'w \<Rightarrow> bool \<times> net_stack \<times> 'w" where
  "link_transmit E frame_size sw = (case sw of (s, w) \<Rightarrow>
     if \<not> link_send s \<or> frame_size < NET_ETHERNET_HEADER_SIZE \<or> frame_size > NET_ETHERNET_FRAME_MAX then (False, s, w)
     else case env_send E (take frame_size (transmit_frame s)) w of
       (False, w) \<Rightarrow> (False, s, w)
     | (True, w) \<Rightarrow> (True, upd_stats (\<lambda>t. t\<lparr>frames_transmitted := frames_transmitted t + 1\<rparr>) s, w))"

definition ethernet_header :: "bytes \<Rightarrow> bytes \<Rightarrow> u16 \<Rightarrow> bytes" where
  "ethernet_header destination source ethertype = destination @ source @ be16 ethertype"

definition write_ethernet_header :: "bytes \<Rightarrow> u16 \<Rightarrow> net_stack \<Rightarrow> net_stack" where
  "write_ethernet_header destination ethertype s = tx_put 0 (ethernet_header destination (net_mac s) ethertype) s"

definition arp_match :: "u32 \<Rightarrow> net_arp_entry \<Rightarrow> bool" where
  "arp_match ip e \<longleftrightarrow> arp_valid e \<and> arp_ip e = ip"

definition arp_find :: "net_stack \<Rightarrow> u32 \<Rightarrow> nat option" where
  "arp_find s ip = find_idx (arp_match ip) (net_arp s)"

fun arp_select :: "net_arp_entry list \<Rightarrow> nat \<Rightarrow> nat \<Rightarrow> u64 \<Rightarrow> nat" where
  "arp_select [] i selected oldest = selected"
| "arp_select (e # es) i selected oldest =
     (if \<not> arp_valid e then i
      else if arp_refreshed_ms e < oldest then arp_select es (i + 1) i (arp_refreshed_ms e)
      else arp_select es (i + 1) selected oldest)"

definition arp_learn :: "u32 \<Rightarrow> bytes \<Rightarrow> net_stack \<Rightarrow> net_stack" where
  "arp_learn ip mac s =
     (if \<not> ipv4_is_usable_unicast ip \<or> \<not> mac_is_valid_source mac then s
      else let i = (case arp_find s ip of Some i \<Rightarrow> i | None \<Rightarrow> arp_select (net_arp s) 0 0 UINT64_MAX)
           in s\<lparr>net_arp := (net_arp s)[i := \<lparr>arp_valid = True, arp_ip = ip, arp_mac = mac,
                                              arp_refreshed_ms = current_time_ms s\<rparr>]\<rparr>)"

definition net_arp_lookup :: "net_stack \<Rightarrow> u32 \<Rightarrow> bytes option" where
  "net_arp_lookup s ip = (case arp_find s ip of None \<Rightarrow> None | Some i \<Rightarrow> Some (arp_mac (net_arp s ! i)))"

definition broadcast_mac :: bytes where
  "broadcast_mac = replicate NET_ETHERNET_ADDRESS_SIZE 0xff"

definition zero_mac :: bytes where
  "zero_mac = replicate NET_ETHERNET_ADDRESS_SIZE 0"

definition arp_packet :: "u16 \<Rightarrow> bytes \<Rightarrow> u32 \<Rightarrow> bytes \<Rightarrow> u32 \<Rightarrow> bytes" where
  "arp_packet operation sender_mac sender_ip target_mac target_ip =
     be16 1 @ be16 ETHERTYPE_IPV4 @ [6, 4] @ be16 operation @ sender_mac @ be32 sender_ip @ target_mac @ be32 target_ip"

definition net_arp_request :: "'w net_env \<Rightarrow> u32 \<Rightarrow> net_stack \<times> 'w \<Rightarrow> bool \<times> net_stack \<times> 'w" where
  "net_arp_request E ip sw = (case sw of (s, w) \<Rightarrow>
     if \<not> link_send s \<or> cfg_address (net_ipv4 s) = 0 \<or> \<not> ipv4_is_usable_unicast ip then (False, s, w)
     else let s = write_ethernet_header broadcast_mac ETHERTYPE_ARP s;
              s = tx_put 14 (arp_packet ARP_OPERATION_REQUEST (net_mac s) (cfg_address (net_ipv4 s)) zero_mac ip) s
          in case link_transmit E (NET_ETHERNET_HEADER_SIZE + ARP_PACKET_SIZE) (s, w) of
               (False, sw) \<Rightarrow> (False, sw)
             | (True, s, w) \<Rightarrow> (True, upd_stats (\<lambda>t. t\<lparr>arp_requests_sent := arp_requests_sent t + 1\<rparr>) s, w))"

definition send_arp_reply :: "'w net_env \<Rightarrow> bytes \<Rightarrow> u32 \<Rightarrow> net_stack \<times> 'w \<Rightarrow> bool \<times> net_stack \<times> 'w" where
  "send_arp_reply E destination_mac destination_ip sw = (case sw of (s, w) \<Rightarrow>
     let s = write_ethernet_header destination_mac ETHERTYPE_ARP s;
         s = tx_put 14 (arp_packet ARP_OPERATION_REPLY (net_mac s) (cfg_address (net_ipv4 s)) destination_mac destination_ip) s
     in link_transmit E (NET_ETHERNET_HEADER_SIZE + ARP_PACKET_SIZE) (s, w))"

text \<open>A route: the next hop, and its Ethernet address unless it must be resolved.\<close>

definition multicast_mac :: "u32 \<Rightarrow> bytes" where
  "multicast_mac ip = [0x01, 0x00, 0x5e, ucast (drop_bit 16 ip AND 0x7f), ucast (drop_bit 8 ip), ucast ip]"

definition route_ipv4 :: "net_stack \<Rightarrow> u32 \<Rightarrow> (u32 \<times> bytes option) option" where
  "route_ipv4 s destination_ip =
     (if destination_ip = 0 then None
      else if ipv4_is_broadcast s destination_ip then Some (destination_ip, Some broadcast_mac)
      else if ipv4_is_multicast destination_ip then Some (destination_ip, Some (multicast_mac destination_ip))
      else if cfg_address (net_ipv4 s) = 0 then None
      else let m = cfg_netmask (net_ipv4 s);
               target = (if m \<noteq> 0 \<and> destination_ip AND m \<noteq> cfg_address (net_ipv4 s) AND m
                         then cfg_gateway (net_ipv4 s) else destination_ip)
           in if \<not> ipv4_is_usable_unicast target then None else Some (target, net_arp_lookup s target))"

definition ipv4_header :: "nat \<Rightarrow> u16 \<Rightarrow> u8 \<Rightarrow> u16 \<Rightarrow> u32 \<Rightarrow> u32 \<Rightarrow> bytes" where
  "ipv4_header payload_size ident protocol checksum source_ip destination_ip =
     [0x45, 0] @ be16 (of_nat (NET_IPV4_HEADER_MIN_SIZE + payload_size)) @ be16 ident @ be16 0x4000
     @ [64, protocol] @ be16 checksum @ be32 source_ip @ be32 destination_ip"

definition send_ipv4_with_mac ::
  "'w net_env \<Rightarrow> u32 \<Rightarrow> u8 \<Rightarrow> bytes \<Rightarrow> bytes \<Rightarrow> net_stack \<times> 'w \<Rightarrow> bool \<times> net_stack \<times> 'w" where
  "send_ipv4_with_mac E destination_ip protocol payload destination_mac sw = (case sw of (s, w) \<Rightarrow>
     if length payload > NET_IPV4_PAYLOAD_MAX then (False, s, w)
     else let s = write_ethernet_header destination_mac ETHERTYPE_IPV4 s;
              ident = next_ipv4_id s;
              s = s\<lparr>next_ipv4_id := next_ipv4_id s + 1\<rparr>;
              s = tx_put 14 (ipv4_header (length payload) ident protocol 0 (cfg_address (net_ipv4 s)) destination_ip) s;
              checksum = internet_checksum (take NET_IPV4_HEADER_MIN_SIZE (drop 14 (transmit_frame s)));
              s = tx_put 24 (be16 checksum) s;
              s = tx_put 34 payload s;
              frame_size = NET_ETHERNET_HEADER_SIZE + NET_IPV4_HEADER_MIN_SIZE + length payload
          in case link_transmit E frame_size (s, w) of
               (False, sw) \<Rightarrow> (False, sw)
             | (True, s, w) \<Rightarrow>
                 (True, upd_stats (\<lambda>t. t\<lparr>ipv4_packets_transmitted := ipv4_packets_transmitted t + 1\<rparr>) s, w))"

definition flush_pending_ipv4 :: "'w net_env \<Rightarrow> net_stack \<times> 'w \<Rightarrow> bool \<times> net_stack \<times> 'w" where
  "flush_pending_ipv4 E sw = (case sw of (s, w) \<Rightarrow>
     let p = pending_ipv4 s
     in if \<not> pend_valid p then (True, s, w)
        else case net_arp_lookup s (pend_next_hop_ip p) of
          None \<Rightarrow> (False, s, w)
        | Some mac \<Rightarrow>
            (case send_ipv4_with_mac E (pend_destination_ip p) (pend_protocol p)
                    (take (pend_payload_size p) (pend_payload p)) mac (s, w) of
               (False, s, w) \<Rightarrow>
                 (False, s\<lparr>pending_ipv4 := (pending_ipv4 s)\<lparr>pend_arp_requested_ms := current_time_ms s,
                    pend_transmit_attempts := pend_transmit_attempts (pending_ipv4 s) + 1\<rparr>\<rparr>, w)
             | (True, s, w) \<Rightarrow>
                 let s = (if pend_protocol p = NET_IPV4_PROTOCOL_UDP
                          then upd_stats (\<lambda>t. t\<lparr>udp_datagrams_transmitted := udp_datagrams_transmitted t + 1\<rparr>) s else s)
                 in (True, s\<lparr>pending_ipv4 := (pending_ipv4 s)\<lparr>pend_valid := False\<rparr>\<rparr>, w)))"

definition net_ipv4_send ::
  "'w net_env \<Rightarrow> u32 \<Rightarrow> u8 \<Rightarrow> bytes \<Rightarrow> net_stack \<times> 'w \<Rightarrow> net_send_result \<times> net_stack \<times> 'w" where
  "net_ipv4_send E destination_ip protocol payload sw = (case sw of (s, w) \<Rightarrow>
     if \<not> link_send s \<or> destination_ip = 0 \<or> length payload > NET_IPV4_PAYLOAD_MAX then (NET_SEND_FAILED, s, w)
     else if cfg_address (net_ipv4 s) = 0 \<and> destination_ip \<noteq> UINT32_MAX then (NET_SEND_FAILED, s, w)
     else case route_ipv4 s destination_ip of
       None \<Rightarrow> (NET_SEND_FAILED, s, w)
     | Some (next_hop, Some destination_mac) \<Rightarrow>
         (case send_ipv4_with_mac E destination_ip protocol payload destination_mac (s, w) of
            (ok, sw) \<Rightarrow> (if ok then NET_SEND_SENT else NET_SEND_FAILED, sw))
     | Some (next_hop, None) \<Rightarrow>
         if pend_valid (pending_ipv4 s) then (NET_SEND_FAILED, s, w)
         else let s = s\<lparr>pending_ipv4 := (pending_ipv4 s)\<lparr>pend_valid := True, pend_destination_ip := destination_ip,
                          pend_next_hop_ip := next_hop, pend_protocol := protocol, pend_payload_size := length payload,
                          pend_payload := blit (pend_payload (pending_ipv4 s)) 0 payload,
                          pend_arp_requested_ms := current_time_ms s, pend_arp_attempts := 1,
                          pend_transmit_attempts := 0\<rparr>\<rparr>
              in case net_arp_request E next_hop (s, w) of (_, sw) \<Rightarrow> (NET_SEND_QUEUED, sw))"

definition udp_checksum_valid :: "u32 \<Rightarrow> u32 \<Rightarrow> bytes \<Rightarrow> bool option" where
  "udp_checksum_valid source_ip destination_ip udp = do {
     supplied \<leftarrow> read_u16_be udp 6;
     Some (supplied = 0 \<or> transport_checksum source_ip destination_ip NET_IPV4_PROTOCOL_UDP udp = 0) }"

definition udp_segment :: "u16 \<Rightarrow> u16 \<Rightarrow> u16 \<Rightarrow> bytes \<Rightarrow> bytes" where
  "udp_segment source_port destination_port checksum data =
     be16 source_port @ be16 destination_port @ be16 (of_nat (8 + length data)) @ be16 checksum @ data"

definition net_udp_send ::
  "'w net_env \<Rightarrow> u32 \<Rightarrow> u16 \<Rightarrow> u16 \<Rightarrow> bytes \<Rightarrow> net_stack \<times> 'w \<Rightarrow> net_send_result \<times> net_stack \<times> 'w" where
  "net_udp_send E destination_ip destination_port source_port data sw = (case sw of (s, w) \<Rightarrow>
     if destination_port = 0 \<or> source_port = 0 \<or> length data > NET_UDP_PAYLOAD_MAX then (NET_SEND_FAILED, s, w)
     else let s = tx_put 34 (udp_segment source_port destination_port 0 data) s;
              checksum = transport_checksum (cfg_address (net_ipv4 s)) destination_ip NET_IPV4_PROTOCOL_UDP
                           (take (8 + length data) (drop 34 (transmit_frame s)));
              s = tx_put 40 (be16 (if checksum = 0 then 0xffff else checksum)) s
          in case net_ipv4_send E destination_ip NET_IPV4_PROTOCOL_UDP
                    (take (8 + length data) (drop 34 (transmit_frame s))) (s, w) of
               (result, s, w) \<Rightarrow>
                 (result, if result = NET_SEND_SENT
                          then upd_stats (\<lambda>t. t\<lparr>udp_datagrams_transmitted := udp_datagrams_transmitted t + 1\<rparr>) s
                          else s, w))"

definition DHCP_CLIENT_PORT :: u16 where
  "DHCP_CLIENT_PORT = 68"

definition udp_bound :: "u16 \<Rightarrow> net_udp_binding \<Rightarrow> bool" where
  "udp_bound port b \<longleftrightarrow> ub_handler b \<noteq> None \<and> ub_port b = port"

definition empty_binding :: net_udp_binding where
  "empty_binding = \<lparr>ub_port = 0, ub_handler = None, ub_context = 0\<rparr>"

definition net_udp_bind :: "u16 \<Rightarrow> nat option \<Rightarrow> nat \<Rightarrow> net_stack \<Rightarrow> bool \<times> net_stack" where
  "net_udp_bind port handler ctx s =
     (if port = 0 \<or> handler = None \<or> port = DHCP_CLIENT_PORT then (False, s)
      else if find_idx (udp_bound port) (udp_bindings s) \<noteq> None then (False, s)
      else case find_idx (\<lambda>b. ub_handler b = None) (udp_bindings s) of
        None \<Rightarrow> (False, s)
      | Some i \<Rightarrow> (True, s\<lparr>udp_bindings := (udp_bindings s)[i := \<lparr>ub_port = port, ub_handler = handler, ub_context = ctx\<rparr>]\<rparr>))"

definition net_udp_unbind :: "u16 \<Rightarrow> net_stack \<Rightarrow> net_stack" where
  "net_udp_unbind port s = s\<lparr>udp_bindings := map (\<lambda>b. if udp_bound port b then empty_binding else b) (udp_bindings s)\<rparr>"

definition net_set_tcp_handler :: "nat option \<Rightarrow> nat \<Rightarrow> net_stack \<Rightarrow> net_stack" where
  "net_set_tcp_handler handler ctx s =
     s\<lparr>tcp_handler := handler, tcp_handler_context := (if handler = None then 0 else ctx)\<rparr>"

end
