(* ===== verification/Net_Dns.thy ===== *)
theory Net_Dns
  imports Net_Send
begin

text \<open>
  The resolver of \<open>src/kernel/net.c\<close>: name validation and encoding, the bounded expansion of
  compressed names, the search of answer and authority records, the answer cache and the query
  operations.  A name buffer of 254 bytes is represented by the string it holds; a store of a
  longer string is a fault, like a read outside the message.  A parser returns \<open>None\<close> on a
  fault, \<open>Some None\<close> when it rejects the message.
\<close>

section \<open>Definitions\<close>

abbreviation (input) DNS_SERVER_PORT :: u16 where "DNS_SERVER_PORT \<equiv> 53"
abbreviation (input) DNS_HEADER_SIZE :: nat where "DNS_HEADER_SIZE \<equiv> 12"
abbreviation (input) DNS_TYPE_A :: u16 where "DNS_TYPE_A \<equiv> 1"
abbreviation (input) DNS_TYPE_CNAME :: u16 where "DNS_TYPE_CNAME \<equiv> 5"
abbreviation (input) DNS_TYPE_SOA :: u16 where "DNS_TYPE_SOA \<equiv> 6"
abbreviation (input) DNS_CLASS_IN :: u16 where "DNS_CLASS_IN \<equiv> 1"
abbreviation (input) DNS_QUERY_CAPACITY :: nat where "DNS_QUERY_CAPACITY \<equiv> 271"
abbreviation (input) DNS_MAX_CNAME_HOPS :: nat where "DNS_MAX_CNAME_HOPS \<equiv> 8"
abbreviation (input) CHAR_DOT :: u8 where "CHAR_DOT \<equiv> 46"

definition name_store :: "bytes \<Rightarrow> bytes option" where
  "name_store name = (if length name \<le> NET_DNS_NAME_MAX then Some name else None)"

fun validate_name :: "bytes \<Rightarrow> nat \<Rightarrow> nat \<Rightarrow> bytes \<Rightarrow> bytes option" where
  "validate_name [] len label_length acc = (if label_length = 0 \<or> label_length > 63 then None else Some acc)"
| "validate_name (c # cs) len label_length acc =
     (if len \<ge> NET_DNS_NAME_MAX then None
      else if c = CHAR_DOT then
        if label_length = 0 \<or> label_length > 63 then None
        else if cs = [] then Some acc
        else validate_name cs (len + 1) 0 (acc @ [c])
      else if c \<le> 0x20 \<or> c \<ge> 0x7f then None
      else if label_length + 1 > 63 then None
      else validate_name cs (len + 1) (label_length + 1) (acc @ [c]))"

definition dns_validate_and_copy_name :: "bytes option \<Rightarrow> bytes option" where
  "dns_validate_and_copy_name name = (case name of
     None \<Rightarrow> None
   | Some n \<Rightarrow> if n = [] then None else validate_name n 0 0 [])"

definition encode_label :: "nat \<Rightarrow> bytes \<Rightarrow> bytes \<Rightarrow> bytes option" where
  "encode_label capacity label output =
     (if length label = 0 \<or> length label > 63 \<or> length output + 1 + length label \<ge> capacity then None
      else Some (output @ [of_nat (length label)] @ label))"

fun encode_labels :: "nat \<Rightarrow> bytes \<Rightarrow> bytes \<Rightarrow> bytes \<Rightarrow> bytes option" where
  "encode_labels capacity [] label output = encode_label capacity label output"
| "encode_labels capacity (c # cs) label output =
     (if c = CHAR_DOT
      then (case encode_label capacity label output of
              None \<Rightarrow> None | Some output \<Rightarrow> encode_labels capacity cs [] output)
      else encode_labels capacity cs (label @ [c]) output)"

definition dns_encode_name :: "nat \<Rightarrow> bytes \<Rightarrow> bytes option" where
  "dns_encode_name capacity name = (case encode_labels capacity name [] [] of
     None \<Rightarrow> None
   | Some output \<Rightarrow> if length output \<ge> capacity then None else Some (output @ [0]))"

definition dns_query_message :: "u16 \<Rightarrow> bytes \<Rightarrow> bytes" where
  "dns_query_message transaction_id encoded =
     be16 transaction_id @ be16 0x0100 @ be16 1 @ replicate 6 0 @ encoded @ be16 DNS_TYPE_A @ be16 DNS_CLASS_IN"

definition dns_send_query :: "'w net_env \<Rightarrow> net_stack \<times> 'w \<Rightarrow> bool \<times> net_stack \<times> 'w" where
  "dns_send_query E sw = (case sw of (s, w) \<Rightarrow>
     case dns_encode_name (DNS_QUERY_CAPACITY - DNS_HEADER_SIZE) (dns_name (net_dns s)) of
       None \<Rightarrow> (False, s, w)
     | Some encoded \<Rightarrow>
         if DNS_HEADER_SIZE + length encoded + 4 > DNS_QUERY_CAPACITY then (False, s, w)
         else case net_udp_send E (cfg_dns (net_ipv4 s)) DNS_SERVER_PORT (dns_source_port (net_dns s))
                     (dns_query_message (dns_transaction_id (net_dns s)) encoded) (s, w) of
           (result, s, w) \<Rightarrow>
             (result \<noteq> NET_SEND_FAILED,
              s\<lparr>net_dns := (net_dns s)\<lparr>dns_attempts := dns_attempts (net_dns s) + 1,
                  dns_next_action_ms := saturating_add_u64 (current_time_ms s) 2000\<rparr>\<rparr>, w))"

definition ascii_lower :: "u8 \<Rightarrow> u8" where
  "ascii_lower c = (if 65 \<le> c \<and> c \<le> 90 then c + 32 else c)"

fun dns_names_equal :: "bytes \<Rightarrow> bytes \<Rightarrow> bool" where
  "dns_names_equal (a # as) (b # bs) \<longleftrightarrow> ascii_lower a = ascii_lower b \<and> dns_names_equal as bs"
| "dns_names_equal [] [] \<longleftrightarrow> True"
| "dns_names_equal _ _ \<longleftrightarrow> False"

definition dns_cache_remaining_seconds :: "u64 \<Rightarrow> u64 \<Rightarrow> u32" where
  "dns_cache_remaining_seconds expires_ms now_ms =
     (if expires_ms \<le> now_ms then 0
      else let remaining_ms = expires_ms - now_ms;
               secs = remaining_ms div 1000;
               secs = (if remaining_ms mod 1000 \<noteq> 0 then secs + 1 else secs)
           in if secs > ucast UINT32_MAX then UINT32_MAX else ucast secs)"

definition entry_expired :: "u64 \<Rightarrow> net_dns_cache_entry \<Rightarrow> bool" where
  "entry_expired now e \<longleftrightarrow> ce_valid e \<and> ce_expires_ms e \<le> now"

definition dns_cache_expire :: "net_stack \<Rightarrow> net_stack" where
  "dns_cache_expire s =
     s\<lparr>dns_cache := map (\<lambda>e. if entry_expired (current_time_ms s) e then e\<lparr>ce_valid := False\<rparr> else e) (dns_cache s),
       dns_cache_expirations := dns_cache_expirations s
         + of_nat (length (filter (entry_expired (current_time_ms s)) (dns_cache s)))\<rparr>"

definition dns_cache_find :: "net_stack \<Rightarrow> bytes \<Rightarrow> nat option" where
  "dns_cache_find s name = find_idx (\<lambda>e. ce_valid e \<and> dns_names_equal (ce_name e) name) (dns_cache s)"

fun cache_select :: "net_dns_cache_entry list \<Rightarrow> nat \<Rightarrow> nat option \<Rightarrow> u64 \<Rightarrow> nat option" where
  "cache_select [] i selected oldest_use = selected"
| "cache_select (e # es) i selected oldest_use =
     (if \<not> ce_valid e then Some i
      else if ce_last_used_ms e < oldest_use then cache_select es (i + 1) (Some i) (ce_last_used_ms e)
      else cache_select es (i + 1) selected oldest_use)"

definition dns_cache_store :: "bytes \<Rightarrow> bool \<Rightarrow> u32 \<Rightarrow> u8 \<Rightarrow> u32 \<Rightarrow> net_stack \<Rightarrow> net_stack option" where
  "dns_cache_store name negative address response_code ttl_seconds s =
     (if ttl_seconds = 0 then Some s
      else let s = dns_cache_expire s;
               found = dns_cache_find s name;
               selected = (case found of Some i \<Rightarrow> Some i | None \<Rightarrow> cache_select (dns_cache s) 0 None UINT64_MAX)
           in case selected of
                None \<Rightarrow> Some s
              | Some i \<Rightarrow>
                  let s = (if found = None \<and> ce_valid (dns_cache s ! i)
                           then s\<lparr>dns_cache_evictions := dns_cache_evictions s + 1\<rparr> else s)
                  in do {
                    copied \<leftarrow> name_store name;
                    Some (s\<lparr>dns_cache := (dns_cache s)[i := \<lparr>ce_valid = True, ce_negative = negative, ce_name = copied,
                             ce_address = (if negative then 0 else address), ce_response_code = response_code,
                             ce_expires_ms = saturating_add_u64 (current_time_ms s) (seconds_to_ms ttl_seconds),
                             ce_last_used_ms = current_time_ms s\<rparr>]\<rparr>) })"

text \<open>Expansion of a compressed name at \<open>cursor\<close>; \<open>resume\<close> is the offset after the first pointer
  followed.  The loop counter \<open>hops\<close> allows 129 rounds.\<close>

definition label_char_bad :: "u8 \<Rightarrow> bool" where
  "label_char_bad c \<longleftrightarrow> c \<le> 0x20 \<or> c \<ge> 0x7f"

fun expand_loop :: "nat \<Rightarrow> bytes \<Rightarrow> nat \<Rightarrow> bytes \<Rightarrow> nat option \<Rightarrow> (bytes \<times> nat) option option" where
  "expand_loop 0 message cursor output resume = Some None"
| "expand_loop (Suc n) message cursor output resume =
     (if cursor \<ge> length message then Some None
      else do {
        len \<leftarrow> load8 message cursor;
        if len AND 0xc0 = 0xc0 then
          if cursor + 1 \<ge> length message then Some None
          else do {
            low \<leftarrow> load8 message (cursor + 1);
            let pointer = unat (push_bit 8 (ucast (len AND 0x3f)) OR ucast low :: u16);
            if pointer \<ge> length message then Some None
            else expand_loop n message pointer output (Some (case resume of None \<Rightarrow> cursor + 2 | Some r \<Rightarrow> r)) }
        else if len AND 0xc0 \<noteq> 0 \<or> len > 63 then Some None
        else if len = 0 then do {
          name \<leftarrow> name_store output;
          Some (Some (name, case resume of None \<Rightarrow> cursor + 1 | Some r \<Rightarrow> r)) }
        else if unat len > length message - (cursor + 1) then Some None
        else if output \<noteq> [] \<and> length output \<ge> NET_DNS_NAME_MAX then Some None
        else do {
          let output = (if output \<noteq> [] then output @ [CHAR_DOT] else output);
          if unat len > NET_DNS_NAME_MAX - length output then Some None
          else do {
            label \<leftarrow> load_bytes message (cursor + 1) (unat len);
            if list_ex label_char_bad label then Some None
            else do {
              output \<leftarrow> name_store (output @ label);
              expand_loop n message (cursor + 1 + unat len) output resume } } } })"

definition dns_expand_name :: "bytes \<Rightarrow> nat \<Rightarrow> (bytes \<times> nat) option option" where
  "dns_expand_name message offset = expand_loop 129 message offset [] None"

definition dns_skip_name :: "bytes \<Rightarrow> nat \<Rightarrow> nat option option" where
  "dns_skip_name message offset = do {
     r \<leftarrow> dns_expand_name message offset;
     Some (map_option snd r) }"

record dns_record_view =
  owner_offset :: nat
  data_offset :: nat
  next_offset :: nat
  record_type :: u16
  record_class :: u16
  data_size :: u16
  ttl_seconds :: u32

definition dns_read_record :: "bytes \<Rightarrow> nat \<Rightarrow> dns_record_view option option" where
  "dns_read_record message offset =
     (if offset \<ge> length message then Some None
      else do {
        skipped \<leftarrow> dns_skip_name message offset;
        case skipped of
          None \<Rightarrow> Some None
        | Some cursor \<Rightarrow>
            if cursor > length message \<or> length message - cursor < 10 then Some None
            else do {
              ty \<leftarrow> read_u16_be message cursor;
              cls \<leftarrow> read_u16_be message (cursor + 2);
              ttl \<leftarrow> read_u32_be message (cursor + 4);
              sz \<leftarrow> read_u16_be message (cursor + 8);
              if unat sz > length message - (cursor + 10) then Some None
              else Some (Some \<lparr>owner_offset = offset, data_offset = cursor + 10, next_offset = cursor + 10 + unat sz,
                               record_type = ty, record_class = cls, data_size = sz, ttl_seconds = ttl\<rparr>) } })"

fun read_records :: "nat \<Rightarrow> bytes \<Rightarrow> nat \<Rightarrow> nat option option" where
  "read_records 0 message offset = Some (Some offset)"
| "read_records (Suc n) message offset = do {
     r \<leftarrow> dns_read_record message offset;
     case r of None \<Rightarrow> Some None | Some rec \<Rightarrow> read_records n message (next_offset rec) }"

text \<open>Accepted sections give the offset of the authority section.\<close>

definition dns_validate_record_sections :: "bytes \<Rightarrow> nat \<Rightarrow> u16 \<Rightarrow> u16 \<Rightarrow> u16 \<Rightarrow> nat option option" where
  "dns_validate_record_sections message records_offset answer_count authority_count additional_count = do {
     r \<leftarrow> read_records (unat answer_count) message records_offset;
     case r of None \<Rightarrow> Some None
     | Some authority_offset \<Rightarrow> do {
         r \<leftarrow> read_records (unat authority_count) message authority_offset;
         case r of None \<Rightarrow> Some None
         | Some offset \<Rightarrow> do {
             r \<leftarrow> read_records (unat additional_count) message offset;
             Some (case r of None \<Rightarrow> None
                   | Some offset \<Rightarrow> if offset = length message then Some authority_offset else None) } } }"

text \<open>What one pass over the answers found: a usable address with the shortest lifetime of the set,
  or an alias with its lifetime.\<close>

record answer_scan =
  found_address :: "(u32 \<times> u32) option"
  found_cname :: "(bytes \<times> u32) option"

definition scan_address :: "bytes \<Rightarrow> dns_record_view \<Rightarrow> answer_scan \<Rightarrow> answer_scan option option" where
  "scan_address message rec st =
     (if data_size rec \<noteq> 4 \<or> found_cname st \<noteq> None then Some None
      else do {
        candidate \<leftarrow> read_u32_be message (data_offset rec);
        Some (Some (if \<not> ipv4_is_usable_unicast candidate then st
                    else case found_address st of
                      None \<Rightarrow> st\<lparr>found_address := Some (candidate, ttl_seconds rec)\<rparr>
                    | Some (a, t) \<Rightarrow> if ttl_seconds rec < t then st\<lparr>found_address := Some (a, ttl_seconds rec)\<rparr> else st)) })"

definition scan_cname :: "bytes \<Rightarrow> dns_record_view \<Rightarrow> answer_scan \<Rightarrow> answer_scan option option" where
  "scan_cname message rec st =
     (if found_address st \<noteq> None \<or> found_cname st \<noteq> None then Some None
      else do {
        r \<leftarrow> dns_expand_name message (data_offset rec);
        Some (case r of
                None \<Rightarrow> None
              | Some (target, nxt) \<Rightarrow>
                  if target = [] \<or> nxt \<noteq> next_offset rec then None
                  else Some (st\<lparr>found_cname := Some (target, ttl_seconds rec)\<rparr>)) })"

fun scan_answers :: "nat \<Rightarrow> bytes \<Rightarrow> nat \<Rightarrow> bytes \<Rightarrow> answer_scan \<Rightarrow> answer_scan option option" where
  "scan_answers 0 message offset current_name st = Some (Some st)"
| "scan_answers (Suc n) message offset current_name st = do {
     r \<leftarrow> dns_read_record message offset;
     case r of None \<Rightarrow> Some None
     | Some rec \<Rightarrow> do {
         ow \<leftarrow> dns_expand_name message (owner_offset rec);
         case ow of None \<Rightarrow> Some None
         | Some (owner, _) \<Rightarrow> do {
             st' \<leftarrow> (if record_class rec \<noteq> DNS_CLASS_IN \<or> \<not> dns_names_equal owner current_name then Some (Some st)
                     else if record_type rec = DNS_TYPE_A then scan_address message rec st
                     else if record_type rec = DNS_TYPE_CNAME then scan_cname message rec st
                     else Some (Some st));
             case st' of None \<Rightarrow> Some None
             | Some st' \<Rightarrow> scan_answers n message (next_offset rec) current_name st' } } }"

definition shorter_ttl :: "u32 \<Rightarrow> u32 \<Rightarrow> u32" where
  "shorter_ttl effective ttl = (if effective = UINT32_MAX \<or> ttl < effective then ttl else effective)"

datatype dns_answer =
    DNS_ANSWER_NOT_FOUND u32 bytes
  | DNS_ANSWER_ADDRESS u32 u32 bytes
  | DNS_ANSWER_MALFORMED

text \<open>\<open>n\<close> counts the aliases that may still be followed.\<close>

fun follow_aliases :: "nat \<Rightarrow> bytes \<Rightarrow> nat \<Rightarrow> u16 \<Rightarrow> bytes \<Rightarrow> u32 \<Rightarrow> dns_answer option" where
  "follow_aliases n message answers_offset answer_count current_name effective_ttl = do {
     r \<leftarrow> scan_answers (unat answer_count) message answers_offset current_name
            \<lparr>found_address = None, found_cname = None\<rparr>;
     case r of None \<Rightarrow> Some DNS_ANSWER_MALFORMED
     | Some st \<Rightarrow>
         (case found_address st of
            Some (address, ttl) \<Rightarrow> do {
              name \<leftarrow> name_store current_name;
              Some (DNS_ANSWER_ADDRESS address (shorter_ttl effective_ttl ttl) name) }
          | None \<Rightarrow>
              (case found_cname st of
                 None \<Rightarrow> do {
                   name \<leftarrow> name_store current_name;
                   Some (DNS_ANSWER_NOT_FOUND effective_ttl name) }
               | Some (target, ttl) \<Rightarrow>
                   (case n of
                      0 \<Rightarrow> Some DNS_ANSWER_MALFORMED
                    | Suc m \<Rightarrow>
                        if dns_names_equal target current_name then Some DNS_ANSWER_MALFORMED
                        else do {
                          name \<leftarrow> name_store target;
                          follow_aliases m message answers_offset answer_count name (shorter_ttl effective_ttl ttl) }))) }"

definition dns_find_address_answer :: "bytes \<Rightarrow> nat \<Rightarrow> u16 \<Rightarrow> bytes \<Rightarrow> dns_answer option" where
  "dns_find_address_answer message answers_offset answer_count query_name = do {
     current_name \<leftarrow> name_store query_name;
     follow_aliases DNS_MAX_CNAME_HOPS message answers_offset answer_count current_name UINT32_MAX }"

definition dns_name_is_within_zone :: "bytes \<Rightarrow> bytes \<Rightarrow> bool" where
  "dns_name_is_within_zone name zone \<longleftrightarrow>
     (if zone = [] then True
      else if length name < length zone then False
      else if \<not> dns_names_equal (drop (length name - length zone) name) zone then False
      else length name = length zone \<or> name ! (length name - length zone - 1) = CHAR_DOT)"

text \<open>The lifetime a start-of-authority record allows a negative answer, if it is well formed.\<close>

definition soa_negative_ttl :: "bytes \<Rightarrow> dns_record_view \<Rightarrow> u32 option option" where
  "soa_negative_ttl message rec = do {
     m \<leftarrow> dns_expand_name message (data_offset rec);
     case m of None \<Rightarrow> Some None
     | Some (mname, nxt) \<Rightarrow>
         if mname = [] \<or> nxt > next_offset rec then Some None
         else do {
           r \<leftarrow> dns_expand_name message nxt;
           case r of None \<Rightarrow> Some None
           | Some (rname, nxt) \<Rightarrow>
               if rname = [] \<or> nxt > next_offset rec \<or> next_offset rec - nxt \<noteq> 20 then Some None
               else do {
                 minimum_ttl \<leftarrow> read_u32_be message (nxt + 16);
                 let candidate = (if ttl_seconds rec < minimum_ttl then ttl_seconds rec else minimum_ttl);
                 Some (Some (if candidate > NET_DNS_NEGATIVE_TTL_MAX_SECONDS
                             then NET_DNS_NEGATIVE_TTL_MAX_SECONDS else candidate)) } } }"

fun negative_ttl_loop :: "nat \<Rightarrow> bytes \<Rightarrow> nat \<Rightarrow> bytes \<Rightarrow> u32 \<Rightarrow> u32 option" where
  "negative_ttl_loop 0 message offset name selected_ttl = Some selected_ttl"
| "negative_ttl_loop (Suc n) message offset name selected_ttl = do {
     r \<leftarrow> dns_read_record message offset;
     case r of None \<Rightarrow> Some 0
     | Some rec \<Rightarrow> do {
         ow \<leftarrow> dns_expand_name message (owner_offset rec);
         case ow of None \<Rightarrow> Some 0
         | Some (owner, _) \<Rightarrow> do {
             c \<leftarrow> (if record_type rec \<noteq> DNS_TYPE_SOA \<or> record_class rec \<noteq> DNS_CLASS_IN
                       \<or> \<not> dns_name_is_within_zone name owner then Some None
                   else soa_negative_ttl message rec);
             negative_ttl_loop n message (next_offset rec) name
               (case c of None \<Rightarrow> selected_ttl
                | Some candidate \<Rightarrow>
                    if candidate \<noteq> 0 \<and> (selected_ttl = 0 \<or> candidate < selected_ttl) then candidate else selected_ttl) } } }"

definition dns_find_negative_ttl :: "bytes \<Rightarrow> nat \<Rightarrow> u16 \<Rightarrow> bytes \<Rightarrow> u32 option" where
  "dns_find_negative_ttl message authority_offset authority_count name =
     negative_ttl_loop (unat authority_count) message authority_offset name 0"

definition set_dns_state :: "net_dns_state \<Rightarrow> net_stack \<Rightarrow> net_stack" where
  "set_dns_state st s = s\<lparr>net_dns := (net_dns s)\<lparr>dns_state := st\<rparr>\<rparr>"

text \<open>The question of a response, accepted when it is the pending one: the offset of the answers.\<close>

definition dns_match_question :: "net_stack \<Rightarrow> bytes \<Rightarrow> nat option option" where
  "dns_match_question s message = do {
     q \<leftarrow> dns_expand_name message DNS_HEADER_SIZE;
     case q of None \<Rightarrow> Some None
     | Some (question_name, nxt) \<Rightarrow>
         if nxt > length message \<or> length message - nxt < 4 \<or> \<not> dns_names_equal question_name (dns_name (net_dns s))
         then Some None
         else do {
           ty \<leftarrow> read_u16_be message nxt;
           cls \<leftarrow> read_u16_be message (nxt + 2);
           Some (if ty \<noteq> DNS_TYPE_A \<or> cls \<noteq> DNS_CLASS_IN then None else Some (nxt + 4)) } }"

text \<open>The last part of the handler, for a response whose records are well formed.\<close>

definition dns_negative_answer :: "bytes \<Rightarrow> nat \<Rightarrow> u16 \<Rightarrow> u32 \<Rightarrow> bytes \<Rightarrow> net_stack \<Rightarrow> net_stack option" where
  "dns_negative_answer message authority_offset authority_count answer_ttl name s = do {
     negative_ttl \<leftarrow> dns_find_negative_ttl message authority_offset authority_count name;
     let negative_ttl = (if negative_ttl \<noteq> 0 \<and> answer_ttl \<noteq> UINT32_MAX \<and> answer_ttl < negative_ttl
                         then answer_ttl else negative_ttl);
     let s = s\<lparr>net_dns := (net_dns s)\<lparr>dns_ttl_seconds := negative_ttl\<rparr>\<rparr>;
     s \<leftarrow> (if negative_ttl \<noteq> 0
           then dns_cache_store (dns_name (net_dns s)) True 0 (dns_response_code (net_dns s)) negative_ttl s
           else Some s);
     Some (set_dns_state NET_DNS_NOT_FOUND s) }"

definition dns_accept_answer :: "bytes \<Rightarrow> nat \<Rightarrow> u16 \<Rightarrow> nat \<Rightarrow> u16 \<Rightarrow> net_stack \<Rightarrow> net_stack option" where
  "dns_accept_answer message answers_offset answer_count authority_offset authority_count s = do {
     answer \<leftarrow> dns_find_address_answer message answers_offset answer_count (dns_name (net_dns s));
     case answer of
       DNS_ANSWER_MALFORMED \<Rightarrow> Some (set_dns_state NET_DNS_MALFORMED_RESPONSE s)
     | DNS_ANSWER_ADDRESS address ttl name \<Rightarrow>
         if dns_response_code (net_dns s) \<noteq> 0 then Some (set_dns_state NET_DNS_MALFORMED_RESPONSE s)
         else let s = s\<lparr>net_dns := (net_dns s)\<lparr>dns_result_address := address, dns_ttl_seconds := ttl,
                                                 dns_state := NET_DNS_RESOLVED\<rparr>\<rparr>
              in dns_cache_store (dns_name (net_dns s)) False address 0 ttl s
     | DNS_ANSWER_NOT_FOUND ttl name \<Rightarrow>
         dns_negative_answer message authority_offset authority_count ttl name s }"

definition dns_process_response :: "bytes \<Rightarrow> net_stack \<Rightarrow> net_stack option" where
  "dns_process_response message s = do {
     flags \<leftarrow> read_u16_be message 2;
     if flags AND 0x8000 = 0 \<or> flags AND 0x0200 \<noteq> 0 \<or> drop_bit 11 flags AND 0xf \<noteq> 0
     then Some (set_dns_state NET_DNS_MALFORMED_RESPONSE s)
     else do {
       let s = s\<lparr>net_dns := (net_dns s)\<lparr>dns_response_code := ucast (flags AND 0xf)\<rparr>\<rparr>;
       question_count \<leftarrow> read_u16_be message 4;
       answer_count \<leftarrow> read_u16_be message 6;
       authority_count \<leftarrow> read_u16_be message 8;
       additional_count \<leftarrow> read_u16_be message 10;
       let record_count = (ucast answer_count + ucast authority_count + ucast additional_count :: u32);
       if question_count \<noteq> 1 \<or> record_count > 64 then Some (set_dns_state NET_DNS_MALFORMED_RESPONSE s)
       else do {
         q \<leftarrow> dns_match_question s message;
         case q of None \<Rightarrow> Some (set_dns_state NET_DNS_MALFORMED_RESPONSE s)
         | Some answers_offset \<Rightarrow> do {
             v \<leftarrow> dns_validate_record_sections message answers_offset answer_count authority_count additional_count;
             case v of None \<Rightarrow> Some (set_dns_state NET_DNS_MALFORMED_RESPONSE s)
             | Some authority_offset \<Rightarrow>
                 if dns_response_code (net_dns s) \<noteq> 0 \<and> dns_response_code (net_dns s) \<noteq> 3
                 then Some (set_dns_state NET_DNS_SERVER_ERROR s)
                 else dns_accept_answer message answers_offset answer_count authority_offset authority_count s } } } }"

definition dns_receive :: "u32 \<Rightarrow> u16 \<Rightarrow> u16 \<Rightarrow> bytes \<Rightarrow> net_stack \<Rightarrow> (bool \<times> net_stack) option" where
  "dns_receive source_ip source_port destination_port message s =
     (if dns_state (net_dns s) \<noteq> NET_DNS_PENDING \<or> source_ip \<noteq> cfg_dns (net_ipv4 s) \<or> source_port \<noteq> DNS_SERVER_PORT
         \<or> destination_port \<noteq> dns_source_port (net_dns s) \<or> length message < DNS_HEADER_SIZE
      then Some (False, s)
      else do {
        ident \<leftarrow> read_u16_be message 0;
        if ident \<noteq> dns_transaction_id (net_dns s) then Some (False, s)
        else do { s \<leftarrow> dns_process_response message s; Some (True, s) } })"

definition zero_dns :: net_dns_client where
  "zero_dns = \<lparr>dns_state = NET_DNS_IDLE, dns_name = [], dns_transaction_id = 0, dns_source_port = 0, dns_result_address = 0,
     dns_ttl_seconds = 0, dns_response_code = 0, dns_next_action_ms = 0, dns_attempts = 0\<rparr>"

definition dns_cache_hit :: "bytes \<Rightarrow> nat \<Rightarrow> net_stack \<Rightarrow> net_stack" where
  "dns_cache_hit name i s =
     (let e = dns_cache s ! i
      in s\<lparr>dns_cache_hits := dns_cache_hits s + 1,
           dns_cache := (dns_cache s)[i := e\<lparr>ce_last_used_ms := current_time_ms s\<rparr>],
           net_dns := zero_dns\<lparr>dns_name := name,
             dns_state := (if ce_negative e then NET_DNS_NOT_FOUND else NET_DNS_RESOLVED),
             dns_result_address := ce_address e,
             dns_ttl_seconds := dns_cache_remaining_seconds (ce_expires_ms e) (current_time_ms s),
             dns_response_code := ce_response_code e\<rparr>\<rparr>)"

definition dns_start_query :: "'w net_env \<Rightarrow> bytes \<Rightarrow> u16 \<Rightarrow> net_stack \<times> 'w \<Rightarrow> bool \<times> net_stack \<times> 'w" where
  "dns_start_query E name transaction_id sw = (case sw of (s, w) \<Rightarrow>
     let s = s\<lparr>dns_cache_misses := dns_cache_misses s + 1\<rparr>
     in if cfg_address (net_ipv4 s) = 0 \<or> \<not> ipv4_is_usable_unicast (cfg_dns (net_ipv4 s)) then (False, s, w)
        else let t = next_ipv4_id s XOR ucast (current_time_ms s);
                 transaction_id = (if transaction_id = 0 then if t = 0 then 1 else t else transaction_id);
                 s = s\<lparr>net_dns := (net_dns s)\<lparr>dns_name := name, dns_transaction_id := transaction_id,
                         dns_source_port := 49152 + (transaction_id AND 0x3fff), dns_result_address := 0,
                         dns_ttl_seconds := 0, dns_response_code := 0, dns_attempts := 0,
                         dns_state := NET_DNS_PENDING\<rparr>\<rparr>
             in case dns_send_query E (s, w) of (_, sw) \<Rightarrow> (True, sw))"

definition net_dns_query :: "'w net_env \<Rightarrow> bytes option \<Rightarrow> u16 \<Rightarrow> net_stack \<times> 'w \<Rightarrow> bool \<times> net_stack \<times> 'w" where
  "net_dns_query E name transaction_id sw = (case sw of (s, w) \<Rightarrow>
     case dns_validate_and_copy_name name of
       None \<Rightarrow> (False, s, w)
     | Some validated_name \<Rightarrow>
         let s = dns_cache_expire s
         in case dns_cache_find s validated_name of
              None \<Rightarrow> dns_start_query E validated_name transaction_id (s, w)
            | Some i \<Rightarrow>
                if dns_cache_remaining_seconds (ce_expires_ms (dns_cache s ! i)) (current_time_ms s) \<noteq> 0
                then (True, dns_cache_hit validated_name i s, w)
                else dns_start_query E validated_name transaction_id (s, w))"

definition net_dns_get_result :: "net_stack \<Rightarrow> net_dns_result" where
  "net_dns_get_result s = \<lparr>res_state = dns_state (net_dns s), res_address = dns_result_address (net_dns s),
     res_ttl_seconds = dns_ttl_seconds (net_dns s), res_response_code = dns_response_code (net_dns s)\<rparr>"

definition zero_pending :: net_pending_ipv4 where
  "zero_pending = \<lparr>pend_valid = False, pend_destination_ip = 0, pend_next_hop_ip = 0, pend_protocol = 0,
     pend_payload_size = 0, pend_payload = replicate NET_IPV4_PAYLOAD_MAX 0, pend_arp_requested_ms = 0,
     pend_arp_attempts = 0, pend_transmit_attempts = 0\<rparr>"

definition pending_is_query :: "net_stack \<Rightarrow> bool option" where
  "pending_is_query s =
     (let p = pending_ipv4 s
      in if pend_valid p \<and> pend_protocol p = NET_IPV4_PROTOCOL_UDP \<and> pend_destination_ip p = cfg_dns (net_ipv4 s)
            \<and> pend_payload_size p \<ge> 10
         then do {
           source_port \<leftarrow> read_u16_be (pend_payload p) 0;
           destination_port \<leftarrow> read_u16_be (pend_payload p) 2;
           ident \<leftarrow> read_u16_be (pend_payload p) 8;
           Some (source_port = dns_source_port (net_dns s) \<and> destination_port = DNS_SERVER_PORT
                 \<and> ident = dns_transaction_id (net_dns s)) }
         else Some False)"

definition net_dns_cancel :: "net_stack \<Rightarrow> (bool \<times> net_stack) option" where
  "net_dns_cancel s =
     (if dns_state (net_dns s) \<noteq> NET_DNS_PENDING then Some (False, s)
      else do {
        mine \<leftarrow> pending_is_query s;
        let s = (if mine then s\<lparr>pending_ipv4 := zero_pending\<rparr> else s);
        Some (True, s\<lparr>net_dns := zero_dns\<rparr>) })"

definition net_dns_clear_result :: "net_stack \<Rightarrow> net_stack" where
  "net_dns_clear_result s = s\<lparr>net_dns := zero_dns\<rparr>"

definition zero_cache_entry :: net_dns_cache_entry where
  "zero_cache_entry = \<lparr>ce_valid = False, ce_negative = False, ce_name = [], ce_address = 0, ce_response_code = 0,
     ce_expires_ms = 0, ce_last_used_ms = 0\<rparr>"

definition net_dns_cache_clear :: "net_stack \<Rightarrow> net_stack" where
  "net_dns_cache_clear s = s\<lparr>dns_cache := replicate NET_DNS_CACHE_SIZE zero_cache_entry\<rparr>"

record net_dns_cache_status =
  cs_capacity :: nat
  cs_entries :: nat
  cs_positive_entries :: nat
  cs_negative_entries :: nat
  cs_hits :: u64
  cs_misses :: u64
  cs_evictions :: u64
  cs_expirations :: u64

definition entry_live :: "u64 \<Rightarrow> net_dns_cache_entry \<Rightarrow> bool" where
  "entry_live now e \<longleftrightarrow> \<not> (\<not> ce_valid e \<or> ce_expires_ms e \<le> now)"

definition net_dns_cache_get_status :: "net_stack \<Rightarrow> net_dns_cache_status" where
  "net_dns_cache_get_status s =
     (let live = filter (entry_live (current_time_ms s)) (dns_cache s)
      in \<lparr>cs_capacity = NET_DNS_CACHE_SIZE, cs_entries = length live,
          cs_positive_entries = length (filter (\<lambda>e. \<not> ce_negative e) live),
          cs_negative_entries = length (filter ce_negative live),
          cs_hits = dns_cache_hits s, cs_misses = dns_cache_misses s,
          cs_evictions = dns_cache_evictions s, cs_expirations = dns_cache_expirations s\<rparr>)"

datatype net_dns_cache_entry_kind = NET_DNS_CACHE_POSITIVE | NET_DNS_CACHE_NEGATIVE

record net_dns_cache_entry_info =
  ci_name :: bytes
  ci_kind :: net_dns_cache_entry_kind
  ci_address :: u32
  ci_remaining_ttl_seconds :: u32
  ci_response_code :: u8

definition cache_entry_info :: "u64 \<Rightarrow> net_dns_cache_entry \<Rightarrow> net_dns_cache_entry_info option" where
  "cache_entry_info now e = do {
     name \<leftarrow> name_store (ce_name e);
     Some \<lparr>ci_name = name, ci_kind = (if ce_negative e then NET_DNS_CACHE_NEGATIVE else NET_DNS_CACHE_POSITIVE),
           ci_address = ce_address e, ci_remaining_ttl_seconds = dns_cache_remaining_seconds (ce_expires_ms e) now,
           ci_response_code = ce_response_code e\<rparr> }"

fun snapshot_entries :: "u64 \<Rightarrow> net_dns_cache_entry list \<Rightarrow> nat \<Rightarrow> net_dns_cache_entry_info list option" where
  "snapshot_entries now [] capacity = Some []"
| "snapshot_entries now (e # es) capacity =
     (if capacity = 0 then Some []
      else if \<not> entry_live now e then snapshot_entries now es capacity
      else do {
        info \<leftarrow> cache_entry_info now e;
        rest \<leftarrow> snapshot_entries now es (capacity - 1);
        Some (info # rest) })"

definition net_dns_cache_snapshot :: "net_stack \<Rightarrow> nat \<Rightarrow> net_dns_cache_entry_info list option" where
  "net_dns_cache_snapshot s entry_capacity = snapshot_entries (current_time_ms s) (dns_cache s) entry_capacity"

end
