(* ===== verification/Net_Dhcp.thy ===== *)
theory Net_Dhcp
  imports Net_Dns
begin

text \<open>
  Interface configuration and the DHCP client of \<open>src/kernel/net.c\<close>: the message it sends, the
  parser of the options it receives (checked reads) and the state machine from discovery to
  rebinding.
\<close>

section \<open>Definitions\<close>

abbreviation (input) DHCP_SERVER_PORT :: u16 where "DHCP_SERVER_PORT \<equiv> 67"
abbreviation (input) DHCP_FIXED_SIZE :: nat where "DHCP_FIXED_SIZE \<equiv> 240"
abbreviation (input) DHCP_PACKET_CAPACITY :: nat where "DHCP_PACKET_CAPACITY \<equiv> 576"
abbreviation (input) DHCP_MAGIC_COOKIE :: u32 where "DHCP_MAGIC_COOKIE \<equiv> 0x63825363"
abbreviation (input) DHCP_MESSAGE_DISCOVER :: u8 where "DHCP_MESSAGE_DISCOVER \<equiv> 1"
abbreviation (input) DHCP_MESSAGE_OFFER :: u8 where "DHCP_MESSAGE_OFFER \<equiv> 2"
abbreviation (input) DHCP_MESSAGE_REQUEST :: u8 where "DHCP_MESSAGE_REQUEST \<equiv> 3"
abbreviation (input) DHCP_MESSAGE_ACK :: u8 where "DHCP_MESSAGE_ACK \<equiv> 5"
abbreviation (input) DHCP_MESSAGE_NAK :: u8 where "DHCP_MESSAGE_NAK \<equiv> 6"
abbreviation (input) DHCP_OPTION_SUBNET_MASK :: u8 where "DHCP_OPTION_SUBNET_MASK \<equiv> 1"
abbreviation (input) DHCP_OPTION_ROUTER :: u8 where "DHCP_OPTION_ROUTER \<equiv> 3"
abbreviation (input) DHCP_OPTION_DNS :: u8 where "DHCP_OPTION_DNS \<equiv> 6"
abbreviation (input) DHCP_OPTION_REQUESTED_IP :: u8 where "DHCP_OPTION_REQUESTED_IP \<equiv> 50"
abbreviation (input) DHCP_OPTION_LEASE_TIME :: u8 where "DHCP_OPTION_LEASE_TIME \<equiv> 51"
abbreviation (input) DHCP_OPTION_MESSAGE_TYPE :: u8 where "DHCP_OPTION_MESSAGE_TYPE \<equiv> 53"
abbreviation (input) DHCP_OPTION_SERVER_IDENTIFIER :: u8 where "DHCP_OPTION_SERVER_IDENTIFIER \<equiv> 54"
abbreviation (input) DHCP_OPTION_PARAMETER_REQUEST :: u8 where "DHCP_OPTION_PARAMETER_REQUEST \<equiv> 55"
abbreviation (input) DHCP_OPTION_MAXIMUM_SIZE :: u8 where "DHCP_OPTION_MAXIMUM_SIZE \<equiv> 57"
abbreviation (input) DHCP_OPTION_RENEWAL_TIME :: u8 where "DHCP_OPTION_RENEWAL_TIME \<equiv> 58"
abbreviation (input) DHCP_OPTION_REBIND_TIME :: u8 where "DHCP_OPTION_REBIND_TIME \<equiv> 59"
abbreviation (input) DHCP_OPTION_CLIENT_IDENTIFIER :: u8 where "DHCP_OPTION_CLIENT_IDENTIFIER \<equiv> 61"
abbreviation (input) DHCP_OPTION_PAD :: u8 where "DHCP_OPTION_PAD \<equiv> 0"
abbreviation (input) DHCP_OPTION_END :: u8 where "DHCP_OPTION_END \<equiv> 255"
abbreviation (input) DHCP_DEFAULT_LEASE_SECONDS :: u32 where "DHCP_DEFAULT_LEASE_SECONDS \<equiv> 3600"

definition zero_arp_entry :: net_arp_entry where
  "zero_arp_entry = \<lparr>arp_valid = False, arp_ip = 0, arp_mac = zero_mac, arp_refreshed_ms = 0\<rparr>"

definition clear_arp :: "net_stack \<Rightarrow> net_stack" where
  "clear_arp s = s\<lparr>net_arp := replicate NET_ARP_CACHE_SIZE zero_arp_entry,
                   pending_ipv4 := (pending_ipv4 s)\<lparr>pend_valid := False\<rparr>\<rparr>"

definition net_configure_ipv4 :: "net_ipv4_config \<Rightarrow> net_stack \<Rightarrow> net_stack" where
  "net_configure_ipv4 config s =
     (let network_changed = cfg_address (net_ipv4 s) \<noteq> cfg_address config \<or> cfg_netmask (net_ipv4 s) \<noteq> cfg_netmask config
                              \<or> cfg_gateway (net_ipv4 s) \<noteq> cfg_gateway config;
          resolver_changed = cfg_dns (net_ipv4 s) \<noteq> cfg_dns config;
          s = s\<lparr>net_ipv4 := config\<rparr>;
          s = (if network_changed then clear_arp s else s)
      in if network_changed \<or> resolver_changed then net_dns_cache_clear s else s)"

definition zero_config :: net_ipv4_config where
  "zero_config = \<lparr>cfg_address = 0, cfg_netmask = 0, cfg_gateway = 0, cfg_dns = 0\<rparr>"

definition net_clear_ipv4 :: "net_stack \<Rightarrow> net_stack" where
  "net_clear_ipv4 s =
     (let s = net_dns_cache_clear (clear_arp (s\<lparr>net_ipv4 := zero_config\<rparr>))
      in if dns_state (net_dns s) = NET_DNS_PENDING then set_dns_state NET_DNS_TIMED_OUT s else s)"

definition net_is_configured :: "net_stack \<Rightarrow> bool" where
  "net_is_configured s \<longleftrightarrow> ipv4_is_usable_unicast (cfg_address (net_ipv4 s))"

definition zero_dhcp :: net_dhcp_client where
  "zero_dhcp = \<lparr>dhcp_state = NET_DHCP_OFF, dhcp_transaction_id = 0, dhcp_offered_ip = 0, dhcp_server_ip = 0,
     dhcp_offered_netmask = 0, dhcp_offered_gateway = 0, dhcp_offered_dns = 0, dhcp_lease_seconds = 0,
     dhcp_renewal_seconds = 0, dhcp_rebind_seconds = 0, dhcp_lease_started_ms = 0, dhcp_next_action_ms = 0,
     dhcp_attempts = 0\<rparr>"

definition dhcp_reset_offer :: "net_dhcp_client \<Rightarrow> net_dhcp_client" where
  "dhcp_reset_offer d = d\<lparr>dhcp_offered_ip := 0, dhcp_server_ip := 0, dhcp_offered_netmask := 0, dhcp_offered_gateway := 0,
     dhcp_offered_dns := 0, dhcp_lease_seconds := 0, dhcp_renewal_seconds := 0, dhcp_rebind_seconds := 0\<rparr>"

text \<open>The packet under construction with the offset after its last option.\<close>

definition dhcp_append_option :: "u8 \<Rightarrow> bytes \<Rightarrow> bytes \<times> nat \<Rightarrow> (bytes \<times> nat) option" where
  "dhcp_append_option option value po = (case po of (packet, offset) \<Rightarrow>
     if offset > DHCP_PACKET_CAPACITY \<or> length value + 2 > DHCP_PACKET_CAPACITY - offset then None
     else Some (blit packet offset ([option, of_nat (length value)] @ value), offset + 2 + length value))"

definition dhcp_append_u32_option :: "u8 \<Rightarrow> u32 \<Rightarrow> bytes \<times> nat \<Rightarrow> (bytes \<times> nat) option" where
  "dhcp_append_u32_option option value po = dhcp_append_option option (be32 value) po"

definition dhcp_retry_delay :: "u32 \<Rightarrow> u64" where
  "dhcp_retry_delay attempts = push_bit (unat (if attempts > 4 then 4 else attempts)) 4000"

definition dhcp_fixed_part :: "net_stack \<Rightarrow> bool \<Rightarrow> bytes" where
  "dhcp_fixed_part s using_active_lease =
     (let packet = blit (replicate DHCP_PACKET_CAPACITY 0) 0 [1, 1, 6];
          packet = write_u32_be packet 4 (dhcp_transaction_id (net_dhcp s));
          packet = (if using_active_lease then write_u32_be packet 12 (cfg_address (net_ipv4 s)) else packet);
          packet = (if \<not> using_active_lease \<or> dhcp_state (net_dhcp s) = NET_DHCP_REBINDING
                    then write_u16_be packet 10 0x8000 else packet);
          packet = blit packet 28 (net_mac s)
      in write_u32_be packet 236 DHCP_MAGIC_COOKIE)"

definition dhcp_message :: "net_stack \<Rightarrow> u8 \<Rightarrow> bool \<Rightarrow> (bytes \<times> nat) option" where
  "dhcp_message s message_type using_active_lease = do {
     po \<leftarrow> dhcp_append_option DHCP_OPTION_MESSAGE_TYPE [message_type] (dhcp_fixed_part s using_active_lease, DHCP_FIXED_SIZE);
     po \<leftarrow> dhcp_append_option DHCP_OPTION_CLIENT_IDENTIFIER ([1] @ net_mac s) po;
     po \<leftarrow> (if message_type = DHCP_MESSAGE_REQUEST \<and> \<not> using_active_lease then do {
              po \<leftarrow> dhcp_append_u32_option DHCP_OPTION_REQUESTED_IP (dhcp_offered_ip (net_dhcp s)) po;
              if dhcp_state (net_dhcp s) \<noteq> NET_DHCP_REBINDING \<and> dhcp_server_ip (net_dhcp s) \<noteq> 0
              then dhcp_append_u32_option DHCP_OPTION_SERVER_IDENTIFIER (dhcp_server_ip (net_dhcp s)) po
              else Some po }
            else Some po);
     po \<leftarrow> dhcp_append_option DHCP_OPTION_PARAMETER_REQUEST
             [DHCP_OPTION_SUBNET_MASK, DHCP_OPTION_ROUTER, DHCP_OPTION_DNS, DHCP_OPTION_LEASE_TIME,
              DHCP_OPTION_RENEWAL_TIME, DHCP_OPTION_REBIND_TIME] po;
     (packet, offset) \<leftarrow> dhcp_append_option DHCP_OPTION_MAXIMUM_SIZE (be16 (of_nat DHCP_PACKET_CAPACITY)) po;
     if offset \<ge> DHCP_PACKET_CAPACITY then None
     else Some (write_u8 packet offset DHCP_OPTION_END, offset + 1) }"

definition dhcp_send_message :: "'w net_env \<Rightarrow> u8 \<Rightarrow> bool \<Rightarrow> net_stack \<times> 'w \<Rightarrow> bool \<times> net_stack \<times> 'w" where
  "dhcp_send_message E message_type using_active_lease sw = (case sw of (s, w) \<Rightarrow>
     case dhcp_message s message_type using_active_lease of
       None \<Rightarrow> (False, s, w)
     | Some (packet, offset) \<Rightarrow>
         let destination_ip = (if dhcp_state (net_dhcp s) = NET_DHCP_RENEWING \<and> dhcp_server_ip (net_dhcp s) \<noteq> 0
                               then dhcp_server_ip (net_dhcp s) else UINT32_MAX)
         in case net_udp_send E destination_ip DHCP_SERVER_PORT DHCP_CLIENT_PORT (take offset packet) (s, w) of
              (result, s, w) \<Rightarrow>
                let s = s\<lparr>net_dhcp := (net_dhcp s)\<lparr>dhcp_attempts := dhcp_attempts (net_dhcp s) + 1\<rparr>\<rparr>;
                    s = s\<lparr>net_dhcp := (net_dhcp s)\<lparr>dhcp_next_action_ms :=
                          saturating_add_u64 (current_time_ms s) (dhcp_retry_delay (dhcp_attempts (net_dhcp s) - 1))\<rparr>\<rparr>
                in (result \<noteq> NET_SEND_FAILED, s, w))"

record dhcp_options =
  opt_message_type :: "u8 option"
  opt_subnet_mask :: "u32 option"
  opt_router :: "u32 option"
  opt_dns :: "u32 option"
  opt_server_identifier :: "u32 option"
  opt_lease_time :: "u32 option"
  opt_renewal_time :: "u32 option"
  opt_rebind_time :: "u32 option"

definition no_options :: dhcp_options where
  "no_options = \<lparr>opt_message_type = None, opt_subnet_mask = None, opt_router = None, opt_dns = None,
     opt_server_identifier = None, opt_lease_time = None, opt_renewal_time = None, opt_rebind_time = None\<rparr>"

definition first_u32 :: "bytes \<Rightarrow> nat \<Rightarrow> u32 option \<Rightarrow> u32 option option" where
  "first_u32 packet offset old = (case old of
     Some v \<Rightarrow> Some (Some v)
   | None \<Rightarrow> do { v \<leftarrow> read_u32_be packet offset; Some (Some v) })"

definition store_option :: "bytes \<Rightarrow> nat \<Rightarrow> u8 \<Rightarrow> u8 \<Rightarrow> dhcp_options \<Rightarrow> dhcp_options option" where
  "store_option packet offset code len options =
     (if code = DHCP_OPTION_MESSAGE_TYPE then
        if len = 1 \<and> opt_message_type options = None
        then do { v \<leftarrow> load8 packet offset; Some (options\<lparr>opt_message_type := Some v\<rparr>) } else Some options
      else if code = DHCP_OPTION_SUBNET_MASK then
        if len = 4 then do { v \<leftarrow> first_u32 packet offset (opt_subnet_mask options); Some (options\<lparr>opt_subnet_mask := v\<rparr>) } else Some options
      else if code = DHCP_OPTION_ROUTER then
        if len \<ge> 4 then do { v \<leftarrow> first_u32 packet offset (opt_router options); Some (options\<lparr>opt_router := v\<rparr>) } else Some options
      else if code = DHCP_OPTION_DNS then
        if len \<ge> 4 then do { v \<leftarrow> first_u32 packet offset (opt_dns options); Some (options\<lparr>opt_dns := v\<rparr>) } else Some options
      else if code = DHCP_OPTION_SERVER_IDENTIFIER then
        if len = 4 then do { v \<leftarrow> first_u32 packet offset (opt_server_identifier options); Some (options\<lparr>opt_server_identifier := v\<rparr>) } else Some options
      else if code = DHCP_OPTION_LEASE_TIME then
        if len = 4 then do { v \<leftarrow> first_u32 packet offset (opt_lease_time options); Some (options\<lparr>opt_lease_time := v\<rparr>) } else Some options
      else if code = DHCP_OPTION_RENEWAL_TIME then
        if len = 4 then do { v \<leftarrow> first_u32 packet offset (opt_renewal_time options); Some (options\<lparr>opt_renewal_time := v\<rparr>) } else Some options
      else if code = DHCP_OPTION_REBIND_TIME then
        if len = 4 then do { v \<leftarrow> first_u32 packet offset (opt_rebind_time options); Some (options\<lparr>opt_rebind_time := v\<rparr>) } else Some options
      else Some options)"

function parse_options :: "bytes \<Rightarrow> nat \<Rightarrow> dhcp_options \<Rightarrow> dhcp_options option option" where
  "parse_options packet offset options =
     (if offset \<ge> length packet then Some None
      else do {
        code \<leftarrow> load8 packet offset;
        if code = DHCP_OPTION_PAD then parse_options packet (offset + 1) options
        else if code = DHCP_OPTION_END then Some (if opt_message_type options \<noteq> None then Some options else None)
        else if offset + 1 \<ge> length packet then Some None
        else do {
          len \<leftarrow> load8 packet (offset + 1);
          if unat len > length packet - (offset + 2) then Some None
          else do {
            options \<leftarrow> store_option packet (offset + 2) code len options;
            parse_options packet (offset + 2 + unat len) options } } })"
  by pat_completeness auto
termination
  by (relation "measure (\<lambda>(packet, offset, _). length packet - offset)") auto

declare parse_options.simps [simp del]

definition parse_dhcp_options :: "bytes \<Rightarrow> dhcp_options option option" where
  "parse_dhcp_options packet =
     (if length packet < DHCP_FIXED_SIZE then Some None
      else do {
        cookie \<leftarrow> read_u32_be packet 236;
        if cookie \<noteq> DHCP_MAGIC_COOKIE then Some None
        else parse_options packet DHCP_FIXED_SIZE no_options })"

definition mac_hash :: "u32 \<Rightarrow> bytes \<Rightarrow> u32" where
  "mac_hash h mac = foldl (\<lambda>t b. (t XOR ucast b) * 16777619) h mac"

definition net_dhcp_start :: "'w net_env \<Rightarrow> u32 \<Rightarrow> net_stack \<times> 'w \<Rightarrow> bool \<times> net_stack \<times> 'w" where
  "net_dhcp_start E transaction_id sw = (case sw of (s, w) \<Rightarrow>
     if \<not> link_send s then (False, s, w)
     else let h = mac_hash 2166136261 (net_mac s) XOR ucast (current_time_ms s);
              transaction_id = (if transaction_id = 0 then if h = 0 then 1 else h else transaction_id);
              s = net_clear_ipv4 s;
              s = s\<lparr>net_dhcp := dhcp_reset_offer (zero_dhcp\<lparr>dhcp_state := NET_DHCP_DISCOVERING,
                      dhcp_transaction_id := transaction_id, dhcp_attempts := 0\<rparr>)\<rparr>
          in case dhcp_send_message E DHCP_MESSAGE_DISCOVER False (s, w) of (_, sw) \<Rightarrow> (True, sw))"

definition dhcp_restart :: "'w net_env \<Rightarrow> net_stack \<times> 'w \<Rightarrow> net_stack \<times> 'w" where
  "dhcp_restart E sw = (case sw of (s, w) \<Rightarrow>
     let transaction_id = dhcp_transaction_id (net_dhcp s) + 1
     in snd (net_dhcp_start E (if transaction_id = 0 then 1 else transaction_id) (s, w)))"

definition or_else :: "'a option \<Rightarrow> 'a \<Rightarrow> 'a" where
  "or_else v d = (case v of None \<Rightarrow> d | Some x \<Rightarrow> x)"

definition seven_eighths :: "u32 \<Rightarrow> u32" where
  "seven_eighths secs = ucast (((ucast secs :: u64) * 7) div 8)"

definition dhcp_take_offer :: "'w net_env \<Rightarrow> u32 \<Rightarrow> u32 \<Rightarrow> dhcp_options \<Rightarrow> net_stack \<times> 'w \<Rightarrow> net_stack \<times> 'w" where
  "dhcp_take_offer E offered_ip server_ip options sw = (case sw of (s, w) \<Rightarrow>
     let lease = or_else (opt_lease_time options) DHCP_DEFAULT_LEASE_SECONDS;
         s = s\<lparr>net_dhcp := (net_dhcp s)\<lparr>dhcp_offered_ip := offered_ip, dhcp_server_ip := server_ip,
                 dhcp_offered_netmask := or_else (opt_subnet_mask options) 0,
                 dhcp_offered_gateway := or_else (opt_router options) 0,
                 dhcp_offered_dns := or_else (opt_dns options) 0,
                 dhcp_lease_seconds := lease,
                 dhcp_renewal_seconds := or_else (opt_renewal_time options) (lease div 2),
                 dhcp_rebind_seconds := or_else (opt_rebind_time options) (seven_eighths lease),
                 dhcp_state := NET_DHCP_REQUESTING, dhcp_attempts := 0\<rparr>\<rparr>
     in snd (dhcp_send_message E DHCP_MESSAGE_REQUEST False (s, w)))"

definition dhcp_lease_config :: "u32 \<Rightarrow> dhcp_options \<Rightarrow> net_stack \<Rightarrow> net_ipv4_config" where
  "dhcp_lease_config address options s =
     (let m = or_else (opt_subnet_mask options) (dhcp_offered_netmask (net_dhcp s));
          g = or_else (opt_router options) (dhcp_offered_gateway (net_dhcp s));
          d = or_else (opt_dns options) (dhcp_offered_dns (net_dhcp s))
      in \<lparr>cfg_address = address,
          cfg_netmask = (if \<not> ipv4_netmask_is_valid m then NET_IPV4 255 255 255 0 else m),
          cfg_gateway = (if \<not> ipv4_is_usable_unicast g then 0 else g),
          cfg_dns = (if \<not> ipv4_is_usable_unicast d then 0 else d)\<rparr>)"

text \<open>Renewal and rebinding times of a lease of \<open>lease\<close> seconds.\<close>

definition dhcp_lease_times :: "u32 \<Rightarrow> dhcp_options \<Rightarrow> u32 \<times> u32" where
  "dhcp_lease_times lease options =
     (let renewal = or_else (opt_renewal_time options) (lease div 2);
          rebind = or_else (opt_rebind_time options) (seven_eighths lease);
          renewal = (if renewal \<ge> lease then lease div 2 else renewal);
          rebind = (if rebind \<le> renewal \<or> rebind \<ge> lease then seven_eighths lease else rebind)
      in (renewal, rebind))"

definition dhcp_take_ack :: "u32 \<Rightarrow> u32 \<Rightarrow> dhcp_options \<Rightarrow> net_stack \<Rightarrow> bool \<times> net_stack" where
  "dhcp_take_ack offered_ip server_ip options s =
     (let address = (if ipv4_is_usable_unicast offered_ip then offered_ip else cfg_address (net_ipv4 s));
          address = (if \<not> ipv4_is_usable_unicast address then dhcp_offered_ip (net_dhcp s) else address)
      in if \<not> ipv4_is_usable_unicast address then (False, s)
         else let config = dhcp_lease_config address options s;
                  lease = or_else (opt_lease_time options)
                            (if dhcp_lease_seconds (net_dhcp s) \<noteq> 0 then dhcp_lease_seconds (net_dhcp s) else DHCP_DEFAULT_LEASE_SECONDS);
                  s = s\<lparr>net_dhcp := (net_dhcp s)\<lparr>dhcp_server_ip :=
                          (if ipv4_is_usable_unicast server_ip then server_ip else dhcp_server_ip (net_dhcp s)),
                        dhcp_lease_seconds := lease\<rparr>\<rparr>
              in if lease = 0 then (False, s)
                 else case dhcp_lease_times lease options of (renewal, rebind) \<Rightarrow>
                   let s = s\<lparr>net_dhcp := (net_dhcp s)\<lparr>dhcp_renewal_seconds := renewal, dhcp_rebind_seconds := rebind\<rparr>\<rparr>;
                       s = net_configure_ipv4 config s
                   in (True, s\<lparr>net_dhcp := (net_dhcp s)\<lparr>dhcp_state := NET_DHCP_BOUND,
                         dhcp_lease_started_ms := current_time_ms s,
                         dhcp_next_action_ms := saturating_add_u64 (current_time_ms s) (seconds_to_ms renewal),
                         dhcp_attempts := 0\<rparr>\<rparr>))"

definition dhcp_wrong_server :: "dhcp_options \<Rightarrow> net_stack \<Rightarrow> bool" where
  "dhcp_wrong_server options s \<longleftrightarrow>
     dhcp_server_ip (net_dhcp s) \<noteq> 0 \<and> opt_server_identifier options \<noteq> None
     \<and> opt_server_identifier options \<noteq> Some (dhcp_server_ip (net_dhcp s)) \<and> dhcp_state (net_dhcp s) \<noteq> NET_DHCP_REBINDING"

definition dhcp_requesting :: "net_stack \<Rightarrow> bool" where
  "dhcp_requesting s \<longleftrightarrow> dhcp_state (net_dhcp s) \<in> {NET_DHCP_REQUESTING, NET_DHCP_RENEWING, NET_DHCP_REBINDING}"

text \<open>The reaction to an accepted message.\<close>

definition dhcp_react ::
  "'w net_env \<Rightarrow> u32 \<Rightarrow> u32 \<Rightarrow> dhcp_options \<Rightarrow> net_stack \<times> 'w \<Rightarrow> bool \<times> net_stack \<times> 'w" where
  "dhcp_react E source_ip offered_ip options sw = (case sw of (s, w) \<Rightarrow>
     let server_ip = or_else (opt_server_identifier options) source_ip
     in if opt_message_type options = Some DHCP_MESSAGE_OFFER \<and> dhcp_state (net_dhcp s) = NET_DHCP_DISCOVERING
           \<and> ipv4_is_usable_unicast offered_ip \<and> ipv4_is_usable_unicast server_ip
        then (True, dhcp_take_offer E offered_ip server_ip options (s, w))
        else if opt_message_type options = Some DHCP_MESSAGE_NAK \<and> dhcp_requesting s
        then if dhcp_wrong_server options s then (False, s, w) else (True, dhcp_restart E (s, w))
        else if opt_message_type options \<noteq> Some DHCP_MESSAGE_ACK \<or> \<not> dhcp_requesting s then (False, s, w)
        else if dhcp_wrong_server options s then (False, s, w)
        else case dhcp_take_ack offered_ip server_ip options s of (ok, s) \<Rightarrow> (ok, s, w))"

definition dhcp_receive ::
  "'w net_env \<Rightarrow> u32 \<Rightarrow> bytes \<Rightarrow> net_stack \<times> 'w \<Rightarrow> (bool \<times> net_stack \<times> 'w) option" where
  "dhcp_receive E source_ip packet sw = (case sw of (s, w) \<Rightarrow>
     if dhcp_state (net_dhcp s) = NET_DHCP_OFF \<or> length packet < DHCP_FIXED_SIZE then Some (False, s, w)
     else do {
       kind \<leftarrow> load_bytes packet 0 3;
       ident \<leftarrow> read_u32_be packet 4;
       mac \<leftarrow> load_bytes packet 28 NET_ETHERNET_ADDRESS_SIZE;
       if kind \<noteq> [2, 1, 6] \<or> ident \<noteq> dhcp_transaction_id (net_dhcp s) \<or> mac \<noteq> net_mac s then Some (False, s, w)
       else do {
         parsed \<leftarrow> parse_dhcp_options packet;
         case parsed of
           None \<Rightarrow> Some (False, s, w)
         | Some options \<Rightarrow> do {
             offered_ip \<leftarrow> read_u32_be packet 16;
             Some (dhcp_react E source_ip offered_ip options (s, w)) } } })"

definition net_dhcp_stop :: "net_stack \<Rightarrow> net_stack" where
  "net_dhcp_stop s = s\<lparr>net_dhcp := zero_dhcp\<rparr>"

end
