(* ===== verification/Net_Input.thy ===== *)
theory Net_Input
  imports Net_Dhcp
begin

text \<open>
  The receive side of \<open>src/kernel/net.c\<close>: ICMP, UDP, IPv4 and ARP input, the timers, polling and
  initialisation.  Input operations return \<open>None\<close> when they would read outside the frame.
\<close>

section \<open>Definitions\<close>

definition icmp_echo :: "u8 \<Rightarrow> u16 \<Rightarrow> u16 \<Rightarrow> u16 \<Rightarrow> bytes \<Rightarrow> bytes" where
  "icmp_echo kind checksum identifier sequence payload =
     [kind, 0] @ be16 checksum @ be16 identifier @ be16 sequence @ payload"

definition net_icmp_echo_request ::
  "'w net_env \<Rightarrow> u32 \<Rightarrow> u16 \<Rightarrow> u16 \<Rightarrow> bytes \<Rightarrow> net_stack \<times> 'w \<Rightarrow> net_send_result \<times> net_stack \<times> 'w" where
  "net_icmp_echo_request E destination_ip identifier sequence payload sw = (case sw of (s, w) \<Rightarrow>
     if length payload > NET_IPV4_PAYLOAD_MAX - 8 then (NET_SEND_FAILED, s, w)
     else let s = tx_put 34 (icmp_echo ICMP_ECHO_REQUEST 0 identifier sequence payload) s;
              s = tx_put 36 (be16 (internet_checksum (take (8 + length payload) (drop 34 (transmit_frame s))))) s
          in case net_ipv4_send E destination_ip NET_IPV4_PROTOCOL_ICMP
                    (take (8 + length payload) (drop 34 (transmit_frame s))) (s, w) of
               (result, s, w) \<Rightarrow>
                 (result, if result \<noteq> NET_SEND_FAILED
                          then s\<lparr>echo_request := \<lparr>eq_pending = True, eq_destination_ip = destination_ip,
                                   eq_identifier = identifier, eq_sequence = sequence, eq_sent_ms = current_time_ms s\<rparr>,
                                 echo_reply := (echo_reply s)\<lparr>er_valid := False\<rparr>\<rparr>
                          else s, w))"

definition zero_echo_reply :: net_icmp_echo_reply where
  "zero_echo_reply = \<lparr>er_valid = False, er_source_ip = 0, er_identifier = 0, er_sequence = 0, er_round_trip_ms = 0,
     er_payload_size = 0\<rparr>"

definition net_icmp_clear_echo_reply :: "net_stack \<Rightarrow> net_stack" where
  "net_icmp_clear_echo_reply s = s\<lparr>echo_reply := zero_echo_reply\<rparr>"

definition icmp_answer ::
  "'w net_env \<Rightarrow> u32 \<Rightarrow> bytes \<Rightarrow> net_stack \<times> 'w \<Rightarrow> bool \<times> net_stack \<times> 'w" where
  "icmp_answer E source_ip packet sw = (case sw of (s, w) \<Rightarrow>
     let s = tx_put 34 packet s;
         s = tx_put 34 [ICMP_ECHO_REPLY] s;
         s = tx_put 36 (be16 0) s;
         s = tx_put 36 (be16 (internet_checksum (take (length packet) (drop 34 (transmit_frame s))))) s;
         s = upd_stats (\<lambda>t. t\<lparr>icmp_echo_requests_received := icmp_echo_requests_received t + 1\<rparr>) s
     in case net_ipv4_send E source_ip NET_IPV4_PROTOCOL_ICMP (take (length packet) (drop 34 (transmit_frame s))) (s, w) of
          (result, sw) \<Rightarrow> (result \<noteq> NET_SEND_FAILED, sw))"

definition icmp_accept_reply :: "u32 \<Rightarrow> u16 \<Rightarrow> u16 \<Rightarrow> nat \<Rightarrow> net_stack \<Rightarrow> net_stack" where
  "icmp_accept_reply source_ip identifier sequence packet_size s =
     (let s = s\<lparr>echo_reply := \<lparr>er_valid = True, er_source_ip = source_ip, er_identifier = identifier,
                er_sequence = sequence,
                er_round_trip_ms = (if current_time_ms s \<ge> eq_sent_ms (echo_request s)
                                    then current_time_ms s - eq_sent_ms (echo_request s) else 0),
                er_payload_size = packet_size - 8\<rparr>,
              echo_request := (echo_request s)\<lparr>eq_pending := False\<rparr>\<rparr>
      in upd_stats (\<lambda>t. t\<lparr>icmp_echo_replies_received := icmp_echo_replies_received t + 1\<rparr>) s)"

definition receive_icmp ::
  "'w net_env \<Rightarrow> u32 \<Rightarrow> u32 \<Rightarrow> bytes \<Rightarrow> net_stack \<times> 'w \<Rightarrow> (bool \<times> net_stack \<times> 'w) option" where
  "receive_icmp E source_ip destination_ip packet sw = (case sw of (s, w) \<Rightarrow>
     if length packet < 8 \<or> internet_checksum packet \<noteq> 0 then Some (False, s, w)
     else do {
       kind \<leftarrow> load8 packet 0;
       code \<leftarrow> load8 packet 1;
       identifier \<leftarrow> read_u16_be packet 4;
       sequence \<leftarrow> read_u16_be packet 6;
       Some (if kind = ICMP_ECHO_REQUEST \<and> code = 0 \<and> cfg_address (net_ipv4 s) \<noteq> 0
                \<and> destination_ip = cfg_address (net_ipv4 s)
             then icmp_answer E source_ip packet (s, w)
             else if kind = ICMP_ECHO_REPLY \<and> code = 0 \<and> eq_pending (echo_request s)
                \<and> source_ip = eq_destination_ip (echo_request s)
                \<and> identifier = eq_identifier (echo_request s) \<and> sequence = eq_sequence (echo_request s)
             then (True, icmp_accept_reply source_ip identifier sequence (length packet) s, w)
             else (False, s, w)) })"

definition udp_deliver ::
  "'w net_env \<Rightarrow> u32 \<Rightarrow> u32 \<Rightarrow> u16 \<Rightarrow> u16 \<Rightarrow> bytes \<Rightarrow> net_stack \<times> 'w \<Rightarrow> bool \<times> net_stack \<times> 'w" where
  "udp_deliver E source_ip destination_ip source_port destination_port data sw = (case sw of (s, w) \<Rightarrow>
     case find_idx (udp_bound destination_port) (udp_bindings s) of
       None \<Rightarrow> (False, s, w)
     | Some i \<Rightarrow>
         (case ub_handler (udp_bindings s ! i) of
            None \<Rightarrow> (False, s, w)
          | Some h \<Rightarrow>
              (True, env_udp_handler E h (ub_context (udp_bindings s ! i))
                       \<lparr>dg_source_ip = source_ip, dg_destination_ip = destination_ip, dg_source_port = source_port,
                        dg_destination_port = destination_port, dg_data = data\<rparr> (s, w))))"

definition receive_udp ::
  "'w net_env \<Rightarrow> u32 \<Rightarrow> u32 \<Rightarrow> bytes \<Rightarrow> net_stack \<times> 'w \<Rightarrow> (bool \<times> net_stack \<times> 'w) option" where
  "receive_udp E source_ip destination_ip packet sw = (case sw of (s, w) \<Rightarrow>
     if length packet < 8 then Some (False, s, w)
     else do {
       source_port \<leftarrow> read_u16_be packet 0;
       destination_port \<leftarrow> read_u16_be packet 2;
       udp_size \<leftarrow> read_u16_be packet 4;
       if source_port = 0 \<or> destination_port = 0 \<or> udp_size < 8 \<or> unat udp_size \<noteq> length packet then Some (False, s, w)
       else do {
         valid \<leftarrow> udp_checksum_valid source_ip destination_ip packet;
         if \<not> valid then Some (False, s, w)
         else do {
           data \<leftarrow> load_bytes packet 8 (unat udp_size - 8);
           let s = upd_stats (\<lambda>t. t\<lparr>udp_datagrams_received := udp_datagrams_received t + 1\<rparr>) s;
           if destination_port = DHCP_CLIENT_PORT \<and> source_port = DHCP_SERVER_PORT
           then dhcp_receive E source_ip data (s, w)
           else if destination_port = dns_source_port (net_dns s) \<and> source_port = DNS_SERVER_PORT
           then do {
             (ok, s) \<leftarrow> dns_receive source_ip source_port destination_port data s;
             Some (ok, s, w) }
           else Some (udp_deliver E source_ip destination_ip source_port destination_port data (s, w)) } } })"

text \<open>The checks on an IPv4 header; accepted ones give the header size and the total size.\<close>

definition ipv4_check_header :: "bytes \<Rightarrow> (nat \<times> nat) option option" where
  "ipv4_check_header packet =
     (if length packet < NET_IPV4_HEADER_MIN_SIZE then Some None
      else do {
        vi \<leftarrow> load8 packet 0;
        let header_size = unat (vi AND 0xf) * 4;
        if drop_bit 4 vi \<noteq> 4 \<or> header_size < NET_IPV4_HEADER_MIN_SIZE \<or> header_size > length packet then Some None
        else do {
          total_size \<leftarrow> read_u16_be packet 2;
          fragment \<leftarrow> read_u16_be packet 6;
          ttl \<leftarrow> load8 packet 8;
          header \<leftarrow> load_bytes packet 0 header_size;
          Some (if unat total_size < header_size \<or> unat total_size > length packet \<or> ttl = 0
                   \<or> internet_checksum header \<noteq> 0 \<or> fragment AND 0x8000 \<noteq> 0 \<or> fragment AND 0x3fff \<noteq> 0
                then None else Some (header_size, unat total_size)) } })"

definition ipv4_accepts :: "net_stack \<Rightarrow> bytes \<Rightarrow> nat \<Rightarrow> nat \<Rightarrow> u32 \<Rightarrow> u8 \<Rightarrow> bool option" where
  "ipv4_accepts s packet header_size total_size destination_ip protocol =
     (let local_destination = ipv4_destination_is_local s destination_ip
      in if \<not> local_destination \<and> cfg_address (net_ipv4 s) = 0 \<and> dhcp_state (net_dhcp s) \<noteq> NET_DHCP_OFF
            \<and> protocol = NET_IPV4_PROTOCOL_UDP \<and> total_size \<ge> header_size + 8
         then do { port \<leftarrow> read_u16_be packet (header_size + 2); Some (port = DHCP_CLIENT_PORT) }
         else Some local_destination)"

definition ipv4_dispatch ::
  "'w net_env \<Rightarrow> u8 \<Rightarrow> u32 \<Rightarrow> u32 \<Rightarrow> bytes \<Rightarrow> net_stack \<times> 'w \<Rightarrow> (bool \<times> net_stack \<times> 'w) option" where
  "ipv4_dispatch E protocol source_ip destination_ip payload sw = (case sw of (s, w) \<Rightarrow>
     if protocol = NET_IPV4_PROTOCOL_ICMP then receive_icmp E source_ip destination_ip payload (s, w)
     else if protocol = NET_IPV4_PROTOCOL_UDP then receive_udp E source_ip destination_ip payload (s, w)
     else if protocol = NET_IPV4_PROTOCOL_TCP then
       (case tcp_handler s of
          None \<Rightarrow> Some (False, s, w)
        | Some h \<Rightarrow> Some (True, env_tcp_handler E h (tcp_handler_context s) source_ip destination_ip payload (s, w)))
     else Some (False, s, w))"

definition receive_ipv4 ::
  "'w net_env \<Rightarrow> bytes \<Rightarrow> bytes \<Rightarrow> net_stack \<times> 'w \<Rightarrow> (bool \<times> net_stack \<times> 'w) option" where
  "receive_ipv4 E source_mac packet sw = (case sw of (s, w) \<Rightarrow> do {
     checked \<leftarrow> ipv4_check_header packet;
     case checked of None \<Rightarrow> Some (False, s, w)
     | Some (header_size, total_size) \<Rightarrow> do {
         source_ip \<leftarrow> read_u32_be packet 12;
         destination_ip \<leftarrow> read_u32_be packet 16;
         protocol \<leftarrow> load8 packet 9;
         accepted \<leftarrow> ipv4_accepts s packet header_size total_size destination_ip protocol;
         if \<not> accepted then Some (False, s, w)
         else do {
           let (s, w) = (if ipv4_is_usable_unicast source_ip \<and> ipv4_is_on_link s source_ip
                         then snd (flush_pending_ipv4 E (arp_learn source_ip source_mac s, w)) else (s, w));
           payload \<leftarrow> load_bytes packet header_size (total_size - header_size);
           let s = upd_stats (\<lambda>t. t\<lparr>ipv4_packets_received := ipv4_packets_received t + 1\<rparr>) s;
           ipv4_dispatch E protocol source_ip destination_ip payload (s, w) } } })"

definition receive_arp ::
  "'w net_env \<Rightarrow> bytes \<Rightarrow> bytes \<Rightarrow> net_stack \<times> 'w \<Rightarrow> (bool \<times> net_stack \<times> 'w) option" where
  "receive_arp E ethernet_source packet sw = (case sw of (s, w) \<Rightarrow>
     if length packet < ARP_PACKET_SIZE then Some (False, s, w)
     else do {
       hardware \<leftarrow> read_u16_be packet 0;
       ptype \<leftarrow> read_u16_be packet 2;
       hlen \<leftarrow> load8 packet 4;
       plen \<leftarrow> load8 packet 5;
       if hardware \<noteq> 1 \<or> ptype \<noteq> ETHERTYPE_IPV4 \<or> hlen \<noteq> 6 \<or> plen \<noteq> 4 then Some (False, s, w)
       else do {
         operation \<leftarrow> read_u16_be packet 6;
         sender_mac \<leftarrow> load_bytes packet 8 6;
         sender_ip \<leftarrow> read_u32_be packet 14;
         target_mac \<leftarrow> load_bytes packet 18 6;
         target_ip \<leftarrow> read_u32_be packet 24;
         Some (if sender_mac \<noteq> ethernet_source \<or> \<not> mac_is_valid_source sender_mac
                  \<or> \<not> ipv4_is_usable_unicast sender_ip then (False, s, w)
               else if operation = ARP_OPERATION_REQUEST then
                 if cfg_address (net_ipv4 s) = 0 \<or> target_ip \<noteq> cfg_address (net_ipv4 s) then (False, s, w)
                 else send_arp_reply E sender_mac sender_ip
                        (snd (flush_pending_ipv4 E (arp_learn sender_ip sender_mac s, w)))
               else if operation = ARP_OPERATION_REPLY then
                 if target_ip \<noteq> cfg_address (net_ipv4 s) \<or> target_mac \<noteq> net_mac s then (False, s, w)
                 else (True, snd (flush_pending_ipv4 E
                        (upd_stats (\<lambda>t. t\<lparr>arp_replies_received := arp_replies_received t + 1\<rparr>)
                           (arp_learn sender_ip sender_mac s), w)))
               else (False, s, w)) } })"

definition frame_dropped :: "net_stack \<Rightarrow> net_stack" where
  "frame_dropped = upd_stats (\<lambda>t. t\<lparr>frames_dropped := frames_dropped t + 1\<rparr>)"

definition net_input :: "'w net_env \<Rightarrow> bytes \<Rightarrow> net_stack \<times> 'w \<Rightarrow> (bool \<times> net_stack \<times> 'w) option" where
  "net_input E frame sw = (case sw of (s, w) \<Rightarrow>
     let s = upd_stats (\<lambda>t. t\<lparr>frames_received := frames_received t + 1\<rparr>) s
     in if length frame < NET_ETHERNET_HEADER_SIZE \<or> length frame > NET_ETHERNET_FRAME_MAX
        then Some (False, frame_dropped s, w)
        else do {
          destination \<leftarrow> load_bytes frame 0 6;
          source \<leftarrow> load_bytes frame 6 6;
          if (destination \<noteq> net_mac s \<and> \<not> mac_is_broadcast destination) \<or> \<not> mac_is_valid_source source
          then Some (False, frame_dropped s, w)
          else do {
            ethertype \<leftarrow> read_u16_be frame 12;
            packet \<leftarrow> load_bytes frame 14 (length frame - 14);
            (handled, s, w) \<leftarrow>
              (if ethertype = ETHERTYPE_ARP then receive_arp E source packet (s, w)
               else if ethertype = ETHERTYPE_IPV4 then receive_ipv4 E source packet (s, w)
               else Some (False, s, w));
            Some (handled, if handled then s else frame_dropped s, w) } })"

definition tick_pending_arp :: "'w net_env \<Rightarrow> net_stack \<times> 'w \<Rightarrow> net_stack \<times> 'w" where
  "tick_pending_arp E sw = (case sw of (s, w) \<Rightarrow>
     let p = pending_ipv4 s
     in if \<not> pend_valid p then (s, w)
        else let resolved = (net_arp_lookup s (pend_next_hop_ip p) \<noteq> None)
             in if current_time_ms s < pend_arp_requested_ms p \<or> current_time_ms s - pend_arp_requested_ms p < 1000 then (s, w)
                else if resolved then
                  if pend_transmit_attempts p \<ge> 3 then (s\<lparr>pending_ipv4 := p\<lparr>pend_valid := False\<rparr>\<rparr>, w)
                  else snd (flush_pending_ipv4 E (s, w))
                else if pend_arp_attempts p \<ge> 3 then (s\<lparr>pending_ipv4 := p\<lparr>pend_valid := False\<rparr>\<rparr>, w)
                else snd (net_arp_request E (pend_next_hop_ip p)
                       (s\<lparr>pending_ipv4 := p\<lparr>pend_arp_requested_ms := current_time_ms s,
                                             pend_arp_attempts := pend_arp_attempts p + 1\<rparr>\<rparr>, w)))"

definition lease_elapsed :: "net_stack \<Rightarrow> u64" where
  "lease_elapsed s = (if current_time_ms s \<ge> dhcp_lease_started_ms (net_dhcp s)
                      then current_time_ms s - dhcp_lease_started_ms (net_dhcp s) else 0)"

definition dhcp_enter :: "'w net_env \<Rightarrow> net_dhcp_state \<Rightarrow> net_stack \<times> 'w \<Rightarrow> net_stack \<times> 'w" where
  "dhcp_enter E st sw = (case sw of (s, w) \<Rightarrow>
     snd (dhcp_send_message E DHCP_MESSAGE_REQUEST True
            (s\<lparr>net_dhcp := (net_dhcp s)\<lparr>dhcp_state := st, dhcp_attempts := 0\<rparr>\<rparr>, w)))"

definition tick_dhcp_retry :: "'w net_env \<Rightarrow> net_stack \<times> 'w \<Rightarrow> net_stack \<times> 'w" where
  "tick_dhcp_retry E sw = (case sw of (s, w) \<Rightarrow>
     if \<not> deadline_reached (current_time_ms s) (dhcp_next_action_ms (net_dhcp s)) then (s, w)
     else case dhcp_state (net_dhcp s) of
       NET_DHCP_DISCOVERING \<Rightarrow> snd (dhcp_send_message E DHCP_MESSAGE_DISCOVER False (s, w))
     | NET_DHCP_REQUESTING \<Rightarrow> snd (dhcp_send_message E DHCP_MESSAGE_REQUEST False (s, w))
     | NET_DHCP_RENEWING \<Rightarrow> snd (dhcp_send_message E DHCP_MESSAGE_REQUEST True (s, w))
     | NET_DHCP_REBINDING \<Rightarrow> snd (dhcp_send_message E DHCP_MESSAGE_REQUEST True (s, w))
     | _ \<Rightarrow> (s, w))"

definition tick_dhcp :: "'w net_env \<Rightarrow> net_stack \<times> 'w \<Rightarrow> net_stack \<times> 'w" where
  "tick_dhcp E sw = (case sw of (s, w) \<Rightarrow>
     let st = dhcp_state (net_dhcp s)
     in if st = NET_DHCP_OFF then (s, w)
        else if st = NET_DHCP_BOUND then
          if lease_elapsed s \<ge> seconds_to_ms (dhcp_lease_seconds (net_dhcp s)) then dhcp_restart E (s, w)
          else if lease_elapsed s \<ge> seconds_to_ms (dhcp_renewal_seconds (net_dhcp s)) then dhcp_enter E NET_DHCP_RENEWING (s, w)
          else (s, w)
        else if (st = NET_DHCP_RENEWING \<or> st = NET_DHCP_REBINDING)
                \<and> lease_elapsed s \<ge> seconds_to_ms (dhcp_lease_seconds (net_dhcp s)) then dhcp_restart E (s, w)
        else if st = NET_DHCP_RENEWING \<and> lease_elapsed s \<ge> seconds_to_ms (dhcp_rebind_seconds (net_dhcp s))
        then dhcp_enter E NET_DHCP_REBINDING (s, w)
        else tick_dhcp_retry E (s, w))"

definition tick_dns :: "'w net_env \<Rightarrow> net_stack \<times> 'w \<Rightarrow> net_stack \<times> 'w" where
  "tick_dns E sw = (case sw of (s, w) \<Rightarrow>
     if dns_state (net_dns s) \<noteq> NET_DNS_PENDING
        \<or> \<not> deadline_reached (current_time_ms s) (dns_next_action_ms (net_dns s)) then (s, w)
     else if dns_attempts (net_dns s) \<ge> 3 then (set_dns_state NET_DNS_TIMED_OUT s, w)
     else snd (dns_send_query E (s, w)))"

definition arp_age :: "u64 \<Rightarrow> net_arp_entry \<Rightarrow> net_arp_entry" where
  "arp_age now_ms e =
     (if arp_valid e \<and> (now_ms < arp_refreshed_ms e \<or> now_ms - arp_refreshed_ms e \<ge> 120000)
      then e\<lparr>arp_valid := False\<rparr> else e)"

definition tick_echo :: "u64 \<Rightarrow> net_stack \<Rightarrow> net_stack" where
  "tick_echo now_ms s =
     (if eq_pending (echo_request s)
         \<and> (now_ms < eq_sent_ms (echo_request s) \<or> now_ms - eq_sent_ms (echo_request s) \<ge> 10000)
      then s\<lparr>echo_request := (echo_request s)\<lparr>eq_pending := False\<rparr>\<rparr> else s)"

definition net_tick :: "'w net_env \<Rightarrow> u64 \<Rightarrow> net_stack \<times> 'w \<Rightarrow> net_stack \<times> 'w" where
  "net_tick E now_ms sw = (case sw of (s, w) \<Rightarrow>
     let s = dns_cache_expire (s\<lparr>current_time_ms := now_ms\<rparr>);
         s = s\<lparr>net_arp := map (arp_age now_ms) (net_arp s)\<rparr>;
         (s, w) = tick_dns E (tick_dhcp E (tick_pending_arp E (s, w)))
     in (tick_echo now_ms s, w))"

definition tick_from_link :: "'w net_env \<Rightarrow> net_stack \<times> 'w \<Rightarrow> net_stack \<times> 'w" where
  "tick_from_link E sw = (case sw of (s, w) \<Rightarrow>
     if link_now_ms s then case env_now_ms E w of (now, w) \<Rightarrow> net_tick E now (s, w) else (s, w))"

text \<open>The receive loop: \<open>n\<close> is what is left of its budget of 32 frames.\<close>

fun poll_frames :: "'w net_env \<Rightarrow> nat \<Rightarrow> nat \<Rightarrow> net_stack \<times> 'w \<Rightarrow> (nat \<times> net_stack \<times> 'w) option" where
  "poll_frames E 0 processed sw = Some (processed, sw)"
| "poll_frames E (Suc n) processed sw = (case sw of (s, w) \<Rightarrow>
     case env_poll E w of (frame, w) \<Rightarrow>
       if frame = [] then Some (processed, s, w)
       else if length frame > NET_ETHERNET_FRAME_MAX
       then Some (processed, frame_dropped (upd_stats (\<lambda>t. t\<lparr>frames_received := frames_received t + 1\<rparr>) s), w)
       else do {
         let s = s\<lparr>receive_frame := blit (receive_frame s) 0 frame\<rparr>;
         (handled, sw) \<leftarrow> net_input E (take (length frame) (receive_frame s)) (s, w);
         poll_frames E n (if handled then processed + 1 else processed) sw })"

definition net_poll :: "'w net_env \<Rightarrow> net_stack \<times> 'w \<Rightarrow> (nat \<times> net_stack \<times> 'w) option" where
  "net_poll E sw = (case tick_from_link E sw of (s, w) \<Rightarrow>
     if \<not> link_poll s then Some (0, s, w)
     else do {
       (processed, sw) \<leftarrow> poll_frames E 32 0 (s, w);
       Some (processed, tick_from_link E sw) })"

definition zero_stats :: net_stats where
  "zero_stats = \<lparr>frames_received = 0, frames_transmitted = 0, frames_dropped = 0, arp_requests_sent = 0,
     arp_replies_received = 0, ipv4_packets_received = 0, ipv4_packets_transmitted = 0,
     icmp_echo_requests_received = 0, icmp_echo_replies_received = 0, udp_datagrams_received = 0,
     udp_datagrams_transmitted = 0\<rparr>"

definition zero_stack :: net_stack where
  "zero_stack = \<lparr>link_send = False, link_poll = False, link_now_ms = False, net_mac = zero_mac, net_ipv4 = zero_config,
     next_ipv4_id = 0, current_time_ms = 0, net_arp = replicate NET_ARP_CACHE_SIZE zero_arp_entry,
     udp_bindings = replicate NET_UDP_BINDING_COUNT empty_binding, pending_ipv4 = zero_pending, net_dhcp = zero_dhcp,
     net_dns = zero_dns, dns_cache = replicate NET_DNS_CACHE_SIZE zero_cache_entry, dns_cache_hits = 0,
     dns_cache_misses = 0, dns_cache_evictions = 0, dns_cache_expirations = 0, tcp_handler = None,
     tcp_handler_context = 0,
     echo_request = \<lparr>eq_pending = False, eq_destination_ip = 0, eq_identifier = 0, eq_sequence = 0, eq_sent_ms = 0\<rparr>,
     echo_reply = zero_echo_reply, net_stats = zero_stats,
     receive_frame = replicate NET_ETHERNET_FRAME_MAX 0, transmit_frame = replicate NET_ETHERNET_FRAME_MAX 0\<rparr>"

text \<open>\<open>has_poll\<close> and \<open>has_now\<close> say which of the optional operations the link provides.\<close>

definition net_init ::
  "'w net_env \<Rightarrow> bool \<Rightarrow> bool \<Rightarrow> bool \<Rightarrow> bytes \<Rightarrow> net_stack \<times> 'w \<Rightarrow> bool \<times> net_stack \<times> 'w" where
  "net_init E has_send has_poll has_now mac sw = (case sw of (s, w) \<Rightarrow>
     if \<not> has_send \<or> \<not> mac_is_valid_source mac then (False, s, w)
     else let s = zero_stack\<lparr>link_send := True, link_poll := has_poll, link_now_ms := has_now, net_mac := mac,
                               next_ipv4_id := 1\<rparr>
          in if has_now then case env_now_ms E w of (now, w) \<Rightarrow> (True, s\<lparr>current_time_ms := now\<rparr>, w)
             else (True, s, w))"

definition net_local_ip :: "net_stack \<Rightarrow> u32" where
  "net_local_ip s = cfg_address (net_ipv4 s)"

definition net_gateway_ip :: "net_stack \<Rightarrow> u32" where
  "net_gateway_ip s = cfg_gateway (net_ipv4 s)"

definition net_dns_ip :: "net_stack \<Rightarrow> u32" where
  "net_dns_ip s = cfg_dns (net_ipv4 s)"

definition net_dhcp_get_state :: "net_stack \<Rightarrow> net_dhcp_state" where
  "net_dhcp_get_state s = dhcp_state (net_dhcp s)"

end
