(* ===== verification/Net_Checksum.thy ===== *)
theory Net_Checksum
  imports Net_Base
begin

text \<open>
  The Internet checksum as arithmetic modulo 65535: a packet whose checksum field holds the
  checksum of the packet with that field zero verifies, for any data that is short enough for
  the 32-bit accumulator not to wrap.
\<close>

section \<open>Definitions\<close>

fun be_sum :: "bytes \<Rightarrow> nat" where
  "be_sum (a # b # rest) = unat a * 256 + unat b + be_sum rest"
| "be_sum [a] = unat a * 256"
| "be_sum [] = 0"

text \<open>Residues modulo 65535, with 65535 for the multiples other than zero.\<close>

definition ones_residue :: "nat \<Rightarrow> nat" where
  "ones_residue n = (if n = 0 then 0 else if n mod 65535 = 0 then 65535 else n mod 65535)"

section \<open>Sums\<close>

lemma unat_byte_less: "unat (a :: u8) < 256"
  using unsigned_less[of a] by simp

lemma unat_join16: "unat (push_bit 8 (ucast a) OR ucast b :: u32) = unat (a :: u8) * 256 + unat (b :: u8)"
proof -
  have "push_bit 8 (ucast a) OR ucast b = (push_bit 8 (ucast a) + ucast b :: u32)"
    by (rule disjunctive_add_eq_or[symmetric], rule bit_word_eqI) (auto simp: bit_simps dest: bit_imp_le_length)
  moreover have "unat (push_bit 8 (ucast a) :: u32) = unat a * 256"
    using unat_byte_less[of a] unfolding unsigned_push_bit_eq
    by (simp add: unsigned_ucast_eq push_bit_eq_mult take_bit_nat_eq_self)
  moreover have "unat (ucast b :: u32) = unat b" using unat_byte_less[of b] by (simp add: unsigned_ucast_eq take_bit_nat_eq_self)
  ultimately show ?thesis using unat_byte_less[of a] unat_byte_less[of b] by (simp add: unat_word_ariths)
qed

lemma be_sum_append: "even (length p) \<Longrightarrow> be_sum (p @ q) = be_sum p + be_sum q"
  by (induction p rule: be_sum.induct) auto

lemma be_sum_be16: "be_sum (be16 v) = unat v"
proof -
  have d: "unat (drop_bit 8 v) = unat v div 256" unfolding unat_drop_bit_eq by (simp add: drop_bit_eq_div)
  have "unat v div 256 < 256" using unsigned_less[of v] by (simp add: div_less_iff_less_mult)
  then have "unat (ucast (drop_bit 8 v) :: u8) = unat v div 256"
    unfolding unsigned_ucast_eq d by (simp add: take_bit_nat_eq_self)
  moreover have "unat (ucast v :: u8) = unat v mod 256" by (simp add: unsigned_ucast_eq take_bit_eq_mod)
  ultimately show ?thesis unfolding be16_def be_sum.simps by simp
qed

lemma be_sum_bound: "be_sum b \<le> 65535 * ((length b + 1) div 2)"
proof (induction b rule: be_sum.induct)
  case (1 a b rest)
  then show ?case using unat_byte_less[of a] unat_byte_less[of b] by simp
next
  case (2 a)
  then show ?case using unat_byte_less[of a] by simp
qed simp

lemma unat_checksum_add: "unat acc + be_sum b < 2 ^ 32 \<Longrightarrow> unat (checksum_add acc b) = unat acc + be_sum b"
proof (induction acc b rule: checksum_add.induct)
  case (1 acc a b rest)
  then have "unat (acc + (push_bit 8 (ucast a) OR ucast b)) = unat acc + (unat a * 256 + unat b)"
    unfolding unat_word_ariths unat_join16 by simp
  then show ?case using 1 by simp
next
  case (2 acc a)
  have "unat (push_bit 8 (ucast a) :: u32) = unat a * 256" using unat_join16[of a 0] by simp
  then show ?case using 2 by (simp add: unat_word_ariths)
qed simp

section \<open>Folding\<close>

lemma ones_residue_fold: "ones_residue (n mod 65536 + n div 65536) = ones_residue n"
proof -
  have "(n mod 65536 + n div 65536) mod 65535 = n mod 65535"
  proof -
    have "n = n div 65536 * 65535 + (n mod 65536 + n div 65536)" using div_mult_mod_eq[of n 65536] by linarith
    then show ?thesis by (metis mod_mult_self3)
  qed
  then show ?thesis by (auto simp: ones_residue_def)
qed

lemma unat_fold: "unat (checksum_fold acc) = ones_residue (unat acc)"
proof (induction acc rule: checksum_fold.induct)
  case (1 acc)
  show ?case
  proof (cases "drop_bit 16 acc = 0")
    case True
    then have "unat (drop_bit 16 acc) = 0" by simp
    then have "unat acc < 65536" unfolding unat_drop_bit_eq by (simp add: drop_bit_eq_div div_eq_0_iff)
    then have "ones_residue (unat acc) = unat acc" by (cases "unat acc = 65535") (simp_all add: ones_residue_def)
    then show ?thesis using True by (subst checksum_fold.simps) simp
  next
    case False
    then show ?thesis using 1 halves_fold(1)[OF False] ones_residue_fold[of "unat acc"] by (subst checksum_fold.simps) simp
  qed
qed

lemma ones_residue_le: "ones_residue n \<le> 65535"
  by (simp add: ones_residue_def)

lemma unat_finish: "unat (checksum_finish acc) = 65535 - ones_residue (unat acc)"
proof -
  let ?f = "checksum_fold acc"
  have f: "unat ?f \<le> 65535" using ones_residue_le unat_fold by simp
  have "NOT ?f = 0xffffffff - ?f" by (simp add: not_eq_complement)
  moreover have "?f \<le> 0xffffffff" using f by (simp add: word_le_nat_alt)
  ultimately have "unat (NOT ?f) = 4294967295 - unat ?f" by (simp add: unat_sub)
  then have "unat (ucast (NOT ?f) :: u16) = (4294967295 - unat ?f) mod 65536" by (simp add: unsigned_ucast_eq take_bit_eq_mod)
  also have "4294967295 - unat ?f = (65535 - unat ?f) + 65535 * 65536" using f by simp
  also have "\<dots> mod 65536 = 65535 - unat ?f" by (simp only: mod_mult_self1) simp
  finally show ?thesis by (simp add: checksum_finish_def unat_fold)
qed

lemma finish_zero: "checksum_finish acc = 0 \<longleftrightarrow> unat acc \<noteq> 0 \<and> unat acc mod 65535 = 0"
proof -
  have "checksum_finish acc = 0 \<longleftrightarrow> unat (checksum_finish acc) = 0" by (simp only: unsigned_eq_0_iff)
  also have "\<dots> \<longleftrightarrow> ones_residue (unat acc) = 65535" using unat_finish[of acc] ones_residue_le[of "unat acc"] by auto
  also have "\<dots> \<longleftrightarrow> unat acc \<noteq> 0 \<and> unat acc mod 65535 = 0"
    using mod_less_divisor[of 65535 "unat acc"] by (auto simp: ones_residue_def)
  finally show ?thesis .
qed

text \<open>Storing the checksum, or 65535 for it when it is zero, makes the sum verify.\<close>

lemma finish_filled:
  assumes "unat t = unat acc + unat c" and "c = checksum_finish acc \<or> checksum_finish acc = 0 \<and> c = 0xffff"
  shows "checksum_finish t = 0"
proof -
  have "(unat acc + (65535 - ones_residue (unat acc))) mod 65535 = 0" "unat acc + (65535 - ones_residue (unat acc)) \<noteq> 0"
  proof -
    have "unat acc + (65535 - unat acc mod 65535) = (unat acc div 65535 + 1) * 65535"
      using div_mult_mod_eq[of "unat acc" 65535] mod_less_divisor[of 65535 "unat acc", simplified]
      unfolding add_mult_distrib by linarith
    then have "(unat acc + (65535 - unat acc mod 65535)) mod 65535 = 0" by simp
    then show "(unat acc + (65535 - ones_residue (unat acc))) mod 65535 = 0" by (simp add: ones_residue_def)
    show "unat acc + (65535 - ones_residue (unat acc)) \<noteq> 0" by (cases "unat acc") (simp_all add: ones_residue_def)
  qed
  moreover have "(unat acc + 65535) mod 65535 = 0 \<and> unat acc + 65535 \<noteq> 0" if "checksum_finish acc = 0"
    using that by (simp add: finish_zero)
  ultimately show ?thesis unfolding finish_zero assms(1) using assms(2) unat_finish[of acc] by (elim disjE conjE) simp_all
qed

text \<open>A field at an even offset, filled with the checksum of the data with a zero field.\<close>

lemma checksum_filled:
  assumes "even (length p)" and "unat acc + be_sum p + be_sum q + 65535 < 2 ^ 32"
    and "c = checksum_finish (checksum_add acc (p @ be16 0 @ q))
      \<or> checksum_finish (checksum_add acc (p @ be16 0 @ q)) = 0 \<and> c = 0xffff"
  shows "checksum_finish (checksum_add acc (p @ be16 c @ q)) = 0"
proof (rule finish_filled[OF _ assms(3)])
  have s: "be_sum (p @ be16 v @ q) = be_sum p + unat v + be_sum q" for v
    using assms(1) by (simp add: be_sum_append be_sum_be16)
  have v: "unat (v :: u16) \<le> 65535" for v using unsigned_less[of v, where 'a = nat] by simp
  have "unat (checksum_add acc (p @ be16 v @ q)) = unat acc + (be_sum p + unat v + be_sum q)" for v
    using unat_checksum_add[of acc "p @ be16 v @ q"] s[of v] assms(2) v[of v] by simp
  from this[of c] this[of 0] show "unat (checksum_add acc (p @ be16 c @ q)) = unat (checksum_add acc (p @ be16 0 @ q)) + unat c"
    by simp
qed

lemma be_sum_small: "length b \<le> 2000 \<Longrightarrow> be_sum b \<le> 65600000"
proof -
  assume "length b \<le> 2000"
  then have "(length b + 1) div 2 \<le> 1000" by simp
  then have "65535 * ((length b + 1) div 2) \<le> 65535 * 1000" by (rule mult_le_mono2)
  then show ?thesis using be_sum_bound[of b] by simp
qed

lemma internet_checksum_filled:
  assumes "even (length p)" and "length p \<le> 2000" and "length q \<le> 2000" and "c = internet_checksum (p @ be16 0 @ q)"
  shows "internet_checksum (p @ be16 c @ q) = 0"
  unfolding internet_checksum_def
  by (rule checksum_filled) (use assms be_sum_small[of p] be_sum_small[of q] in \<open>simp_all add: internet_checksum_def\<close>)

lemma transport_checksum_filled:
  assumes "even (length p)" and "length p \<le> 2000" and "length q \<le> 2000"
    and "c = transport_checksum src dst pr (p @ be16 0 @ q) \<or> transport_checksum src dst pr (p @ be16 0 @ q) = 0 \<and> c = 0xffff"
  shows "transport_checksum src dst pr (p @ be16 c @ q) = 0"
proof -
  let ?h = "pseudo_header src dst pr (length (p @ be16 0 @ q))"
  have h: "unat (checksum_add 0 ?h) \<le> 65600000"
    using unat_checksum_add[of 0 ?h] be_sum_small[of ?h] by simp
  have "checksum_finish (checksum_add (checksum_add 0 ?h) (p @ be16 c @ q)) = 0"
    by (rule checksum_filled) (use assms h be_sum_small[of p] be_sum_small[of q] in \<open>simp_all add: transport_checksum_def\<close>)
  then show ?thesis by (simp add: transport_checksum_def)
qed

end
