(* ===== verification/Net_Wire.thy ===== *)
theory Net_Wire
  imports Net_Input Net_Checksum
begin

text \<open>
  What the stack puts on the wire: the frame an IPv4 send hands to the link driver, and that the
  stack's own input checks accept it.
\<close>

section \<open>Definitions\<close>

definition ipv4_checksum :: "nat \<Rightarrow> u16 \<Rightarrow> u8 \<Rightarrow> u32 \<Rightarrow> u32 \<Rightarrow> u16" where
  "ipv4_checksum n ident protocol src dst = internet_checksum (ipv4_header n ident protocol 0 src dst)"

definition ipv4_packet :: "u16 \<Rightarrow> u8 \<Rightarrow> u32 \<Rightarrow> u32 \<Rightarrow> bytes \<Rightarrow> bytes" where
  "ipv4_packet ident protocol src dst payload =
     ipv4_header (length payload) ident protocol (ipv4_checksum (length payload) ident protocol src dst) src dst @ payload"

definition udp_checksum :: "u32 \<Rightarrow> u32 \<Rightarrow> u16 \<Rightarrow> u16 \<Rightarrow> bytes \<Rightarrow> u16" where
  "udp_checksum src dst sp dp data =
     (let c = transport_checksum src dst NET_IPV4_PROTOCOL_UDP (udp_segment sp dp 0 data) in if c = 0 then 0xffff else c)"

text \<open>Frames the driver may be given: within the link's limits, from this host, and, for IPv4, a
  packet the input checks accept.\<close>

definition tx_ok :: "bytes \<Rightarrow> bytes \<Rightarrow> bool" where
  "tx_ok m f \<longleftrightarrow> NET_ETHERNET_HEADER_SIZE \<le> length f \<and> length f \<le> NET_ETHERNET_FRAME_MAX \<and> take 6 (drop 6 f) = m
     \<and> (read_u16_be f 12 = Some ETHERTYPE_IPV4 \<longrightarrow> ipv4_check_header (drop 14 f) = Some (Some (20, length f - 14)))"

text \<open>Handing a frame over, from a stack whose transmit buffer was left as \<open>F\<close>.\<close>

definition hand_over :: "'w net_env \<Rightarrow> bytes \<Rightarrow> (net_stats \<Rightarrow> net_stats) \<Rightarrow> net_stack \<times> 'w \<Rightarrow> bool \<times> net_stack \<times> 'w" where
  "hand_over E frame st sw = (case sw of (s, w) \<Rightarrow>
     if \<not> link_send s then (False, s, w)
     else case env_send E frame w of
       (False, w) \<Rightarrow> (False, s, w)
     | (True, w) \<Rightarrow> (True, upd_stats st (upd_stats (\<lambda>t. t\<lparr>frames_transmitted := frames_transmitted t + 1\<rparr>) s), w))"

section \<open>Stores into the frame\<close>

lemma blit_mid: "length p = i \<Longrightarrow> length x = length y \<Longrightarrow> blit (p @ x @ q) i y = p @ y @ q"
  by (simp add: blit_def)

lemma blit_over: "length p = i \<Longrightarrow> length y \<le> length q \<Longrightarrow> blit (p @ q) i y = p @ y @ drop (length y) q"
  by (simp add: blit_def)

lemma length_headers [simp]:
  "length (ipv4_header n i pr c src dst) = 20"
  "length d = 6 \<Longrightarrow> length m = 6 \<Longrightarrow> length (ethernet_header d m ty) = 14"
  "length sm = 6 \<Longrightarrow> length tm = 6 \<Longrightarrow> length (arp_packet op sm si tm ti) = 28"
  "length (udp_segment sp dp c data) = 8 + length data"
  by (simp_all add: ipv4_header_def ethernet_header_def arp_packet_def udp_segment_def)

lemma ipv4_header_split:
  "ipv4_header n i pr c src dst
   = ([0x45, 0] @ be16 (of_nat (20 + n)) @ be16 i @ be16 0x4000 @ [64, pr]) @ be16 c @ (be32 src @ be32 dst)"
  by (simp add: ipv4_header_def)

lemma udp_segment_split:
  "udp_segment sp dp c data = (be16 sp @ be16 dp @ be16 (of_nat (8 + length data))) @ be16 c @ data"
  by (simp add: udp_segment_def)

lemma ipv4_checksum_valid:
  "internet_checksum (ipv4_header n i pr (ipv4_checksum n i pr src dst) src dst) = 0"
  unfolding ipv4_header_split by (rule internet_checksum_filled) (simp_all add: ipv4_checksum_def ipv4_header_split)

lemma udp_checksum_valid_sent:
  assumes "length data \<le> NET_UDP_PAYLOAD_MAX"
  shows "udp_checksum_valid src dst (udp_segment sp dp (udp_checksum src dst sp dp data) data) = Some True"
proof -
  have "transport_checksum src dst NET_IPV4_PROTOCOL_UDP (udp_segment sp dp (udp_checksum src dst sp dp data) data) = 0"
    unfolding udp_segment_split
    by (rule transport_checksum_filled) (use assms in \<open>simp_all add: udp_checksum_def udp_segment_split Let_def\<close>)
  moreover obtain v where "read_u16_be (udp_segment sp dp (udp_checksum src dst sp dp data) data) 6 = Some v"
    using read_u16_be_in[of 6 "udp_segment sp dp (udp_checksum src dst sp dp data) data"] by auto
  ultimately show ?thesis by (simp add: udp_checksum_valid_def)
qed

lemma read_u16_be_at: "length p = i \<Longrightarrow> read_u16_be (p @ be16 v @ q) i = Some v"
  using read_be16[of p v q] by simp

lemma read_u32_be_at: "length p = i \<Longrightarrow> read_u32_be (p @ be32 v @ q) i = Some v"
  using read_be32[of p v q] by simp

lemma ipv4_packet_accepted:
  assumes "length payload \<le> NET_IPV4_PAYLOAD_MAX"
  shows "ipv4_check_header (ipv4_packet i pr src dst payload) = Some (Some (20, 20 + length payload))"
proof -
  let ?n = "length payload"
  let ?c = "ipv4_checksum ?n i pr src dst"
  let ?h = "ipv4_header ?n i pr ?c src dst"
  let ?p = "ipv4_packet i pr src dst payload"
  have p: "?p = ?h @ payload" by (simp add: ipv4_packet_def)
  have r2: "read_u16_be ?p 2 = Some (of_nat (20 + ?n))"
    unfolding p ipv4_header_def using read_u16_be_at[of "[0x45, 0]" 2 "of_nat (20 + ?n)"] by simp
  have r6: "read_u16_be ?p 6 = Some 0x4000"
    unfolding p ipv4_header_def using read_u16_be_at[of "[0x45, 0] @ be16 (of_nat (20 + ?n)) @ be16 i" 6 "0x4000"] by simp
  have l: "load8 ?p 0 = Some 0x45" "load8 ?p 8 = Some 64" "load_bytes ?p 0 20 = Some ?h"
    unfolding p by (simp_all add: load8_def load_bytes_def ipv4_header_def nth_append be16_def)
  have t: "unat (of_nat (20 + ?n) :: u16) = 20 + ?n" using assms unfolding unat_of_nat by (simp add: take_bit_nat_eq_self)
  show ?thesis
    unfolding ipv4_check_header_def r2 r6 l
    using t[simplified] l(3) by (simp add: p ipv4_checksum_valid Let_def)
qed

section \<open>What an IPv4 send hands to the driver\<close>

lemma ethernet_frame_ok:
  assumes "length d = 6" and "length m = 6" and "length body \<le> 1500"
    and "ty = ETHERTYPE_IPV4 \<Longrightarrow> ipv4_check_header body = Some (Some (20, length body))"
  shows "tx_ok m (ethernet_header d m ty @ body)"
proof -
  have "read_u16_be (ethernet_header d m ty @ body) 12 = Some ty"
    using read_u16_be_at[of "d @ m" 12 ty body] assms by (simp add: ethernet_header_def)
  then show ?thesis using assms by (simp add: tx_ok_def) (simp add: ethernet_header_def)
qed

lemma ipv4_frame_ok:
  "length d = 6 \<Longrightarrow> length m = 6 \<Longrightarrow> length payload \<le> NET_IPV4_PAYLOAD_MAX \<Longrightarrow>
   tx_ok m (ethernet_header d m ETHERTYPE_IPV4 @ ipv4_packet i pr src dst payload)"
  by (rule ethernet_frame_ok) (auto simp: ipv4_packet_accepted, simp_all add: ipv4_packet_def)

lemma arp_frame_ok:
  "length d = 6 \<Longrightarrow> length m = 6 \<Longrightarrow> length tm = 6 \<Longrightarrow>
   tx_ok m (ethernet_header d m ETHERTYPE_ARP @ arp_packet op m si tm ti)"
  by (rule ethernet_frame_ok) auto

text \<open>The transmit buffer after the stores of \<open>send_ipv4_with_mac\<close>.\<close>

lemma ipv4_stores:
  assumes "length (transmit_frame s) = NET_ETHERNET_FRAME_MAX" and "length d = 6" and "length (net_mac s) = 6"
    and "length payload \<le> NET_IPV4_PAYLOAD_MAX"
  defines "src \<equiv> cfg_address (net_ipv4 s)"
  defines "i \<equiv> next_ipv4_id s"
  shows "\<exists>F. length F = NET_ETHERNET_FRAME_MAX
    \<and> take (34 + length payload) F = ethernet_header d (net_mac s) ETHERTYPE_IPV4 @ ipv4_packet i pr src dst payload
    \<and> (let s1 = write_ethernet_header d ETHERTYPE_IPV4 s; s2 = s1\<lparr>next_ipv4_id := next_ipv4_id s1 + 1\<rparr>;
           s3 = tx_put 14 (ipv4_header (length payload) (next_ipv4_id s1) pr 0 (cfg_address (net_ipv4 s2)) dst) s2;
           c = internet_checksum (take NET_IPV4_HEADER_MIN_SIZE (drop 14 (transmit_frame s3)))
       in tx_put 34 payload (tx_put 24 (be16 c) s3) = s\<lparr>transmit_frame := F, next_ipv4_id := i + 1\<rparr>)"
proof -
  let ?f = "transmit_frame s" and ?n = "length payload"
  define e where "e = ethernet_header d (net_mac s) ETHERTYPE_IPV4"
  define h1 where "h1 = [0x45, 0] @ be16 (of_nat (20 + ?n)) @ be16 i @ be16 0x4000 @ [64, pr]"
  define h2 where "h2 = be32 src @ be32 dst"
  define r where "r = drop 34 ?f"
  define c where "c = ipv4_checksum ?n i pr src dst"
  have lens: "length e = 14" "length h1 = 10" "length h2 = 8" "length r = 1480"
    using assms by (simp_all add: e_def h1_def h2_def r_def)
  have h: "ipv4_header ?n i pr v src dst = h1 @ be16 v @ h2" for v by (simp add: ipv4_header_split h1_def h2_def)
  have b1: "blit ?f 0 e = e @ drop 14 ?f" using lens by (simp add: blit_def)
  have b2: "blit (e @ drop 14 ?f) 14 (h1 @ be16 0 @ h2) = e @ h1 @ be16 0 @ h2 @ r"
    using lens by (simp add: blit_def r_def)
  have c: "internet_checksum (take 20 (drop 14 (e @ h1 @ be16 0 @ h2 @ r))) = c"
    using lens by (simp add: c_def ipv4_checksum_def h)
  have b3: "blit (e @ h1 @ be16 0 @ h2 @ r) 24 (be16 c) = e @ h1 @ be16 c @ h2 @ r"
    using blit_mid[of "e @ h1" 24 "be16 0" "be16 c" "h2 @ r"] lens by simp
  have b4: "blit (e @ h1 @ be16 c @ h2 @ r) 34 payload = e @ h1 @ be16 c @ h2 @ payload @ drop ?n r"
    using blit_over[of "e @ h1 @ be16 c @ h2" 34 payload r] lens assms(4) by simp
  let ?F = "e @ h1 @ be16 c @ h2 @ payload @ drop ?n r"
  have "length ?F = 1514" using lens assms(4) by simp
  moreover have "take (34 + ?n) ?F = e @ ipv4_packet i pr src dst payload"
    using lens by (simp add: ipv4_packet_def h flip: c_def)
  moreover have "tx_put 34 payload (tx_put 24 (be16 c) (tx_put 14 (h1 @ be16 0 @ h2)
      ((tx_put 0 e s)\<lparr>next_ipv4_id := i + 1\<rparr>))) = s\<lparr>transmit_frame := ?F, next_ipv4_id := i + 1\<rparr>"
    by (simp add: tx_put_def b1 b2 b3 b4)
  ultimately show ?thesis
    using c by (intro exI[of _ ?F]) (simp add: Let_def write_ethernet_header_def tx_put_def b1 b2 h e_def[symmetric]
      src_def[symmetric] i_def[symmetric])
qed

lemma link_transmit_hand_over:
  assumes "NET_ETHERNET_HEADER_SIZE \<le> n" and "n \<le> NET_ETHERNET_FRAME_MAX"
  shows "(case link_transmit E n (s, w) of (False, sw) \<Rightarrow> (False, sw) | (True, s, w) \<Rightarrow> (True, upd_stats st s, w))
    = hand_over E (take n (transmit_frame s)) st (s, w)"
  using assms by (auto simp: link_transmit_def hand_over_def split: prod.splits bool.splits)

lemma send_ipv4_with_mac_sends:
  assumes "length (transmit_frame s) = NET_ETHERNET_FRAME_MAX" and "length d = 6" and "length (net_mac s) = 6"
    and "length payload \<le> NET_IPV4_PAYLOAD_MAX"
  shows "\<exists>F. length F = NET_ETHERNET_FRAME_MAX \<and> send_ipv4_with_mac E dst pr payload d (s, w)
    = hand_over E (ethernet_header d (net_mac s) ETHERTYPE_IPV4 @ ipv4_packet (next_ipv4_id s) pr (cfg_address (net_ipv4 s)) dst payload)
        (\<lambda>t. t\<lparr>ipv4_packets_transmitted := ipv4_packets_transmitted t + 1\<rparr>)
        (s\<lparr>transmit_frame := F, next_ipv4_id := next_ipv4_id s + 1\<rparr>, w)"
proof -
  obtain F where F: "length F = NET_ETHERNET_FRAME_MAX"
    "take (34 + length payload) F = ethernet_header d (net_mac s) ETHERTYPE_IPV4
       @ ipv4_packet (next_ipv4_id s) pr (cfg_address (net_ipv4 s)) dst payload"
    "let s1 = write_ethernet_header d ETHERTYPE_IPV4 s; s2 = s1\<lparr>next_ipv4_id := next_ipv4_id s1 + 1\<rparr>;
         s3 = tx_put 14 (ipv4_header (length payload) (next_ipv4_id s1) pr 0 (cfg_address (net_ipv4 s2)) dst) s2;
         c = internet_checksum (take NET_IPV4_HEADER_MIN_SIZE (drop 14 (transmit_frame s3)))
     in tx_put 34 payload (tx_put 24 (be16 c) s3) = s\<lparr>transmit_frame := F, next_ipv4_id := next_ipv4_id s + 1\<rparr>"
    using ipv4_stores[OF assms, of pr dst] by blast
  have "send_ipv4_with_mac E dst pr payload d (s, w)
    = (case link_transmit E (34 + length payload) (s\<lparr>transmit_frame := F, next_ipv4_id := next_ipv4_id s + 1\<rparr>, w) of
         (False, sw) \<Rightarrow> (False, sw)
       | (True, s, w) \<Rightarrow> (True, upd_stats (\<lambda>t. t\<lparr>ipv4_packets_transmitted := ipv4_packets_transmitted t + 1\<rparr>) s, w))"
    using assms(4) F(3) unfolding send_ipv4_with_mac_def Let_def by simp
  also have "\<dots> = hand_over E (take (34 + length payload) F) (\<lambda>t. t\<lparr>ipv4_packets_transmitted := ipv4_packets_transmitted t + 1\<rparr>)
        (s\<lparr>transmit_frame := F, next_ipv4_id := next_ipv4_id s + 1\<rparr>, w)"
    using assms(4) by (subst link_transmit_hand_over) simp_all
  finally show ?thesis using F(1) unfolding F(2) by blast
qed

lemma arp_stores:
  assumes "length (transmit_frame s) = NET_ETHERNET_FRAME_MAX" and "length d = 6" and "length (net_mac s) = 6" and "length tm = 6"
  shows "\<exists>F. length F = NET_ETHERNET_FRAME_MAX
    \<and> take 42 F = ethernet_header d (net_mac s) ETHERTYPE_ARP @ arp_packet op (net_mac s) (cfg_address (net_ipv4 s)) tm ti
    \<and> tx_put 14 (arp_packet op (net_mac (write_ethernet_header d ETHERTYPE_ARP s))
          (cfg_address (net_ipv4 (write_ethernet_header d ETHERTYPE_ARP s))) tm ti) (write_ethernet_header d ETHERTYPE_ARP s)
      = s\<lparr>transmit_frame := F\<rparr>"
proof -
  let ?e = "ethernet_header d (net_mac s) ETHERTYPE_ARP" and ?a = "arp_packet op (net_mac s) (cfg_address (net_ipv4 s)) tm ti"
  let ?F = "?e @ ?a @ drop 42 (transmit_frame s)"
  have lens: "length ?e = 14" "length ?a = 28" using assms by simp_all
  have b: "blit (transmit_frame s) 0 ?e = ?e @ drop 14 (transmit_frame s)" unfolding blit_def lens by simp
  have "blit (?e @ drop 14 (transmit_frame s)) 14 ?a = ?F" unfolding blit_def lens by (simp add: lens assms)
  then show ?thesis using assms lens b
    by (intro exI[of _ ?F]) (simp add: tx_put_def write_ethernet_header_def)
qed

lemma net_arp_request_sends:
  assumes "length (transmit_frame s) = NET_ETHERNET_FRAME_MAX" and "length (net_mac s) = 6"
  shows "\<exists>F. length F = NET_ETHERNET_FRAME_MAX \<and> net_arp_request E ip (s, w)
    = (if \<not> link_send s \<or> cfg_address (net_ipv4 s) = 0 \<or> \<not> ipv4_is_usable_unicast ip then (False, s, w)
       else hand_over E (ethernet_header broadcast_mac (net_mac s) ETHERTYPE_ARP
              @ arp_packet ARP_OPERATION_REQUEST (net_mac s) (cfg_address (net_ipv4 s)) zero_mac ip)
              (\<lambda>t. t\<lparr>arp_requests_sent := arp_requests_sent t + 1\<rparr>) (s\<lparr>transmit_frame := F\<rparr>, w))"
proof -
  obtain F where F: "length F = NET_ETHERNET_FRAME_MAX"
    "take 42 F = ethernet_header broadcast_mac (net_mac s) ETHERTYPE_ARP @ arp_packet ARP_OPERATION_REQUEST (net_mac s) (cfg_address (net_ipv4 s)) zero_mac ip"
    "tx_put 14 (arp_packet ARP_OPERATION_REQUEST (net_mac (write_ethernet_header broadcast_mac ETHERTYPE_ARP s))
       (cfg_address (net_ipv4 (write_ethernet_header broadcast_mac ETHERTYPE_ARP s))) zero_mac ip)
       (write_ethernet_header broadcast_mac ETHERTYPE_ARP s) = s\<lparr>transmit_frame := F\<rparr>"
    using arp_stores[OF assms(1) _ assms(2), of broadcast_mac zero_mac ARP_OPERATION_REQUEST ip]
    by (auto simp: broadcast_mac_def zero_mac_def)
  have h: "hand_over E (take 42 F) (\<lambda>t. t\<lparr>arp_requests_sent := arp_requests_sent t + 1\<rparr>) (s\<lparr>transmit_frame := F\<rparr>, w)
    = (case link_transmit E 42 (s\<lparr>transmit_frame := F\<rparr>, w) of (False, sw) \<Rightarrow> (False, sw)
       | (True, s, w) \<Rightarrow> (True, upd_stats (\<lambda>t. t\<lparr>arp_requests_sent := arp_requests_sent t + 1\<rparr>) s, w))"
    by (subst link_transmit_hand_over) simp_all
  have "net_arp_request E ip (s, w)
    = (if \<not> link_send s \<or> cfg_address (net_ipv4 s) = 0 \<or> \<not> ipv4_is_usable_unicast ip then (False, s, w)
       else hand_over E (take 42 F) (\<lambda>t. t\<lparr>arp_requests_sent := arp_requests_sent t + 1\<rparr>) (s\<lparr>transmit_frame := F\<rparr>, w))"
    unfolding net_arp_request_def Let_def prod.case F(3) h by simp
  then show ?thesis using F(1) unfolding F(2) by blast
qed

lemma send_arp_reply_sends:
  assumes "length (transmit_frame s) = NET_ETHERNET_FRAME_MAX" and "length (net_mac s) = 6" and "length d = 6"
  shows "\<exists>F. length F = NET_ETHERNET_FRAME_MAX \<and> send_arp_reply E d ip (s, w)
    = hand_over E (ethernet_header d (net_mac s) ETHERTYPE_ARP @ arp_packet ARP_OPERATION_REPLY (net_mac s) (cfg_address (net_ipv4 s)) d ip)
        (\<lambda>t. t) (s\<lparr>transmit_frame := F\<rparr>, w)"
proof -
  obtain F where F: "length F = NET_ETHERNET_FRAME_MAX"
    "take 42 F = ethernet_header d (net_mac s) ETHERTYPE_ARP @ arp_packet ARP_OPERATION_REPLY (net_mac s) (cfg_address (net_ipv4 s)) d ip"
    "tx_put 14 (arp_packet ARP_OPERATION_REPLY (net_mac (write_ethernet_header d ETHERTYPE_ARP s))
       (cfg_address (net_ipv4 (write_ethernet_header d ETHERTYPE_ARP s))) d ip) (write_ethernet_header d ETHERTYPE_ARP s)
     = s\<lparr>transmit_frame := F\<rparr>"
    using arp_stores[OF assms(1,3,2,3), of ARP_OPERATION_REPLY ip] by blast
  have "send_arp_reply E d ip (s, w) = link_transmit E 42 (s\<lparr>transmit_frame := F\<rparr>, w)"
    unfolding send_arp_reply_def Let_def prod.case F(3) by simp
  also have "\<dots> = hand_over E (take 42 F) (\<lambda>t. t) (s\<lparr>transmit_frame := F\<rparr>, w)"
    by (auto simp: link_transmit_def hand_over_def upd_stats_def split: prod.splits bool.splits)
  finally show ?thesis using F(1) unfolding F(2) by blast
qed

end
