(* ===== verification/Net_Dns_Safe.thy ===== *)
theory Net_Dns_Safe
  imports Net_Dns
begin

text \<open>
  What the resolver's parsers deliver for any message whatever, and what the resolver keeps true
  of its state: names fit their buffers, answers are usable addresses, the cache holds one entry
  per name.
\<close>

section \<open>Definitions\<close>

text \<open>A parser result: there is one, and what it accepts satisfies \<open>Q\<close>.\<close>

definition parses :: "'a option option \<Rightarrow> ('a \<Rightarrow> bool) \<Rightarrow> bool" where
  "parses r Q \<longleftrightarrow> (\<exists>v. r = Some v \<and> (\<forall>x. v = Some x \<longrightarrow> Q x))"

definition expanded_ok :: "bytes \<Rightarrow> bytes \<times> nat \<Rightarrow> bool" where
  "expanded_ok message r \<longleftrightarrow> length (fst r) \<le> NET_DNS_NAME_MAX \<and> snd r \<le> length message"

definition record_ok :: "bytes \<Rightarrow> dns_record_view \<Rightarrow> bool" where
  "record_ok message r \<longleftrightarrow> data_offset r + unat (data_size r) = next_offset r \<and> next_offset r \<le> length message"

definition scan_ok :: "answer_scan \<Rightarrow> bool" where
  "scan_ok st \<longleftrightarrow> (\<forall>a t. found_address st = Some (a, t) \<longrightarrow> ipv4_is_usable_unicast a)
     \<and> (\<forall>n t. found_cname st = Some (n, t) \<longrightarrow> length n \<le> NET_DNS_NAME_MAX)"

definition answer_ok :: "dns_answer \<Rightarrow> bool" where
  "answer_ok a \<longleftrightarrow> (case a of DNS_ANSWER_ADDRESS ip ttl n \<Rightarrow> ipv4_is_usable_unicast ip | _ \<Rightarrow> True)"

definition cache_entry_ok :: "net_dns_cache_entry \<Rightarrow> bool" where
  "cache_entry_ok e \<longleftrightarrow> length (ce_name e) \<le> NET_DNS_NAME_MAX
     \<and> (ce_valid e \<longrightarrow> (if ce_negative e then ce_address e = 0 else ipv4_is_usable_unicast (ce_address e)))"

definition cache_keys :: "net_dns_cache_entry list \<Rightarrow> bytes list" where
  "cache_keys es = map (\<lambda>e. map ascii_lower (ce_name e)) (filter ce_valid es)"

definition cache_wf :: "net_dns_cache_entry list \<Rightarrow> bool" where
  "cache_wf es \<longleftrightarrow> length es = NET_DNS_CACHE_SIZE \<and> list_all cache_entry_ok es \<and> distinct (cache_keys es)"

definition dns_wf :: "net_stack \<Rightarrow> bool" where
  "dns_wf s \<longleftrightarrow> length (dns_name (net_dns s)) \<le> NET_DNS_NAME_MAX \<and> cache_wf (dns_cache s)
     \<and> (dns_state (net_dns s) = NET_DNS_RESOLVED \<longrightarrow> ipv4_is_usable_unicast (dns_result_address (net_dns s)))"

text \<open>Nothing but the resolver's own fields differs.\<close>

definition dns_frame :: "net_stack \<Rightarrow> net_stack \<Rightarrow> bool" where
  "dns_frame s s' \<longleftrightarrow> s'\<lparr>net_dns := net_dns s, dns_cache := dns_cache s, dns_cache_hits := dns_cache_hits s,
     dns_cache_misses := dns_cache_misses s, dns_cache_evictions := dns_cache_evictions s,
     dns_cache_expirations := dns_cache_expirations s\<rparr> = s"

text \<open>The state after a response: finished, well formed, otherwise unchanged, and an address it
  resolved to was offered to the cache.\<close>

definition dns_done :: "net_stack \<Rightarrow> net_stack \<Rightarrow> bool" where
  "dns_done s s' \<longleftrightarrow> dns_wf s' \<and> dns_frame s s' \<and> dns_name (net_dns s') = dns_name (net_dns s)
     \<and> dns_state (net_dns s') \<in> {NET_DNS_RESOLVED, NET_DNS_NOT_FOUND, NET_DNS_MALFORMED_RESPONSE, NET_DNS_SERVER_ERROR}
     \<and> (dns_state (net_dns s') = NET_DNS_RESOLVED \<longrightarrow> (\<exists>t. dns_cache t = dns_cache s \<and> current_time_ms t = current_time_ms s
          \<and> dns_cache_store (dns_name (net_dns s)) False (dns_result_address (net_dns s')) 0 (dns_ttl_seconds (net_dns s')) t = Some s'))"

text \<open>A name as its labels.\<close>

definition label_ok :: "bytes \<Rightarrow> bool" where
  "label_ok l \<longleftrightarrow> l \<noteq> [] \<and> length l \<le> 63 \<and> \<not> list_ex label_char_bad l \<and> CHAR_DOT \<notin> set l"

fun join_labels :: "bytes list \<Rightarrow> bytes" where
  "join_labels [] = []"
| "join_labels [l] = l"
| "join_labels (l # ls) = l @ CHAR_DOT # join_labels ls"

definition encode_all :: "bytes list \<Rightarrow> bytes" where
  "encode_all ls = concat (map (\<lambda>l. of_nat (length l) # l) ls)"

declare follow_aliases.simps [simp del]

section \<open>The parsers never fault\<close>

lemma parses_simps [simp]: "parses (Some None) Q" "parses (Some (Some x)) Q \<longleftrightarrow> Q x" "\<not> parses None Q"
  by (auto simp: parses_def)

lemma parses_bind:
  assumes "parses r P" and "f None = Some None" and "\<And>x. P x \<Longrightarrow> parses (f (Some x)) Q"
  shows "parses (Option.bind r f) Q"
proof -
  obtain v where "r = Some v" "\<forall>x. v = Some x \<longrightarrow> P x" using assms(1) by (auto simp: parses_def)
  with assms(2,3) show ?thesis by (cases v) auto
qed

lemma parses_read:
  "i + 2 \<le> length b \<Longrightarrow> (\<And>v. parses (f16 v) Q) \<Longrightarrow> parses (Option.bind (read_u16_be b i) f16) Q"
  "i + 4 \<le> length b \<Longrightarrow> (\<And>v. parses (f32 v) Q) \<Longrightarrow> parses (Option.bind (read_u32_be b i) f32) Q"
  using read_u16_be_in[of i b] read_u32_be_in[of i b] by auto

lemma parses_mono: "parses r P \<Longrightarrow> (\<And>x. P x \<Longrightarrow> Q x) \<Longrightarrow> parses r Q"
  by (auto simp: parses_def)

lemma name_store_in: "length n \<le> NET_DNS_NAME_MAX \<Longrightarrow> name_store n = Some n"
  by (simp add: name_store_def)

lemma expand_loop_parses:
  "length out \<le> NET_DNS_NAME_MAX \<Longrightarrow> (\<forall>r. resume = Some r \<longrightarrow> r \<le> length message) \<Longrightarrow>
   parses (expand_loop n message cursor out resume) (expanded_ok message)"
proof (induction n arbitrary: cursor out resume)
  case (Suc n)
  let ?len = "message ! cursor"
  let ?out = "if out \<noteq> [] then out @ [CHAR_DOT] else out"
  show ?case
  proof (cases "cursor < length message")
    case True
    then have len: "load8 message cursor = Some ?len" by (simp add: load8_in)
    consider "?len AND 0xc0 = 0xc0" | "?len AND 0xc0 \<noteq> 0xc0" "?len = 0" | "?len AND 0xc0 \<noteq> 0xc0" "?len \<noteq> 0" by blast
    then show ?thesis
    proof cases
      case 1
      have "parses (expand_loop n message p out (Some (case resume of None \<Rightarrow> cursor + 2 | Some r \<Rightarrow> r))) (expanded_ok message)"
        if "cursor + 1 < length message" for p
        using that Suc.prems by (intro Suc.IH) (auto split: option.splits)
      then show ?thesis using 1 True by (simp add: len load8_in Let_def)
    next
      case 2
      then show ?thesis using True Suc.prems
        by (auto simp: len name_store_in expanded_ok_def split: option.splits)
    next
      case 3
      have "parses (expand_loop n message (cursor + 1 + unat ?len) (?out @ l) resume) (expanded_ok message)"
        if "length (?out @ l) \<le> NET_DNS_NAME_MAX" for l
        using that Suc.prems(2) by (intro Suc.IH) simp_all
      then show ?thesis using 3 True Suc.prems
        by (auto simp: len load_bytes_in name_store_in Let_def)
    qed
  qed simp
qed simp

lemma expand_name_parses: "parses (dns_expand_name message offset) (expanded_ok message)"
  unfolding dns_expand_name_def by (rule expand_loop_parses) simp_all

lemma skip_name_parses: "parses (dns_skip_name message offset) (\<lambda>n. n \<le> length message)"
  using expand_name_parses[of message offset] by (auto simp: dns_skip_name_def parses_def expanded_ok_def)

lemma read_record_parses: "parses (dns_read_record message offset) (record_ok message)"
proof (cases "offset < length message")
  case True
  then show ?thesis
    unfolding dns_read_record_def
    by (auto intro!: parses_bind[OF skip_name_parses] parses_read simp: record_ok_def, linarith+)
qed (simp add: dns_read_record_def)

lemma read_records_parses:
  "offset \<le> length message \<Longrightarrow> parses (read_records n message offset) (\<lambda>o'. o' \<le> length message)"
  by (induction n arbitrary: offset) (auto intro!: parses_bind[OF read_record_parses] simp: record_ok_def)

lemma sections_parse:
  assumes "offset \<le> length message"
  shows "parses (dns_validate_record_sections message offset a b c) (\<lambda>o'. o' \<le> length message)"
  unfolding dns_validate_record_sections_def
  by (rule parses_bind[OF read_records_parses[OF assms]], simp, simp,
      rule parses_bind[OF read_records_parses], simp, simp, simp,
      rule parses_bind[OF read_records_parses], simp_all)

lemma read_record_data:
  assumes "record_ok message r" shows "data_size r = 4 \<Longrightarrow> \<exists>v. read_u32_be message (data_offset r) = Some v"
  using assms by (intro read_u32_be_in) (auto simp: record_ok_def)

lemma scan_address_parses:
  assumes "record_ok message r" and "scan_ok st" shows "parses (scan_address message r st) scan_ok"
  using read_record_data[OF assms(1)] assms(2)
  by (auto simp: scan_address_def scan_ok_def split: option.splits)

lemma scan_cname_parses:
  assumes "scan_ok st" shows "parses (scan_cname message r st) scan_ok"
  unfolding scan_cname_def using assms expand_name_parses[of message "data_offset r"]
  by (auto simp: parses_def scan_ok_def expanded_ok_def split: option.splits)

lemma scan_answers_parses:
  "scan_ok st \<Longrightarrow> parses (scan_answers n message offset name st) scan_ok"
proof (induction n arbitrary: offset st)
  case (Suc n)
  show ?case
    unfolding scan_answers.simps
    by (rule parses_bind[OF read_record_parses], simp,
        auto intro!: parses_bind[OF expand_name_parses] parses_bind[where P = scan_ok] scan_address_parses scan_cname_parses
          Suc simp: Suc.prems)
qed simp

lemma follow_aliases_total:
  "length name \<le> NET_DNS_NAME_MAX \<Longrightarrow>
   \<exists>ans. follow_aliases n message offset count name ttl = Some ans \<and> answer_ok ans"
proof (induction n arbitrary: name ttl)
  case 0
  have "parses (scan_answers (unat count) message offset name \<lparr>found_address = None, found_cname = None\<rparr>) scan_ok"
    by (rule scan_answers_parses) (simp add: scan_ok_def)
  then show ?case using 0
    by (subst follow_aliases.simps)
       (auto simp: parses_def scan_ok_def answer_ok_def name_store_in split: option.splits prod.splits)
next
  case (Suc n)
  have "parses (scan_answers (unat count) message offset name \<lparr>found_address = None, found_cname = None\<rparr>) scan_ok"
    by (rule scan_answers_parses) (simp add: scan_ok_def)
  then obtain v where v: "scan_answers (unat count) message offset name \<lparr>found_address = None, found_cname = None\<rparr> = Some v"
    "\<forall>st. v = Some st \<longrightarrow> scan_ok st" by (auto simp: parses_def)
  show ?case
  proof (cases v)
    case None
    then show ?thesis using v by (subst follow_aliases.simps) (simp add: answer_ok_def)
  next
    case (Some st)
    then have ok: "scan_ok st" using v by simp
    have step: "length t \<le> NET_DNS_NAME_MAX \<Longrightarrow> \<exists>ans. name_store t \<bind> (\<lambda>m. follow_aliases n message offset count m u) = Some ans \<and> answer_ok ans" for t u
      using Suc.IH by (simp add: name_store_in)
    show ?thesis using v(1) Some ok Suc.prems
      by (subst follow_aliases.simps)
         (auto simp: scan_ok_def answer_ok_def[of "DNS_ANSWER_ADDRESS _ _ _"] answer_ok_def[of "DNS_ANSWER_NOT_FOUND _ _"]
            answer_ok_def[of DNS_ANSWER_MALFORMED] name_store_in split: option.splits prod.splits intro!: Suc.IH)
  qed
qed

lemma soa_ttl_parses:
  assumes "record_ok message r" shows "parses (soa_negative_ttl message r) (\<lambda>t. t \<le> NET_DNS_NEGATIVE_TTL_MAX_SECONDS)"
  unfolding soa_negative_ttl_def using assms
  by (auto intro!: parses_bind[OF expand_name_parses] parses_read simp: record_ok_def Let_def expanded_ok_def not_less, linarith)

lemma negative_ttl_total:
  "sel \<le> NET_DNS_NEGATIVE_TTL_MAX_SECONDS \<Longrightarrow>
   \<exists>t. negative_ttl_loop n message offset name sel = Some t \<and> t \<le> NET_DNS_NEGATIVE_TTL_MAX_SECONDS"
proof (induction n arbitrary: offset sel)
  case (Suc n)
  obtain r where r: "dns_read_record message offset = Some r" "\<forall>x. r = Some x \<longrightarrow> record_ok message x"
    using read_record_parses[of message offset] by (auto simp: parses_def)
  show ?case
  proof (cases r)
    case (Some x)
    obtain ow where ow: "dns_expand_name message (owner_offset x) = Some ow"
      using expand_name_parses[of message "owner_offset x"] by (auto simp: parses_def)
    obtain c where c: "soa_negative_ttl message x = Some c" "\<forall>t. c = Some t \<longrightarrow> t \<le> NET_DNS_NEGATIVE_TTL_MAX_SECONDS"
      using soa_ttl_parses[of message x] r(2) Some by (auto simp: parses_def)
    show ?thesis using r(1) Some ow c Suc.prems
      by (auto split: option.splits intro!: Suc.IH)
  qed (use r in simp)
qed simp

section \<open>The cache holds one entry per name\<close>

lemma names_equal_lower: "dns_names_equal a b \<longleftrightarrow> map ascii_lower a = map ascii_lower b"
  by (induction a b rule: dns_names_equal.induct) auto

lemma in_set_other:
  assumes "x \<in> set (take i es) \<union> set (drop (Suc i) es)"
  shows "\<exists>j < length es. j \<noteq> i \<and> x = es ! j"
  using assms
proof
  assume "x \<in> set (drop (Suc i) es)"
  then obtain k where "k < length es - Suc i" "x = es ! (Suc i + k)" by (auto simp: in_set_conv_nth)
  then show ?thesis by (intro exI[of _ "Suc i + k"]) auto
qed (auto simp: in_set_conv_nth)

lemma cache_keys_update_fresh:
  assumes "i < length es" and "distinct (cache_keys es)"
    and "\<And>j. j < length es \<Longrightarrow> j \<noteq> i \<Longrightarrow> ce_valid (es ! j) \<Longrightarrow> \<not> dns_names_equal (ce_name (es ! j)) (ce_name e)"
  shows "distinct (cache_keys (es[i := e]))"
proof -
  have sp: "es = take i es @ es ! i # drop (Suc i) es" using assms(1) by (simp add: id_take_nth_drop)
  have out: "map ascii_lower (ce_name e) \<notin> set (cache_keys (take i es)) \<union> set (cache_keys (drop (Suc i) es))"
  proof
    assume "map ascii_lower (ce_name e) \<in> set (cache_keys (take i es)) \<union> set (cache_keys (drop (Suc i) es))"
    then obtain x where x: "x \<in> set (take i es) \<union> set (drop (Suc i) es)" "ce_valid x" "dns_names_equal (ce_name x) (ce_name e)"
      by (fastforce simp: cache_keys_def names_equal_lower)
    obtain j where "j < length es" "j \<noteq> i" "x = es ! j" using in_set_other[OF x(1)] by blast
    with assms(3) x show False by blast
  qed
  have "distinct (cache_keys (take i es) @ cache_keys (drop (Suc i) es))"
    using assms(2) by (subst (asm) sp) (auto simp: cache_keys_def split: if_splits)
  then show ?thesis using out assms(1)
    by (auto simp: upd_conv_take_nth_drop cache_keys_def split: if_splits)
qed

lemma cache_wf_map_invalidate:
  "cache_wf es \<Longrightarrow> cache_wf (map (\<lambda>e. if P e then e\<lparr>ce_valid := False\<rparr> else e) es)"
proof -
  have k: "cache_keys (map (\<lambda>e. if P e then e\<lparr>ce_valid := False\<rparr> else e) es) = cache_keys (filter (\<lambda>e. \<not> P e) es)" for es
    by (induction es) (auto simp: cache_keys_def)
  have d: "distinct (cache_keys es) \<Longrightarrow> distinct (cache_keys (filter (\<lambda>e. \<not> P e) es))" for es
    by (induction es) (auto simp: cache_keys_def split: if_splits)
  assume "cache_wf es"
  then show ?thesis by (auto simp: cache_wf_def k d list_all_iff cache_entry_ok_def)
qed

lemma cache_expire_wf: "cache_wf (dns_cache s) \<Longrightarrow> cache_wf (dns_cache (dns_cache_expire s))"
  by (simp add: dns_cache_expire_def cache_wf_map_invalidate)

lemma cache_select_length:
  "(\<forall>k. sel = Some k \<longrightarrow> k < i + length es) \<Longrightarrow> cache_select es i sel old = Some k \<Longrightarrow> k < i + length es"
  by (induction es i sel old rule: cache_select.induct) (auto split: if_splits)

lemma cache_find_None:
  "dns_cache_find s name = None \<Longrightarrow> j < length (dns_cache s) \<Longrightarrow> ce_valid (dns_cache s ! j) \<Longrightarrow>
   \<not> dns_names_equal (ce_name (dns_cache s ! j)) name"
  by (auto simp: dns_cache_find_def)

lemma cache_find_unique:
  assumes "dns_cache_find s name = Some i" and "distinct (cache_keys (dns_cache s))"
    and "j < length (dns_cache s)" and "j \<noteq> i" and "ce_valid (dns_cache s ! j)"
  shows "\<not> dns_names_equal (ce_name (dns_cache s ! j)) name"
proof
  let ?es = "dns_cache s"
  assume eq: "dns_names_equal (ce_name (?es ! j)) name"
  have i: "i < length ?es" "ce_valid (?es ! i)" "dns_names_equal (ce_name (?es ! i)) name"
    using find_idx_SomeD[of _ ?es i] assms(1) by (auto simp: dns_cache_find_def)
  have same: "map ascii_lower (ce_name (?es ! j)) = map ascii_lower (ce_name (?es ! i))"
    using eq i(3) by (simp add: names_equal_lower)
  have two: "\<not> distinct (cache_keys es)" if "a < b" "b < length es" "ce_valid (es ! a)" "ce_valid (es ! b)"
    "map ascii_lower (ce_name (es ! a)) = map ascii_lower (ce_name (es ! b))" for a b es
  proof -
    have sp: "es = take b es @ es ! b # drop (Suc b) es" using that(2) by (simp add: id_take_nth_drop)
    have "es ! a \<in> set (take b es)" using that(1,2) by (auto simp: in_set_conv_nth)
    then have m: "map ascii_lower (ce_name (es ! b)) \<in> set (cache_keys (take b es))"
      unfolding cache_keys_def that(5)[symmetric] using that(3) by simp
    have "cache_keys es = cache_keys (take b es) @ map ascii_lower (ce_name (es ! b)) # cache_keys (drop (Suc b) es)"
      using arg_cong[OF sp, of cache_keys] that(4) by (simp add: cache_keys_def)
    then show ?thesis using m by simp
  qed
  show False
    using two[of i j ?es] two[of j i ?es] assms(2-5) i same by (cases "i < j") auto
qed

lemma cache_wf_update:
  assumes "cache_wf es" and "i < length es" and "cache_entry_ok e"
    and "\<And>j. j < length es \<Longrightarrow> j \<noteq> i \<Longrightarrow> ce_valid (es ! j) \<Longrightarrow> \<not> dns_names_equal (ce_name (es ! j)) (ce_name e)"
  shows "cache_wf (es[i := e])"
  using assms cache_keys_update_fresh[of i es e] set_update_subset_insert[of es i e]
  by (auto simp: cache_wf_def list_all_iff)

lemma cache_store_wf:
  assumes wf: "cache_wf (dns_cache s)" and name: "length name \<le> NET_DNS_NAME_MAX" and addr: "\<not> neg \<Longrightarrow> ipv4_is_usable_unicast a"
  shows "\<exists>s'. dns_cache_store name neg a code ttl s = Some s' \<and> cache_wf (dns_cache s') \<and> dns_frame s s' \<and> net_dns s' = net_dns s"
proof (cases "ttl = 0")
  case True
  then show ?thesis using wf by (simp add: dns_cache_store_def dns_frame_def)
next
  case False
  let ?s = "dns_cache_expire s"
  let ?found = "dns_cache_find ?s name"
  have wf': "cache_wf (dns_cache ?s)" by (rule cache_expire_wf[OF wf])
  define sel where "sel = (case ?found of Some i \<Rightarrow> Some i | None \<Rightarrow> cache_select (dns_cache ?s) 0 None UINT64_MAX)"
  show ?thesis
  proof (cases sel)
    case None
    then have "dns_cache_store name neg a code ttl s = Some ?s"
      using False unfolding dns_cache_store_def sel_def[symmetric] Let_def by simp
    then show ?thesis using wf' by (simp add: dns_frame_def dns_cache_expire_def)
  next
    case (Some i)
    have i: "i < length (dns_cache ?s)" using Some find_idx_length cache_select_length[of None 0 "dns_cache ?s" _ i]
      by (fastforce simp: sel_def dns_cache_find_def split: option.splits)
    have fresh: "\<not> dns_names_equal (ce_name (dns_cache ?s ! j)) name"
      if "j < length (dns_cache ?s)" "j \<noteq> i" "ce_valid (dns_cache ?s ! j)" for j
      using that Some cache_find_None[of ?s name j] cache_find_unique[of ?s name i j] wf'
      by (auto simp: sel_def cache_wf_def split: option.splits)
    define e where "e = \<lparr>ce_valid = True, ce_negative = neg, ce_name = name, ce_address = (if neg then 0 else a),
      ce_response_code = code, ce_expires_ms = saturating_add_u64 (current_time_ms s) (seconds_to_ms ttl),
      ce_last_used_ms = current_time_ms s\<rparr>"
    have "cache_wf ((dns_cache ?s)[i := e])"
      by (rule cache_wf_update[OF wf' i]) (use name addr fresh in \<open>auto simp: cache_entry_ok_def e_def\<close>)
    moreover have "dns_cache_store name neg a code ttl s = Some ((if ?found = None \<and> ce_valid (dns_cache ?s ! i)
        then ?s\<lparr>dns_cache_evictions := dns_cache_evictions ?s + 1\<rparr> else ?s)\<lparr>dns_cache := (dns_cache ?s)[i := e]\<rparr>)"
      using False Some name unfolding dns_cache_store_def sel_def[symmetric] Let_def
      by (simp add: name_store_in e_def dns_cache_expire_def)
    ultimately show ?thesis by (auto simp: dns_frame_def dns_cache_expire_def)
  qed
qed

section \<open>Responses\<close>

lemma dns_frame_refl [simp]: "dns_frame s s"
  by (simp add: dns_frame_def)

lemma dns_frame_trans: "dns_frame s t \<Longrightarrow> dns_frame t u \<Longrightarrow> dns_frame s u"
  unfolding dns_frame_def by (cases s, cases t, cases u) simp

lemma dns_frame_state [simp]: "dns_frame s (set_dns_state st s)" "dns_frame s (s\<lparr>net_dns := d\<rparr>)"
  by (simp_all add: dns_frame_def set_dns_state_def)

lemma dns_wf_set_state: "dns_wf s \<Longrightarrow> st \<noteq> NET_DNS_RESOLVED \<Longrightarrow> dns_wf (set_dns_state st s)"
  by (simp add: dns_wf_def set_dns_state_def)

lemma done_set_state:
  "dns_wf s \<Longrightarrow> st \<in> {NET_DNS_NOT_FOUND, NET_DNS_MALFORMED_RESPONSE, NET_DNS_SERVER_ERROR} \<Longrightarrow> dns_done s (set_dns_state st s)"
  using dns_wf_set_state[of s st] by (auto simp: dns_done_def set_dns_state_def)

lemma negative_answer_done:
  assumes "dns_wf s" shows "\<exists>s'. dns_negative_answer message ao ac ttl name s = Some s' \<and> dns_done s s'"
proof -
  obtain t where t: "dns_find_negative_ttl message ao ac name = Some t"
    using negative_ttl_total[of 0 "unat ac" message ao name] by (auto simp: dns_find_negative_ttl_def)
  define u where "u = (if t \<noteq> 0 \<and> ttl \<noteq> UINT32_MAX \<and> ttl < t then ttl else t)"
  let ?s = "s\<lparr>net_dns := (net_dns s)\<lparr>dns_ttl_seconds := u\<rparr>\<rparr>"
  have n: "length (dns_name (net_dns ?s)) \<le> NET_DNS_NAME_MAX" and c: "cache_wf (dns_cache ?s)"
    using assms by (simp_all add: dns_wf_def)
  have "\<exists>s'. (if u \<noteq> 0 then dns_cache_store (dns_name (net_dns ?s)) True 0 (dns_response_code (net_dns ?s)) u ?s else Some ?s) = Some s'
      \<and> cache_wf (dns_cache s') \<and> dns_frame ?s s' \<and> net_dns s' = net_dns ?s"
    using cache_store_wf[OF c n, of True 0] c by auto
  then obtain s' where s': "(if u \<noteq> 0 then dns_cache_store (dns_name (net_dns ?s)) True 0 (dns_response_code (net_dns ?s)) u ?s else Some ?s) = Some s'"
    "cache_wf (dns_cache s')" "dns_frame ?s s'" "net_dns s' = net_dns ?s" by blast
  have "dns_negative_answer message ao ac ttl name s = Some (set_dns_state NET_DNS_NOT_FOUND s')"
    unfolding dns_negative_answer_def t Option.bind.bind_lunit Let_def u_def[symmetric] s'(1) by simp
  moreover have "dns_frame s s'" by (rule dns_frame_trans[OF dns_frame_state(2) s'(3)])
  then have "dns_frame s (set_dns_state NET_DNS_NOT_FOUND s')" by (rule dns_frame_trans) simp
  ultimately show ?thesis using s' n by (auto simp: dns_done_def dns_wf_def set_dns_state_def)
qed

lemma accept_answer_done:
  assumes "dns_wf s" shows "\<exists>s'. dns_accept_answer message off ac ao nc s = Some s' \<and> dns_done s s'"
proof -
  have n: "length (dns_name (net_dns s)) \<le> NET_DNS_NAME_MAX" and c: "cache_wf (dns_cache s)" using assms by (simp_all add: dns_wf_def)
  obtain a where a: "dns_find_address_answer message off ac (dns_name (net_dns s)) = Some a" "answer_ok a"
    using follow_aliases_total[OF n, of 8 message off ac UINT32_MAX] by (auto simp: dns_find_address_answer_def name_store_in[OF n])
  show ?thesis
  proof (cases a)
    case (DNS_ANSWER_NOT_FOUND ttl name)
    then show ?thesis using negative_answer_done[OF assms] by (simp add: dns_accept_answer_def a)
  next
    case (DNS_ANSWER_ADDRESS ip ttl name)
    let ?s = "s\<lparr>net_dns := (net_dns s)\<lparr>dns_result_address := ip, dns_ttl_seconds := ttl, dns_state := NET_DNS_RESOLVED\<rparr>\<rparr>"
    have ip: "ipv4_is_usable_unicast ip" using a(2) DNS_ANSWER_ADDRESS by (simp add: answer_ok_def)
    obtain s' where s': "dns_cache_store (dns_name (net_dns ?s)) False ip 0 ttl ?s = Some s'" "cache_wf (dns_cache s')"
      "dns_frame ?s s'" "net_dns s' = net_dns ?s"
      using cache_store_wf[of ?s "dns_name (net_dns ?s)" False ip 0 ttl] n c ip by auto
    have "dns_frame s s'" by (rule dns_frame_trans[OF dns_frame_state(2) s'(3)])
    then have "dns_done s s'" using s' n c ip by (auto simp: dns_done_def dns_wf_def intro!: exI[of _ ?s])
    then show ?thesis using s'(1) done_set_state[OF assms] by (auto simp: dns_accept_answer_def a DNS_ANSWER_ADDRESS)
  next
    case DNS_ANSWER_MALFORMED
    then show ?thesis using done_set_state[OF assms] by (simp add: dns_accept_answer_def a)
  qed
qed

lemma match_question_parses:
  assumes "DNS_HEADER_SIZE \<le> length message"
  shows "parses (dns_match_question s message) (\<lambda>off. off \<le> length message)"
  unfolding dns_match_question_def
  by (auto intro!: parses_bind[OF expand_name_parses] parses_read simp: expanded_ok_def, linarith+)

lemma process_response_done:
  assumes "dns_wf s" and "DNS_HEADER_SIZE \<le> length message"
  shows "\<exists>s'. dns_process_response message s = Some s' \<and> dns_done s s'"
proof -
  obtain flags qc anc auc adc where reads: "read_u16_be message 2 = Some flags" "read_u16_be message 4 = Some qc"
    "read_u16_be message 6 = Some anc" "read_u16_be message 8 = Some auc" "read_u16_be message 10 = Some adc"
    using assms(2) read_u16_be_in[of 2 message] read_u16_be_in[of 4 message] read_u16_be_in[of 6 message]
      read_u16_be_in[of 8 message] read_u16_be_in[of 10 message] by auto
  define u where "u = s\<lparr>net_dns := (net_dns s)\<lparr>dns_response_code := ucast (flags AND 0xf)\<rparr>\<rparr>"
  have u: "dns_wf u" using assms(1) by (simp add: u_def dns_wf_def)
  have lift: "dns_done u t \<Longrightarrow> dns_done s t" for t
    using dns_frame_trans[OF dns_frame_state(2)[of s "net_dns u"], of t] by (simp add: dns_done_def u_def)
  obtain q where q: "dns_match_question u message = Some q" "\<forall>off. q = Some off \<longrightarrow> off \<le> length message"
    using match_question_parses[OF assms(2), of u] by (auto simp: parses_def)
  have v: "off \<le> length message \<Longrightarrow> \<exists>v. dns_validate_record_sections message off anc auc adc = Some v" for off
    using sections_parse[of off message anc auc adc] by (auto simp: parses_def)
  note st = lift[OF done_set_state[OF u]] and acc = accept_answer_done[OF u, of message]
  have fin: "\<exists>s'. (if dns_response_code (net_dns u) \<noteq> 0 \<and> dns_response_code (net_dns u) \<noteq> 3 then Some (set_dns_state NET_DNS_SERVER_ERROR u)
      else dns_accept_answer message off anc ao auc u) = Some s' \<and> dns_done s s'" for off ao
    using st acc[of off anc ao auc] lift by auto
  have rest: "\<exists>s'. (case q of None \<Rightarrow> Some (set_dns_state NET_DNS_MALFORMED_RESPONSE u) | Some off \<Rightarrow> do {
      v \<leftarrow> dns_validate_record_sections message off anc auc adc;
      case v of None \<Rightarrow> Some (set_dns_state NET_DNS_MALFORMED_RESPONSE u)
      | Some ao \<Rightarrow> if dns_response_code (net_dns u) \<noteq> 0 \<and> dns_response_code (net_dns u) \<noteq> 3
          then Some (set_dns_state NET_DNS_SERVER_ERROR u) else dns_accept_answer message off anc ao auc u }) = Some s' \<and> dns_done s s'"
  proof (cases q)
    case (Some off)
    then obtain v where "dns_validate_record_sections message off anc auc adc = Some v" using v q by blast
    then show ?thesis using Some st fin[of off] by (cases v) auto
  qed (use st in simp)
  show ?thesis
    unfolding dns_process_response_def reads Option.bind.bind_lunit u_def[symmetric] Let_def q(1)
    using rest st done_set_state[OF assms(1)] by simp
qed

lemma dns_receive_total:
  assumes "dns_wf s"
  shows "\<exists>b s'. dns_receive ip sp dp message s = Some (b, s') \<and> (if b then dns_done s s' else s' = s)"
proof (cases "length message < DNS_HEADER_SIZE")
  case False
  then obtain i where i: "read_u16_be message 0 = Some i" using read_u16_be_in[of 0 message] by auto
  obtain p where "dns_process_response message s = Some p" "dns_done s p"
    using process_response_done[OF assms, of message] False by auto
  then have p: "dns_process_response message s \<bind> (\<lambda>s. Some (True, s)) = Some (True, p)" "dns_done s p" by simp_all
  have "dns_receive ip sp dp message s = Some (False, s) \<or> dns_receive ip sp dp message s = Some (True, p)"
    unfolding dns_receive_def i Option.bind.bind_lunit p(1) by simp
  then show ?thesis using p(2) by auto
qed (auto simp: dns_receive_def)

section \<open>Encoded names expand to themselves\<close>

lemma join_snoc: "join_labels (ls @ [l]) = (if ls = [] then l else join_labels ls @ CHAR_DOT # l)"
  by (induction ls rule: join_labels.induct) auto

lemma length_encode_all: "ls \<noteq> [] \<Longrightarrow> length (encode_all ls) = Suc (length (join_labels ls))"
  by (induction ls rule: join_labels.induct) (auto simp: encode_all_def)

lemma labels_bound: "list_all label_ok ls \<Longrightarrow> ls \<noteq> [] \<Longrightarrow> 2 * length ls \<le> Suc (length (join_labels ls))"
proof (induction ls rule: join_labels.induct)
  case (3 l k ls)
  then have "2 * length (k # ls) \<le> Suc (length (join_labels (k # ls)))" by auto
  moreover obtain m where "length l = Suc m" using 3 by (cases l) (auto simp: label_ok_def)
  ultimately show ?case by simp
qed (auto simp: label_ok_def Suc_le_eq)

lemma validate_name_labels:
  assumes "validate_name cs (length acc) (length part) acc = Some v" and "list_all label_ok done"
    and "acc = (if done = [] then part else join_labels done @ CHAR_DOT # part)"
    and "part = [] \<or> label_ok part" and "length acc \<le> NET_DNS_NAME_MAX"
  shows "\<exists>ls. ls \<noteq> [] \<and> list_all label_ok ls \<and> v = join_labels ls \<and> length v \<le> NET_DNS_NAME_MAX"
  using assms
proof (induction cs arbitrary: acc part "done")
  case Nil
  then have "part \<noteq> []" "v = acc" by (auto split: if_splits)
  with Nil show ?case by (intro exI[of _ "done @ [part]"]) (auto simp: join_snoc)
next
  case (Cons c cs)
  have len: "length acc < NET_DNS_NAME_MAX" using Cons.prems(1) by (simp split: if_splits)
  show ?case
  proof (cases "c = CHAR_DOT")
    case True
    then have p: "part \<noteq> []" using Cons.prems(1) by (auto split: if_splits)
    show ?thesis
    proof (cases cs)
      case Nil
      then have "v = acc" using Cons.prems(1) True by (auto split: if_splits)
      with p Cons.prems show ?thesis by (intro exI[of _ "done @ [part]"]) (auto simp: join_snoc)
    next
      case Cs: (Cons d ds)
      have "validate_name cs (length (acc @ [c])) (length []) (acc @ [c]) = Some v"
        using Cons.prems(1) True Cs by (auto split: if_splits)
      then show ?thesis
        by (rule Cons.IH[of "acc @ [c]" "[]" "done @ [part]"]) (use p True Cons.prems len in \<open>auto simp: join_snoc\<close>)
    qed
  next
    case False
    have v: "validate_name cs (length (acc @ [c])) (length (part @ [c])) (acc @ [c]) = Some v"
      and ok: "\<not> label_char_bad c" "length part < 63"
      using Cons.prems(1) False by (auto simp: label_char_bad_def split: if_splits)
    have "label_ok (part @ [c])" using Cons.prems(4) ok False by (auto simp: label_ok_def)
    then show ?thesis
      by (intro Cons.IH[OF v, of "done"]) (use Cons.prems len in auto)
  qed
qed

lemma encode_labels_label:
  "CHAR_DOT \<notin> set l \<Longrightarrow> encode_labels cap (l @ rest) lab out = encode_labels cap rest (lab @ l) out"
  by (induction l arbitrary: lab) auto

lemma encode_labels_join:
  "ls \<noteq> [] \<Longrightarrow> list_all label_ok ls \<Longrightarrow> length out + length (encode_all ls) < cap \<Longrightarrow>
   encode_labels cap (join_labels ls) [] out = Some (out @ encode_all ls)"
proof (induction ls arbitrary: out rule: join_labels.induct)
  case (2 l)
  then show ?case using encode_labels_label[of l cap "[]" "[]" out]
    by (auto simp: label_ok_def encode_label_def encode_all_def)
next
  case (3 l k ls)
  have "encode_label cap l out = Some (out @ of_nat (length l) # l)"
    using 3(3,4) by (auto simp: label_ok_def encode_label_def encode_all_def)
  then show ?case using 3 encode_labels_label[of l cap "CHAR_DOT # join_labels (k # ls)" "[]" out]
    by (auto simp: label_ok_def encode_all_def)
qed simp

lemma label_length_byte:
  assumes "0 < n" and "n \<le> 63"
  shows "(of_nat n :: u8) AND 0xc0 = 0" "(of_nat n :: u8) \<noteq> 0" "unat (of_nat n :: u8) = n" "\<not> (63 :: u8) < of_nat n"
proof -
  show u: "unat (of_nat n :: u8) = n" using assms by (simp add: unat_of_nat take_bit_nat_eq_self)
  have m: "(0xc0 :: u8) = NOT (mask 6)" by code_simp
  have "unat ((of_nat n :: u8) AND 0xc0) = 0" unfolding m unat_and_not_mask u using assms by simp
  then show "(of_nat n :: u8) AND 0xc0 = 0" by (simp only: unsigned_eq_0_iff)
  show "(of_nat n :: u8) \<noteq> 0" using u assms by auto
  show "\<not> (63 :: u8) < of_nat n" using u assms by (simp add: word_less_nat_alt)
qed

lemma drop_ConsD: "drop i xs = y # ys \<Longrightarrow> i < length xs \<and> xs ! i = y \<and> drop (i + 1) xs = ys"
proof -
  assume d: "drop i xs = y # ys"
  then have i: "i < length xs" by (rule contrapos_pp) simp
  then show ?thesis using d Cons_nth_drop_Suc[OF i] by simp
qed

text \<open>What expanding appends to the name read so far.\<close>

lemma expand_loop_labels:
  assumes "drop cursor message = encode_all ls @ 0 # rest" and "cursor \<le> length message" and "list_all label_ok ls"
    and "length (if out = [] then join_labels ls else if ls = [] then out else out @ CHAR_DOT # join_labels ls) \<le> NET_DNS_NAME_MAX"
    and "length ls < n"
  shows "expand_loop n message cursor out None
    = Some (Some (if out = [] then join_labels ls else if ls = [] then out else out @ CHAR_DOT # join_labels ls,
                  cursor + length (encode_all ls) + 1))"
  using assms
proof (induction ls arbitrary: cursor out n)
  case Nil
  then obtain m where n: "n = Suc m" by (cases n) auto
  have "cursor < length message" "message ! cursor = 0"
    using drop_ConsD[of cursor message] Nil.prems(1) by (simp_all add: encode_all_def)
  then show ?case using Nil.prems(4) by (auto simp: n load8_in name_store_in encode_all_def)
next
  case (Cons l ls)
  then obtain m where n: "n = Suc m" by (cases n) auto
  let ?len = "of_nat (length l) :: u8"
  have l: "0 < length l" "length l \<le> 63" "\<not> list_ex label_char_bad l" using Cons.prems(3) by (auto simp: label_ok_def)
  note b = label_length_byte[OF l(1,2)]
  have d: "drop cursor message = ?len # l @ encode_all ls @ 0 # rest" using Cons.prems(1) by (simp add: encode_all_def)
  have c: "cursor < length message" "message ! cursor = ?len" "drop (cursor + 1) message = l @ encode_all ls @ 0 # rest"
    using drop_ConsD[OF d] by simp_all
  have len: "length message = cursor + 1 + length l + length (encode_all ls) + 1 + length rest"
    using arg_cong[OF c(3), of length] c(1) by simp
  have lb: "load_bytes message (cursor + 1) (length l) = Some l"
    using c(3) len by (simp add: load_bytes_def)
  have d2: "drop (cursor + 1 + length l) message = encode_all ls @ 0 # rest"
    using arg_cong[OF c(3), of "drop (length l)"] by (simp add: add.commute add.left_commute)
  let ?out = "if out = [] then l else out @ CHAR_DOT # l"
  have total: "(if ?out = [] then join_labels ls else if ls = [] then ?out else ?out @ CHAR_DOT # join_labels ls)
    = (if out = [] then join_labels (l # ls) else out @ CHAR_DOT # join_labels (l # ls))"
    using l(1) by (cases ls) auto
  have bound: "length ?out \<le> NET_DNS_NAME_MAX" "out = [] \<or> length out < NET_DNS_NAME_MAX"
    using Cons.prems(4) by (cases ls; auto split: if_splits)+
  have rec: "expand_loop m message (cursor + 1 + length l) ?out None
    = Some (Some (if out = [] then join_labels (l # ls) else out @ CHAR_DOT # join_labels (l # ls),
                  cursor + 1 + length l + length (encode_all ls) + 1))"
    unfolding total[symmetric]
    by (rule Cons.IH) (use d2 len Cons.prems total n in auto)
  show ?case
    using rec bound l b len
    by (auto simp: n load8_in[OF c(1)] c(2) lb lb[simplified] name_store_in encode_all_def Let_def split: if_splits)
qed

lemma name_roundtrip:
  assumes "ls \<noteq> []" and "list_all label_ok ls" and "length (join_labels ls) \<le> NET_DNS_NAME_MAX"
  shows "dns_encode_name 259 (join_labels ls) = Some (encode_all ls @ [0])"
    and "dns_expand_name (p @ (encode_all ls @ [0]) @ q) (length p)
      = Some (Some (join_labels ls, length p + length (encode_all ls @ [0])))"
proof -
  have e: "length (encode_all ls) = Suc (length (join_labels ls))" by (rule length_encode_all[OF assms(1)])
  show "dns_encode_name 259 (join_labels ls) = Some (encode_all ls @ [0])"
    using encode_labels_join[OF assms(1,2), of "[]" 259] e assms(3) by (simp add: dns_encode_name_def)
  have "length ls < 129" using labels_bound[OF assms(2,1)] assms(3) by simp
  then show "dns_expand_name (p @ (encode_all ls @ [0]) @ q) (length p)
      = Some (Some (join_labels ls, length p + length (encode_all ls @ [0])))"
    unfolding dns_expand_name_def
    using expand_loop_labels[of "length p" "p @ encode_all ls @ 0 # q" ls q "[]" 129] assms by simp
qed

section \<open>A stored answer is found\<close>

lemma find_idx_unique:
  assumes "i < length xs" and "P (xs ! i)" and "\<And>j. j < length xs \<Longrightarrow> j \<noteq> i \<Longrightarrow> \<not> P (xs ! j)"
  shows "find_idx P xs = Some i"
proof (cases "find_idx P xs")
  case None
  then show ?thesis using assms(1,2) by auto
next
  case (Some k)
  then show ?thesis using find_idx_SomeD[OF Some] assms(3) by auto
qed

lemma cache_select_some:
  "(\<exists>e \<in> set es. \<not> ce_valid e \<or> ce_last_used_ms e < old) \<or> sel \<noteq> None \<Longrightarrow> cache_select es i sel old \<noteq> None"
  by (induction es i sel old rule: cache_select.induct) auto

text \<open>The expiry time of a stored answer, and the lifetime it has left at a later time.\<close>

lemma expiry_exact:
  assumes "unat now + 1000 * unat ttl < 2 ^ 64"
  shows "unat (saturating_add_u64 now (seconds_to_ms ttl)) = unat now + 1000 * unat ttl"
proof -
  have "unat (ucast ttl :: u64) = unat ttl" by (rule unat_ucast_up) simp
  then have ms: "unat (seconds_to_ms ttl) = 1000 * unat ttl"
    using assms by (simp add: seconds_to_ms_def unat_word_ariths)
  have max: "unat (UINT64_MAX - now) = 2 ^ 64 - 1 - unat now"
    using unsigned_less[of now, where 'a = nat] by (subst unat_sub) (simp_all add: word_le_nat_alt)
  have "\<not> unat (UINT64_MAX - now) < unat (seconds_to_ms ttl)" unfolding max ms using assms by linarith
  then show ?thesis using assms ms by (simp add: saturating_add_u64_def word_less_nat_alt unat_word_ariths)
qed

lemma round_up: "(n + 999) div 1000 = (if n mod 1000 \<noteq> 0 then n div 1000 + 1 else n div 1000)" for n :: nat
proof -
  have "(n + 999) div 1000 = (n mod 1000 + 999 + 1000 * (n div 1000)) div 1000" by simp
  also have "\<dots> = n div 1000 + (n mod 1000 + 999) div 1000" by (subst div_mult_self2) simp_all
  also have "(n mod 1000 + 999) div 1000 = (if n mod 1000 \<noteq> 0 then 1 else 0)"
    using mod_less_divisor[of 1000 n] by (auto intro: div_nat_eqI)
  finally show ?thesis by simp
qed

lemma remaining_exact:
  assumes "unat now < unat ex" and "unat ex - unat now \<le> 1000 * unat (ttl :: u32)"
  shows "unat (dns_cache_remaining_seconds ex now) = (unat ex - unat now + 999) div 1000"
proof -
  let ?r = "unat ex - unat now"
  have r: "unat (ex - now) = ?r" using assms(1) by (simp add: unat_sub word_le_nat_alt)
  have t: "unat ttl < 2 ^ 32" using unsigned_less[of ttl, where 'a = nat] by simp
  define secs where "secs = (if (ex - now) mod 1000 \<noteq> 0 then (ex - now) div 1000 + 1 else (ex - now) div 1000)"
  have m: "(ex - now) mod 1000 = 0 \<longleftrightarrow> ?r mod 1000 = 0" using r by (simp add: word_unat_eq_iff unat_mod)
  have d: "unat ((ex - now) div 1000) = ?r div 1000" using r by (simp add: unat_div)
  have b: "?r div 1000 \<le> unat ttl" using assms(2) by linarith
  then have d1: "unat ((ex - now) div 1000 + 1) = ?r div 1000 + 1" using d t by (simp add: unat_word_ariths)
  have s: "unat secs = (?r + 999) div 1000" unfolding secs_def m round_up using d d1 by simp
  have le: "unat secs < 2 ^ 32" using s assms(2) t by linarith
  then have "\<not> (ucast UINT32_MAX :: u64) < secs" by (simp add: word_less_nat_alt)
  moreover have "unat (ucast secs :: u32) = unat secs" using le by (simp add: unsigned_ucast_eq take_bit_nat_eq_self)
  ultimately show ?thesis
    using assms(1) s unfolding dns_cache_remaining_seconds_def Let_def secs_def[symmetric] by (simp add: word_le_nat_alt)
qed

text \<open>The entry a store of an answer puts into the cache: no other valid entry has its name.\<close>

lemma stored_entry:
  assumes wf: "cache_wf (dns_cache t)" and st: "dns_cache_store name False a code ttl t = Some s'" and "ttl \<noteq> 0"
    and "length name \<le> NET_DNS_NAME_MAX" and "\<exists>e \<in> set (dns_cache t). \<not> ce_valid e \<or> ce_last_used_ms e < UINT64_MAX"
  obtains i where "i < length (dns_cache s')"
    and "dns_cache s' ! i = \<lparr>ce_valid = True, ce_negative = False, ce_name = name, ce_address = a, ce_response_code = code,
      ce_expires_ms = saturating_add_u64 (current_time_ms t) (seconds_to_ms ttl), ce_last_used_ms = current_time_ms t\<rparr>"
    and "\<And>j. j < length (dns_cache s') \<Longrightarrow> j \<noteq> i \<Longrightarrow> ce_valid (dns_cache s' ! j) \<Longrightarrow> \<not> dns_names_equal (ce_name (dns_cache s' ! j)) name"
proof -
  let ?t = "dns_cache_expire t" and ?now = "current_time_ms t"
  let ?found = "dns_cache_find ?t name"
  have wf': "cache_wf (dns_cache ?t)" by (rule cache_expire_wf[OF wf])
  define sel where "sel = (case ?found of Some i \<Rightarrow> Some i | None \<Rightarrow> cache_select (dns_cache ?t) 0 None UINT64_MAX)"
  have "\<exists>e \<in> set (dns_cache ?t). \<not> ce_valid e \<or> ce_last_used_ms e < UINT64_MAX"
  proof -
    let ?x = "\<lambda>e. if entry_expired ?now e then e\<lparr>ce_valid := False\<rparr> else e"
    obtain e where e: "e \<in> set (dns_cache t)" "\<not> ce_valid e \<or> ce_last_used_ms e < UINT64_MAX" using assms(5) by blast
    have "set (dns_cache ?t) = ?x ` set (dns_cache t)" unfolding dns_cache_expire_def by simp
    then have "?x e \<in> set (dns_cache ?t)" using e(1) by blast
    moreover have "\<not> ce_valid (?x e) \<or> ce_last_used_ms (?x e) < UINT64_MAX" using e(2) by simp
    ultimately show ?thesis by blast
  qed
  then have "sel \<noteq> None" using cache_select_some[of "dns_cache ?t" UINT64_MAX None 0] by (auto simp: sel_def split: option.splits)
  then obtain i where i: "sel = Some i" by auto
  have il: "i < length (dns_cache ?t)" using i find_idx_length cache_select_length[of None 0 "dns_cache ?t" _ i]
    by (fastforce simp: sel_def dns_cache_find_def split: option.splits)
  have fresh: "\<not> dns_names_equal (ce_name (dns_cache ?t ! j)) name"
    if "j < length (dns_cache ?t)" "j \<noteq> i" "ce_valid (dns_cache ?t ! j)" for j
    using that i cache_find_None[of ?t name j] cache_find_unique[of ?t name i j] wf'
    by (auto simp: sel_def cache_wf_def split: option.splits)
  define e where "e = \<lparr>ce_valid = True, ce_negative = False, ce_name = name, ce_address = a,
      ce_response_code = code, ce_expires_ms = saturating_add_u64 ?now (seconds_to_ms ttl), ce_last_used_ms = ?now\<rparr>"
  have s': "dns_cache s' = (dns_cache ?t)[i := e]"
    using st assms(3,4) i unfolding dns_cache_store_def sel_def[symmetric] Let_def
    by (auto simp: name_store_in e_def dns_cache_expire_def split: if_splits)
  show thesis by (rule that[of i]) (use il fresh in \<open>simp_all add: s' e_def\<close>)
qed

text \<open>Whether a later query finds it: until it expires, and not after.\<close>

lemma stored_answer_found:
  assumes "i < length (dns_cache s)" and "dns_cache s ! i = e" and "ce_valid e" and "ce_expires_ms e = ex"
    and fresh: "\<And>j. j < length (dns_cache s) \<Longrightarrow> j \<noteq> i \<Longrightarrow> ce_valid (dns_cache s ! j) \<Longrightarrow> \<not> dns_names_equal (ce_name (dns_cache s ! j)) (ce_name e)"
    and v: "dns_names_equal v (ce_name e)"
  shows "dns_cache_find (dns_cache_expire s) v = (if current_time_ms s < ex then Some i else None)"
    and "current_time_ms s < ex \<Longrightarrow> dns_cache (dns_cache_expire s) ! i = e"
proof -
  let ?x = "\<lambda>e. if entry_expired (current_time_ms s) e then e\<lparr>ce_valid := False\<rparr> else e"
  have q: "dns_cache (dns_cache_expire s) = map ?x (dns_cache s)" by (simp add: dns_cache_expire_def)
  have e: "entry_expired (current_time_ms s) e \<longleftrightarrow> \<not> current_time_ms s < ex" using assms(3,4) by (auto simp: entry_expired_def)
  show "dns_cache (dns_cache_expire s) ! i = e" if "current_time_ms s < ex" using that assms(1,2) e by (simp add: q)
  have other: "\<not> (ce_valid (map ?x (dns_cache s) ! j) \<and> dns_names_equal (ce_name (map ?x (dns_cache s) ! j)) v)"
    if "j < length (dns_cache s)" "j \<noteq> i" for j
    using fresh[of j] that v by (auto simp: names_equal_lower)
  show "dns_cache_find (dns_cache_expire s) v = (if current_time_ms s < ex then Some i else None)"
  proof (cases "current_time_ms s < ex")
    case True
    have "find_idx (\<lambda>e. ce_valid e \<and> dns_names_equal (ce_name e) v) (map ?x (dns_cache s)) = Some i"
      by (rule find_idx_unique) (use True e assms(1-3) v other in \<open>auto simp: names_equal_lower\<close>)
    then show ?thesis using True by (simp add: dns_cache_find_def q)
  next
    case False
    have "\<not> ce_valid (map ?x (dns_cache s) ! i)" using False e assms(1,2) by simp
    then have "\<not> (ce_valid (map ?x (dns_cache s) ! j) \<and> dns_names_equal (ce_name (map ?x (dns_cache s) ! j)) v)"
      if "j < length (dns_cache s)" for j using other[OF that] by (cases "j = i") auto
    then have "\<forall>x \<in> set (map ?x (dns_cache s)). \<not> (ce_valid x \<and> dns_names_equal (ce_name x) v)"
      unfolding all_set_conv_all_nth by simp
    then show ?thesis using False unfolding dns_cache_find_def q find_idx_None[symmetric] by simp
  qed
qed

end
