(* ===== verification/Net_Inv.thy ===== *)
theory Net_Inv
  imports Net_Wire Net_Dns_Safe
begin

text \<open>
  The stack's invariant and its preservation.  \<open>net_sender\<close> is the interface to a link driver: a
  property \<open>W\<close> of the world that survives every well-formed frame handed over.  \<open>net_link\<close> adds the
  driver's receive side and the protocol handlers, which keep the stack well formed because they
  only use its operations.  Every operation then keeps the invariant and \<open>W\<close>; taking for \<open>W\<close> what
  was sent so far, this says that the stack only sends well-formed frames.
\<close>

section \<open>Definitions\<close>

definition arp_entry_ok :: "net_arp_entry \<Rightarrow> bool" where
  "arp_entry_ok e \<longleftrightarrow> length (arp_mac e) = NET_ETHERNET_ADDRESS_SIZE
     \<and> (arp_valid e \<longrightarrow> ipv4_is_usable_unicast (arp_ip e) \<and> mac_is_valid_source (arp_mac e))"

definition arp_wf :: "net_arp_entry list \<Rightarrow> bool" where
  "arp_wf es \<longleftrightarrow> length es = NET_ARP_CACHE_SIZE \<and> list_all arp_entry_ok es
     \<and> (\<forall>i j. i < j \<longrightarrow> j < length es \<longrightarrow> arp_valid (es ! i) \<longrightarrow> arp_valid (es ! j) \<longrightarrow> arp_ip (es ! i) \<noteq> arp_ip (es ! j))"

definition bind_wf :: "net_udp_binding list \<Rightarrow> bool" where
  "bind_wf bs \<longleftrightarrow> length bs = NET_UDP_BINDING_COUNT
     \<and> list_all (\<lambda>b. ub_handler b \<noteq> None \<longrightarrow> ub_port b \<noteq> 0 \<and> ub_port b \<noteq> DHCP_CLIENT_PORT) bs
     \<and> (\<forall>i j. i < j \<longrightarrow> j < length bs \<longrightarrow> ub_handler (bs ! i) \<noteq> None \<longrightarrow> ub_handler (bs ! j) \<noteq> None
          \<longrightarrow> ub_port (bs ! i) \<noteq> ub_port (bs ! j))"

definition pend_wf :: "net_pending_ipv4 \<Rightarrow> bool" where
  "pend_wf p \<longleftrightarrow> length (pend_payload p) = NET_IPV4_PAYLOAD_MAX \<and> pend_payload_size p \<le> NET_IPV4_PAYLOAD_MAX"

definition lease_wf :: "net_dhcp_client \<Rightarrow> bool" where
  "lease_wf d \<longleftrightarrow> (dhcp_state d = NET_DHCP_BOUND \<longrightarrow>
     dhcp_renewal_seconds d < dhcp_lease_seconds d \<and> dhcp_rebind_seconds d < dhcp_lease_seconds d)"

definition net_wf :: "bytes \<Rightarrow> net_stack \<Rightarrow> bool" where
  "net_wf m s \<longleftrightarrow> net_mac s = m \<and> length m = NET_ETHERNET_ADDRESS_SIZE
     \<and> length (transmit_frame s) = NET_ETHERNET_FRAME_MAX \<and> length (receive_frame s) = NET_ETHERNET_FRAME_MAX
     \<and> arp_wf (net_arp s) \<and> bind_wf (udp_bindings s) \<and> pend_wf (pending_ipv4 s) \<and> lease_wf (net_dhcp s) \<and> dns_wf s"

definition good :: "bytes \<Rightarrow> ('w \<Rightarrow> bool) \<Rightarrow> net_stack \<times> 'w \<Rightarrow> bool" where
  "good m W sw \<longleftrightarrow> net_wf m (fst sw) \<and> W (snd sw)"

locale net_sender =
  fixes E :: "'w net_env" and m :: bytes and W :: "'w \<Rightarrow> bool"
  assumes send_keeps: "W w \<Longrightarrow> tx_ok m f \<Longrightarrow> W (snd (env_send E f w))"

locale net_link = net_sender E m W for E :: "'w net_env" and m :: bytes and W :: "'w \<Rightarrow> bool" +
  assumes poll_keeps: "W w \<Longrightarrow> W (snd (env_poll E w))"
    and now_keeps: "W w \<Longrightarrow> W (snd (env_now_ms E w))"
    and udp_keeps: "good m W sw \<Longrightarrow> good m W (env_udp_handler E h c d sw)"
    and tcp_keeps: "good m W sw \<Longrightarrow> good m W (env_tcp_handler E h c src dst payload sw)"

section \<open>Updates that keep the invariant\<close>

named_theorems wf_updates \<open>updates of fields the invariant does not constrain\<close>

lemma net_wf_stats [wf_updates]: "net_wf m (upd_stats f s) = net_wf m s"
  by (simp add: net_wf_def upd_stats_def dns_wf_def)

lemma net_wf_free [wf_updates]:
  "net_wf m (s\<lparr>next_ipv4_id := i\<rparr>) = net_wf m s"
  "net_wf m (s\<lparr>net_ipv4 := c\<rparr>) = net_wf m s"
  "net_wf m (s\<lparr>current_time_ms := t\<rparr>) = net_wf m s"
  "net_wf m (s\<lparr>echo_request := q\<rparr>) = net_wf m s"
  "net_wf m (s\<lparr>echo_reply := r\<rparr>) = net_wf m s"
  "net_wf m (s\<lparr>tcp_handler := h\<rparr>) = net_wf m s"
  "net_wf m (s\<lparr>tcp_handler_context := n\<rparr>) = net_wf m s"
  "net_wf m (s\<lparr>dns_cache_misses := v\<rparr>) = net_wf m s"
  "net_wf m (s\<lparr>dns_cache_hits := v\<rparr>) = net_wf m s"
  by (simp_all add: net_wf_def dns_wf_def)

lemma net_wf_part:
  "net_wf m s \<Longrightarrow> length F = NET_ETHERNET_FRAME_MAX \<Longrightarrow> net_wf m (s\<lparr>transmit_frame := F\<rparr>)"
  "net_wf m s \<Longrightarrow> length F = NET_ETHERNET_FRAME_MAX \<Longrightarrow> net_wf m (s\<lparr>receive_frame := F\<rparr>)"
  "net_wf m s \<Longrightarrow> arp_wf es \<Longrightarrow> net_wf m (s\<lparr>net_arp := es\<rparr>)"
  "net_wf m s \<Longrightarrow> bind_wf bs \<Longrightarrow> net_wf m (s\<lparr>udp_bindings := bs\<rparr>)"
  "net_wf m s \<Longrightarrow> pend_wf p \<Longrightarrow> net_wf m (s\<lparr>pending_ipv4 := p\<rparr>)"
  "net_wf m s \<Longrightarrow> lease_wf d \<Longrightarrow> net_wf m (s\<lparr>net_dhcp := d\<rparr>)"
  by (simp_all add: net_wf_def dns_wf_def)

lemma net_wfD:
  assumes "net_wf m s"
  shows "net_mac s = m" "length m = 6" "length (net_mac s) = 6" "length (transmit_frame s) = NET_ETHERNET_FRAME_MAX"
    "length (receive_frame s) = NET_ETHERNET_FRAME_MAX" "arp_wf (net_arp s)" "bind_wf (udp_bindings s)"
    "pend_wf (pending_ipv4 s)" "lease_wf (net_dhcp s)" "dns_wf s"
  using assms by (simp_all add: net_wf_def)

lemma net_wf_dns:
  assumes "net_wf m s" and "dns_frame s s'" and "dns_wf s'"
  shows "net_wf m s'"
proof -
  note eq = assms(2)[unfolded dns_frame_def]
  have "net_mac s' = net_mac s" "transmit_frame s' = transmit_frame s" "receive_frame s' = receive_frame s"
    "net_arp s' = net_arp s" "udp_bindings s' = udp_bindings s" "pending_ipv4 s' = pending_ipv4 s" "net_dhcp s' = net_dhcp s"
    using arg_cong[OF eq, of net_mac] arg_cong[OF eq, of transmit_frame] arg_cong[OF eq, of receive_frame]
      arg_cong[OF eq, of net_arp] arg_cong[OF eq, of udp_bindings] arg_cong[OF eq, of pending_ipv4] arg_cong[OF eq, of net_dhcp]
    by simp_all
  then show ?thesis using assms(1,3) by (simp add: net_wf_def)
qed

lemma net_wf_tx_put: "net_wf m s \<Longrightarrow> i + length b \<le> NET_ETHERNET_FRAME_MAX \<Longrightarrow> net_wf m (tx_put i b s)"
  unfolding tx_put_def by (rule net_wf_part(1)) (simp_all add: length_blit net_wfD(4))

section \<open>The ARP cache\<close>

lemma arp_select_less: "sel < i + length es \<Longrightarrow> arp_select es i sel old < i + length es"
  by (induction es i sel old rule: arp_select.induct) auto

lemma arp_wf_update:
  assumes "arp_wf es" and "arp_entry_ok e"
    and "\<And>j. j < length es \<Longrightarrow> j \<noteq> i \<Longrightarrow> arp_valid (es ! j) \<Longrightarrow> arp_ip (es ! j) \<noteq> arp_ip e"
  shows "arp_wf (es[i := e])"
proof -
  have "list_all arp_entry_ok (es[i := e])"
    using assms(1,2) set_update_subset_insert[of es i e] by (auto simp: arp_wf_def list_all_iff)
  moreover have "arp_ip (es[i := e] ! a) \<noteq> arp_ip (es[i := e] ! b)"
    if h: "a < b" "b < length es" "arp_valid (es[i := e] ! a)" "arp_valid (es[i := e] ! b)" for a b
  proof -
    have n: "es[i := e] ! k = (if k = i then e else es ! k)" if "k < length es" for k
      using that by (auto simp: nth_list_update)
    have "a < length es" using h by simp
    note na = n[OF this] and nb = n[OF h(2)]
    consider "a = i" "b \<noteq> i" | "a \<noteq> i" "b = i" | "a \<noteq> i" "b \<noteq> i" using h(1) by blast
    then show ?thesis
    proof cases
      case 1
      then show ?thesis using assms(3)[OF h(2)] h(4) na nb by (simp add: eq_commute)
    next
      case 2
      then show ?thesis using assms(3)[OF \<open>a < length es\<close>] h(3) na nb by simp
    next
      case 3
      then show ?thesis using assms(1) h na nb by (simp add: arp_wf_def)
    qed
  qed
  ultimately show ?thesis using assms(1) by (simp add: arp_wf_def)
qed

lemma arp_learn_wf:
  assumes "net_wf m s" and "length mac = 6" shows "net_wf m (arp_learn ip mac s)"
proof (cases "ipv4_is_usable_unicast ip \<and> mac_is_valid_source mac")
  case True
  define i where "i = (case arp_find s ip of Some i \<Rightarrow> i | None \<Rightarrow> arp_select (net_arp s) 0 0 UINT64_MAX)"
  have other: "arp_ip (net_arp s ! j) \<noteq> ip" if j: "j < length (net_arp s)" "j \<noteq> i" "arp_valid (net_arp s ! j)" for j
  proof (cases "arp_find s ip")
    case None
    then show ?thesis using j by (auto simp: arp_find_def arp_match_def)
  next
    case (Some k)
    then have "k = i" "arp_valid (net_arp s ! i)" "arp_ip (net_arp s ! i) = ip" "i < length (net_arp s)"
      using find_idx_SomeD[of "arp_match ip" "net_arp s" k] by (simp_all add: arp_find_def arp_match_def i_def)
    then show ?thesis using j net_wfD(6)[OF assms(1)] unfolding arp_wf_def by (metis linorder_neqE_nat)
  qed
  have "net_wf m (s\<lparr>net_arp := (net_arp s)[i := \<lparr>arp_valid = True, arp_ip = ip, arp_mac = mac, arp_refreshed_ms = current_time_ms s\<rparr>]\<rparr>)"
    by (rule net_wf_part(3)[OF assms(1)], rule arp_wf_update[OF net_wfD(6)[OF assms(1)]])
       (use other True assms(2) in \<open>auto simp: arp_entry_ok_def\<close>)
  then show ?thesis using True by (simp add: arp_learn_def Let_def i_def)
qed (use assms in \<open>auto simp: arp_learn_def\<close>)

lemma arp_lookup_ok:
  assumes "net_wf m s" and "net_arp_lookup s ip = Some mac"
  shows "length mac = 6" "mac_is_valid_source mac"
proof -
  obtain i where i: "find_idx (arp_match ip) (net_arp s) = Some i" "mac = arp_mac (net_arp s ! i)"
    using assms(2) by (auto simp: net_arp_lookup_def arp_find_def split: option.splits)
  then have "arp_entry_ok (net_arp s ! i)" "arp_valid (net_arp s ! i)"
    using find_idx_SomeD[OF i(1)] net_wfD(6)[OF assms(1)] by (auto simp: arp_wf_def list_all_length arp_match_def)
  then show "length mac = 6" "mac_is_valid_source mac" using i(2) by (auto simp: arp_entry_ok_def)
qed

lemma route_mac:
  "net_wf m s \<Longrightarrow> route_ipv4 s dst = Some (hop, Some mac) \<Longrightarrow> length mac = 6"
  using arp_lookup_ok(1)[of m s]
  by (auto simp: route_ipv4_def broadcast_mac_def multicast_mac_def Let_def split: if_splits)

section \<open>Sending\<close>

lemma goodI: "net_wf m s \<Longrightarrow> W w \<Longrightarrow> good m W (s, w)"
  by (simp add: good_def)

lemma good_wf [simp]: "good m W (s, w) \<longleftrightarrow> net_wf m s \<and> W w"
  by (simp add: good_def)

context net_sender
begin

lemma hand_over_good:
  assumes "net_wf m s" and "W w" and "tx_ok m frame" shows "good m W (snd (hand_over E frame st (s, w)))"
  using assms send_keeps[OF assms(2,3)] by (auto simp: hand_over_def wf_updates split: prod.splits bool.splits)

lemma send_ipv4_good:
  assumes "net_wf m s" and "W w" and "length d = 6" shows "good m W (snd (send_ipv4_with_mac E dst pr payload d (s, w)))"
proof (cases "length payload \<le> NET_IPV4_PAYLOAD_MAX")
  case True
  note wf = net_wfD[OF assms(1)]
  obtain F where F: "length F = NET_ETHERNET_FRAME_MAX" "send_ipv4_with_mac E dst pr payload d (s, w)
    = hand_over E (ethernet_header d (net_mac s) ETHERTYPE_IPV4 @ ipv4_packet (next_ipv4_id s) pr (cfg_address (net_ipv4 s)) dst payload)
        (\<lambda>t. t\<lparr>ipv4_packets_transmitted := ipv4_packets_transmitted t + 1\<rparr>)
        (s\<lparr>transmit_frame := F, next_ipv4_id := next_ipv4_id s + 1\<rparr>, w)"
    using send_ipv4_with_mac_sends[OF wf(4) assms(3) wf(3) True, where E = E and dst = dst and pr = pr and w = w] by blast
  have "net_wf m (s\<lparr>transmit_frame := F, next_ipv4_id := next_ipv4_id s + 1\<rparr>)"
    unfolding wf_updates by (rule net_wf_part(1)[OF assms(1) F(1)])
  then show ?thesis unfolding F(2)
    by (rule hand_over_good[OF _ assms(2)]) (use wf(1-3) assms(3) True ipv4_frame_ok in simp)
qed (use assms in \<open>simp add: send_ipv4_with_mac_def\<close>)

lemma arp_request_good:
  assumes "net_wf m s" and "W w" shows "good m W (snd (net_arp_request E ip (s, w)))"
proof -
  note wf = net_wfD[OF assms(1)]
  obtain F where F: "length F = NET_ETHERNET_FRAME_MAX" "net_arp_request E ip (s, w)
    = (if \<not> link_send s \<or> cfg_address (net_ipv4 s) = 0 \<or> \<not> ipv4_is_usable_unicast ip then (False, s, w)
       else hand_over E (ethernet_header broadcast_mac (net_mac s) ETHERTYPE_ARP
              @ arp_packet ARP_OPERATION_REQUEST (net_mac s) (cfg_address (net_ipv4 s)) zero_mac ip)
              (\<lambda>t. t\<lparr>arp_requests_sent := arp_requests_sent t + 1\<rparr>) (s\<lparr>transmit_frame := F\<rparr>, w))"
    using net_arp_request_sends[OF wf(4,3), where E = E and ip = ip and w = w] by blast
  have "tx_ok m (ethernet_header broadcast_mac (net_mac s) ETHERTYPE_ARP
              @ arp_packet ARP_OPERATION_REQUEST (net_mac s) (cfg_address (net_ipv4 s)) zero_mac ip)"
    unfolding wf(1) by (rule arp_frame_ok) (simp_all add: wf(2) broadcast_mac_def zero_mac_def)
  then show ?thesis unfolding F(2) using hand_over_good[OF net_wf_part(1)[OF assms(1) F(1)] assms(2)] assms by simp
qed

lemma arp_reply_good:
  assumes "net_wf m s" and "W w" and "length d = 6" shows "good m W (snd (send_arp_reply E d ip (s, w)))"
proof -
  note wf = net_wfD[OF assms(1)]
  obtain F where F: "length F = NET_ETHERNET_FRAME_MAX" "send_arp_reply E d ip (s, w)
    = hand_over E (ethernet_header d (net_mac s) ETHERTYPE_ARP @ arp_packet ARP_OPERATION_REPLY (net_mac s) (cfg_address (net_ipv4 s)) d ip)
        (\<lambda>t. t) (s\<lparr>transmit_frame := F\<rparr>, w)"
    using send_arp_reply_sends[OF wf(4,3) assms(3), where E = E and ip = ip and w = w] by blast
  show ?thesis unfolding F(2) wf(1)
    by (rule hand_over_good[OF net_wf_part(1)[OF assms(1) F(1)] assms(2)], rule arp_frame_ok) (simp_all add: wf(2) assms(3))
qed

lemma flush_good:
  assumes "net_wf m s" and "W w" shows "good m W (snd (flush_pending_ipv4 E (s, w)))"
proof (cases "net_arp_lookup s (pend_next_hop_ip (pending_ipv4 s))")
  case (Some mac)
  let ?p = "pending_ipv4 s"
  obtain ok s' w' where r: "send_ipv4_with_mac E (pend_destination_ip ?p) (pend_protocol ?p) (take (pend_payload_size ?p) (pend_payload ?p)) mac (s, w) = (ok, s', w')"
    by (metis prod_cases3)
  have g: "net_wf m s'" "W w'"
    using send_ipv4_good[OF assms arp_lookup_ok(1)[OF assms(1) Some], of "pend_destination_ip ?p" "pend_protocol ?p" "take (pend_payload_size ?p) (pend_payload ?p)"] r by simp_all
  have p: "net_wf m (t\<lparr>pending_ipv4 := (pending_ipv4 t)\<lparr>pend_arp_requested_ms := x, pend_transmit_attempts := y\<rparr>\<rparr>)"
    "net_wf m (t\<lparr>pending_ipv4 := (pending_ipv4 t)\<lparr>pend_valid := z\<rparr>\<rparr>)" if "net_wf m t" for t x y z
    by (rule net_wf_part(5)[OF that], use net_wfD(8)[OF that] in \<open>simp add: pend_wf_def\<close>)+
  show ?thesis using Some r g p[of s'] p(2)[of "upd_stats (\<lambda>t. t\<lparr>udp_datagrams_transmitted := udp_datagrams_transmitted t + 1\<rparr>) s'"] assms
    by (auto simp: flush_pending_ipv4_def Let_def wf_updates split: bool.splits)
qed (use assms in \<open>simp add: flush_pending_ipv4_def Let_def\<close>)

lemma ipv4_send_good:
  assumes "net_wf m s" and "W w" shows "good m W (snd (net_ipv4_send E dst pr payload (s, w)))"
proof (cases "route_ipv4 s dst")
  case None
  then show ?thesis using assms by (simp add: net_ipv4_send_def)
next
  case (Some r)
  obtain hop mac where r: "r = (hop, mac)" by fastforce
  show ?thesis
  proof (cases mac)
    case mac: (Some d)
    have "length d = 6" using route_mac[OF assms(1)] Some r mac by blast
    then show ?thesis using send_ipv4_good[OF assms, of d dst pr payload] Some r mac assms
      by (auto simp: net_ipv4_send_def split: prod.splits)
  next
    case None
    let ?p = "(pending_ipv4 s)\<lparr>pend_valid := True, pend_destination_ip := dst, pend_next_hop_ip := hop, pend_protocol := pr,
      pend_payload_size := length payload, pend_payload := blit (pend_payload (pending_ipv4 s)) 0 payload,
      pend_arp_requested_ms := current_time_ms s, pend_arp_attempts := 1, pend_transmit_attempts := 0\<rparr>"
    have "net_wf m (s\<lparr>pending_ipv4 := ?p\<rparr>)" if "length payload \<le> NET_IPV4_PAYLOAD_MAX"
      by (rule net_wf_part(5)[OF assms(1)]) (use net_wfD(8)[OF assms(1)] that in \<open>simp add: pend_wf_def length_blit\<close>)
    then show ?thesis using arp_request_good[of "s\<lparr>pending_ipv4 := ?p\<rparr>" w hop] Some r None assms
      by (auto simp: net_ipv4_send_def Let_def split: prod.splits)
  qed
qed

lemma udp_send_good:
  assumes "net_wf m s" and "W w" shows "good m W (snd (net_udp_send E dst dp sp data (s, w)))"
proof (cases "dp = 0 \<or> sp = 0 \<or> length data > NET_UDP_PAYLOAD_MAX")
  case False
  define s1 where "s1 = tx_put 34 (udp_segment sp dp 0 data) s"
  define c where "c = transport_checksum (cfg_address (net_ipv4 s1)) dst NET_IPV4_PROTOCOL_UDP (take (8 + length data) (drop 34 (transmit_frame s1)))"
  define s2 where "s2 = tx_put 40 (be16 (if c = 0 then 0xffff else c)) s1"
  have wf: "net_wf m s2" unfolding s2_def s1_def
    by (intro net_wf_tx_put assms(1)) (use False in simp_all)
  obtain r s' w' where e: "net_ipv4_send E dst NET_IPV4_PROTOCOL_UDP (take (8 + length data) (drop 34 (transmit_frame s2))) (s2, w) = (r, s', w')"
    by (metis prod_cases3)
  have "net_wf m s'" "W w'"
    using ipv4_send_good[OF wf assms(2), of dst NET_IPV4_PROTOCOL_UDP "take (8 + length data) (drop 34 (transmit_frame s2))"] e by simp_all
  moreover have "net_udp_send E dst dp sp data (s, w) = (r, if r = NET_SEND_SENT
      then upd_stats (\<lambda>t. t\<lparr>udp_datagrams_transmitted := udp_datagrams_transmitted t + 1\<rparr>) s' else s', w')"
    using False e unfolding net_udp_send_def s2_def c_def s1_def Let_def by simp
  ultimately show ?thesis by (simp add: wf_updates)
qed (use assms in \<open>simp add: net_udp_send_def\<close>)

end

end
