(* ===== verification/Net_Safe.thy ===== *)
theory Net_Safe
  imports Net_Inv
begin

text \<open>
  Every operation of the stack returns for every input and keeps the invariant: the client state
  machines, frame input, the timers and polling.
\<close>

section \<open>DHCP messages\<close>

lemma first_u32_total: "i + 4 \<le> length p \<Longrightarrow> \<exists>v. first_u32 p i old = Some v"
  using read_u32_be_in[of i p] by (auto simp: first_u32_def split: option.splits)

lemma store_option_total:
  assumes "i + unat len \<le> length p" shows "\<exists>o'. store_option p i code len opts = Some o'"
proof -
  have four: "first_u32 p i old \<noteq> None" if "4 \<le> len" for old
    using first_u32_total[of i p old] assms that by (auto simp: word_le_nat_alt)
  have one: "load8 p i \<noteq> None" if "len = 1" using assms that by (simp add: load8_def)
  have "store_option p i code len opts \<noteq> None"
    using one four by (simp add: store_option_def bind_eq_None_conv del: not_None_eq)
  then show ?thesis by simp
qed

lemma parse_options_total: "\<exists>r. parse_options p off opts = Some r"
proof (induction p off opts rule: parse_options.induct)
  case (1 p off opts)
  show ?case
  proof (cases "off + 1 < length p")
    case True
    let ?len = "p ! (off + 1)"
    have o': "\<exists>o'. store_option p (off + 2) (p ! off) ?len opts = Some o'" if "\<not> unat ?len > length p - (off + 2)"
      by (rule store_option_total) (use that True in linarith)
    show ?thesis using True 1 o' by (subst parse_options.simps) (auto simp: load8_in)
  next
    case False
    then show ?thesis using 1 by (subst parse_options.simps) (auto simp: load8_def)
  qed
qed

lemma parse_dhcp_options_total: "\<exists>r. parse_dhcp_options p = Some r"
proof (cases "length p < DHCP_FIXED_SIZE")
  case False
  then obtain c where "read_u32_be p 236 = Some c" using read_u32_be_in[of 236 p] by auto
  then show ?thesis using parse_options_total[of p 240 no_options] by (simp add: parse_dhcp_options_def)
qed (simp add: parse_dhcp_options_def)

lemma unat_seven_eighths: "unat (seven_eighths l) = unat l * 7 div 8"
proof -
  have l: "unat l < 4294967296" using unsigned_less[of l, where 'a = nat] by simp
  have "unat (ucast l * 7 :: u64) = unat l * 7"
    using l by (simp add: unat_word_ariths unsigned_ucast_eq take_bit_nat_eq_self)
  then have "unat ((ucast l * 7 :: u64) div 8) = unat l * 7 div 8" by (simp add: unat_div)
  moreover have "unat l * 7 div 8 < 4294967296" using l by simp
  ultimately show ?thesis by (simp add: seven_eighths_def unsigned_ucast_eq take_bit_nat_eq_self)
qed

lemma lease_times_ordered:
  assumes "lease \<noteq> 0" and "dhcp_lease_times lease opts = (renewal, rebind)"
  shows "renewal < lease" "rebind < lease"
proof -
  have pos: "0 < unat lease" using assms(1) by (simp add: unat_gt_0)
  have half: "lease div 2 < lease" using pos by (simp add: word_less_nat_alt unat_div)
  have s: "seven_eighths lease < lease" using pos by (simp add: word_less_nat_alt unat_seven_eighths)
  show "renewal < lease" "rebind < lease"
    using assms(2) half s by (auto simp: dhcp_lease_times_def Let_def not_le split: if_splits)
qed

section \<open>Configuration\<close>

lemma zero_wf: "arp_wf (replicate NET_ARP_CACHE_SIZE zero_arp_entry)" "cache_wf (replicate NET_DNS_CACHE_SIZE zero_cache_entry)"
  "bind_wf (replicate NET_UDP_BINDING_COUNT empty_binding)" "pend_wf zero_pending" "lease_wf zero_dhcp"
  by (auto simp: arp_wf_def arp_entry_ok_def zero_arp_entry_def zero_mac_def cache_wf_def cache_entry_ok_def cache_keys_def
      zero_cache_entry_def bind_wf_def empty_binding_def pend_wf_def zero_pending_def lease_wf_def zero_dhcp_def list_all_iff)

lemma pend_wf_valid: "pend_wf p \<Longrightarrow> pend_wf (p\<lparr>pend_valid := b\<rparr>)"
  by (simp add: pend_wf_def)

lemma clear_arp_wf: "net_wf m s \<Longrightarrow> net_wf m (clear_arp s)"
  using zero_wf(1) pend_wf_valid[OF net_wfD(8), of m s] by (simp add: clear_arp_def net_wf_def dns_wf_def)

lemma cache_clear_wf: "net_wf m s \<Longrightarrow> net_wf m (net_dns_cache_clear s)"
  using zero_wf(2) by (simp add: net_dns_cache_clear_def net_wf_def dns_wf_def)

lemma net_wf_set_state: "net_wf m s \<Longrightarrow> st \<noteq> NET_DNS_RESOLVED \<Longrightarrow> net_wf m (set_dns_state st s)"
  by (rule net_wf_dns) (assumption, rule dns_frame_state, simp add: net_wfD(10) dns_wf_set_state)

lemma configure_wf: "net_wf m s \<Longrightarrow> net_wf m (net_configure_ipv4 c s)"
  by (simp add: net_configure_ipv4_def Let_def clear_arp_wf cache_clear_wf wf_updates)

lemma clear_ipv4_wf: "net_wf m s \<Longrightarrow> net_wf m (net_clear_ipv4 s)"
  by (simp add: net_clear_ipv4_def Let_def clear_arp_wf cache_clear_wf wf_updates net_wf_set_state)

lemma expire_wf: "net_wf m s \<Longrightarrow> net_wf m (dns_cache_expire s)"
  using cache_expire_wf[of s] by (simp add: net_wf_def dns_wf_def) (simp add: dns_cache_expire_def)

lemma take_ack_wf: "net_wf m s \<Longrightarrow> dhcp_state (net_dhcp s) \<noteq> NET_DHCP_BOUND \<Longrightarrow> net_wf m (snd (dhcp_take_ack ip srv opts s))"
proof -
  assume wf: "net_wf m s" and st: "dhcp_state (net_dhcp s) \<noteq> NET_DHCP_BOUND"
  define lease where "lease = or_else (opt_lease_time opts)
    (if dhcp_lease_seconds (net_dhcp s) \<noteq> 0 then dhcp_lease_seconds (net_dhcp s) else DHCP_DEFAULT_LEASE_SECONDS)"
  define t where "t = s\<lparr>net_dhcp := (net_dhcp s)\<lparr>dhcp_server_ip :=
      (if ipv4_is_usable_unicast srv then srv else dhcp_server_ip (net_dhcp s)), dhcp_lease_seconds := lease\<rparr>\<rparr>"
  have t: "net_wf m t" unfolding t_def by (rule net_wf_part(6)[OF wf]) (simp add: lease_wf_def st)
  obtain renewal rebind where lt: "dhcp_lease_times lease opts = (renewal, rebind)" by fastforce
  have bound: "net_wf m (u\<lparr>net_dhcp := (net_dhcp u)\<lparr>dhcp_state := NET_DHCP_BOUND, dhcp_lease_started_ms := a, dhcp_next_action_ms := b, dhcp_attempts := 0\<rparr>\<rparr>)"
    if "net_wf m u" "lease \<noteq> 0" "dhcp_lease_seconds (net_dhcp u) = lease" "dhcp_renewal_seconds (net_dhcp u) = renewal"
      "dhcp_rebind_seconds (net_dhcp u) = rebind" for u a b
    by (rule net_wf_part(6)[OF that(1)]) (use that lease_times_ordered[OF _ lt] in \<open>simp add: lease_wf_def\<close>)
  define cfg where "cfg = (\<lambda>a. dhcp_lease_config a opts s)"
  define v where "v = t\<lparr>net_dhcp := (net_dhcp t)\<lparr>dhcp_renewal_seconds := renewal, dhcp_rebind_seconds := rebind\<rparr>\<rparr>"
  have v: "net_wf m v" unfolding v_def by (rule net_wf_part(6)[OF t]) (simp add: lease_wf_def t_def st)
  have keeps: "net_dhcp (net_configure_ipv4 c u) = net_dhcp u" for c u
    by (simp add: net_configure_ipv4_def Let_def clear_arp_def net_dns_cache_clear_def)
  have vd: "dhcp_lease_seconds (net_dhcp v) = lease" "dhcp_renewal_seconds (net_dhcp v) = renewal" "dhcp_rebind_seconds (net_dhcp v) = rebind"
    by (simp_all add: v_def t_def)
  show ?thesis
    unfolding dhcp_take_ack_def Let_def lease_def[symmetric] t_def[symmetric] lt prod.case v_def[symmetric] cfg_def[symmetric]
    using wf t bound[OF configure_wf[OF v]] vd by (simp add: keeps)
qed

section \<open>The clients\<close>

context net_sender
begin

lemma dhcp_send_good:
  assumes "net_wf m s" and "W w" shows "good m W (snd (dhcp_send_message E ty b (s, w)))"
proof (cases "dhcp_message s ty b")
  case (Some po)
  obtain packet off where po: "po = (packet, off)" by fastforce
  define dst where "dst = (if dhcp_state (net_dhcp s) = NET_DHCP_RENEWING \<and> dhcp_server_ip (net_dhcp s) \<noteq> 0 then dhcp_server_ip (net_dhcp s) else UINT32_MAX)"
  obtain r s' w' where e: "net_udp_send E dst DHCP_SERVER_PORT DHCP_CLIENT_PORT (take off packet) (s, w) = (r, s', w')" by (metis prod_cases3)
  have g: "net_wf m s'" "W w'" using udp_send_good[OF assms, of dst DHCP_SERVER_PORT DHCP_CLIENT_PORT "take off packet"] e by simp_all
  have "net_wf m (s'\<lparr>net_dhcp := (net_dhcp s')\<lparr>dhcp_attempts := a, dhcp_next_action_ms := n\<rparr>\<rparr>)" for a n
    by (rule net_wf_part(6)[OF g(1)]) (use net_wfD(9)[OF g(1)] in \<open>simp add: lease_wf_def\<close>)
  then show ?thesis using g(2) Some po e unfolding dhcp_send_message_def prod.case Let_def dst_def[symmetric] by simp
qed (use assms in \<open>simp add: dhcp_send_message_def\<close>)

lemma dhcp_start_good:
  assumes "net_wf m s" and "W w" shows "good m W (snd (net_dhcp_start E x (s, w)))"
proof -
  have "net_wf m ((net_clear_ipv4 s)\<lparr>net_dhcp := dhcp_reset_offer (zero_dhcp\<lparr>dhcp_state := NET_DHCP_DISCOVERING,
      dhcp_transaction_id := y, dhcp_attempts := 0\<rparr>)\<rparr>)" for y
    by (rule net_wf_part(6)[OF clear_ipv4_wf[OF assms(1)]]) (simp add: lease_wf_def dhcp_reset_offer_def)
  from dhcp_send_good[OF this assms(2), where ty = DHCP_MESSAGE_DISCOVER and b = False] show ?thesis
    using assms unfolding net_dhcp_start_def prod.case Let_def by (simp add: case_prod_beta)
qed

lemma dhcp_restart_good: "net_wf m s \<Longrightarrow> W w \<Longrightarrow> good m W (dhcp_restart E (s, w))"
  unfolding dhcp_restart_def prod.case Let_def by (rule dhcp_start_good)

lemma take_offer_good:
  assumes "net_wf m s" and "W w" shows "good m W (dhcp_take_offer E ip srv opts (s, w))"
  unfolding dhcp_take_offer_def prod.case Let_def
  by (rule dhcp_send_good[OF net_wf_part(6)[OF assms(1)] assms(2)]) (simp add: lease_wf_def)

lemma dhcp_react_good:
  assumes "net_wf m s" and "W w" shows "good m W (snd (dhcp_react E src ip opts (s, w)))"
proof -
  have "net_wf m (snd (dhcp_take_ack ip (or_else (opt_server_identifier opts) src) opts s))" if "dhcp_requesting s"
    by (rule take_ack_wf[OF assms(1)]) (use that in \<open>auto simp: dhcp_requesting_def\<close>)
  then show ?thesis using assms dhcp_restart_good[OF assms] take_offer_good[OF assms]
    unfolding dhcp_react_def prod.case Let_def by (simp add: case_prod_beta)
qed

lemma dhcp_receive_good:
  assumes "net_wf m s" and "W w"
  shows "\<exists>b sw. dhcp_receive E src p (s, w) = Some (b, sw) \<and> good m W sw"
proof (cases "length p < DHCP_FIXED_SIZE")
  case False
  then obtain i o' where r: "read_u32_be p 4 = Some i" "read_u32_be p 16 = Some o'"
    using read_u32_be_in[of 4 p] read_u32_be_in[of 16 p] by auto
  obtain q where q: "parse_dhcp_options p = Some q" using parse_dhcp_options_total by blast
  obtain b sw where d: "dhcp_react E src o' (the q) (s, w) = (b, sw)" by (rule prod.exhaust)
  have "good m W sw" using dhcp_react_good[OF assms, of src o' "the q"] d by simp
  then show ?thesis using False r q d assms
    by (cases q; cases sw) (auto simp: dhcp_receive_def load_bytes_in)
qed (use assms in \<open>auto simp: dhcp_receive_def\<close>)

lemma dns_query_sent_good:
  assumes "net_wf m s" and "W w" shows "good m W (snd (dns_send_query E (s, w)))"
proof (cases "dns_encode_name (DNS_QUERY_CAPACITY - DNS_HEADER_SIZE) (dns_name (net_dns s))")
  case (Some e)
  let ?q = "dns_query_message (dns_transaction_id (net_dns s)) e"
  obtain r s' w' where u: "net_udp_send E (cfg_dns (net_ipv4 s)) DNS_SERVER_PORT (dns_source_port (net_dns s)) ?q (s, w) = (r, s', w')"
    by (metis prod_cases3)
  have g: "net_wf m s'" "W w'" using udp_send_good[OF assms, of "cfg_dns (net_ipv4 s)" DNS_SERVER_PORT "dns_source_port (net_dns s)" ?q] u by simp_all
  have "net_wf m (s'\<lparr>net_dns := (net_dns s')\<lparr>dns_attempts := a, dns_next_action_ms := n\<rparr>\<rparr>)" for a n
    by (rule net_wf_dns[OF g(1)]) (use net_wfD(10)[OF g(1)] in \<open>simp_all add: dns_wf_def\<close>)
  then show ?thesis using assms g(2) Some u by (simp add: dns_send_query_def)
qed (use assms in \<open>simp add: dns_send_query_def\<close>)

lemma echo_request_good:
  assumes "net_wf m s" and "W w" shows "good m W (snd (net_icmp_echo_request E dst i q payload (s, w)))"
proof (cases "length payload > NET_IPV4_PAYLOAD_MAX - 8")
  case False
  define s1 where "s1 = tx_put 34 (icmp_echo ICMP_ECHO_REQUEST 0 i q payload) s"
  define s2 where "s2 = tx_put 36 (be16 (internet_checksum (take (8 + length payload) (drop 34 (transmit_frame s1))))) s1"
  let ?b = "take (8 + length payload) (drop 34 (transmit_frame s2))"
  have wf: "net_wf m s2" unfolding s2_def s1_def by (intro net_wf_tx_put assms(1)) (use False in \<open>simp_all add: icmp_echo_def\<close>)
  obtain r s' w' where e: "net_ipv4_send E dst NET_IPV4_PROTOCOL_ICMP ?b (s2, w) = (r, s', w')" by (metis prod_cases3)
  have "net_wf m s'" "W w'" using ipv4_send_good[OF wf assms(2), of dst NET_IPV4_PROTOCOL_ICMP ?b] e by simp_all
  then show ?thesis using False e unfolding net_icmp_echo_request_def prod.case Let_def s1_def[symmetric] s2_def[symmetric]
    by (simp add: wf_updates)
qed (use assms in \<open>simp add: net_icmp_echo_request_def\<close>)

lemma icmp_answer_good:
  assumes "net_wf m s" and "W w" and "length p \<le> NET_IPV4_PAYLOAD_MAX" and "8 \<le> length p"
  shows "good m W (snd (icmp_answer E src p (s, w)))"
proof -
  define s1 where "s1 = tx_put 36 (be16 0) (tx_put 34 [ICMP_ECHO_REPLY] (tx_put 34 p s))"
  define s2 where "s2 = tx_put 36 (be16 (internet_checksum (take (length p) (drop 34 (transmit_frame s1))))) s1"
  define s3 where "s3 = upd_stats (\<lambda>t. t\<lparr>icmp_echo_requests_received := icmp_echo_requests_received t + 1\<rparr>) s2"
  have "net_wf m s3" unfolding s3_def s2_def s1_def wf_updates by (intro net_wf_tx_put assms(1)) (use assms in simp_all)
  from ipv4_send_good[OF this assms(2), of src NET_IPV4_PROTOCOL_ICMP "take (length p) (drop 34 (transmit_frame s3))"]
  show ?thesis unfolding icmp_answer_def prod.case Let_def s1_def[symmetric] s2_def[symmetric] s3_def[symmetric]
    by (simp add: case_prod_beta)
qed

lemma receive_icmp_good:
  assumes "net_wf m s" and "W w" and "length p \<le> NET_IPV4_PAYLOAD_MAX"
  shows "\<exists>b sw. receive_icmp E src dst p (s, w) = Some (b, sw) \<and> good m W sw"
proof (cases "length p < 8")
  case False
  then obtain i q where r: "read_u16_be p 4 = Some i" "read_u16_be p 6 = Some q"
    using read_u16_be_in[of 4 p] read_u16_be_in[of 6 p] by auto
  obtain b sw where a: "icmp_answer E src p (s, w) = (b, sw)" by (rule prod.exhaust)
  have "good m W sw" using icmp_answer_good[OF assms] False a by (metis not_less snd_conv)
  moreover have "net_wf m (icmp_accept_reply src i q n s)" for n
    using assms(1) by (simp add: icmp_accept_reply_def Let_def wf_updates)
  moreover have "load8 p 0 = Some (p ! 0)" "load8 p 1 = Some (p ! 1)" using False by (auto simp: load8_def)
  ultimately show ?thesis using False r assms a by (cases sw) (auto simp: receive_icmp_def)
qed (use assms in \<open>auto simp: receive_icmp_def\<close>)

lemma receive_arp_good:
  assumes "net_wf m s" and "W w" and "length mac = 6"
  shows "\<exists>b sw. receive_arp E mac p (s, w) = Some (b, sw) \<and> good m W sw"
proof (cases "length p < ARP_PACKET_SIZE")
  case False
  then obtain a b op si ti where r: "read_u16_be p 0 = Some a" "read_u16_be p 2 = Some b" "read_u16_be p 6 = Some op"
    "read_u32_be p 14 = Some si" "read_u32_be p 24 = Some ti"
    using read_u16_be_in[of 0 p] read_u16_be_in[of 2 p] read_u16_be_in[of 6 p] read_u32_be_in[of 14 p] read_u32_be_in[of 24 p] by auto
  have l: "load8 p 4 = Some (p ! 4)" "load8 p 5 = Some (p ! 5)" "load_bytes p 8 6 = Some (take 6 (drop 8 p))"
    "load_bytes p 18 6 = Some (take 6 (drop 18 p))" "length (take 6 (drop 8 p)) = 6" using False by (simp_all add: load8_in load_bytes_in)
  let ?s = "arp_learn si (take 6 (drop 8 p)) s"
  have wf: "net_wf m ?s" by (rule arp_learn_wf[OF assms(1) l(5)])
  let ?u = "upd_stats (\<lambda>t. t\<lparr>arp_replies_received := arp_replies_received t + 1\<rparr>) ?s"
  have f1: "good m W (snd (flush_pending_ipv4 E (?s, w)))" by (rule flush_good[OF wf assms(2)])
  have f2: "good m W (snd (flush_pending_ipv4 E (?u, w)))" by (rule flush_good[OF _ assms(2)]) (simp add: wf_updates wf)
  obtain s1 w1 where e: "snd (flush_pending_ipv4 E (?s, w)) = (s1, w1)" by (rule prod.exhaust)
  obtain c sw where a: "send_arp_reply E (take 6 (drop 8 p)) si (s1, w1) = (c, sw)" by (rule prod.exhaust)
  have g: "good m W sw" using arp_reply_good[OF _ _ l(5), of s1 w1 si] f1 e a by (simp add: good_def)
  obtain s2 w2 where e2: "snd (flush_pending_ipv4 E (?u, w)) = (s2, w2)" by (rule prod.exhaust)
  show ?thesis using False assms f2 g e a e2 by (cases sw) (auto simp: receive_arp_def r l)
qed (use assms in \<open>auto simp: receive_arp_def\<close>)

lemma tick_arp_good:
  assumes "net_wf m s" and "W w" shows "good m W (tick_pending_arp E (s, w))"
proof -
  have p: "net_wf m (s\<lparr>pending_ipv4 := (pending_ipv4 s)\<lparr>pend_valid := b\<rparr>\<rparr>)"
    "net_wf m (s\<lparr>pending_ipv4 := (pending_ipv4 s)\<lparr>pend_arp_requested_ms := x, pend_arp_attempts := y\<rparr>\<rparr>)" for b x y
    by (rule net_wf_part(5)[OF assms(1)], use net_wfD(8)[OF assms(1)] in \<open>simp add: pend_wf_def\<close>)+
  show ?thesis using assms p flush_good[OF assms] arp_request_good[OF p(2) assms(2)]
    unfolding tick_pending_arp_def prod.case Let_def by simp
qed

lemma tick_dhcp_good:
  assumes "net_wf m s" and "W w" shows "good m W (tick_dhcp E (s, w))"
proof -
  have en: "good m W (dhcp_enter E st (s, w))" if "st \<noteq> NET_DHCP_BOUND" for st
    unfolding dhcp_enter_def prod.case
    by (rule dhcp_send_good[OF net_wf_part(6)[OF assms(1)] assms(2)]) (simp add: lease_wf_def that)
  have re: "good m W (tick_dhcp_retry E (s, w))"
    using assms dhcp_send_good[OF assms] by (simp add: tick_dhcp_retry_def split: net_dhcp_state.splits)
  show ?thesis using assms en re dhcp_restart_good[OF assms] unfolding tick_dhcp_def prod.case Let_def by simp
qed

lemma tick_dns_good:
  assumes "net_wf m s" and "W w" shows "good m W (tick_dns E (s, w))"
  using assms dns_query_sent_good[OF assms] net_wf_set_state[OF assms(1)] by (simp add: tick_dns_def)

lemma tick_good:
  assumes "net_wf m s" and "W w" shows "good m W (net_tick E now (s, w))"
proof -
  let ?s = "dns_cache_expire (s\<lparr>current_time_ms := now\<rparr>)"
  have wf: "net_wf m ?s" by (rule expire_wf) (simp add: wf_updates assms)
  have "arp_entry_ok e \<Longrightarrow> arp_entry_ok (arp_age now e)" "arp_valid (arp_age now e) \<Longrightarrow> arp_valid e" "arp_ip (arp_age now e) = arp_ip e" for e
    by (simp_all add: arp_age_def arp_entry_ok_def split: if_splits)
  then have "arp_wf (map (arp_age now) (net_arp ?s))"
    using net_wfD(6)[OF wf] by (fastforce simp: arp_wf_def list_all_length)
  then have "net_wf m (?s\<lparr>net_arp := map (arp_age now) (net_arp ?s)\<rparr>)" by (rule net_wf_part(3)[OF wf])
  from tick_arp_good[OF this assms(2)] obtain s1 w1 where
    1: "tick_pending_arp E (?s\<lparr>net_arp := map (arp_age now) (net_arp ?s)\<rparr>, w) = (s1, w1)" "net_wf m s1" "W w1"
    by (metis good_def prod.collapse)
  obtain s2 w2 where 2: "tick_dhcp E (s1, w1) = (s2, w2)" "net_wf m s2" "W w2" using tick_dhcp_good[OF 1(2,3)] by (metis good_def prod.collapse)
  obtain s3 w3 where 3: "tick_dns E (s2, w2) = (s3, w3)" "net_wf m s3" "W w3" using tick_dns_good[OF 2(2,3)] by (metis good_def prod.collapse)
  show ?thesis using 1 2 3 by (simp add: net_tick_def Let_def tick_echo_def wf_updates)
qed

end

section \<open>Input and polling\<close>

lemma check_header_total:
  "\<exists>r. ipv4_check_header p = Some r \<and> (\<forall>h t. r = Some (h, t) \<longrightarrow> 20 \<le> h \<and> h \<le> t \<and> t \<le> length p)"
proof (cases "length p < NET_IPV4_HEADER_MIN_SIZE")
  case False
  then obtain t f where r: "read_u16_be p 2 = Some t" "read_u16_be p 6 = Some f"
    using read_u16_be_in[of 2 p] read_u16_be_in[of 6 p] by auto
  have l: "load8 p 0 = Some (p ! 0)" "load8 p 8 = Some (p ! 8)" using False by (auto simp: load8_def)
  let ?h = "unat (p ! 0 AND 0xf) * 4"
  have "?h \<le> length p \<Longrightarrow> load_bytes p 0 ?h = Some (take ?h p)" by (simp add: load_bytes_def)
  then show ?thesis using False by (auto simp: ipv4_check_header_def r l Let_def not_less)
qed (simp add: ipv4_check_header_def)

context net_link
begin

lemma udp_deliver_good:
  assumes "net_wf m s" and "W w" shows "good m W (snd (udp_deliver E src dst sp dp d (s, w)))"
  using assms udp_keeps[of "(s, w)"] by (simp add: udp_deliver_def split: option.splits)

lemma receive_udp_good:
  assumes "net_wf m s" and "W w"
  shows "\<exists>b sw. receive_udp E src dst p (s, w) = Some (b, sw) \<and> good m W sw"
proof (cases "length p < 8")
  case False
  then obtain sp dp n c where r: "read_u16_be p 0 = Some sp" "read_u16_be p 2 = Some dp" "read_u16_be p 4 = Some n" "read_u16_be p 6 = Some c"
    using read_u16_be_in[of 0 p] read_u16_be_in[of 2 p] read_u16_be_in[of 4 p] read_u16_be_in[of 6 p] by auto
  obtain v where v: "udp_checksum_valid src dst p = Some v" using r(4) by (simp add: udp_checksum_valid_def)
  let ?s = "upd_stats (\<lambda>t. t\<lparr>udp_datagrams_received := udp_datagrams_received t + 1\<rparr>) s"
  let ?d = "take (unat n - 8) (drop 8 p)"
  have wf: "net_wf m ?s" using assms(1) by (simp add: wf_updates)
  obtain b1 sw1 where 1: "dhcp_receive E src ?d (?s, w) = Some (b1, sw1)" "good m W sw1" using dhcp_receive_good[OF wf assms(2)] by blast
  obtain b2 s2 where 2: "dns_receive src sp dp ?d ?s = Some (b2, s2)" "if b2 then dns_done ?s s2 else s2 = ?s"
    using dns_receive_total[OF net_wfD(10)[OF wf]] by blast
  have g2: "net_wf m s2" using 2(2) wf net_wf_dns[OF wf, of s2] by (auto simp: dns_done_def split: if_splits)
  obtain b3 sw3 where 3: "udp_deliver E src dst sp dp ?d (?s, w) = (b3, sw3)" by (rule prod.exhaust)
  have g3: "good m W sw3" using udp_deliver_good[OF wf assms(2), of src dst sp dp ?d] 3 by simp
  show ?thesis using False assms 1 2(1) 3 g2 g3
    by (cases sw1; cases sw3) (auto simp: receive_udp_def r v load_bytes_in Let_def)
qed (use assms in \<open>auto simp: receive_udp_def\<close>)

lemma ipv4_dispatch_good:
  assumes "net_wf m s" and "W w" and "length p \<le> NET_IPV4_PAYLOAD_MAX"
  shows "\<exists>b sw. ipv4_dispatch E pr src dst p (s, w) = Some (b, sw) \<and> good m W sw"
proof (cases "tcp_handler s")
  case None
  then show ?thesis using assms receive_icmp_good[OF assms] receive_udp_good[OF assms(1,2)] by (auto simp: ipv4_dispatch_def)
next
  case (Some h)
  obtain s1 w1 where "env_tcp_handler E h (tcp_handler_context s) src dst p (s, w) = (s1, w1)" by (rule prod.exhaust)
  moreover have "good m W (env_tcp_handler E h (tcp_handler_context s) src dst p (s, w))" by (rule tcp_keeps) (simp add: assms)
  ultimately show ?thesis using Some assms receive_icmp_good[OF assms] receive_udp_good[OF assms(1,2)] by (auto simp: ipv4_dispatch_def)
qed

lemma receive_ipv4_good:
  assumes "net_wf m s" and "W w" and "length mac = 6" and "length p \<le> 1500"
  shows "\<exists>b sw. receive_ipv4 E mac p (s, w) = Some (b, sw) \<and> good m W sw"
proof -
  obtain r where r: "ipv4_check_header p = Some r" "\<forall>h t. r = Some (h, t) \<longrightarrow> 20 \<le> h \<and> h \<le> t \<and> t \<le> length p"
    using check_header_total by blast
  show ?thesis
  proof (cases r)
    case None
    then show ?thesis using r assms by (auto simp: receive_ipv4_def)
  next
    case (Some ht)
    obtain h t where ht: "ht = (h, t)" by (rule prod.exhaust)
    have b: "20 \<le> h" "h \<le> t" "t \<le> length p" using r Some ht by simp_all
    obtain src dst where sd: "read_u32_be p 12 = Some src" "read_u32_be p 16 = Some dst"
      using read_u32_be_in[of 12 p] read_u32_be_in[of 16 p] b by auto
    have pr: "load8 p 9 = Some (p ! 9)" using b by (simp add: load8_def)
    have "\<exists>v. read_u16_be p (h + 2) = Some v" if "h + 8 \<le> t" using read_u16_be_in[of "h + 2" p] b that by simp
    then obtain ac where ac: "ipv4_accepts s p h t dst (p ! 9) = Some ac"
      by (cases "h + 8 \<le> t") (force simp: ipv4_accepts_def Let_def)+
    define sw1 where "sw1 = (if ipv4_is_usable_unicast src \<and> ipv4_is_on_link s src
      then snd (flush_pending_ipv4 E (arp_learn src mac s, w)) else (s, w))"
    have "good m W sw1" using assms flush_good[OF arp_learn_wf[OF assms(1,3)] assms(2)] by (simp add: sw1_def)
    then obtain s1 w1 where 1: "sw1 = (s1, w1)" "net_wf m s1" "W w1" by (cases sw1) auto
    have pl: "load_bytes p h (t - h) = Some (take (t - h) (drop h p))" using b by (simp add: load_bytes_in)
    let ?s = "upd_stats (\<lambda>t. t\<lparr>ipv4_packets_received := ipv4_packets_received t + 1\<rparr>) s1"
    have short: "length (take (t - h) (drop h p)) \<le> NET_IPV4_PAYLOAD_MAX" using b assms(4) by simp
    have "net_wf m ?s" using 1(2) by (simp add: wf_updates)
    then obtain c sw where d: "ipv4_dispatch E (p ! 9) src dst (take (t - h) (drop h p)) (?s, w1) = Some (c, sw)" "good m W sw"
      using ipv4_dispatch_good[OF _ 1(3) short] by blast
    have "receive_ipv4 E mac p (s, w) = (if \<not> ac then Some (False, s, w) else Some (c, sw))"
      using r(1) Some ht sd pr ac pl d(1) 1(1) unfolding receive_ipv4_def prod.case by (simp add: sw1_def[symmetric] 1(1))
    then show ?thesis using d(2) assms by (cases ac; cases sw) auto
  qed
qed

lemma input_good:
  assumes "net_wf m s" and "W w"
  shows "\<exists>b sw. net_input E frame (s, w) = Some (b, sw) \<and> good m W sw"
proof (cases "length frame < NET_ETHERNET_HEADER_SIZE \<or> length frame > NET_ETHERNET_FRAME_MAX")
  case True
  then show ?thesis using assms by (auto simp: net_input_def Let_def frame_dropped_def wf_updates)
next
  case False
  then have len: "14 \<le> length frame" "length frame \<le> 1514" by auto
  let ?s = "upd_stats (\<lambda>t. t\<lparr>frames_received := frames_received t + 1\<rparr>) s"
  let ?src = "take 6 (drop 6 frame)" and ?p = "drop 14 frame"
  obtain ty where ty: "read_u16_be frame 12 = Some ty" using read_u16_be_in[of 12 frame] len by auto
  have l: "load_bytes frame 0 6 = Some (take 6 frame)" "load_bytes frame 6 6 = Some ?src"
    "load_bytes frame 14 (length frame - 14) = Some ?p" "length ?src = 6" using len by (simp_all add: load_bytes_def)
  have short: "length ?p \<le> 1500" using len by simp
  have wf: "net_wf m ?s" by (simp add: wf_updates assms)
  obtain b1 s1 w1 where 1: "receive_arp E ?src ?p (?s, w) = Some (b1, s1, w1)" "net_wf m s1" "W w1"
    using receive_arp_good[OF wf assms(2) l(4), of ?p] by auto
  obtain b2 s2 w2 where 2: "receive_ipv4 E ?src ?p (?s, w) = Some (b2, s2, w2)" "net_wf m s2" "W w2"
    using receive_ipv4_good[OF wf assms(2) l(4) short] by auto
  show ?thesis using False assms 1 2 by (auto simp: net_input_def Let_def frame_dropped_def wf_updates ty l)
qed

lemma tick_link_good: "net_wf m s \<Longrightarrow> W w \<Longrightarrow> good m W (tick_from_link E (s, w))"
  using tick_good now_keeps[of w] by (auto simp: tick_from_link_def split: prod.splits)

lemma poll_frames_good:
  "net_wf m s \<Longrightarrow> W w \<Longrightarrow> \<exists>k sw. poll_frames E n c (s, w) = Some (k, sw) \<and> good m W sw \<and> k \<le> c + n"
proof (induction n arbitrary: c s w)
  case (Suc n)
  obtain f w1 where f: "env_poll E w = (f, w1)" by (rule prod.exhaust)
  have w1: "W w1" using poll_keeps[OF Suc.prems(2)] f by simp
  show ?case
  proof (cases "f = [] \<or> length f > NET_ETHERNET_FRAME_MAX")
    case True
    then show ?thesis using Suc.prems w1 by (auto simp: f frame_dropped_def wf_updates)
  next
    case False
    let ?s = "s\<lparr>receive_frame := blit (receive_frame s) 0 f\<rparr>"
    have wf: "net_wf m ?s"
      by (rule net_wf_part(2)[OF Suc.prems(1)]) (use False net_wfD(5)[OF Suc.prems(1)] in \<open>simp add: length_blit\<close>)
    obtain b s2 w2 where i: "net_input E f (?s, w1) = Some (b, s2, w2)" "net_wf m s2" "W w2" using input_good[OF wf w1, of f] by auto
    have "take (length f) (blit (receive_frame s) 0 f) = f" by (rule take_blit0)
    then show ?thesis using False f i Suc.IH[OF i(2,3), of "if b then c + 1 else c"] by (auto split: if_splits)
  qed
qed simp

lemma poll_good:
  assumes "net_wf m s" and "W w"
  shows "\<exists>k sw. net_poll E (s, w) = Some (k, sw) \<and> good m W sw \<and> k \<le> 32"
proof -
  obtain s1 w1 where 1: "tick_from_link E (s, w) = (s1, w1)" "net_wf m s1" "W w1"
    using tick_link_good[OF assms] by (metis good_def prod.collapse)
  obtain k s2 w2 where 2: "poll_frames E 32 0 (s1, w1) = Some (k, s2, w2)" "net_wf m s2" "W w2" "k \<le> 32"
    using poll_frames_good[OF 1(2,3), of 32 0] by auto
  have "good m W (tick_from_link E (s2, w2))" by (rule tick_link_good[OF 2(2,3)])
  then show ?thesis using 1 2 by (cases "tick_from_link E (s2, w2)") (auto simp: net_poll_def)
qed

end

end
