(* ===== verification/Net_Reach.thy ===== *)
theory Net_Reach
  imports Net_Safe
begin

text \<open>
  The stack as a state machine: \<open>net_step\<close> is one call of a public operation, in any order and with
  any arguments; \<open>net_reachable\<close> are the states reached from \<open>net_init\<close>.  \<open>wire_env\<close> is a recording
  link with a datagram handler that answers through the stack.
\<close>

section \<open>Definitions\<close>

inductive net_step :: "'w net_env \<Rightarrow> net_stack \<times> 'w \<Rightarrow> net_stack \<times> 'w \<Rightarrow> bool" for E where
  step_input: "net_input E frame (s, w) = Some (b, sw') \<Longrightarrow> net_step E (s, w) sw'"
| step_poll: "net_poll E (s, w) = Some (k, sw') \<Longrightarrow> net_step E (s, w) sw'"
| step_tick: "net_step E (s, w) (net_tick E now (s, w))"
| step_configure: "net_step E (s, w) (net_configure_ipv4 c s, w)"
| step_clear: "net_step E (s, w) (net_clear_ipv4 s, w)"
| step_dhcp_start: "net_step E (s, w) (snd (net_dhcp_start E x (s, w)))"
| step_dhcp_stop: "net_step E (s, w) (net_dhcp_stop s, w)"
| step_dns_query: "net_step E (s, w) (snd (net_dns_query E name i (s, w)))"
| step_dns_cancel: "net_dns_cancel s = Some (b, s') \<Longrightarrow> net_step E (s, w) (s', w)"
| step_dns_clear: "net_step E (s, w) (net_dns_clear_result s, w)"
| step_cache_clear: "net_step E (s, w) (net_dns_cache_clear s, w)"
| step_udp_bind: "net_step E (s, w) (snd (net_udp_bind port h ctx s), w)"
| step_udp_unbind: "net_step E (s, w) (net_udp_unbind port s, w)"
| step_tcp_handler: "net_step E (s, w) (net_set_tcp_handler h ctx s, w)"
| step_udp_send: "net_step E (s, w) (snd (net_udp_send E dst dp sp data (s, w)))"
| step_ipv4_send: "net_step E (s, w) (snd (net_ipv4_send E dst pr payload (s, w)))"
| step_arp_request: "net_step E (s, w) (snd (net_arp_request E ip (s, w)))"
| step_echo_request: "net_step E (s, w) (snd (net_icmp_echo_request E dst i q payload (s, w)))"
| step_echo_clear: "net_step E (s, w) (net_icmp_clear_echo_reply s, w)"

inductive net_reachable :: "'w net_env \<Rightarrow> bytes \<Rightarrow> 'w \<Rightarrow> net_stack \<times> 'w \<Rightarrow> bool" for E m w0 where
  reach_init: "net_init E True has_poll has_now m (s0, w0) = (True, s, w) \<Longrightarrow> net_reachable E m w0 (s, w)"
| reach_step: "net_reachable E m w0 sw \<Longrightarrow> net_step E sw sw' \<Longrightarrow> net_reachable E m w0 sw'"

text \<open>A wire that records what was sent and delivers queued frames.\<close>

record wire =
  wire_sent :: "bytes list"
  wire_queue :: "bytes list"
  wire_clock :: u64

definition wire_send :: "bytes \<Rightarrow> wire \<Rightarrow> bool \<times> wire" where
  "wire_send f w = (True, w\<lparr>wire_sent := wire_sent w @ [f]\<rparr>)"

definition wire_poll :: "wire \<Rightarrow> bytes \<times> wire" where
  "wire_poll w = (case wire_queue w of [] \<Rightarrow> ([], w) | f # fs \<Rightarrow> (f, w\<lparr>wire_queue := fs\<rparr>))"

definition wire_link :: "wire net_env" where
  "wire_link = \<lparr>env_send = wire_send, env_poll = wire_poll, env_now_ms = (\<lambda>w. (wire_clock w, w\<lparr>wire_clock := wire_clock w + 10\<rparr>)),
     env_udp_handler = (\<lambda>h c d sw. sw), env_tcp_handler = (\<lambda>h c src dst p sw. sw)\<rparr>"

text \<open>Every datagram is sent back to its sender.\<close>

definition wire_env :: "wire net_env" where
  "wire_env = wire_link\<lparr>env_udp_handler := (\<lambda>h c d sw.
     snd (net_udp_send wire_link (dg_source_ip d) (dg_source_port d) (dg_destination_port d) (dg_data d) sw))\<rparr>"

section \<open>The remaining operations\<close>

lemma bind_wf_update:
  assumes "bind_wf bs" and "ub_handler b \<noteq> None \<longrightarrow> ub_port b \<noteq> 0 \<and> ub_port b \<noteq> DHCP_CLIENT_PORT"
    and "\<And>j. j < length bs \<Longrightarrow> j \<noteq> i \<Longrightarrow> ub_handler (bs ! j) \<noteq> None \<Longrightarrow> ub_port (bs ! j) \<noteq> ub_port b"
  shows "bind_wf (bs[i := b])"
proof -
  have "list_all (\<lambda>b. ub_handler b \<noteq> None \<longrightarrow> ub_port b \<noteq> 0 \<and> ub_port b \<noteq> DHCP_CLIENT_PORT) (bs[i := b])"
    using assms(1,2) set_update_subset_insert[of bs i b] by (auto simp: bind_wf_def list_all_iff)
  moreover have "ub_port (bs[i := b] ! a) \<noteq> ub_port (bs[i := b] ! c)"
    if h: "a < c" "c < length bs" "ub_handler (bs[i := b] ! a) \<noteq> None" "ub_handler (bs[i := b] ! c) \<noteq> None" for a c
  proof -
    have n: "bs[i := b] ! k = (if k = i then b else bs ! k)" if "k < length bs" for k
      using that by (auto simp: nth_list_update)
    have "a < length bs" using h by simp
    note na = n[OF this] and nc = n[OF h(2)]
    consider "a = i" "c \<noteq> i" | "a \<noteq> i" "c = i" | "a \<noteq> i" "c \<noteq> i" using h(1) by blast
    then show ?thesis
    proof cases
      case 1
      then show ?thesis using assms(3)[OF h(2)] h(4) na nc by (simp add: eq_commute)
    next
      case 2
      then show ?thesis using assms(3)[OF \<open>a < length bs\<close>] h(3) na nc by simp
    next
      case 3
      then show ?thesis using assms(1) h na nc by (simp add: bind_wf_def)
    qed
  qed
  ultimately show ?thesis using assms(1) by (simp add: bind_wf_def)
qed

lemma udp_bind_wf: "net_wf m s \<Longrightarrow> net_wf m (snd (net_udp_bind port h ctx s))"
proof (cases "port = 0 \<or> h = None \<or> port = DHCP_CLIENT_PORT \<or> find_idx (udp_bound port) (udp_bindings s) \<noteq> None")
  case False
  assume wf: "net_wf m s"
  have "bind_wf ((udp_bindings s)[i := \<lparr>ub_port = port, ub_handler = h, ub_context = ctx\<rparr>])" for i
    by (rule bind_wf_update[OF net_wfD(7)[OF wf]]) (use False in \<open>auto simp: udp_bound_def dest!: bspec[OF _ nth_mem]\<close>)
  then show ?thesis using False wf net_wf_part(4)[OF wf] by (auto simp: net_udp_bind_def split: option.splits)
qed (auto simp: net_udp_bind_def)

lemma udp_unbind_wf: "net_wf m s \<Longrightarrow> net_wf m (net_udp_unbind port s)"
  unfolding net_udp_unbind_def
  by (rule net_wf_part(4), assumption, drule net_wfD(7)) (auto simp: bind_wf_def list_all_iff empty_binding_def)

lemma net_wf_dns_client:
  "net_wf m s \<Longrightarrow> length (dns_name d) \<le> NET_DNS_NAME_MAX \<Longrightarrow> dns_state d = NET_DNS_RESOLVED \<longrightarrow> ipv4_is_usable_unicast (dns_result_address d)
   \<Longrightarrow> net_wf m (s\<lparr>net_dns := d\<rparr>)"
  by (simp add: net_wf_def dns_wf_def)

lemma validated_length: "dns_validate_and_copy_name name = Some v \<Longrightarrow> length v \<le> NET_DNS_NAME_MAX"
  using validate_name_labels[of _ "[]" "[]" v "[]"] by (auto simp: dns_validate_and_copy_name_def split: option.splits if_splits)

lemma cache_hit_wf:
  assumes "net_wf m s" and "dns_cache_find s name = Some i" and "length name \<le> NET_DNS_NAME_MAX"
  shows "net_wf m (dns_cache_hit name i s)"
proof -
  let ?es = "dns_cache s"
  have c: "cache_wf ?es" using net_wfD(10)[OF assms(1)] by (simp add: dns_wf_def)
  have i: "i < length ?es" "ce_valid (?es ! i)" "dns_names_equal (ce_name (?es ! i)) name"
    using find_idx_SomeD[OF assms(2)[unfolded dns_cache_find_def]] by simp_all
  have e: "cache_entry_ok (?es ! i)" using c i(1) by (simp add: cache_wf_def list_all_length)
  have u: "\<not> dns_names_equal (ce_name (?es ! j)) (ce_name (?es ! i))" if "j < length ?es" "j \<noteq> i" "ce_valid (?es ! j)" for j
    using cache_find_unique[OF assms(2) _ that] c i(3) by (auto simp: cache_wf_def names_equal_lower)
  have "cache_wf (?es[i := (?es ! i)\<lparr>ce_last_used_ms := current_time_ms s\<rparr>])"
    by (rule cache_wf_update[OF c i(1)]) (use e u in \<open>auto simp: cache_entry_ok_def\<close>)
  then show ?thesis using assms(1,3) e i(2) by (simp add: dns_cache_hit_def Let_def net_wf_def dns_wf_def cache_entry_ok_def)
qed

lemma pending_query_total: "net_wf m s \<Longrightarrow> \<exists>b. pending_is_query s = Some b"
  using read_u16_be_in[of 0 "pend_payload (pending_ipv4 s)"] read_u16_be_in[of 2 "pend_payload (pending_ipv4 s)"]
    read_u16_be_in[of 8 "pend_payload (pending_ipv4 s)"] net_wfD(8)[of m s]
  by (auto simp: pending_is_query_def Let_def pend_wf_def)

lemma zero_dns_wf: "net_wf m s \<Longrightarrow> net_wf m (s\<lparr>net_dns := zero_dns\<rparr>)"
  by (rule net_wf_dns_client) (simp_all add: zero_dns_def)

lemma dns_cancel_wf: "net_wf m s \<Longrightarrow> \<exists>b s'. net_dns_cancel s = Some (b, s') \<and> net_wf m s'"
  using pending_query_total[of m s] zero_dns_wf[of m] net_wf_part(5)[OF _ zero_wf(4), of m s]
  by (auto simp: net_dns_cancel_def Let_def)

lemma snapshot_total: "net_wf m s \<Longrightarrow> \<exists>es. net_dns_cache_snapshot s n = Some es \<and> length es \<le> n"
proof -
  have "list_all cache_entry_ok xs \<Longrightarrow> \<exists>es. snapshot_entries now xs n = Some es \<and> length es \<le> n" for now xs
    by (induction now xs n rule: snapshot_entries.induct)
       (auto simp: cache_entry_info_def name_store_in cache_entry_ok_def)
  then show "net_wf m s \<Longrightarrow> ?thesis" by (simp add: net_dns_cache_snapshot_def net_wf_def dns_wf_def cache_wf_def)
qed

lemma init_wf:
  assumes "net_init E True p n m (s0, w0) = (True, s, w)" and "length m = 6"
  shows "net_wf m s"
proof -
  have "net_wf m (zero_stack\<lparr>link_send := True, link_poll := p, link_now_ms := n, net_mac := m, next_ipv4_id := 1\<rparr>)"
    using zero_wf assms(2) by (simp add: net_wf_def zero_stack_def dns_wf_def zero_dns_def)
  then show ?thesis using assms by (auto simp: net_init_def Let_def wf_updates split: if_splits prod.splits)
qed

context net_sender
begin

lemma dns_start_good:
  assumes "net_wf m s" and "W w" and "length name \<le> NET_DNS_NAME_MAX"
  shows "good m W (snd (dns_start_query E name i (s, w)))"
proof -
  let ?s = "s\<lparr>dns_cache_misses := dns_cache_misses s + 1\<rparr>"
  have wf: "net_wf m ?s" using assms by (simp add: wf_updates)
  have "net_wf m (?s\<lparr>net_dns := (net_dns ?s)\<lparr>dns_name := name, dns_transaction_id := t, dns_source_port := p, dns_result_address := 0,
      dns_ttl_seconds := 0, dns_response_code := 0, dns_attempts := 0, dns_state := NET_DNS_PENDING\<rparr>\<rparr>)" for t p
    by (rule net_wf_dns_client[OF wf]) (use assms(3) in simp_all)
  from dns_query_sent_good[OF this assms(2)] show ?thesis
    using wf assms(2) unfolding dns_start_query_def prod.case Let_def by (simp add: case_prod_beta)
qed

lemma dns_query_good:
  assumes "net_wf m s" and "W w" shows "good m W (snd (net_dns_query E name i (s, w)))"
proof (cases "dns_validate_and_copy_name name")
  case (Some v)
  note wf = expire_wf[OF assms(1)] and l = validated_length[OF Some]
  show ?thesis using Some dns_start_good[OF wf assms(2) l] cache_hit_wf[OF wf _ l] assms
    by (auto simp: net_dns_query_def Let_def split: option.splits)
qed (use assms in \<open>simp add: net_dns_query_def\<close>)

end

context net_link
begin

lemma step_good:
  assumes "net_step E sw sw'" and "good m W sw" shows "good m W sw'"
  using assms
proof cases
  case (step_input frame s w b)
  then show ?thesis using input_good[of s w frame] assms(2) by (auto simp: good_def)
next
  case (step_poll s w k)
  then show ?thesis using poll_good[of s w] assms(2) by (auto simp: good_def)
next
  case (step_dns_cancel s b s' w)
  then show ?thesis using dns_cancel_wf[of m s] assms(2) by (auto simp: good_def)
qed (use assms(2) in \<open>auto simp: tick_good configure_wf clear_ipv4_wf dhcp_start_good net_wf_part(6) zero_wf(5) net_dhcp_stop_def
      dns_query_good zero_dns_wf net_dns_clear_result_def cache_clear_wf udp_bind_wf udp_unbind_wf net_set_tcp_handler_def
      udp_send_good ipv4_send_good arp_request_good echo_request_good net_icmp_clear_echo_reply_def wf_updates\<close>)

lemma reachable_good:
  assumes "net_reachable E m w0 sw" and "W w0" and "length m = 6" shows "good m W sw"
  using assms(1)
proof induction
  case (reach_init p n s0 s w)
  then have "w = w0 \<or> w = snd (env_now_ms E w0)" by (auto simp: net_init_def Let_def split: if_splits prod.splits)
  then have "W w" using assms(2) now_keeps by auto
  then show ?case using init_wf[OF reach_init assms(3)] by simp
next
  case (reach_step sw sw')
  then show ?case using step_good by blast
qed

end

section \<open>The recording link meets the interface\<close>

interpretation wire_sender: net_sender wire_link m "\<lambda>w. list_all (tx_ok m) (wire_sent w)" for m
  by unfold_locales (simp add: wire_link_def wire_send_def)

interpretation wire: net_link wire_env m "\<lambda>w. list_all (tx_ok m) (wire_sent w)" for m
proof unfold_locales
  fix sw :: "net_stack \<times> wire" and h c d
  assume "good m (\<lambda>w. list_all (tx_ok m) (wire_sent w)) sw"
  then show "good m (\<lambda>w. list_all (tx_ok m) (wire_sent w)) (env_udp_handler wire_env h c d sw)"
    by (cases sw) (simp add: wire_env_def wire_sender.udp_send_good)
qed (auto simp: wire_env_def wire_link_def wire_send_def wire_poll_def split: list.splits)

end
