(* ===== verification/Net_Deliver.thy ===== *)
theory Net_Deliver
  imports Net_Reach
begin

text \<open>
  Datagrams end to end: what \<open>net_udp_send\<close> of one stack hands to its driver, \<open>net_input\<close> of the
  addressed stack gives to the bound handler, byte for byte.
\<close>

section \<open>The sender\<close>

definition udp_frame :: "bytes \<Rightarrow> bytes \<Rightarrow> u16 \<Rightarrow> u32 \<Rightarrow> u32 \<Rightarrow> u16 \<Rightarrow> u16 \<Rightarrow> bytes \<Rightarrow> bytes" where
  "udp_frame d m i src dst sp dp data = ethernet_header d m ETHERTYPE_IPV4
     @ ipv4_packet i NET_IPV4_PROTOCOL_UDP src dst (udp_segment sp dp (udp_checksum src dst sp dp data) data)"

lemma udp_stores:
  fixes s :: net_stack and sp dp :: u16 and dst :: u32 and data :: bytes
  assumes "length (transmit_frame s) = NET_ETHERNET_FRAME_MAX" and "length data \<le> NET_UDP_PAYLOAD_MAX"
  defines "s1 \<equiv> tx_put 34 (udp_segment sp dp 0 data) s"
  defines "c \<equiv> transport_checksum (cfg_address (net_ipv4 s1)) dst NET_IPV4_PROTOCOL_UDP (take (8 + length data) (drop 34 (transmit_frame s1)))"
  defines "s2 \<equiv> tx_put 40 (be16 (if c = 0 then 0xffff else c)) s1"
  shows "take (8 + length data) (drop 34 (transmit_frame s2)) = udp_segment sp dp (udp_checksum (cfg_address (net_ipv4 s)) dst sp dp data) data"
    and "length (transmit_frame s2) = NET_ETHERNET_FRAME_MAX" and "s2 = s\<lparr>transmit_frame := transmit_frame s2\<rparr>"
proof -
  let ?f = "transmit_frame s" and ?n = "length data"
  define h where "h = be16 sp @ be16 dp @ be16 (of_nat (8 + ?n))"
  have seg: "udp_segment sp dp v data = h @ be16 v @ data" for v by (simp add: udp_segment_split h_def)
  have h: "length h = 6" by (simp add: h_def)
  define p where "p = take 34 ?f"
  define r where "r = drop (42 + ?n) ?f"
  have p: "length p = 34" using assms(1) by (simp add: p_def)
  have f1: "transmit_frame s1 = p @ h @ be16 0 @ data @ r"
    unfolding s1_def tx_put_def seg blit_def by (simp add: p_def r_def h add.commute)
  have "take (8 + ?n) (drop 34 (transmit_frame s1)) = h @ be16 0 @ data" unfolding f1 using p h by simp
  then have c: "(if c = 0 then 0xffff else c) = udp_checksum (cfg_address (net_ipv4 s)) dst sp dp data"
    unfolding c_def by (simp add: udp_checksum_def seg s1_def tx_put_def Let_def)
  have f2: "transmit_frame s2 = p @ h @ be16 (udp_checksum (cfg_address (net_ipv4 s)) dst sp dp data) @ data @ r"
    unfolding s2_def c using blit_mid[of "p @ h" 40 "be16 0" _ "data @ r"] p h by (simp add: tx_put_def f1)
  show "take (8 + ?n) (drop 34 (transmit_frame s2)) = udp_segment sp dp (udp_checksum (cfg_address (net_ipv4 s)) dst sp dp data) data"
    unfolding f2 seg using p h by simp
  show "length (transmit_frame s2) = NET_ETHERNET_FRAME_MAX" unfolding f2 using p h assms(1,2) by (simp add: r_def)
  show "s2 = s\<lparr>transmit_frame := transmit_frame s2\<rparr>" by (simp add: s2_def s1_def tx_put_def)
qed

lemma udp_send_hands_over:
  assumes "net_wf m s" and "link_send s" and "cfg_address (net_ipv4 s) \<noteq> 0" and "dst \<noteq> 0"
    and "route_ipv4 s dst = Some (hop, Some d)" and "dp \<noteq> 0" and "sp \<noteq> 0" and "length data \<le> NET_UDP_PAYLOAD_MAX"
  shows "\<exists>r s'. net_udp_send E dst dp sp data (s, w)
    = (r, s', snd (env_send E (udp_frame d m (next_ipv4_id s) (cfg_address (net_ipv4 s)) dst sp dp data) w))"
proof -
  note wf = net_wfD[OF assms(1)]
  define s1 where "s1 = tx_put 34 (udp_segment sp dp 0 data) s"
  define c where "c = transport_checksum (cfg_address (net_ipv4 s1)) dst NET_IPV4_PROTOCOL_UDP (take (8 + length data) (drop 34 (transmit_frame s1)))"
  define s2 where "s2 = tx_put 40 (be16 (if c = 0 then 0xffff else c)) s1"
  note st = udp_stores[OF wf(4) assms(8), of sp dp dst, folded s1_def, folded c_def, folded s2_def]
  have d: "length d = 6" by (rule route_mac[OF assms(1,5)])
  have same: "next_ipv4_id s2 = next_ipv4_id s" "net_ipv4 s2 = net_ipv4 s" "net_mac s2 = m" "link_send s2" "net_arp s2 = net_arp s"
    using wf(1) assms(2) by (simp_all add: s2_def s1_def tx_put_def)
  let ?seg = "udp_segment sp dp (udp_checksum (cfg_address (net_ipv4 s)) dst sp dp data) data"
  have "route_ipv4 s2 dst = route_ipv4 s dst"
    by (simp only: route_ipv4_def net_arp_lookup_def arp_find_def ipv4_is_broadcast_def ipv4_is_subnet_broadcast_def same)
  then have r: "route_ipv4 s2 dst = Some (hop, Some d)" using assms(5) by simp
  obtain F where F: "send_ipv4_with_mac E dst NET_IPV4_PROTOCOL_UDP ?seg d (s2, w)
    = hand_over E (ethernet_header d (net_mac s2) ETHERTYPE_IPV4 @ ipv4_packet (next_ipv4_id s2) NET_IPV4_PROTOCOL_UDP (cfg_address (net_ipv4 s2)) dst ?seg)
        (\<lambda>t. t\<lparr>ipv4_packets_transmitted := ipv4_packets_transmitted t + 1\<rparr>)
        (s2\<lparr>transmit_frame := F, next_ipv4_id := next_ipv4_id s2 + 1\<rparr>, w)"
    using send_ipv4_with_mac_sends[OF st(2) d, of ?seg E dst NET_IPV4_PROTOCOL_UDP w] same wf(2) assms(8) by auto
  have "snd (snd (net_ipv4_send E dst NET_IPV4_PROTOCOL_UDP ?seg (s2, w)))
    = snd (env_send E (udp_frame d m (next_ipv4_id s) (cfg_address (net_ipv4 s)) dst sp dp data) w)"
    using assms r same F by (simp add: net_ipv4_send_def hand_over_def udp_frame_def split: prod.splits bool.splits)
  moreover obtain r s' w' where e: "net_ipv4_send E dst NET_IPV4_PROTOCOL_UDP ?seg (s2, w) = (r, s', w')" by (metis prod_cases3)
  moreover have "\<exists>t. net_udp_send E dst dp sp data (s, w) = (r, t, w')"
    using assms e unfolding net_udp_send_def prod.case Let_def s1_def[symmetric] c_def[symmetric] s2_def[symmetric] st(1) by simp
  ultimately show ?thesis by auto
qed

section \<open>The receiver\<close>

lemma hand_over_fields:
  "udp_bindings (fst (snd (hand_over E f st (s, w)))) = udp_bindings s"
  "net_dns (fst (snd (hand_over E f st (s, w)))) = net_dns s"
  by (auto simp: hand_over_def upd_stats_def split: prod.splits bool.splits)

lemma flush_fields:
  assumes "net_wf m s"
  shows "udp_bindings (fst (snd (flush_pending_ipv4 E (s, w)))) = udp_bindings s"
    "net_dns (fst (snd (flush_pending_ipv4 E (s, w)))) = net_dns s"
proof -
  let ?p = "pending_ipv4 s"
  note wf = net_wfD[OF assms]
  let ?b = "take (pend_payload_size ?p) (pend_payload ?p)"
  have short: "length ?b \<le> NET_IPV4_PAYLOAD_MAX" using wf(8) by (simp add: pend_wf_def)
  have f: "udp_bindings (fst (snd (send_ipv4_with_mac E a b ?b mac (s, w)))) = udp_bindings s
      \<and> net_dns (fst (snd (send_ipv4_with_mac E a b ?b mac (s, w)))) = net_dns s"
    if "net_arp_lookup s (pend_next_hop_ip ?p) = Some mac" for mac a b
    using send_ipv4_with_mac_sends[OF wf(4) arp_lookup_ok(1)[OF assms that] wf(3) short, of E a b w]
    by (auto simp: hand_over_fields)
  show "udp_bindings (fst (snd (flush_pending_ipv4 E (s, w)))) = udp_bindings s"
    "net_dns (fst (snd (flush_pending_ipv4 E (s, w)))) = net_dns s"
    using f[of _ "pend_destination_ip ?p" "pend_protocol ?p"]
    by (auto simp: flush_pending_ipv4_def Let_def upd_stats_def split: option.splits prod.splits bool.splits)
qed

lemma learn_fields [simp]:
  "udp_bindings (arp_learn ip mac s) = udp_bindings s" "net_dns (arp_learn ip mac s) = net_dns s"
  by (simp_all add: arp_learn_def Let_def)

lemma receive_udp_segment:
  assumes "udp_checksum src dst sp dp data = c" and "length data \<le> NET_UDP_PAYLOAD_MAX" and "sp \<noteq> 0" and "dp \<noteq> 0"
    and "\<not> (dp = DHCP_CLIENT_PORT \<and> sp = DHCP_SERVER_PORT)" and "\<not> (dp = dns_source_port (net_dns s) \<and> sp = DNS_SERVER_PORT)"
  shows "receive_udp E src dst (udp_segment sp dp c data) (s, w)
    = Some (udp_deliver E src dst sp dp data (upd_stats (\<lambda>t. t\<lparr>udp_datagrams_received := udp_datagrams_received t + 1\<rparr>) s, w))"
proof -
  let ?p = "udp_segment sp dp c data" and ?n = "length data"
  have r: "read_u16_be ?p 0 = Some sp" "read_u16_be ?p 2 = Some dp" "read_u16_be ?p 4 = Some (of_nat (8 + ?n))"
    using read_u16_be_at[of "[]" 0 sp] read_u16_be_at[of "be16 sp" 2 dp] read_u16_be_at[of "be16 sp @ be16 dp" 4 "of_nat (8 + ?n)"]
    by (simp_all add: udp_segment_def)
  have n: "unat (of_nat (8 + ?n) :: u16) = 8 + ?n" using assms(2) unfolding unat_of_nat by (simp add: take_bit_nat_eq_self)
  have n8: "\<not> (of_nat (8 + ?n) :: u16) < 8" unfolding word_less_nat_alt n by simp
  have l: "load_bytes ?p 8 ?n = Some data" by (simp add: load_bytes_def udp_segment_def)
  have v: "udp_checksum_valid src dst ?p = Some True" using udp_checksum_valid_sent[OF assms(2), of src dst sp dp] assms(1) by simp
  show ?thesis unfolding receive_udp_def prod.case r Option.bind.bind_lunit n v using n8 l assms
    by (auto simp: Let_def upd_stats_def simp del: of_nat_add)
qed

lemma input_udp_frame:
  assumes t: "net_wf m' t" and m: "length m = 6" "mac_is_valid_source m" and "cfg_address (net_ipv4 t) = dst" and "dst \<noteq> 0"
    and data: "length data \<le> NET_UDP_PAYLOAD_MAX" and ports: "sp \<noteq> 0" "dp \<noteq> 0"
    and nd: "\<not> (dp = DHCP_CLIENT_PORT \<and> sp = DHCP_SERVER_PORT)" "\<not> (dp = dns_source_port (net_dns t) \<and> sp = DNS_SERVER_PORT)"
    and b: "find_idx (udp_bound dp) (udp_bindings t) = Some i" "ub_handler (udp_bindings t ! i) = Some h"
  shows "\<exists>t' v'. net_input E (udp_frame m' m ident src dst sp dp data) (t, v)
    = Some (True, env_udp_handler E h (ub_context (udp_bindings t ! i))
        \<lparr>dg_source_ip = src, dg_destination_ip = dst, dg_source_port = sp, dg_destination_port = dp, dg_data = data\<rparr> (t', v'))"
proof -
  let ?n = "length data"
  define c where "c = udp_checksum src dst sp dp data"
  define seg where "seg = udp_segment sp dp c data"
  define pkt where "pkt = ipv4_packet ident NET_IPV4_PROTOCOL_UDP src dst seg"
  define f where "f = ethernet_header m' m ETHERTYPE_IPV4 @ pkt"
  have seg: "length seg = 8 + ?n" by (simp add: seg_def)
  have pkt: "length pkt = 28 + ?n" by (simp add: pkt_def ipv4_packet_def seg)
  have mac: "net_mac t = m'" "length m' = 6" using net_wfD(1,2)[OF t] by simp_all
  have len: "length f = 42 + ?n" using mac m by (simp add: f_def pkt)
  have f: "load_bytes f 0 6 = Some m'" "load_bytes f 6 6 = Some m" "load_bytes f 14 (length f - 14) = Some pkt"
    using mac m len pkt by (simp_all add: load_bytes_def f_def ethernet_header_def)
  have ty: "read_u16_be f 12 = Some ETHERTYPE_IPV4"
    using read_u16_be_at[of "m' @ m" 12 ETHERTYPE_IPV4 pkt] mac m by (simp add: f_def ethernet_header_def)
  have chk: "ipv4_check_header pkt = Some (Some (20, 28 + ?n))"
    using ipv4_packet_accepted[of seg ident NET_IPV4_PROTOCOL_UDP src dst] data seg by (simp add: pkt_def)
  let ?k = "ipv4_checksum (8 + ?n) ident NET_IPV4_PROTOCOL_UDP src dst"
  define q where "q = [0x45, 0] @ be16 (of_nat (20 + (8 + ?n))) @ be16 ident @ be16 0x4000 @ [64, NET_IPV4_PROTOCOL_UDP] @ be16 ?k"
  have pk: "pkt = q @ be32 src @ be32 dst @ seg" "length q = 12" by (simp_all add: pkt_def ipv4_packet_def ipv4_header_def q_def seg)
  have sd: "read_u32_be pkt 12 = Some src" "read_u32_be pkt 16 = Some dst"
    using read_u32_be_at[of q 12 src] read_u32_be_at[of "q @ be32 src" 16 dst] pk by simp_all
  have pr: "load8 pkt 9 = Some NET_IPV4_PROTOCOL_UDP" by (simp add: pk(1) q_def load8_def nth_append be16_def)
  have pl: "load_bytes pkt 20 (8 + ?n) = Some seg" using pk(2) seg by (simp add: pk(1) load_bytes_def)
  let ?t = "upd_stats (\<lambda>t. t\<lparr>frames_received := frames_received t + 1\<rparr>) t"
  have wf: "net_wf m' ?t" using t by (simp add: wf_updates)
  have ac: "ipv4_accepts ?t pkt 20 (28 + ?n) dst NET_IPV4_PROTOCOL_UDP = Some True"
    using assms(4,5) by (simp add: ipv4_accepts_def ipv4_destination_is_local_def upd_stats_def)
  define sw where "sw = (if ipv4_is_usable_unicast src \<and> ipv4_is_on_link ?t src
      then snd (flush_pending_ipv4 E (arp_learn src m ?t, v)) else (?t, v))"
  obtain t1 v1 where sw: "sw = (t1, v1)" by (rule prod.exhaust)
  have keep: "udp_bindings t1 = udp_bindings t" "net_dns t1 = net_dns t"
    using sw flush_fields[OF arp_learn_wf[OF wf m(1)], of E src v] by (auto simp: sw_def upd_stats_def split: if_splits)
  let ?t1 = "upd_stats (\<lambda>t. t\<lparr>ipv4_packets_received := ipv4_packets_received t + 1\<rparr>) t1"
  let ?t2 = "upd_stats (\<lambda>t. t\<lparr>udp_datagrams_received := udp_datagrams_received t + 1\<rparr>) ?t1"
  have ru: "receive_udp E src dst seg (?t1, v1) = Some (udp_deliver E src dst sp dp data (?t2, v1))"
    unfolding seg_def by (rule receive_udp_segment) (use data ports nd keep in \<open>simp_all add: c_def upd_stats_def\<close>)
  have "receive_ipv4 E m pkt (?t, v) = receive_udp E src dst seg (?t1, v1)"
    unfolding receive_ipv4_def prod.case chk Option.bind.bind_lunit option.case sd pr ac sw_def[symmetric] sw Let_def
    by (simp add: pl ipv4_dispatch_def)
  moreover have "udp_deliver E src dst sp dp data (?t2, v1) = (True, env_udp_handler E h (ub_context (udp_bindings t ! i))
        \<lparr>dg_source_ip = src, dg_destination_ip = dst, dg_source_port = sp, dg_destination_port = dp, dg_data = data\<rparr> (?t2, v1))"
    using b keep by (simp add: udp_deliver_def upd_stats_def)
  ultimately have rec: "receive_ipv4 E m pkt (?t, v) = Some (True, env_udp_handler E h (ub_context (udp_bindings t ! i))
        \<lparr>dg_source_ip = src, dg_destination_ip = dst, dg_source_port = sp, dg_destination_port = dp, dg_data = data\<rparr> (?t2, v1))"
    using ru by simp
  have "net_input E f (t, v) = Some (True, env_udp_handler E h (ub_context (udp_bindings t ! i))
        \<lparr>dg_source_ip = src, dg_destination_ip = dst, dg_source_port = sp, dg_destination_port = dp, dg_data = data\<rparr> (?t2, v1))"
    unfolding net_input_def prod.case Let_def f(1,2,3) ty Option.bind.bind_lunit
    using len data m mac rec by (simp add: upd_stats_def)
  then show ?thesis by (auto simp: udp_frame_def f_def pkt_def seg_def c_def)
qed

end
