(* ===== verification/Net_Props.thy ===== *)
theory Net_Props
  imports Net_Deliver
begin

text \<open>
  The properties of the network stack, each with the concrete stacks on which it is applied.
\<close>

section \<open>Definitions\<close>

definition mac_a :: bytes where "mac_a = [2, 0, 0, 0, 0, 1]"

definition mac_b :: bytes where "mac_b = [2, 0, 0, 0, 0, 2]"

definition quiet_wire :: wire where
  "quiet_wire = \<lparr>wire_sent = [], wire_queue = [], wire_clock = 0\<rparr>"

definition fresh_stack :: "bytes \<Rightarrow> net_stack" where
  "fresh_stack m = zero_stack\<lparr>link_send := True, link_poll := True, link_now_ms := False, net_mac := m, next_ipv4_id := 1\<rparr>"

definition host_config :: "u32 \<Rightarrow> net_ipv4_config" where
  "host_config ip = \<lparr>cfg_address = ip, cfg_netmask = 0xffffff00, cfg_gateway = 0, cfg_dns = 0\<rparr>"

text \<open>Host 10.0.0.1, which knows the address of 10.0.0.2, and host 10.0.0.2, which serves port 7.\<close>

definition stack_a :: net_stack where
  "stack_a = arp_learn 0x0a000002 mac_b (net_configure_ipv4 (host_config 0x0a000001) (fresh_stack mac_a))"

definition stack_b :: net_stack where
  "stack_b = snd (net_udp_bind 7 (Some 1) 0 (net_configure_ipv4 (host_config 0x0a000002) (fresh_stack mac_b)))"

text \<open>A client that asked 10.0.0.3 for the address of \<open>ns.io\<close>, and the answer 10.9.8.7 for 5 minutes.\<close>

definition asking_stack :: net_stack where
  "asking_stack = (fresh_stack mac_a)\<lparr>net_ipv4 := (host_config 0x0a000001)\<lparr>cfg_dns := 0x0a000003\<rparr>,
     net_dns := zero_dns\<lparr>dns_state := NET_DNS_PENDING, dns_name := [110, 115, 46, 105, 111], dns_transaction_id := 0x1234,
       dns_source_port := 50000\<rparr>\<rparr>"

definition ns_io_answer :: bytes where
  "ns_io_answer = [0x12, 0x34, 0x81, 0x80, 0, 1, 0, 1, 0, 0, 0, 0,
     2, 110, 115, 2, 105, 111, 0, 0, 1, 0, 1,
     0xc0, 12, 0, 1, 0, 1, 0, 0, 1, 0x2c, 0, 4, 10, 9, 8, 7]"

section \<open>The concrete stacks\<close>

lemma demo_macs [simp]: "length mac_a = 6" "length mac_b = 6" "mac_is_valid_source mac_a" "mac_is_valid_source mac_b"
  by code_simp+

lemma fresh_init: "mac_is_valid_source m \<Longrightarrow> net_init E True True False m (s0, w) = (True, fresh_stack m, w)"
  by (simp add: net_init_def fresh_stack_def Let_def)

lemma fresh_wf: "length m = 6 \<Longrightarrow> mac_is_valid_source m \<Longrightarrow> net_wf m (fresh_stack m)"
  by (rule init_wf[OF fresh_init[where E = wire_env and w = quiet_wire]])

lemma demo_wf: "net_wf mac_a stack_a" "net_wf mac_b stack_b"
  by (simp_all add: stack_a_def stack_b_def arp_learn_wf udp_bind_wf configure_wf fresh_wf)

section \<open>Leases\<close>

text \<open>An acknowledgement without lease time is reported as not handled, but it has already cleared the
  lease of the client, which drops its address at the next tick.\<close>

lemma rejected_ack_ends_lease:
  assumes "opt_lease_time opts = Some 0" and "ipv4_is_usable_unicast ip" and "dhcp_state (net_dhcp s) = NET_DHCP_RENEWING"
  shows "\<not> fst (dhcp_take_ack ip srv opts s)"
    and "tick_dhcp E (snd (dhcp_take_ack ip srv opts s), w) = dhcp_restart E (snd (dhcp_take_ack ip srv opts s), w)"
  using assms by (simp_all add: dhcp_take_ack_def Let_def or_else_def tick_dhcp_def seconds_to_ms_def)

text \<open>Rebinding may be scheduled before renewal: the default of 7/8 of the lease is not compared with the
  renewal time the server chose.\<close>

lemma rebind_before_renewal:
  "dhcp_lease_times 100 (no_options\<lparr>opt_renewal_time := Some 99, opt_rebind_time := Some 50\<rparr>) = (99, 87)"
  by code_simp

section \<open>Properties\<close>

text \<open>C18: whatever bytes arrive as a frame, the input handler returns: it never reads outside
  the frame, a name buffer or a packet buffer.  It leaves the stack well formed, and a property of
  the driver's world that survives well-formed frames survives it, so that every frame it sends in
  reply has a legal size, this host's address as its source and a valid IPv4 header.\<close>

theorem net_input_safe:
  assumes "net_link E m W" and "net_wf m s" and "W w"
  shows "\<exists>b s' w'. net_input E frame (s, w) = Some (b, s', w') \<and> net_wf m s' \<and> W w'"
  using net_link.input_good[OF assms, of frame] by auto

theorem net_input_safe_witness:
  "\<exists>b s' w'. net_input wire_env (replicate 60 255) (stack_b, quiet_wire) = Some (b, s', w')
    \<and> net_wf mac_b s' \<and> list_all (tx_ok mac_b) (wire_sent w')"
  by (rule net_input_safe[OF wire.net_link_axioms demo_wf(2)]) (simp add: quiet_wire_def)

text \<open>C19: in every state the stack reaches from its initialisation by calling its
  operations in any order and with any arguments, its data is well formed (buffers and tables of
  their declared sizes, names within their buffers, one ARP entry per address, one binding per
  port, one cache entry per name, usable addresses only), only well-formed frames have been sent,
  and a further poll returns after at most 32 frames.\<close>

theorem net_reachable_wf:
  assumes "net_link E m W" and "W w0" and "length m = NET_ETHERNET_ADDRESS_SIZE" and "net_reachable E m w0 (s, w)"
  shows "net_wf m s \<and> W w \<and> (\<exists>k sw'. net_poll E (s, w) = Some (k, sw') \<and> k \<le> 32)"
proof -
  have g: "net_wf m s" "W w" using net_link.reachable_good[OF assms(1,4,2,3)] by simp_all
  then show ?thesis using net_link.poll_good[OF assms(1) g] by blast
qed

theorem net_reachable_wf_witness:
  "net_wf mac_b stack_b \<and> list_all (tx_ok mac_b) (wire_sent quiet_wire)
    \<and> (\<exists>k sw'. net_poll wire_env (stack_b, quiet_wire) = Some (k, sw') \<and> k \<le> 32)"
proof (rule net_reachable_wf[OF wire.net_link_axioms])
  let ?s = "net_configure_ipv4 (host_config 0x0a000002) (fresh_stack mac_b)"
  have "net_reachable wire_env mac_b quiet_wire (fresh_stack mac_b, quiet_wire)"
    by (rule reach_init[OF fresh_init]) simp
  then have "net_reachable wire_env mac_b quiet_wire (?s, quiet_wire)" by (rule reach_step) (rule step_configure)
  then show "net_reachable wire_env mac_b quiet_wire (stack_b, quiet_wire)"
    unfolding stack_b_def by (rule reach_step) (rule step_udp_bind)
qed (simp_all add: quiet_wire_def)

text \<open>C20: what one stack sends as a datagram to a neighbour whose Ethernet address it has
  resolved, the addressed stack hands to the handler bound to the port: the frame passes every
  check, checksums included, and the handler gets exactly the data, addresses and ports.\<close>

theorem udp_end_to_end:
  assumes "net_wf m s" and "net_wf m' t" and "mac_is_valid_source m" and "link_send s" and "cfg_address (net_ipv4 s) \<noteq> 0"
    and "route_ipv4 s dst = Some (hop, Some m')" and "cfg_address (net_ipv4 t) = dst" and "dst \<noteq> 0"
    and "sp \<noteq> 0" and "dp \<noteq> 0" and "length data \<le> NET_UDP_PAYLOAD_MAX"
    and "\<not> (dp = DHCP_CLIENT_PORT \<and> sp = DHCP_SERVER_PORT)" and "\<not> (dp = dns_source_port (net_dns t) \<and> sp = DNS_SERVER_PORT)"
    and "find_idx (udp_bound dp) (udp_bindings t) = Some i" and "ub_handler (udp_bindings t ! i) = Some h"
  shows "\<exists>frame. snd (snd (net_udp_send E dst dp sp data (s, w))) = snd (env_send E frame w)
    \<and> (\<exists>t' v'. net_input E' frame (t, v) = Some (True, env_udp_handler E' h (ub_context (udp_bindings t ! i))
        \<lparr>dg_source_ip = cfg_address (net_ipv4 s), dg_destination_ip = dst, dg_source_port = sp, dg_destination_port = dp,
         dg_data = data\<rparr> (t', v')))"
proof -
  let ?f = "udp_frame m' m (next_ipv4_id s) (cfg_address (net_ipv4 s)) dst sp dp data"
  obtain r s' where "net_udp_send E dst dp sp data (s, w) = (r, s', snd (env_send E ?f w))"
    using udp_send_hands_over[OF assms(1,4,5,8,6,10,9,11), of E w] by blast
  moreover note input_udp_frame[OF assms(2) net_wfD(2)[OF assms(1)] assms(3,7,8,11,9,10,12,13,14,15),
      of E' "next_ipv4_id s" "cfg_address (net_ipv4 s)" v]
  ultimately show ?thesis by auto
qed

theorem udp_end_to_end_witness:
  "\<exists>frame. snd (snd (net_udp_send wire_env 0x0a000002 7 4000 [104, 105] (stack_a, quiet_wire))) = snd (env_send wire_env frame quiet_wire)
    \<and> (\<exists>t' v'. net_input wire_env frame (stack_b, quiet_wire) = Some (True, env_udp_handler wire_env 1 (ub_context (udp_bindings stack_b ! 0))
        \<lparr>dg_source_ip = cfg_address (net_ipv4 stack_a), dg_destination_ip = 0x0a000002, dg_source_port = 4000, dg_destination_port = 7,
         dg_data = [104, 105]\<rparr> (t', v')))"
proof (rule udp_end_to_end[OF demo_wf demo_macs(3), where hop = "0x0a000002"])
  show "route_ipv4 stack_a 0x0a000002 = Some (0x0a000002, Some mac_b)" by code_simp
  show "link_send stack_a" "cfg_address (net_ipv4 stack_a) \<noteq> 0" "cfg_address (net_ipv4 stack_b) = 0x0a000002"
    "\<not> (7 = dns_source_port (net_dns stack_b) \<and> 4000 = DNS_SERVER_PORT)"
    "find_idx (udp_bound 7) (udp_bindings stack_b) = Some 0" "ub_handler (udp_bindings stack_b ! 0) = Some 1" by code_simp+
qed (simp_all add: DHCP_CLIENT_PORT_def)

text \<open>C22: a name that query validation accepts always fits the query packet, and the
  encoded name, anywhere in a message, expands to the same name and ends where its encoding
  ends.\<close>

theorem dns_name_roundtrip:
  assumes "dns_validate_and_copy_name name = Some v"
  shows "\<exists>e. dns_encode_name (DNS_QUERY_CAPACITY - DNS_HEADER_SIZE) v = Some e \<and> DNS_HEADER_SIZE + length e + 4 \<le> DNS_QUERY_CAPACITY
    \<and> (\<forall>p q. dns_expand_name (p @ e @ q) (length p) = Some (Some (v, length p + length e)))"
proof -
  obtain ls where ls: "ls \<noteq> []" "list_all label_ok ls" "v = join_labels ls" "length v \<le> NET_DNS_NAME_MAX"
    using assms validate_name_labels[of _ "[]" "[]" v "[]"] by (auto simp: dns_validate_and_copy_name_def split: option.splits if_splits)
  note r = name_roundtrip[OF ls(1,2) ls(4)[unfolded ls(3)]]
  have "length (encode_all ls @ [0]) \<le> 255" using length_encode_all[OF ls(1)] ls(3,4) by simp
  then show ?thesis using r ls(3) by auto
qed

theorem dns_name_roundtrip_witness:
  "\<exists>e. dns_encode_name 259 [110, 115, 46, 105, 111] = Some e \<and> 12 + length e + 4 \<le> 271
    \<and> (\<forall>p q. dns_expand_name (p @ e @ q) (length p) = Some (Some ([110, 115, 46, 105, 111], length p + length e)))"
  using dns_name_roundtrip[of "Some [110, 115, 46, 105, 111, 46]" "[110, 115, 46, 105, 111]"]
  by (simp add: dns_validate_and_copy_name_def)

text \<open>C21: an address that a response resolved the pending query to is usable.  If it came
  with a lifetime (a response may say zero, and is then not kept), it is the answer to the next query
  for the name, in any letter case, at any time before the lifetime has passed: without any
  traffic, and with the seconds that are left, rounded up.  Once it has passed the answer is never
  given again: the query goes to the server.  (The cache takes an entry for it as long as one is
  unused or was last used before the clock's largest value.)\<close>

theorem dns_answer_cached:
  assumes "dns_wf s" and "dns_receive ip sport dport message s = Some (True, s')"
    and "dns_state (net_dns s') = NET_DNS_RESOLVED" and "dns_ttl_seconds (net_dns s') \<noteq> 0"
    and "unat (current_time_ms s) + 1000 * unat (dns_ttl_seconds (net_dns s')) < 2 ^ 64"
    and "\<exists>e \<in> set (dns_cache s). \<not> ce_valid e \<or> ce_last_used_ms e < UINT64_MAX"
    and "dns_validate_and_copy_name name = Some v" and "dns_names_equal v (dns_name (net_dns s))"
    and "current_time_ms s \<le> now" and "later = s'\<lparr>current_time_ms := now\<rparr>"
    and "expiry = unat (current_time_ms s) + 1000 * unat (dns_ttl_seconds (net_dns s'))"
  shows "ipv4_is_usable_unicast (dns_result_address (net_dns s'))
    \<and> (if unat now < expiry
       then \<exists>s'' ttl. net_dns_query E name i (later, w) = (True, s'', w) \<and> unat ttl = (expiry - unat now + 999) div 1000
         \<and> net_dns_get_result s'' = \<lparr>res_state = NET_DNS_RESOLVED, res_address = dns_result_address (net_dns s'),
              res_ttl_seconds = ttl, res_response_code = 0\<rparr>
       else net_dns_query E name i (later, w) = dns_start_query E v i (dns_cache_expire later, w))"
proof -
  let ?a = "dns_result_address (net_dns s')" and ?ttl = "dns_ttl_seconds (net_dns s')"
  let ?ex = "saturating_add_u64 (current_time_ms s) (seconds_to_ms ?ttl)"
  have d: "dns_done s s'" using dns_receive_total[OF assms(1), of ip sport dport message] assms(2) by auto
  then obtain t where t: "dns_cache t = dns_cache s" "current_time_ms t = current_time_ms s"
    "dns_cache_store (dns_name (net_dns s)) False ?a 0 ?ttl t = Some s'"
    using assms(3) by (auto simp: dns_done_def)
  have n: "length (dns_name (net_dns s)) \<le> NET_DNS_NAME_MAX" and c: "cache_wf (dns_cache t)" using assms(1) t(1) by (simp_all add: dns_wf_def)
  define e where "e = \<lparr>ce_valid = True, ce_negative = False, ce_name = dns_name (net_dns s), ce_address = ?a, ce_response_code = 0,
      ce_expires_ms = ?ex, ce_last_used_ms = current_time_ms s\<rparr>"
  obtain k where k: "k < length (dns_cache later)" "dns_cache later ! k = e"
    "\<And>j. j < length (dns_cache later) \<Longrightarrow> j \<noteq> k \<Longrightarrow> ce_valid (dns_cache later ! j) \<Longrightarrow> \<not> dns_names_equal (ce_name (dns_cache later ! j)) (ce_name e)"
    by (rule stored_entry[OF c t(3) assms(4) n]) (use assms(6,10) t(1,2) in \<open>auto simp: e_def\<close>)
  have now: "current_time_ms later = now" "current_time_ms (dns_cache_expire later) = now" by (simp_all add: assms(10) dns_cache_expire_def)
  have ex: "unat ?ex = expiry" unfolding assms(11) by (rule expiry_exact[OF assms(5)])
  have lt: "now < ?ex \<longleftrightarrow> unat now < expiry" by (simp add: word_less_nat_alt ex)
  note found = stored_answer_found[OF k(1,2) _ _ k(3), of ?ex v, unfolded now lt]
  have hit: "dns_cache_find (dns_cache_expire later) v = (if unat now < expiry then Some k else None)"
    by (rule found(1)) (use assms(8) in \<open>simp_all add: e_def\<close>)
  have a: "ipv4_is_usable_unicast ?a" using d assms(3) by (auto simp: dns_done_def dns_wf_def)
  show ?thesis
  proof (cases "unat now < expiry")
    case False
    then show ?thesis using a hit assms(7) by (simp add: net_dns_query_def Let_def)
  next
    case True
    have en: "dns_cache (dns_cache_expire later) ! k = e" by (rule found(2)) (use True assms(8) in \<open>simp_all add: e_def\<close>)
    have rem: "unat (dns_cache_remaining_seconds ?ex now) = (expiry - unat now + 999) div 1000"
      using remaining_exact[of now ?ex ?ttl] True assms(9,11) unfolding ex by (simp add: word_le_nat_alt)
    then have "dns_cache_remaining_seconds ?ex now \<noteq> 0" using True by (auto simp: div_eq_0_iff)
    then have "net_dns_query E name i (later, w) = (True, dns_cache_hit v k (dns_cache_expire later), w)"
      using True hit en now assms(7) by (simp add: net_dns_query_def Let_def e_def)
    moreover have "net_dns_get_result (dns_cache_hit v k (dns_cache_expire later)) = \<lparr>res_state = NET_DNS_RESOLVED, res_address = ?a,
        res_ttl_seconds = dns_cache_remaining_seconds ?ex now, res_response_code = 0\<rparr>"
      using en now by (simp add: net_dns_get_result_def dns_cache_hit_def Let_def e_def)
    ultimately show ?thesis using a rem True by auto
  qed
qed

lemma asking_stack_wf: "dns_wf asking_stack"
  using zero_wf(2) by (simp add: asking_stack_def fresh_stack_def zero_stack_def zero_dns_def dns_wf_def)

lemma ns_io_resolved:
  "map_option (\<lambda>(b, s). (b, net_dns_get_result s)) (dns_receive 0x0a000003 53 50000 ns_io_answer asking_stack)
   = Some (True, \<lparr>res_state = NET_DNS_RESOLVED, res_address = 0x0a090807, res_ttl_seconds = 300, res_response_code = 0\<rparr>)"
  by code_simp

theorem dns_answer_cached_witness:
  "\<exists>s' s''. dns_receive 0x0a000003 53 50000 ns_io_answer asking_stack = Some (True, s')
    \<and> net_dns_query wire_env (Some [78, 83, 46, 105, 79]) 0 (s'\<lparr>current_time_ms := current_time_ms asking_stack + 1500\<rparr>, quiet_wire) = (True, s'', quiet_wire)
    \<and> res_address (net_dns_get_result s'') = 0x0a090807 \<and> unat (res_ttl_seconds (net_dns_get_result s'')) = 299"
proof -
  obtain s' where s': "dns_receive 0x0a000003 53 50000 ns_io_answer asking_stack = Some (True, s')"
    "dns_state (net_dns s') = NET_DNS_RESOLVED" "dns_result_address (net_dns s') = 0x0a090807" "dns_ttl_seconds (net_dns s') = 300"
    using ns_io_resolved by (auto simp: net_dns_get_result_def)
  let ?now = "current_time_ms asking_stack + 1500" and ?name = "[78, 83, 46, 105, 79]"
  have t: "current_time_ms asking_stack = 0" by (simp add: asking_stack_def fresh_stack_def zero_stack_def)
  have "if unat ?now < 300000
     then \<exists>s'' ttl. net_dns_query wire_env (Some ?name) 0 (s'\<lparr>current_time_ms := ?now\<rparr>, quiet_wire) = (True, s'', quiet_wire)
       \<and> unat ttl = (300000 - unat ?now + 999) div 1000
       \<and> net_dns_get_result s'' = \<lparr>res_state = NET_DNS_RESOLVED, res_address = dns_result_address (net_dns s'), res_ttl_seconds = ttl, res_response_code = 0\<rparr>
     else net_dns_query wire_env (Some ?name) 0 (s'\<lparr>current_time_ms := ?now\<rparr>, quiet_wire)
       = dns_start_query wire_env ?name 0 (dns_cache_expire (s'\<lparr>current_time_ms := ?now\<rparr>), quiet_wire)"
    by (rule dns_answer_cached[where v = ?name and now = ?now, OF asking_stack_wf s'(1,2), THEN conjunct2])
       (simp_all add: s'(4) asking_stack_def fresh_stack_def zero_stack_def zero_cache_entry_def dns_validate_and_copy_name_def ascii_lower_def)
  then obtain s'' ttl where "net_dns_query wire_env (Some ?name) 0 (s'\<lparr>current_time_ms := ?now\<rparr>, quiet_wire) = (True, s'', quiet_wire)"
    "unat ttl = 299" "net_dns_get_result s'' = \<lparr>res_state = NET_DNS_RESOLVED, res_address = 0x0a090807, res_ttl_seconds = ttl, res_response_code = 0\<rparr>"
    using s'(3) t by auto
  then show ?thesis using s'(1) by auto
qed

end
