(* ===== verification/Http_Client.thy ===== *)
theory Http_Client
  imports Checked
begin

text \<open>
  The HTTP client of \<open>src/kernel/http_client.c\<close>: building a GET request, parsing a response that
  was received completely, and decoding a chunked body in place.

  A pointer and a length that bound a span of a buffer are the list of its bytes; a scan with a
  cursor over a span is a recursion on the list from the cursor on.  Spans are cut out of the
  response buffer by checked loads, so \<open>None\<close> as the result of a parser is a read outside the
  buffer.  The view \<open>http_response\<close> holds offsets into the buffer where the code has pointers.  The
  code leaves a half-filled view behind when it reports an error; the model has no view then.
\<close>

section \<open>Definitions\<close>

abbreviation (input) HTTP_CLIENT_MAX_HEADER_BYTES :: nat where "HTTP_CLIENT_MAX_HEADER_BYTES \<equiv> 8192"
abbreviation (input) HTTP_CLIENT_MAX_TRAILER_BYTES :: nat where "HTTP_CLIENT_MAX_TRAILER_BYTES \<equiv> 8192"
abbreviation (input) HTTP_CLIENT_MAX_CHUNK_LINE_BYTES :: nat where "HTTP_CLIENT_MAX_CHUNK_LINE_BYTES \<equiv> 1024"
abbreviation (input) HTTP_CLIENT_MAX_CHUNK_FRAMING_BYTES :: nat where "HTTP_CLIENT_MAX_CHUNK_FRAMING_BYTES \<equiv> 16384"
abbreviation (input) HTTP_CLIENT_MAX_INFORMATIONAL_RESPONSES :: nat where "HTTP_CLIENT_MAX_INFORMATIONAL_RESPONSES \<equiv> 8"
abbreviation (input) SIZE_T_MAX :: nat where "SIZE_T_MAX \<equiv> 18446744073709551615"

abbreviation (input) CH_TAB :: u8 where "CH_TAB \<equiv> 9"
abbreviation (input) CH_LF :: u8 where "CH_LF \<equiv> 10"
abbreviation (input) CH_CR :: u8 where "CH_CR \<equiv> 13"
abbreviation (input) CH_SPACE :: u8 where "CH_SPACE \<equiv> 32"
abbreviation (input) CH_QUOTE :: u8 where "CH_QUOTE \<equiv> 34"
abbreviation (input) CH_PERCENT :: u8 where "CH_PERCENT \<equiv> 37"
abbreviation (input) CH_COMMA :: u8 where "CH_COMMA \<equiv> 44"
abbreviation (input) CH_SLASH :: u8 where "CH_SLASH \<equiv> 47"
abbreviation (input) CH_0 :: u8 where "CH_0 \<equiv> 48"
abbreviation (input) CH_9 :: u8 where "CH_9 \<equiv> 57"
abbreviation (input) CH_COLON :: u8 where "CH_COLON \<equiv> 58"
abbreviation (input) CH_SEMICOLON :: u8 where "CH_SEMICOLON \<equiv> 59"
abbreviation (input) CH_EQUALS :: u8 where "CH_EQUALS \<equiv> 61"
abbreviation (input) CH_BACKSLASH :: u8 where "CH_BACKSLASH \<equiv> 92"
abbreviation (input) CH_DEL :: u8 where "CH_DEL \<equiv> 127"

datatype http_client_error = HTTP_CLIENT_ERROR_INVALID_ARGUMENT | HTTP_CLIENT_ERROR_INVALID_HOST | HTTP_CLIENT_ERROR_INVALID_PATH
  | HTTP_CLIENT_ERROR_REQUEST_TOO_LARGE | HTTP_CLIENT_ERROR_TCP | HTTP_CLIENT_ERROR_HEADER_TOO_LARGE
  | HTTP_CLIENT_ERROR_MALFORMED_STATUS_LINE | HTTP_CLIENT_ERROR_UNSUPPORTED_VERSION | HTTP_CLIENT_ERROR_MALFORMED_HEADER
  | HTTP_CLIENT_ERROR_INVALID_CONTENT_LENGTH | HTTP_CLIENT_ERROR_CONFLICTING_FRAMING
  | HTTP_CLIENT_ERROR_UNSUPPORTED_TRANSFER_ENCODING | HTTP_CLIENT_ERROR_MALFORMED_CHUNKED_BODY
  | HTTP_CLIENT_ERROR_CHUNK_METADATA_TOO_LARGE | HTTP_CLIENT_ERROR_TRUNCATED_BODY | HTTP_CLIENT_ERROR_UNEXPECTED_EXTRA_DATA
  | HTTP_CLIENT_ERROR_REDIRECT_LOCATION_MISSING | HTTP_CLIENT_ERROR_INVALID_REDIRECT_LOCATION
  | HTTP_CLIENT_ERROR_REDIRECT_LOCATION_TOO_LARGE | HTTP_CLIENT_ERROR_INVALID_INFORMATIONAL_FRAMING
  | HTTP_CLIENT_ERROR_TOO_MANY_INFORMATIONAL_RESPONSES | HTTP_CLIENT_ERROR_INFORMATIONAL_RESPONSE_WITHOUT_FINAL
  | HTTP_CLIENT_ERROR_UNSUPPORTED_PROTOCOL_SWITCH

text \<open>\<open>HTTP_CLIENT_ERROR_NONE\<close> is \<open>Inr\<close> of what the call stores through its out-parameters.\<close>

type_synonym 'a http_result = "http_client_error + 'a"

record http_response =
  rsp_version_minor :: nat
  rsp_status_code :: nat
  rsp_reason :: "nat \<times> nat"
  rsp_header_fields :: "nat \<times> nat"
  rsp_body :: "nat \<times> nat"
  rsp_content_length :: "nat option"
  rsp_has_transfer_encoding :: bool
  rsp_chunked_transfer :: bool
  rsp_connection_close :: bool
  rsp_location :: "(nat \<times> nat) option"

definition clear_response :: http_response where
  "clear_response = \<lparr>rsp_version_minor = 0, rsp_status_code = 0, rsp_reason = (0, 0), rsp_header_fields = (0, 0), rsp_body = (0, 0),
     rsp_content_length = None, rsp_has_transfer_encoding = False, rsp_chunked_transfer = False, rsp_connection_close = False,
     rsp_location = None\<rparr>"

definition chars :: "string \<Rightarrow> bytes" where
  "chars s = map of_char s"

subsection \<open>Characters and spans\<close>

definition http_ascii_lower :: "u8 \<Rightarrow> u8" where
  "http_ascii_lower c = (if 65 \<le> c \<and> c \<le> 90 then c + 32 else c)"

fun span_equals_text_ignore_case :: "bytes \<Rightarrow> bytes \<Rightarrow> bool" where
  "span_equals_text_ignore_case (b # bs) (t # ts) \<longleftrightarrow> http_ascii_lower b = http_ascii_lower t \<and> span_equals_text_ignore_case bs ts"
| "span_equals_text_ignore_case [] [] = True"
| "span_equals_text_ignore_case _ _ = False"

definition alphanumeric :: "u8 \<Rightarrow> bool" where
  "alphanumeric c \<longleftrightarrow> 97 \<le> c \<and> c \<le> 122 \<or> 65 \<le> c \<and> c \<le> 90 \<or> CH_0 \<le> c \<and> c \<le> CH_9"

definition valid_header_name_byte :: "u8 \<Rightarrow> bool" where
  "valid_header_name_byte c \<longleftrightarrow> alphanumeric c \<or> c \<in> set (chars ''!#$%&'' @ [39] @ chars ''*+-.^_`|~'')"

definition ows :: "u8 \<Rightarrow> bool" where
  "ows c \<longleftrightarrow> c = CH_SPACE \<or> c = CH_TAB"

definition trim_end :: "bytes \<Rightarrow> bytes" where
  "trim_end b = rev (dropWhile ows (rev b))"

subsection \<open>Requests\<close>

definition append_bytes :: "nat \<Rightarrow> bytes \<Rightarrow> bool \<times> bytes \<times> nat \<Rightarrow> bool \<times> bytes \<times> nat" where
  "append_bytes capacity b = (\<lambda>(ok, out, len).
     if \<not> ok \<or> len > capacity \<or> length b > capacity - len then (False, out, len) else (True, blit out len b, len + length b))"

definition valid_host :: "bytes option \<Rightarrow> bool" where
  "valid_host host = (case host of None \<Rightarrow> False
   | Some h \<Rightarrow> cstr h \<noteq> [] \<and> list_all (\<lambda>c. \<not> (c \<le> CH_SPACE \<or> c \<ge> CH_DEL \<or> c = CH_SLASH)) (cstr h))"

definition valid_path :: "bytes option \<Rightarrow> bool" where
  "valid_path path = (case path of None \<Rightarrow> False
   | Some p \<Rightarrow> cstr p \<noteq> [] \<and> hd (cstr p) = CH_SLASH \<and> list_all (\<lambda>c. \<not> (c \<le> CH_SPACE \<or> c \<ge> CH_DEL)) (cstr p))"

definition crlf :: bytes where
  "crlf = [CH_CR, CH_LF]"

definition request_prefix :: bytes where
  "request_prefix = chars ''GET ''"

definition host_prefix :: bytes where
  "host_prefix = chars '' HTTP/1.1'' @ crlf @ chars ''Host: ''"

definition request_suffix :: bytes where
  "request_suffix = crlf @ chars ''Connection: close'' @ crlf @ chars ''User-Agent: Nostalux/1.0'' @ crlf @ chars ''Accept: */*'' @ crlf @ crlf"

text \<open>The buffer has the given capacity; the result is the length of the request and the buffer.\<close>

definition http_client_build_get :: "bytes option \<Rightarrow> bytes option \<Rightarrow> bytes option \<Rightarrow> nat \<Rightarrow> (nat \<times> bytes) http_result" where
  "http_client_build_get host path request_buffer request_capacity = (case request_buffer of
     None \<Rightarrow> Inl HTTP_CLIENT_ERROR_INVALID_ARGUMENT
   | Some buf \<Rightarrow>
     if \<not> valid_host host then Inl HTTP_CLIENT_ERROR_INVALID_HOST
     else if \<not> valid_path path then Inl HTTP_CLIENT_ERROR_INVALID_PATH
     else let
       s = append_bytes request_capacity request_prefix (True, buf, 0);
       s = append_bytes request_capacity (cstr (the path)) s;
       s = append_bytes request_capacity host_prefix s;
       s = append_bytes request_capacity (cstr (the host)) s;
       (ok, out, len) = append_bytes request_capacity request_suffix s
       in if \<not> ok then Inl HTTP_CLIENT_ERROR_REQUEST_TOO_LARGE
          else Inr (len, if len < request_capacity then blit out len [0] else out))"

subsection \<open>Scanning the buffer\<close>

function find_crlf :: "bytes \<Rightarrow> nat \<Rightarrow> nat \<Rightarrow> nat option option" where
  "find_crlf b i limit = (if i + 1 < limit then do {
     x \<leftarrow> load8 b i;
     y \<leftarrow> load8 b (i + 1);
     if x = CH_CR \<and> y = CH_LF then Some (Some i) else find_crlf b (i + 1) limit }
   else Some None)"
  by pat_completeness auto

termination find_crlf
  by (relation "measure (\<lambda>(b, i, limit). limit - i)") auto

function find_header_separator :: "bytes \<Rightarrow> nat \<Rightarrow> nat \<Rightarrow> nat option option" where
  "find_header_separator b i limit = (if i + 3 < limit then do {
     p \<leftarrow> load_bytes b i 4;
     if p = crlf @ crlf then Some (Some i) else find_header_separator b (i + 1) limit }
   else Some None)"
  by pat_completeness auto

termination find_header_separator
  by (relation "measure (\<lambda>(b, i, limit). limit - i)") auto

declare find_crlf.simps [simp del] find_header_separator.simps [simp del]

fun content_length_digits :: "nat \<Rightarrow> bytes \<Rightarrow> nat option" where
  "content_length_digits acc [] = Some acc"
| "content_length_digits acc (c # cs) = (
     if c < CH_0 \<or> c > CH_9 then None
     else let digit = unat (c - CH_0) in
       if acc > (SIZE_T_MAX - digit) div 10 then None else content_length_digits (acc * 10 + digit) cs)"

definition parse_content_length :: "bytes \<Rightarrow> nat option" where
  "parse_content_length value = (if value = [] then None else content_length_digits 0 value)"

definition token_skip :: "u8 \<Rightarrow> bool" where
  "token_skip c \<longleftrightarrow> c = CH_SPACE \<or> c = CH_TAB \<or> c = CH_COMMA"

function span_has_token_ignore_case :: "bytes \<Rightarrow> bytes \<Rightarrow> bool" where
  "span_has_token_ignore_case value token = (if value = [] then False else let
     rest = dropWhile token_skip value;
     item = takeWhile (\<lambda>c. c \<noteq> CH_COMMA) rest
     in span_equals_text_ignore_case (trim_end item) token
        \<or> span_has_token_ignore_case (dropWhile (\<lambda>c. c \<noteq> CH_COMMA) rest) token)"
  by pat_completeness auto

lemma dropWhile_shorter: "x = dropWhile token_skip v \<Longrightarrow> v \<noteq> [] \<Longrightarrow> length (dropWhile (\<lambda>c. c \<noteq> CH_COMMA) x) < length v"
proof -
  assume x: "x = dropWhile token_skip v" and "v \<noteq> []"
  have l: "length x \<le> length v" unfolding x by (rule length_dropWhile_le)
  show ?thesis
  proof (cases x)
    case Nil
    then show ?thesis using \<open>v \<noteq> []\<close> by simp
  next
    case (Cons a y)
    then have "\<not> token_skip a" using x hd_dropWhile[of token_skip v] by simp
    then have "a \<noteq> CH_COMMA" by (auto simp: token_skip_def)
    then have "length (dropWhile (\<lambda>c. c \<noteq> CH_COMMA) x) \<le> length y" using Cons length_dropWhile_le[of _ y] by simp
    then show ?thesis using Cons l by simp
  qed
qed

termination span_has_token_ignore_case
  by (relation "measure (\<lambda>(v, t). length v)") (use dropWhile_shorter in auto)

declare span_has_token_ignore_case.simps [simp del]

subsection \<open>Header lines\<close>

record http_header_view =
  hv_name :: bytes
  hv_value_start :: nat
  hv_value :: bytes

record http_parse_context =
  px_transfer_encoding_seen :: bool
  px_chunked_seen :: bool
  px_identity_seen :: bool
  px_unsupported_transfer_coding :: bool

definition control_byte :: "u8 \<Rightarrow> bool" where
  "control_byte c \<longleftrightarrow> c < CH_SPACE \<and> c \<noteq> CH_TAB \<or> c = CH_DEL"

definition parse_header_view :: "bytes \<Rightarrow> http_header_view http_result" where
  "parse_header_view line = (let
     name = takeWhile (\<lambda>c. c \<noteq> CH_COLON) line;
     after = drop (length name + 1) line;
     value = trim_end (dropWhile ows after)
     in if \<not> list_all valid_header_name_byte name \<or> name = [] \<or> length name = length line \<or> list_ex control_byte value
        then Inl HTTP_CLIENT_ERROR_MALFORMED_HEADER
        else Inr \<lparr>hv_name = name, hv_value_start = length name + 1 + length (takeWhile ows after), hv_value = value\<rparr>)"

definition skip_ows :: "bytes \<Rightarrow> bytes" where
  "skip_ows rest = dropWhile ows rest"

definition parse_token :: "bytes \<Rightarrow> (bytes \<times> bytes) option" where
  "parse_token rest = (let token = takeWhile valid_header_name_byte rest
     in if token = [] then None else Some (token, dropWhile valid_header_name_byte rest))"

fun quoted_tail :: "bytes \<Rightarrow> bytes option" where
  "quoted_tail [] = None"
| "quoted_tail (c # rest) = (
     if c = CH_QUOTE then Some rest
     else if c = CH_BACKSLASH then case rest of [] \<Rightarrow> None
       | q # rest' \<Rightarrow> if 0x20 \<le> q \<and> q \<le> 0x7E \<or> q = CH_TAB \<or> q \<ge> 0x80 then quoted_tail rest' else None
     else if c = CH_TAB \<or> c = CH_SPACE \<or> c = 33 \<or> 0x23 \<le> c \<and> c \<le> 0x5B \<or> 0x5D \<le> c \<and> c \<le> 0x7E \<or> c \<ge> 0x80 then quoted_tail rest
     else None)"

definition parse_quoted_string :: "bytes \<Rightarrow> bytes option" where
  "parse_quoted_string rest = (case rest of [] \<Rightarrow> None | c # tail \<Rightarrow> if c \<noteq> CH_QUOTE then None else quoted_tail tail)"

text \<open>A parameter value: a quoted string or a token.\<close>

definition parse_parameter_value :: "bytes \<Rightarrow> bytes option" where
  "parse_parameter_value rest = (if rest \<noteq> [] \<and> hd rest = CH_QUOTE then parse_quoted_string rest else map_option snd (parse_token rest))"

definition parse_required_parameter :: "bytes \<Rightarrow> bytes option" where
  "parse_required_parameter rest = do {
     (token, rest) \<leftarrow> parse_token (skip_ows rest);
     let rest = skip_ows rest;
     if rest = [] \<or> hd rest \<noteq> CH_EQUALS then None else parse_parameter_value (skip_ows (tl rest)) }"

lemma skip_ows_le: "length (skip_ows r) \<le> length r"
  by (simp add: skip_ows_def length_dropWhile_le)

lemma parse_token_less: "parse_token r = Some (t, r') \<Longrightarrow> length r' < length r"
proof -
  assume "parse_token r = Some (t, r')"
  then have t: "takeWhile valid_header_name_byte r \<noteq> []" "r' = dropWhile valid_header_name_byte r"
    by (auto simp: parse_token_def Let_def split: if_splits)
  have "length (takeWhile valid_header_name_byte r) + length r' = length r"
    unfolding t(2) by (metis length_append takeWhile_dropWhile_id)
  then show ?thesis using t(1) by (metis length_greater_0_conv less_add_same_cancel2)
qed

lemma quoted_tail_less: "quoted_tail r = Some r' \<Longrightarrow> length r' < length r"
  by (induction r rule: quoted_tail.induct) (fastforce split: if_splits list.splits)+

lemma parse_value_less: "parse_parameter_value r = Some r' \<Longrightarrow> length r' < length r"
  using parse_token_less[of r] quoted_tail_less[of "tl r" r']
  by (cases r) (auto simp: parse_parameter_value_def parse_quoted_string_def split: if_splits)

lemma parse_required_less: "parse_required_parameter r = Some r' \<Longrightarrow> length r' < length r"
proof -
  assume "parse_required_parameter r = Some r'"
  then obtain t r1 where t: "parse_token (skip_ows r) = Some (t, r1)" "skip_ows r1 \<noteq> []" "parse_parameter_value (skip_ows (tl (skip_ows r1))) = Some r'"
    by (auto simp: parse_required_parameter_def Let_def bind_eq_Some_conv split: if_splits)
  have "length r1 < length (skip_ows r)" by (rule parse_token_less[OF t(1)])
  moreover have "length r' < length (skip_ows (tl (skip_ows r1)))" by (rule parse_value_less[OF t(3)])
  ultimately show ?thesis
    using skip_ows_le[of r] skip_ows_le[of r1] skip_ows_le[of "tl (skip_ows r1)"] by simp
qed

text \<open>The parameters after a transfer coding: whether there are any, and the rest.\<close>

function coding_parameters :: "bool \<Rightarrow> bytes \<Rightarrow> (bool \<times> bytes) option" where
  "coding_parameters seen rest = (if rest \<noteq> [] \<and> hd rest = CH_SEMICOLON
     then case parse_required_parameter (tl rest) of None \<Rightarrow> None | Some rest' \<Rightarrow> coding_parameters True (skip_ows rest')
     else Some (seen, rest))"
  by pat_completeness auto

termination coding_parameters
proof (relation "measure (\<lambda>(s, r). length r)")
  fix rest rest' :: bytes
  assume "rest \<noteq> [] \<and> hd rest = CH_SEMICOLON" "parse_required_parameter (tl rest) = Some rest'"
  then show "((True, skip_ows rest'), seen, rest) \<in> measure (\<lambda>(s, r). length r)" for seen
    using parse_required_less[of "tl rest" rest'] skip_ows_le[of rest'] by simp
qed simp

declare coding_parameters.simps [simp del]

lemma coding_parameters_le: "coding_parameters s r = Some (p, r') \<Longrightarrow> length r' \<le> length r"
proof (induction s r arbitrary: p r' rule: coding_parameters.induct)
  case (1 s r)
  show ?case
  proof (cases "r \<noteq> [] \<and> hd r = CH_SEMICOLON")
    case True
    then obtain q where q: "parse_required_parameter (tl r) = Some q" "coding_parameters True (skip_ows q) = Some (p, r')"
      using 1(2) by (subst (asm) coding_parameters.simps) (auto split: option.splits)
    then show ?thesis using 1(1)[OF True q(1) q(2)] parse_required_less[OF q(1)] skip_ows_le[of q] by simp
  next
    case False
    then show ?thesis using 1(2) by (subst (asm) coding_parameters.simps) auto
  qed
qed

definition note_coding :: "bool \<Rightarrow> bool \<Rightarrow> http_parse_context \<Rightarrow> http_parse_context http_result" where
  "note_coding is_chunked is_identity context0 = (let context = context0\<lparr>px_transfer_encoding_seen := True\<rparr> in
     if is_chunked then Inr (context\<lparr>px_chunked_seen := True\<rparr>)
     else if is_identity
     then if px_transfer_encoding_seen context \<and> (px_unsupported_transfer_coding context \<or> px_chunked_seen context) then Inl HTTP_CLIENT_ERROR_MALFORMED_HEADER
       else Inr (context\<lparr>px_identity_seen := True\<rparr>)
     else Inr (context\<lparr>px_unsupported_transfer_coding := True\<rparr>))"

function transfer_codings :: "bytes \<Rightarrow> http_parse_context \<Rightarrow> http_parse_context http_result" where
  "transfer_codings rest context = (case parse_token (skip_ows rest) of
     None \<Rightarrow> Inl HTTP_CLIENT_ERROR_MALFORMED_HEADER
   | Some (coding, rest1) \<Rightarrow>
     if px_chunked_seen context \<or> px_identity_seen context then Inl HTTP_CLIENT_ERROR_MALFORMED_HEADER
     else let
       is_chunked = span_equals_text_ignore_case coding (chars ''chunked'');
       is_identity = span_equals_text_ignore_case coding (chars ''identity'')
       in case coding_parameters False (skip_ows rest1) of
         None \<Rightarrow> Inl HTTP_CLIENT_ERROR_MALFORMED_HEADER
       | Some (has_parameter, rest2) \<Rightarrow>
         if (is_chunked \<or> is_identity) \<and> has_parameter then Inl HTTP_CLIENT_ERROR_MALFORMED_HEADER
         else case note_coding is_chunked is_identity context of
           Inl e \<Rightarrow> Inl e
         | Inr context' \<Rightarrow>
           let rest3 = skip_ows rest2 in
           if rest3 = [] then Inr context'
           else if hd rest3 \<noteq> CH_COMMA \<or> skip_ows (tl rest3) = [] then Inl HTTP_CLIENT_ERROR_MALFORMED_HEADER
           else transfer_codings (skip_ows (tl rest3)) context')"
  by pat_completeness auto

termination transfer_codings
proof (relation "measure (\<lambda>(r, c). length r)")
  fix rest rest1 rest2 rest3 coding :: bytes and p q :: "bytes \<times> bytes" and has_parameter ctx' ctx and r :: "bool \<times> bytes"
  assume h: "parse_token (skip_ows rest) = Some p" "(coding, rest1) = p" "coding_parameters False (skip_ows rest1) = Some r"
    "(has_parameter, rest2) = r" "rest3 = skip_ows rest2" "rest3 \<noteq> []"
  have "length rest1 < length rest" using parse_token_less[of "skip_ows rest" coding rest1] h(1,2) skip_ows_le[of rest] by simp
  moreover have "length rest2 \<le> length rest1" using coding_parameters_le[of False "skip_ows rest1" has_parameter rest2] h(3,4) skip_ows_le[of rest1] by simp
  moreover have "length (skip_ows (tl rest3)) \<le> length rest2" using skip_ows_le[of "tl rest3"] skip_ows_le[of rest2] h(5) by simp
  ultimately show "((skip_ows (tl rest3), ctx'), rest, ctx) \<in> measure (\<lambda>(r, c). length r)" by simp
qed simp

declare transfer_codings.simps [simp del]

definition parse_transfer_encoding :: "bytes \<Rightarrow> http_parse_context \<Rightarrow> http_parse_context http_result" where
  "parse_transfer_encoding value context = (if value = [] then Inl HTTP_CLIENT_ERROR_MALFORMED_HEADER else transfer_codings value context)"


definition set_location :: "nat \<Rightarrow> http_header_view \<Rightarrow> http_response \<Rightarrow> http_response http_result" where
  "set_location line_start header response = (if rsp_location response \<noteq> None then Inl HTTP_CLIENT_ERROR_MALFORMED_HEADER
     else Inr (response\<lparr>rsp_location := Some (line_start + hv_value_start header, length (hv_value header))\<rparr>))"

definition set_content_length :: "http_header_view \<Rightarrow> http_response \<Rightarrow> http_response http_result" where
  "set_content_length header response = (case parse_content_length (hv_value header) of
     None \<Rightarrow> Inl HTTP_CLIENT_ERROR_INVALID_CONTENT_LENGTH
   | Some content_length \<Rightarrow>
     if rsp_content_length response \<noteq> None \<and> rsp_content_length response \<noteq> Some content_length then Inl HTTP_CLIENT_ERROR_INVALID_CONTENT_LENGTH
     else Inr (response\<lparr>rsp_content_length := Some content_length\<rparr>))"

definition parse_header_line ::
  "nat \<Rightarrow> bytes \<Rightarrow> http_response \<times> http_parse_context \<Rightarrow> (http_response \<times> http_parse_context) http_result" where
  "parse_header_line line_start line = (\<lambda>(response, context). case parse_header_view line of Inl e \<Rightarrow> Inl e
   | Inr header \<Rightarrow>
     if span_equals_text_ignore_case (hv_name header) (chars ''content-length'')
     then map_sum id (\<lambda>r. (r, context)) (set_content_length header response)
     else if span_equals_text_ignore_case (hv_name header) (chars ''transfer-encoding'')
     then map_sum id (\<lambda>x. (response\<lparr>rsp_has_transfer_encoding := True\<rparr>, x)) (parse_transfer_encoding (hv_value header) context)
     else if span_equals_text_ignore_case (hv_name header) (chars ''connection'')
       \<and> span_has_token_ignore_case (hv_value header) (chars ''close'')
     then Inr (response\<lparr>rsp_connection_close := True\<rparr>, context)
     else if span_equals_text_ignore_case (hv_name header) (chars ''location'')
     then map_sum id (\<lambda>r. (r, context)) (set_location line_start header response)
     else Inr (response, context))"

subsection \<open>Chunked bodies\<close>

definition hex_digit_value :: "u8 \<Rightarrow> nat option" where
  "hex_digit_value c = (if CH_0 \<le> c \<and> c \<le> CH_9 then Some (unat (c - CH_0))
     else let c = http_ascii_lower c in if 97 \<le> c \<and> c \<le> 102 then Some (unat (c - 97 + 10)) else None)"

function validate_chunk_extensions :: "bytes \<Rightarrow> bool" where
  "validate_chunk_extensions rest = (if rest = [] then True else let r = skip_ows rest in
     if r = [] \<or> hd r \<noteq> CH_SEMICOLON then False
     else case parse_token (skip_ows (tl r)) of None \<Rightarrow> False
     | Some (token, r1) \<Rightarrow> let r2 = skip_ows r1 in
       if r2 \<noteq> [] \<and> hd r2 = CH_EQUALS
       then case parse_parameter_value (skip_ows (tl r2)) of None \<Rightarrow> False | Some r3 \<Rightarrow> validate_chunk_extensions (skip_ows r3)
       else validate_chunk_extensions r2)"
  by pat_completeness auto

lemma extension_token_less: "parse_token (skip_ows (tl (skip_ows r))) = Some (t, r1) \<Longrightarrow> length (skip_ows r1) < length r"
  using parse_token_less[of "skip_ows (tl (skip_ows r))" t r1] skip_ows_le[of r] skip_ows_le[of r1] skip_ows_le[of "tl (skip_ows r)"] by simp

termination validate_chunk_extensions
proof (relation "measure length")
  fix rest r r1 r2 token :: bytes and p :: "bytes \<times> bytes"
  assume h: "r = skip_ows rest" "parse_token (skip_ows (tl r)) = Some p" "(token, r1) = p" "r2 = skip_ows r1"
  then have l: "length r2 < length rest" using extension_token_less[of rest token r1] by simp
  then show "(r2, rest) \<in> measure length" by simp
  fix r3 assume "parse_parameter_value (skip_ows (tl r2)) = Some r3"
  then have "length (skip_ows r3) \<le> length r2"
    using parse_value_less[of "skip_ows (tl r2)" r3] skip_ows_le[of r3] skip_ows_le[of "tl r2"] by simp
  then show "(skip_ows r3, rest) \<in> measure length" using l by simp
qed simp

declare validate_chunk_extensions.simps [simp del]

text \<open>The digits of a chunk size: the value, or nothing on overflow, and what follows the digits.\<close>

fun chunk_size_digits :: "nat \<Rightarrow> bytes \<Rightarrow> (nat \<times> bytes) option" where
  "chunk_size_digits acc [] = Some (acc, [])"
| "chunk_size_digits acc (c # cs) = (case hex_digit_value c of None \<Rightarrow> Some (acc, c # cs)
   | Some digit \<Rightarrow> if acc > (SIZE_T_MAX - digit) div 16 then None else chunk_size_digits (acc * 16 + digit) cs)"

definition parse_chunk_size_line :: "bytes \<Rightarrow> nat http_result" where
  "parse_chunk_size_line line = (case chunk_size_digits 0 line of
     None \<Rightarrow> Inl HTTP_CLIENT_ERROR_MALFORMED_CHUNKED_BODY
   | Some (value, rest) \<Rightarrow> if length rest = length line \<or> \<not> validate_chunk_extensions rest then Inl HTTP_CLIENT_ERROR_MALFORMED_CHUNKED_BODY
     else Inr value)"

definition find_chunk_line_end :: "bytes \<Rightarrow> nat \<Rightarrow> nat http_result option" where
  "find_chunk_line_end b start = (
     if start > length b then Some (Inl HTTP_CLIENT_ERROR_TRUNCATED_BODY)
     else let remaining = length b - start;
         limit = (if remaining > HTTP_CLIENT_MAX_CHUNK_LINE_BYTES + 2 then HTTP_CLIENT_MAX_CHUNK_LINE_BYTES + 2 else remaining)
       in do {
         found \<leftarrow> find_crlf b start (start + limit);
         Some (case found of
           Some line_end \<Rightarrow> if line_end - start > HTTP_CLIENT_MAX_CHUNK_LINE_BYTES then Inl HTTP_CLIENT_ERROR_CHUNK_METADATA_TOO_LARGE
             else Inr line_end
         | None \<Rightarrow> if remaining > HTTP_CLIENT_MAX_CHUNK_LINE_BYTES then Inl HTTP_CLIENT_ERROR_CHUNK_METADATA_TOO_LARGE
             else Inl HTTP_CLIENT_ERROR_TRUNCATED_BODY) })"

definition forbidden_trailers :: "bytes list" where
  "forbidden_trailers = map chars [''connection'', ''content-length'', ''host'', ''location'', ''te'', ''trailer'', ''transfer-encoding'', ''upgrade'']"

definition forbidden_trailer_name :: "bytes \<Rightarrow> bool" where
  "forbidden_trailer_name name = list_ex (span_equals_text_ignore_case name) forbidden_trailers"

lemma find_crlf_found: "find_crlf b i limit = Some (Some e) \<Longrightarrow> i \<le> e \<and> e + 1 < limit"
proof (induction b i limit rule: find_crlf.induct)
  case (1 b i limit)
  show ?case
  proof (cases "i + 1 < limit")
    case True
    then obtain x y where "load8 b i = Some x" "load8 b (i + 1) = Some y"
      "if x = CH_CR \<and> y = CH_LF then Some (Some i) = Some (Some e) else find_crlf b (i + 1) limit = Some (Some e)"
      using 1(2) by (subst (asm) find_crlf.simps) (auto simp: bind_eq_Some_conv split: if_splits)
    then show ?thesis using 1(1)[OF True] True by (cases "x = CH_CR \<and> y = CH_LF") (auto dest: Suc_leD)
  next
    case False
    then show ?thesis using 1(2) by (subst (asm) find_crlf.simps) simp
  qed
qed

lemma find_chunk_line_end_found: "find_chunk_line_end b start = Some (Inr e) \<Longrightarrow> start \<le> e \<and> e + 2 \<le> length b"
  using find_crlf_found[of b start _ e]
  by (fastforce simp: find_chunk_line_end_def Let_def bind_eq_Some_conv split: if_splits option.splits)

function validate_chunk_trailers :: "bytes \<Rightarrow> nat \<Rightarrow> nat \<Rightarrow> nat http_result option" where
  "validate_chunk_trailers b start cursor = (
     if cursor > length b \<or> cursor - start > HTTP_CLIENT_MAX_TRAILER_BYTES then Some (Inl HTTP_CLIENT_ERROR_CHUNK_METADATA_TOO_LARGE)
     else let long = length b - start > HTTP_CLIENT_MAX_TRAILER_BYTES;
         search_limit = (if long then start + HTTP_CLIENT_MAX_TRAILER_BYTES else length b)
       in case find_crlf b cursor search_limit of
         None \<Rightarrow> None
       | Some None \<Rightarrow> Some (Inl (if long then HTTP_CLIENT_ERROR_CHUNK_METADATA_TOO_LARGE else HTTP_CLIENT_ERROR_TRUNCATED_BODY))
       | Some (Some line_end) \<Rightarrow>
         if line_end + 2 - start > HTTP_CLIENT_MAX_TRAILER_BYTES then Some (Inl HTTP_CLIENT_ERROR_CHUNK_METADATA_TOO_LARGE)
         else if line_end = cursor then Some (Inr (line_end + 2))
         else case load_bytes b cursor (line_end - cursor) of
           None \<Rightarrow> None
         | Some line \<Rightarrow> (case parse_header_view line of
             Inl e \<Rightarrow> Some (Inl HTTP_CLIENT_ERROR_MALFORMED_CHUNKED_BODY)
           | Inr header \<Rightarrow> if forbidden_trailer_name (hv_name header) then Some (Inl HTTP_CLIENT_ERROR_MALFORMED_CHUNKED_BODY)
               else validate_chunk_trailers b start (line_end + 2)))"
  by pat_completeness auto

termination validate_chunk_trailers
proof (relation "measure (\<lambda>(b, start, cursor). length b + 1 - cursor)")
  fix b :: bytes and start cursor line_end search_limit long x2
  assume h: "\<not> (cursor > length b \<or> cursor - start > HTTP_CLIENT_MAX_TRAILER_BYTES)"
    "search_limit = (if long then start + HTTP_CLIENT_MAX_TRAILER_BYTES else length b)"
    "find_crlf b cursor search_limit = Some x2" "x2 = Some line_end"
  then show "((b, start, line_end + 2), b, start, cursor) \<in> measure (\<lambda>(b, start, cursor). length b + 1 - cursor)"
    using find_crlf_found[of b cursor search_limit line_end] by auto
qed simp

declare validate_chunk_trailers.simps [simp del]

fun copy_forward :: "bytes \<Rightarrow> nat \<Rightarrow> nat \<Rightarrow> nat \<Rightarrow> bytes option" where
  "copy_forward b to from 0 = Some b"
| "copy_forward b to from (Suc n) = do {
     x \<leftarrow> load8 b from;
     if to < length b then copy_forward (b[to := x]) (to + 1) (from + 1) n else None }"

record chunk_walk =
  cw_read :: nat
  cw_write :: nat
  cw_framing :: nat

text \<open>
  One pass of the loop of \<open>walk_chunked_body\<close>: it ends with an error or the decoded length, or goes
  on with the next chunk.  \<open>copy\<close> is \<open>compact\<close>.
\<close>

datatype chunk_step = ChunksEnd "nat http_result" | ChunksNext bytes chunk_walk

definition chunk_data :: "bool \<Rightarrow> nat \<Rightarrow> chunk_walk \<Rightarrow> bytes \<Rightarrow> chunk_step option" where
  "chunk_data compact chunk_size s b = (
     if cw_read s > length b \<or> chunk_size > length b - cw_read s then Some (ChunksEnd (Inl HTTP_CLIENT_ERROR_TRUNCATED_BODY))
     else if length b - cw_read s - chunk_size < 2 then Some (ChunksEnd (Inl HTTP_CLIENT_ERROR_TRUNCATED_BODY))
     else do {
       x \<leftarrow> load8 b (cw_read s + chunk_size);
       y \<leftarrow> load8 b (cw_read s + chunk_size + 1);
       if x \<noteq> CH_CR \<or> y \<noteq> CH_LF then Some (ChunksEnd (Inl HTTP_CLIENT_ERROR_MALFORMED_CHUNKED_BODY))
       else if cw_framing s > HTTP_CLIENT_MAX_CHUNK_FRAMING_BYTES - 2 then Some (ChunksEnd (Inl HTTP_CLIENT_ERROR_CHUNK_METADATA_TOO_LARGE))
       else do {
         b \<leftarrow> (if compact then copy_forward b (cw_write s) (cw_read s) chunk_size else Some b);
         Some (ChunksNext b \<lparr>cw_read = cw_read s + chunk_size + 2, cw_write = cw_write s + chunk_size, cw_framing = cw_framing s + 2\<rparr>) } })"

definition last_chunk :: "chunk_walk \<Rightarrow> bytes \<Rightarrow> chunk_step option" where
  "last_chunk s b = do {
     r \<leftarrow> validate_chunk_trailers b (cw_read s) (cw_read s);
     Some (ChunksEnd (case r of Inl e \<Rightarrow> Inl e
       | Inr message_end \<Rightarrow> if message_end \<noteq> length b then Inl HTTP_CLIENT_ERROR_UNEXPECTED_EXTRA_DATA else Inr (cw_write s))) }"

definition walk_chunk :: "bool \<Rightarrow> chunk_walk \<Rightarrow> bytes \<Rightarrow> chunk_step option" where
  "walk_chunk compact s b = do {
     r \<leftarrow> find_chunk_line_end b (cw_read s);
     (case r of Inl e \<Rightarrow> Some (ChunksEnd (Inl e))
      | Inr line_end \<Rightarrow>
        let size_line_bytes = line_end - cw_read s + 2 in
        if size_line_bytes > HTTP_CLIENT_MAX_CHUNK_FRAMING_BYTES - cw_framing s
        then Some (ChunksEnd (Inl HTTP_CLIENT_ERROR_CHUNK_METADATA_TOO_LARGE))
        else do {
          line \<leftarrow> load_bytes b (cw_read s) (line_end - cw_read s);
          (case parse_chunk_size_line line of Inl e \<Rightarrow> Some (ChunksEnd (Inl e))
           | Inr chunk_size \<Rightarrow>
             let s = s\<lparr>cw_framing := cw_framing s + size_line_bytes, cw_read := line_end + 2\<rparr> in
             if chunk_size = 0 then last_chunk s b else chunk_data compact chunk_size s b) }) }"

lemma copy_forward_length: "copy_forward b to from n = Some b' \<Longrightarrow> length b' = length b"
  by (induction b to "from" n rule: copy_forward.induct) (auto simp: bind_eq_Some_conv split: if_splits)

lemma chunk_data_next: "chunk_data k n s b = Some (ChunksNext b' s') \<Longrightarrow> length b' = length b \<and> cw_read s < cw_read s' \<and> cw_read s' \<le> length b"
  by (auto simp: chunk_data_def bind_eq_Some_conv copy_forward_length split: if_splits)

lemma last_chunk_ends: "last_chunk s b \<noteq> Some (ChunksNext b' s')"
  by (simp add: last_chunk_def bind_eq_Some_conv)

lemma walk_chunk_next: "walk_chunk k s b = Some (ChunksNext b' s') \<Longrightarrow> length b' = length b \<and> cw_read s < cw_read s' \<and> cw_read s' \<le> length b"
proof -
  assume w: "walk_chunk k s b = Some (ChunksNext b' s')"
  then obtain r where r: "find_chunk_line_end b (cw_read s) = Some r" by (auto simp: walk_chunk_def bind_eq_Some_conv)
  obtain e where "r = Inr e" using w r by (cases r) (simp_all add: walk_chunk_def)
  then have e: "find_chunk_line_end b (cw_read s) = Some (Inr e)" using r by simp
  define t where "t = s\<lparr>cw_framing := cw_framing s + (e - cw_read s + 2), cw_read := e + 2\<rparr>"
  obtain line where "(case parse_chunk_size_line line of Inl e \<Rightarrow> Some (ChunksEnd (Inl e))
      | Inr n \<Rightarrow> if n = 0 then last_chunk t b else chunk_data k n t b) = Some (ChunksNext b' s')"
    using w e unfolding walk_chunk_def Let_def t_def by (simp add: bind_eq_Some_conv split: if_splits) blast
  then obtain n where "chunk_data k n t b = Some (ChunksNext b' s')"
    by (cases "parse_chunk_size_line line") (auto simp: last_chunk_ends split: if_splits)
  then have t: "cw_read t = e + 2" "chunk_data k n t b = Some (ChunksNext b' s')" by (simp_all add: t_def)
  show ?thesis using chunk_data_next[OF t(2)] find_chunk_line_end_found[OF e] t(1) by simp
qed

function walk_loop :: "bool \<Rightarrow> chunk_walk \<Rightarrow> bytes \<Rightarrow> (nat http_result \<times> bytes) option" where
  "walk_loop compact s b = (case walk_chunk compact s b of
     None \<Rightarrow> None
   | Some (ChunksEnd r) \<Rightarrow> Some (r, b)
   | Some (ChunksNext b' s') \<Rightarrow> walk_loop compact s' b')"
  by pat_completeness auto

termination walk_loop
proof (relation "measure (\<lambda>(k, s, b). length b - cw_read s)")
  fix compact s b step b' s'
  assume "walk_chunk compact s b = Some step" "step = ChunksNext b' s'"
  then show "((compact, s', b'), compact, s, b) \<in> measure (\<lambda>(k, s, b). length b - cw_read s)"
    using walk_chunk_next[of compact s b b' s'] by auto
qed simp

declare walk_loop.simps [simp del]

definition walk_chunked_body :: "bool \<Rightarrow> bytes \<Rightarrow> (nat http_result \<times> bytes) option" where
  "walk_chunked_body compact b = walk_loop compact \<lparr>cw_read = 0, cw_write = 0, cw_framing = 0\<rparr> b"

definition decode_chunked_body :: "bytes \<Rightarrow> (nat http_result \<times> bytes) option" where
  "decode_chunked_body b = do {
     (r, b) \<leftarrow> walk_chunked_body False b;
     (case r of Inl e \<Rightarrow> Some (Inl e, b)
      | Inr validated_length \<Rightarrow> do {
        (r, b) \<leftarrow> walk_chunked_body True b;
        Some (case r of Inl e \<Rightarrow> (Inl HTTP_CLIENT_ERROR_MALFORMED_CHUNKED_BODY, b)
          | Inr n \<Rightarrow> if n \<noteq> validated_length then (Inl HTTP_CLIENT_ERROR_MALFORMED_CHUNKED_BODY, b) else (Inr n, b)) }) }"

subsection \<open>Responses\<close>

definition redirect_status :: "nat \<Rightarrow> bool" where
  "redirect_status status_code \<longleftrightarrow> status_code \<in> set [300, 301, 302, 303, 307, 308]"

definition uri_character_allowed :: "u8 \<Rightarrow> bool" where
  "uri_character_allowed c \<longleftrightarrow> alphanumeric c \<or> c \<in> set (chars ''-._~:/?#[]@!$&'' @ [39] @ chars ''()*+,;='')"

fun uri_characters :: "bytes \<Rightarrow> bool" where
  "uri_characters [] = True"
| "uri_characters (c # rest) = (if c = CH_PERCENT then case rest of
       x # y # rest' \<Rightarrow> hex_digit_value x \<noteq> None \<and> hex_digit_value y \<noteq> None \<and> uri_characters rest'
     | _ \<Rightarrow> False
   else uri_character_allowed c \<and> uri_characters rest)"

definition valid_uri_reference :: "bytes \<Rightarrow> bool" where
  "valid_uri_reference location \<longleftrightarrow> location \<noteq> [] \<and> uri_characters location"

definition digit_byte :: "u8 \<Rightarrow> bool" where
  "digit_byte c \<longleftrightarrow> \<not> (c < CH_0 \<or> c > CH_9)"

definition digit_of :: "u8 \<Rightarrow> nat" where
  "digit_of c = unat (c - CH_0)"

definition status_line_malformed :: "bytes \<Rightarrow> bool" where
  "status_line_malformed line \<longleftrightarrow> length line < 12 \<or> take 7 line \<noteq> chars ''HTTP/1.'' \<or> line ! 8 \<noteq> CH_SPACE
     \<or> \<not> digit_byte (line ! 9) \<or> \<not> digit_byte (line ! 10) \<or> \<not> digit_byte (line ! 11)
     \<or> length line > 12 \<and> line ! 12 \<noteq> CH_SPACE"

definition parse_status_line :: "nat \<Rightarrow> bytes \<Rightarrow> http_response http_result" where
  "parse_status_line message_start line = (
     if status_line_malformed line then Inl HTTP_CLIENT_ERROR_MALFORMED_STATUS_LINE
     else if line ! 7 \<noteq> CH_0 \<and> line ! 7 \<noteq> 49 then Inl HTTP_CLIENT_ERROR_UNSUPPORTED_VERSION
     else if list_ex control_byte (drop 13 line) then Inl HTTP_CLIENT_ERROR_MALFORMED_STATUS_LINE
     else let status_code = digit_of (line ! 9) * 100 + digit_of (line ! 10) * 10 + digit_of (line ! 11) in
       if status_code < 100 \<or> status_code > 599 then Inl HTTP_CLIENT_ERROR_MALFORMED_STATUS_LINE
       else Inr (clear_response\<lparr>rsp_version_minor := digit_of (line ! 7), rsp_status_code := status_code,
         rsp_reason := (if length line > 12 then (message_start + 13, length line - 13) else (message_start + length line, 0))\<rparr>))"

function header_fields_loop ::
  "bytes \<Rightarrow> nat \<Rightarrow> nat \<Rightarrow> http_response \<times> http_parse_context \<Rightarrow> (http_response \<times> http_parse_context) http_result option" where
  "header_fields_loop b cursor fields_end s = (if cursor < fields_end
     then case find_crlf b cursor fields_end of
       None \<Rightarrow> None
     | Some found \<Rightarrow>
       let line_end = (case found of Some e \<Rightarrow> e | None \<Rightarrow> fields_end) in
       if line_end = cursor then Some (Inl HTTP_CLIENT_ERROR_MALFORMED_HEADER)
       else case load_bytes b cursor (line_end - cursor) of
         None \<Rightarrow> None
       | Some line \<Rightarrow> (case parse_header_line cursor line s of
           Inl e \<Rightarrow> Some (Inl e)
         | Inr s' \<Rightarrow> header_fields_loop b (if line_end = fields_end then fields_end else line_end + 2) fields_end s')
     else Some (Inr s))"
  by pat_completeness auto

termination header_fields_loop
proof (relation "measure (\<lambda>(b, cursor, fields_end, s). fields_end - cursor)")
  fix b :: bytes and cursor fields_end found line_end and s s' :: "http_response \<times> http_parse_context"
  assume "cursor < fields_end" "find_crlf b cursor fields_end = Some found"
    "line_end = (case found of Some e \<Rightarrow> e | None \<Rightarrow> fields_end)"
  then show "((b, if line_end = fields_end then fields_end else line_end + 2, fields_end, s'), b, cursor, fields_end, s)
    \<in> measure (\<lambda>(b, cursor, fields_end, s). fields_end - cursor)"
    using find_crlf_found[of b cursor fields_end line_end] by (auto split: option.splits)
qed simp

declare header_fields_loop.simps [simp del]

definition finish_head :: "bytes \<Rightarrow> nat \<Rightarrow> http_response \<times> http_parse_context \<Rightarrow> (http_response \<times> nat) http_result option" where
  "finish_head b body_start = (\<lambda>(response, context).
     if rsp_has_transfer_encoding response \<and> rsp_content_length response \<noteq> None then Some (Inl HTTP_CLIENT_ERROR_CONFLICTING_FRAMING)
     else if px_unsupported_transfer_coding context then Some (Inl HTTP_CLIENT_ERROR_UNSUPPORTED_TRANSFER_ENCODING)
     else let response = response\<lparr>rsp_chunked_transfer := px_chunked_seen context\<rparr> in
       case rsp_location response of
         Some (offset, len) \<Rightarrow> if redirect_status (rsp_status_code response) then do {
             location \<leftarrow> load_bytes b offset len;
             Some (if valid_uri_reference location then Inr (response, body_start) else Inl HTTP_CLIENT_ERROR_INVALID_REDIRECT_LOCATION) }
           else Some (Inr (response, body_start))
       | None \<Rightarrow> Some (Inr (response, body_start)))"

definition parse_fields :: "bytes \<Rightarrow> nat \<Rightarrow> nat \<Rightarrow> http_response \<Rightarrow> (http_response \<times> nat) http_result option" where
  "parse_fields b status_end separator response = (let
     body_start = separator + 4;
     fields_start = status_end + 2;
     fields_end = max separator fields_start
     in if body_start > length b then Some (Inl HTTP_CLIENT_ERROR_MALFORMED_HEADER)
     else do {
       r \<leftarrow> header_fields_loop b fields_start fields_end (response\<lparr>rsp_header_fields := (fields_start, fields_end - fields_start)\<rparr>,
         \<lparr>px_transfer_encoding_seen = False, px_chunked_seen = False, px_identity_seen = False, px_unsupported_transfer_coding = False\<rparr>);
       (case r of Inl e \<Rightarrow> Some (Inl e) | Inr s \<Rightarrow> finish_head b body_start s) })"

definition parse_response_head :: "bytes \<Rightarrow> nat \<Rightarrow> nat \<Rightarrow> (http_response \<times> nat) http_result option" where
  "parse_response_head b message_start header_limit = (let
     or_too_large = (\<lambda>e. if length b \<ge> HTTP_CLIENT_MAX_HEADER_BYTES then HTTP_CLIENT_ERROR_HEADER_TOO_LARGE else e)
     in if message_start \<ge> length b \<or> message_start \<ge> header_limit then Some (Inl (or_too_large HTTP_CLIENT_ERROR_MALFORMED_STATUS_LINE))
     else do {
       found \<leftarrow> find_crlf b message_start header_limit;
       (case found of None \<Rightarrow> Some (Inl (or_too_large HTTP_CLIENT_ERROR_MALFORMED_STATUS_LINE))
        | Some status_end \<Rightarrow> do {
          line \<leftarrow> load_bytes b message_start (status_end - message_start);
          (case parse_status_line message_start line of Inl e \<Rightarrow> Some (Inl e)
           | Inr response \<Rightarrow> do {
             found \<leftarrow> find_header_separator b status_end header_limit;
             (case found of None \<Rightarrow> Some (Inl (or_too_large HTTP_CLIENT_ERROR_MALFORMED_HEADER))
              | Some separator \<Rightarrow> parse_fields b status_end separator response) }) }) })"

text \<open>The heads of informational responses, up to the head of the final response.\<close>

function final_head :: "bytes \<Rightarrow> nat \<Rightarrow> nat \<Rightarrow> nat \<Rightarrow> (http_response \<times> nat) http_result option" where
  "final_head b header_limit message_start informational_count = (case parse_response_head b message_start header_limit of
     None \<Rightarrow> None
   | Some (Inl e) \<Rightarrow> Some (Inl e)
   | Some (Inr (response, body_start)) \<Rightarrow>
     if rsp_status_code response \<ge> 200 then Some (Inr (response, body_start))
     else if rsp_status_code response = 101 then Some (Inl HTTP_CLIENT_ERROR_UNSUPPORTED_PROTOCOL_SWITCH)
     else if rsp_content_length response \<noteq> None \<or> rsp_has_transfer_encoding response
     then Some (Inl HTTP_CLIENT_ERROR_INVALID_INFORMATIONAL_FRAMING)
     else if informational_count + 1 > HTTP_CLIENT_MAX_INFORMATIONAL_RESPONSES
     then Some (Inl HTTP_CLIENT_ERROR_TOO_MANY_INFORMATIONAL_RESPONSES)
     else if body_start \<ge> length b then Some (Inl HTTP_CLIENT_ERROR_INFORMATIONAL_RESPONSE_WITHOUT_FINAL)
     else final_head b header_limit body_start (informational_count + 1))"
  by pat_completeness auto

termination final_head
  by (relation "measure (\<lambda>(b, l, m, n). 9 - n)") auto

declare final_head.simps [simp del]

definition header_limit :: "bytes \<Rightarrow> nat" where
  "header_limit b = (if length b < HTTP_CLIENT_MAX_HEADER_BYTES then length b else HTTP_CLIENT_MAX_HEADER_BYTES)"

text \<open>Every error of the loop over the heads is the progress 0 here.\<close>

definition http_client_response_body_progress :: "bytes option \<Rightarrow> nat \<Rightarrow> nat option" where
  "http_client_response_body_progress response_bytes body_capacity = (case response_bytes of None \<Rightarrow> Some 0
   | Some b \<Rightarrow>
     if b = [] \<or> body_capacity = 0 then Some 0
     else do {
       r \<leftarrow> final_head b (header_limit b) 0 0;
       Some (case r of Inl e \<Rightarrow> 0
         | Inr (response, body_start) \<Rightarrow>
           if rsp_chunked_transfer response \<or> rsp_status_code response = 204 \<or> rsp_status_code response = 304 \<or> body_start > length b then 0
           else let progress = length b - body_start;
               progress = (case rsp_content_length response of Some n \<Rightarrow> if progress > n then n else progress | None \<Rightarrow> progress)
             in if progress > body_capacity then body_capacity else progress) })"

definition parse_body :: "bytes \<Rightarrow> http_response \<Rightarrow> nat \<Rightarrow> (http_response http_result \<times> bytes) option" where
  "parse_body b response body_start = (let
     available_body = length b - body_start;
     done = (\<lambda>n. Inr (response\<lparr>rsp_body := (body_start, n)\<rparr>))
     in if rsp_status_code response = 204 \<or> rsp_status_code response = 304
     then Some (if available_body \<noteq> 0 then Inl HTTP_CLIENT_ERROR_UNEXPECTED_EXTRA_DATA else done 0, b)
     else if rsp_chunked_transfer response then do {
       (r, body) \<leftarrow> decode_chunked_body (drop body_start b);
       Some (case r of Inl e \<Rightarrow> Inl e | Inr n \<Rightarrow> done n, take body_start b @ body) }
     else Some (case rsp_content_length response of
         Some n \<Rightarrow> if available_body < n then Inl HTTP_CLIENT_ERROR_TRUNCATED_BODY
           else if available_body > n then Inl HTTP_CLIENT_ERROR_UNEXPECTED_EXTRA_DATA else done n
       | None \<Rightarrow> done available_body, b))"

definition http_client_parse_response :: "bytes option \<Rightarrow> (http_response http_result \<times> bytes option) option" where
  "http_client_parse_response response_bytes = (case response_bytes of
     None \<Rightarrow> Some (Inl HTTP_CLIENT_ERROR_INVALID_ARGUMENT, None)
   | Some b \<Rightarrow> if b = [] then Some (Inl HTTP_CLIENT_ERROR_INVALID_ARGUMENT, Some b)
     else do {
       r \<leftarrow> final_head b (header_limit b) 0 0;
       (case r of Inl e \<Rightarrow> Some (Inl e, Some b)
        | Inr (response, body_start) \<Rightarrow> do { (q, b) \<leftarrow> parse_body b response body_start; Some (q, Some b) }) })"

subsection \<open>Looking at a response\<close>

text \<open>
  The lookup of a header in the field lines: the offset of the value in the field lines and its
  length.  \<open>line_of\<close> is the part before the first line break.
\<close>

fun line_of :: "bytes \<Rightarrow> bytes" where
  "line_of (x # y # rest) = (if x = CH_CR \<and> y = CH_LF then [] else x # line_of (y # rest))"
| "line_of rest = rest"

lemma line_of_length: "length (line_of f) = length f \<or> length (line_of f) + 1 < length f"
  by (induction f rule: line_of.induct) auto

function find_header_loop :: "bytes \<Rightarrow> bytes \<Rightarrow> nat \<Rightarrow> (nat \<times> nat) option" where
  "find_header_loop fs name cursor = (if cursor < length fs then let
     line = line_of (drop cursor fs);
     line_end = cursor + length line;
     field = takeWhile (\<lambda>c. c \<noteq> CH_COLON) line;
     after = drop (length field + 1) line;
     start = cursor + length field + 1 + length (takeWhile ows after);
     stop = (if after = [] then line_end else start + length (trim_end (dropWhile ows after)))
     in if length field = length name \<and> span_equals_text_ignore_case (take (length name) (drop cursor fs)) name
       then Some (start, szsub stop start)
       else find_header_loop fs name (if line_end + 1 < length fs then line_end + 2 else line_end)
   else None)"
  by pat_completeness auto

termination find_header_loop
proof (relation "measure (\<lambda>(fs, name, cursor). length fs - cursor)")
  fix fs line :: bytes and cursor line_end and name :: bytes
  assume "cursor < length fs" "line = line_of (drop cursor fs)" "line_end = cursor + length line"
  then show "((fs, name, if line_end + 1 < length fs then line_end + 2 else line_end), fs, name, cursor)
    \<in> measure (\<lambda>(fs, name, cursor). length fs - cursor)"
    using line_of_length[of "drop cursor fs"] by auto
qed simp

declare find_header_loop.simps [simp del]

definition http_response_find_header :: "bytes \<Rightarrow> http_response option \<Rightarrow> bytes option \<Rightarrow> (nat \<times> nat) option option" where
  "http_response_find_header b response name = (case (response, name) of
     (Some r, Some n) \<Rightarrow> if cstr n = [] then Some None else do {
       fs \<leftarrow> load_bytes b (fst (rsp_header_fields r)) (snd (rsp_header_fields r));
       Some (map_option (\<lambda>(start, len). (fst (rsp_header_fields r) + start, len)) (find_header_loop fs (cstr n) 0)) }
   | _ \<Rightarrow> Some None)"

definition http_response_is_redirect :: "http_response option \<Rightarrow> bool" where
  "http_response_is_redirect response = (case response of None \<Rightarrow> False | Some r \<Rightarrow> redirect_status (rsp_status_code r))"

definition http_response_redirect_location :: "bytes \<Rightarrow> http_response option \<Rightarrow> (nat \<times> nat) option option" where
  "http_response_redirect_location b response = (
     if \<not> http_response_is_redirect response then Some None
     else case rsp_location (the response) of None \<Rightarrow> Some None
     | Some (offset, len) \<Rightarrow> do {
         location \<leftarrow> load_bytes b offset len;
         Some (if valid_uri_reference location then Some (offset, len) else None) })"

text \<open>
  The destination is an array of the given capacity; the result is the error or the length, and the
  destination.
\<close>

definition http_response_copy_redirect_location ::
  "bytes \<Rightarrow> http_response option \<Rightarrow> bytes option \<Rightarrow> (nat http_result \<times> bytes option) option" where
  "http_response_copy_redirect_location b response destination = (let
     destination = map_option (\<lambda>d. if d = [] then d else blit d 0 [0]) destination
     in case (response, destination) of
       (Some r, Some d) \<Rightarrow>
         if d = [] then Some (Inl HTTP_CLIENT_ERROR_INVALID_ARGUMENT, destination)
         else if \<not> http_response_is_redirect response \<or> rsp_location r = None then Some (Inl HTTP_CLIENT_ERROR_REDIRECT_LOCATION_MISSING, destination)
         else do {
           location \<leftarrow> load_bytes b (fst (the (rsp_location r))) (snd (the (rsp_location r)));
           if \<not> valid_uri_reference location then Some (Inl HTTP_CLIENT_ERROR_INVALID_REDIRECT_LOCATION, destination)
           else do {
             found \<leftarrow> http_response_redirect_location b response;
             (case found of None \<Rightarrow> Some (Inl HTTP_CLIENT_ERROR_INVALID_REDIRECT_LOCATION, destination)
              | Some (offset, len) \<Rightarrow>
                if len \<ge> length d then Some (Inl HTTP_CLIENT_ERROR_REDIRECT_LOCATION_TOO_LARGE, destination)
                else do { s \<leftarrow> load_bytes b offset len; Some (Inr len, Some (blit d 0 (s @ [0]))) }) } }
     | _ \<Rightarrow> Some (Inl HTTP_CLIENT_ERROR_INVALID_ARGUMENT, destination))"

definition http_client_error_string :: "unit http_result \<Rightarrow> bytes" where
  "http_client_error_string r = (case r of
     Inr u \<Rightarrow> lit ''no error''
   | Inl e \<Rightarrow> (case e of
       HTTP_CLIENT_ERROR_INVALID_ARGUMENT \<Rightarrow> lit ''invalid HTTP client argument''
     | HTTP_CLIENT_ERROR_INVALID_HOST \<Rightarrow> lit ''invalid HTTP host''
     | HTTP_CLIENT_ERROR_INVALID_PATH \<Rightarrow> lit ''invalid HTTP path''
     | HTTP_CLIENT_ERROR_REQUEST_TOO_LARGE \<Rightarrow> lit ''HTTP request buffer is too small''
     | HTTP_CLIENT_ERROR_TCP \<Rightarrow> lit ''TCP operation failed''
     | HTTP_CLIENT_ERROR_HEADER_TOO_LARGE \<Rightarrow> lit ''HTTP response headers are too large''
     | HTTP_CLIENT_ERROR_MALFORMED_STATUS_LINE \<Rightarrow> lit ''malformed HTTP status line''
     | HTTP_CLIENT_ERROR_UNSUPPORTED_VERSION \<Rightarrow> lit ''unsupported HTTP version''
     | HTTP_CLIENT_ERROR_MALFORMED_HEADER \<Rightarrow> lit ''malformed HTTP header''
     | HTTP_CLIENT_ERROR_INVALID_CONTENT_LENGTH \<Rightarrow> lit ''invalid HTTP Content-Length''
     | HTTP_CLIENT_ERROR_CONFLICTING_FRAMING \<Rightarrow> lit ''conflicting HTTP message framing''
     | HTTP_CLIENT_ERROR_UNSUPPORTED_TRANSFER_ENCODING \<Rightarrow> lit ''unsupported HTTP Transfer-Encoding''
     | HTTP_CLIENT_ERROR_MALFORMED_CHUNKED_BODY \<Rightarrow> lit ''malformed HTTP chunked body''
     | HTTP_CLIENT_ERROR_CHUNK_METADATA_TOO_LARGE \<Rightarrow> lit ''HTTP chunk metadata is too large''
     | HTTP_CLIENT_ERROR_TRUNCATED_BODY \<Rightarrow> lit ''HTTP response body is truncated''
     | HTTP_CLIENT_ERROR_UNEXPECTED_EXTRA_DATA \<Rightarrow> lit ''HTTP response contains unexpected extra data''
     | HTTP_CLIENT_ERROR_REDIRECT_LOCATION_MISSING \<Rightarrow> lit ''HTTP redirect has no Location''
     | HTTP_CLIENT_ERROR_INVALID_REDIRECT_LOCATION \<Rightarrow> lit ''HTTP redirect Location is invalid''
     | HTTP_CLIENT_ERROR_REDIRECT_LOCATION_TOO_LARGE \<Rightarrow> lit ''HTTP redirect Location is too large''
     | HTTP_CLIENT_ERROR_INVALID_INFORMATIONAL_FRAMING \<Rightarrow> lit ''HTTP informational response has invalid framing''
     | HTTP_CLIENT_ERROR_TOO_MANY_INFORMATIONAL_RESPONSES \<Rightarrow> lit ''too many HTTP informational responses''
     | HTTP_CLIENT_ERROR_INFORMATIONAL_RESPONSE_WITHOUT_FINAL \<Rightarrow> lit ''HTTP informational response has no final response''
     | HTTP_CLIENT_ERROR_UNSUPPORTED_PROTOCOL_SWITCH \<Rightarrow> lit ''HTTP protocol switching is unsupported''))"

end
