(* ===== verification/Http_Safe.thy ===== *)
theory Http_Safe
  imports Http_Client
begin

text \<open>
  The scans of the HTTP parser stay inside the buffer, and every span of a parsed response lies
  before its body.
\<close>

section \<open>Definitions\<close>

definition unbroken :: "bytes \<Rightarrow> bool" where
  "unbroken l \<longleftrightarrow> line_of l = l"

definition span_in :: "nat \<times> nat \<Rightarrow> nat \<Rightarrow> bool" where
  "span_in s n \<longleftrightarrow> fst s + snd s \<le> n"

definition head_ok :: "nat \<Rightarrow> http_response \<Rightarrow> bool" where
  "head_ok n r \<longleftrightarrow> 100 \<le> rsp_status_code r \<and> rsp_status_code r \<le> 599 \<and> rsp_version_minor r \<le> 1 \<and> span_in (rsp_reason r) n
     \<and> span_in (rsp_header_fields r) n \<and> (case rsp_location r of Some s \<Rightarrow> span_in s n | None \<Rightarrow> True)"

section \<open>Line breaks\<close>

lemma find_crlf_line_of:
  "limit \<le> length b \<Longrightarrow> find_crlf b i limit = Some (let l = line_of (take (limit - i) (drop i b)) in
     if length l + 1 < limit - i then Some (i + length l) else None)"
proof (induction b i limit rule: find_crlf.induct)
  case (1 b i limit)
  show ?case
  proof (cases "i + 1 < limit")
    case True
    define t where "t = take (limit - i - 2) (drop (i + 2) b)"
    have d: "drop i b = b ! i # b ! (i + 1) # drop (i + 2) b" using True 1(2)
      by (metis Cons_nth_drop_Suc Suc_eq_plus1 Suc_lessD add_2_eq_Suc' less_le_trans)
    have e: "take (limit - i) (drop i b) = b ! i # b ! (i + 1) # t"
      using True by (cases "limit - i"; cases "limit - i - 1") (auto simp: d t_def)
    have e': "take (limit - (i + 1)) (drop (i + 1) b) = b ! (i + 1) # t"
      using arg_cong[OF e, of tl] by (simp add: drop_Suc tl_drop tl_take del: drop_drop)
    have l: "load8 b i = Some (b ! i)" "load8 b (i + 1) = Some (b ! (i + 1))" using True 1(2) by (simp_all add: load_simps)
    show ?thesis
    proof (cases "b ! i = CH_CR \<and> b ! (i + 1) = CH_LF")
      case hit: True
      show ?thesis unfolding e by (subst find_crlf.simps) (use True hit l in \<open>simp add: Let_def\<close>)
    next
      case False
      have "find_crlf b i limit = find_crlf b (i + 1) limit"
        by (subst find_crlf.simps) (use True False l in auto)
      moreover have "find_crlf b (i + 1) limit = Some (let l = line_of (b ! (i + 1) # t) in
        if length l + 1 < limit - (i + 1) then Some (i + 1 + length l) else None)"
        using 1(1)[OF True l False 1(2)] unfolding e' .
      ultimately show ?thesis unfolding e using False by (auto simp: Let_def)
    qed
  next
    case False
    then show ?thesis by (subst find_crlf.simps) (simp add: Let_def)
  qed
qed

lemma find_crlf_runs: "limit \<le> length b \<Longrightarrow> \<exists>r. find_crlf b i limit = Some r"
  by (simp add: find_crlf_line_of)

lemma line_of_crlf: "unbroken l \<Longrightarrow> line_of (l @ CH_CR # CH_LF # r) = l"
proof (induction l rule: line_of.induct)
  case (1 x y l)
  then show ?case by (auto simp: unbroken_def split: if_splits)
qed (auto simp: unbroken_def)

lemma line_of_split: "length (line_of f) + 1 < length f \<Longrightarrow> f = line_of f @ CH_CR # CH_LF # drop (length (line_of f) + 2) f"
  by (induction f rule: line_of.induct) auto

lemma unbroken_line_of: "unbroken (line_of f)"
proof (induction f rule: line_of.induct)
  case (1 x y f)
  show ?case
  proof (cases "line_of (y # f)")
    case Nil
    then show ?thesis by (simp add: unbroken_def)
  next
    case (Cons z l)
    then have "z = y" by (cases f) (auto split: if_splits)
    then show ?thesis using 1 Cons by (auto simp: unbroken_def)
  qed
qed (auto simp: unbroken_def)

lemma find_crlf_line: "find_crlf b i limit = Some (Some e) \<Longrightarrow> limit \<le> length b \<Longrightarrow>
  unbroken (take (e - i) (drop i b)) \<and> i \<le> e \<and> e + 2 \<le> limit \<and> drop i b = take (e - i) (drop i b) @ CH_CR # CH_LF # drop (e + 2) b"
proof -
  assume f: "find_crlf b i limit = Some (Some e)" and "limit \<le> length b"
  define l where "l = line_of (take (limit - i) (drop i b))"
  have e: "e = i + length l" "length l + 1 < limit - i" using f \<open>limit \<le> length b\<close>
    by (auto simp: find_crlf_line_of l_def Let_def split: if_splits)
  have "take (limit - i) (drop i b) = l @ CH_CR # CH_LF # drop (length l + 2) (take (limit - i) (drop i b))"
    unfolding l_def by (rule line_of_split) (use e(2) \<open>limit \<le> length b\<close> in \<open>simp add: l_def\<close>)
  then have d: "drop i b = l @ CH_CR # CH_LF # drop (length l + 2) (take (limit - i) (drop i b)) @ drop (limit - i) (drop i b)"
    by (metis append_Cons append_assoc append_take_drop_id)
  have "drop (e + 2) b = drop (length l + 2) (drop i b)" unfolding e(1) by (simp add: ac_simps)
  also have "\<dots> = drop (length l + 2) (take (limit - i) (drop i b)) @ drop (limit - i) (drop i b)" by (subst d) simp
  finally have "drop i b = l @ CH_CR # CH_LF # drop (e + 2) b" using d by simp
  moreover have "take (e - i) (drop i b) = l" unfolding e(1) by (subst calculation) simp
  moreover have "unbroken l" unfolding l_def by (rule unbroken_line_of)
  ultimately show ?thesis using e by simp
qed

lemma find_crlf_at:
  "drop i b = l @ CH_CR # CH_LF # r \<Longrightarrow> unbroken l \<Longrightarrow> i + length l + 2 \<le> limit \<Longrightarrow> limit \<le> length b \<Longrightarrow>
   find_crlf b i limit = Some (Some (i + length l))"
proof -
  assume d: "drop i b = l @ CH_CR # CH_LF # r" and l: "unbroken l" "i + length l + 2 \<le> limit" "limit \<le> length b"
  have "take (limit - i) (drop i b) = l @ CH_CR # CH_LF # take (limit - i - length l - 2) r"
  proof -
    obtain m where m: "limit - i = length l + Suc (Suc m)" using l(2) by (intro that[of "limit - i - length l - 2"]) simp
    then show ?thesis unfolding d by simp
  qed
  then show ?thesis using l by (simp add: find_crlf_line_of line_of_crlf Let_def)
qed

lemma separator_found: "find_header_separator b i limit = Some (Some e) \<Longrightarrow> i \<le> e \<and> e + 4 \<le> limit"
proof (induction b i limit rule: find_header_separator.induct)
  case (1 b i limit)
  show ?case
  proof (cases "i + 3 < limit")
    case True
    then obtain p where "load_bytes b i 4 = Some p"
      "if p = crlf @ crlf then Some (Some i) = Some (Some e) else find_header_separator b (i + 1) limit = Some (Some e)"
      using 1(2) by (subst (asm) find_header_separator.simps) (auto simp: bind_eq_Some_conv split: if_splits)
    then show ?thesis using 1(1)[OF True] True by (cases "p = crlf @ crlf") (auto dest: Suc_leD)
  next
    case False
    then show ?thesis using 1(2) by (subst (asm) find_header_separator.simps) simp
  qed
qed

lemma separator_runs: "limit \<le> length b \<Longrightarrow> \<exists>r. find_header_separator b i limit = Some r"
proof (induction b i limit rule: find_header_separator.induct)
  case (1 b i limit)
  show ?case
  proof (cases "i + 3 < limit")
    case True
    then have "load_bytes b i 4 = Some (take 4 (drop i b))" using 1(2) by (simp add: load_simps)
    then show ?thesis using 1(1)[OF True] 1(2) True by (subst find_header_separator.simps) simp
  next
    case False
    then show ?thesis by (subst find_header_separator.simps) simp
  qed
qed

section \<open>Heads\<close>

lemma trim_end_le: "length (trim_end b) \<le> length b"
  by (simp add: trim_end_def) (metis length_dropWhile_le length_rev)

lemma view_in: "parse_header_view line = Inr h \<Longrightarrow> hv_value_start h + length (hv_value h) \<le> length line"
proof -
  assume p: "parse_header_view line = Inr h"
  define name where "name = takeWhile (\<lambda>c. c \<noteq> CH_COLON) line"
  define rest where "rest = drop (length name + 1) line"
  have h: "h = \<lparr>hv_name = name, hv_value_start = length name + 1 + length (takeWhile ows rest), hv_value = trim_end (dropWhile ows rest)\<rparr>"
    "length name \<noteq> length line"
    using p by (auto simp: parse_header_view_def Let_def name_def rest_def split: if_splits)
  have "length name \<le> length line" unfolding name_def by (rule length_takeWhile_le)
  moreover have "length (takeWhile ows rest) + length (dropWhile ows rest) = length rest"
    by (metis length_append takeWhile_dropWhile_id)
  ultimately show ?thesis using h trim_end_le[of "dropWhile ows rest"] by (simp add: rest_def)
qed

lemma map_sum_Inr: "map_sum id f s = Inr y \<longleftrightarrow> (\<exists>x. s = Inr x \<and> y = f x)"
  by (cases s) auto

lemma header_line_ok: "parse_header_line k line (r, x) = Inr (r', x') \<Longrightarrow> head_ok n r \<Longrightarrow> k + length line \<le> n \<Longrightarrow> head_ok n r'"
  by (auto simp: parse_header_line_def set_content_length_def set_location_def head_ok_def span_in_def map_sum_Inr dest!: view_in
      split: sum.splits if_splits option.splits)

lemma fields_loop_runs:
  "fields_end \<le> length b \<Longrightarrow> \<exists>r. header_fields_loop b cursor fields_end s = Some r"
proof (induction b cursor fields_end s rule: header_fields_loop.induct)
  case (1 b cursor fields_end s)
  show ?case
  proof (cases "cursor < fields_end")
    case True
    obtain found where f: "find_crlf b cursor fields_end = Some found" using find_crlf_runs[OF 1(2)] by blast
    define e where "e = (case found of Some e \<Rightarrow> e | None \<Rightarrow> fields_end)"
    have e: "cursor \<le> e" "e \<le> fields_end" using find_crlf_found[of b cursor fields_end e] f True
      by (auto simp: e_def split: option.splits)
    have l: "load_bytes b cursor (e - cursor) = Some (take (e - cursor) (drop cursor b))" using e 1(2) by (simp add: load_simps)
    show ?thesis
      using 1(1)[OF True f e_def _ l _ 1(2)] True f l
      by (subst header_fields_loop.simps) (auto simp: Let_def e_def[symmetric] split: sum.splits)
  next
    case False
    then show ?thesis by (subst header_fields_loop.simps) simp
  qed
qed

lemma fields_loop_ok:
  "header_fields_loop b cursor fields_end s = Some (Inr s') \<Longrightarrow> fields_end \<le> n \<Longrightarrow> head_ok n (fst s) \<Longrightarrow> head_ok n (fst s')"
proof (induction b cursor fields_end s rule: header_fields_loop.induct)
  case (1 b cursor fields_end s)
  show ?case
  proof (cases "cursor < fields_end")
    case True
    obtain found where f: "find_crlf b cursor fields_end = Some found"
      using 1(2) True by (subst (asm) header_fields_loop.simps) (auto split: option.splits)
    define e where "e = (case found of Some e \<Rightarrow> e | None \<Rightarrow> fields_end)"
    have e: "cursor \<le> e" "e \<le> fields_end" using find_crlf_found[of b cursor fields_end e] f True
      by (auto simp: e_def split: option.splits)
    obtain line s1 where l: "load_bytes b cursor (e - cursor) = Some line" "parse_header_line cursor line s = Inr s1" "e \<noteq> cursor"
      "header_fields_loop b (if e = fields_end then fields_end else e + 2) fields_end s1 = Some (Inr s')"
      using 1(2) True f by (subst (asm) header_fields_loop.simps) (auto simp: Let_def e_def[symmetric] split: option.splits sum.splits if_splits)
    have "length line = e - cursor" using l(1) by (auto simp: load_bytes_def split: if_splits)
    then have "head_ok n (fst s1)"
      using header_line_ok[of cursor line "fst s" "snd s" "fst s1" "snd s1" n] l(2) 1(3,4) e by simp
    then show ?thesis using 1(1)[OF True f e_def l(3,1,2) l(4) 1(3)] by simp
  next
    case False
    then show ?thesis using 1(2,4) by (subst (asm) header_fields_loop.simps) simp
  qed
qed

lemma status_line_ok: "parse_status_line k line = Inr r \<Longrightarrow> k + length line \<le> n \<Longrightarrow> head_ok n r \<and> rsp_location r = None"
  by (auto simp: parse_status_line_def Let_def head_ok_def span_in_def clear_response_def digit_of_def split: if_splits)

lemma finish_head_runs: "head_ok n (fst s) \<Longrightarrow> n \<le> length b \<Longrightarrow> \<exists>r. finish_head b k s = Some r"
  by (cases s) (auto simp: finish_head_def head_ok_def span_in_def Let_def load_simps split: option.splits)

lemma finish_head_ok: "finish_head b k s = Some (Inr (r, k')) \<Longrightarrow> head_ok n (fst s) \<Longrightarrow> head_ok n r \<and> k' = k"
  by (cases s) (auto simp: finish_head_def head_ok_def Let_def bind_eq_Some_conv split: option.splits if_splits)

lemma head_fields_set: "head_ok n r \<Longrightarrow> span_in s n \<Longrightarrow> head_ok n (r\<lparr>rsp_header_fields := s\<rparr>)"
  by (simp add: head_ok_def)

lemma parse_fields_runs:
  assumes r: "head_ok (separator + 4) r" and s: "status_end \<le> separator"
  shows "\<exists>q. parse_fields b status_end separator r = Some q \<and>
    (\<forall>r' k. q = Inr (r', k) \<longrightarrow> k = separator + 4 \<and> k \<le> length b \<and> head_ok k r')"
proof (cases "separator + 4 > length b")
  case True
  then show ?thesis by (simp add: parse_fields_def)
next
  case False
  define fe where "fe = max separator (status_end + 2)"
  define r1 where "r1 = r\<lparr>rsp_header_fields := (status_end + 2, fe - (status_end + 2))\<rparr>"
  define x where "x = \<lparr>px_transfer_encoding_seen = False, px_chunked_seen = False, px_identity_seen = False, px_unsupported_transfer_coding = False\<rparr>"
  have fe: "fe \<le> separator + 4" "fe \<le> length b" using s False by (simp_all add: fe_def)
  have r1: "head_ok (separator + 4) (fst (r1, x))" unfolding r1_def using fe(1) s
    by (simp add: head_fields_set[OF r] span_in_def fe_def)
  obtain q where q: "header_fields_loop b (status_end + 2) fe (r1, x) = Some q" using fields_loop_runs[OF fe(2)] by blast
  have p: "parse_fields b status_end separator r = (case q of Inl e \<Rightarrow> Some (Inl e) | Inr s \<Rightarrow> finish_head b (separator + 4) s)"
    using False q by (simp add: parse_fields_def Let_def fe_def r1_def x_def)
  show ?thesis
  proof (cases q)
    case (Inl e)
    then show ?thesis unfolding p by simp
  next
    case (Inr s')
    have o: "head_ok (separator + 4) (fst s')" using fields_loop_ok[OF _ fe(1) r1] q Inr by blast
    obtain z where z: "finish_head b (separator + 4) s' = Some z" using finish_head_runs[OF o] False by fastforce
    then have "z = Inr (r', k) \<Longrightarrow> head_ok (separator + 4) r' \<and> k = separator + 4" for r' k using finish_head_ok[OF _ o] by blast
    then show ?thesis unfolding p using Inr z False by auto
  qed
qed

lemma head_ok_mono: "head_ok n r \<Longrightarrow> n \<le> m \<Longrightarrow> head_ok m r"
  by (auto simp: head_ok_def span_in_def split: option.splits)

lemma head_runs:
  assumes "limit \<le> length b"
  shows "\<exists>q. parse_response_head b message_start limit = Some q \<and>
    (\<forall>r k. q = Inr (r, k) \<longrightarrow> message_start < k \<and> k \<le> length b \<and> head_ok k r)"
proof (cases "message_start \<ge> length b \<or> message_start \<ge> limit")
  case True
  then show ?thesis by (simp add: parse_response_head_def)
next
  case False
  obtain found where f: "find_crlf b message_start limit = Some found" using find_crlf_runs[OF assms] by blast
  show ?thesis
  proof (cases found)
    case None
    then show ?thesis using False f by (simp add: parse_response_head_def Let_def)
  next
    case (Some e)
    have e: "message_start \<le> e" "e + 2 \<le> limit" using find_crlf_found[of b message_start limit e] f Some by auto
    define line where "line = take (e - message_start) (drop message_start b)"
    have l: "load_bytes b message_start (e - message_start) = Some line" unfolding line_def
      using e assms by (simp add: load_simps)
    have n: "message_start + length line = e" using e assms by (simp add: line_def)
    obtain sep where s: "find_header_separator b e limit = Some sep" using separator_runs[OF assms] by blast
    show ?thesis
    proof (cases "parse_status_line message_start line")
      case (Inl x)
      then show ?thesis using False f Some l by (simp add: parse_response_head_def Let_def)
    next
      case (Inr r)
      show ?thesis
      proof (cases sep)
        case None
        then show ?thesis using False f Some l s Inr by (simp add: parse_response_head_def Let_def)
      next
        case (Some k)
        have k: "e \<le> k" using separator_found[of b e limit k] s Some by simp
        have "head_ok (k + 4) r" using status_line_ok[OF Inr] k n by simp
        from parse_fields_runs[OF this k, of b] obtain z where "parse_fields b e k r = Some z"
          "\<And>r' m. z = Inr (r', m) \<Longrightarrow> m = k + 4 \<and> m \<le> length b \<and> head_ok m r'" by blast
        then show ?thesis
          using False f \<open>found = Some e\<close> l s Inr Some e(1) k by (auto simp: parse_response_head_def Let_def)
      qed
    qed
  qed
qed

lemma final_head_runs:
  "limit \<le> length b \<Longrightarrow> \<exists>q. final_head b limit message_start n = Some q \<and>
    (\<forall>r k. q = Inr (r, k) \<longrightarrow> k \<le> length b \<and> head_ok k r \<and> 200 \<le> rsp_status_code r)"
proof (induction b limit message_start n rule: final_head.induct)
  case (1 b limit message_start n)
  obtain q where q: "parse_response_head b message_start limit = Some q"
    "\<And>r k. q = Inr (r, k) \<Longrightarrow> message_start < k \<and> k \<le> length b \<and> head_ok k r"
    using head_runs[OF 1(2)] by blast
  show ?case
  proof (cases q)
    case (Inl e)
    then show ?thesis using q(1) by (subst final_head.simps) simp
  next
    case (Inr p)
    obtain r k where p: "p = (r, k)" by fastforce
    let ?go = "rsp_status_code r < 200 \<and> rsp_status_code r \<noteq> 101 \<and> rsp_content_length r = None \<and> \<not> rsp_has_transfer_encoding r
      \<and> n < 8 \<and> k < length b"
    show ?thesis
    proof (cases ?go)
      case True
      then have "final_head b limit message_start n = final_head b limit k (n + 1)"
        using q(1) Inr p by (subst final_head.simps) simp
      then show ?thesis using 1(1)[OF q(1) Inr p[symmetric] _ _ _ _ _ 1(2)] True by simp
    next
      case False
      then show ?thesis using q(1) q(2)[of r k] Inr p by (subst final_head.simps) auto
    qed
  qed
qed

end
