(* ===== verification/Http_Chunks.thy ===== *)
theory Http_Chunks
  imports Http_Safe
begin

text \<open>
  The chunked transfer coding.  \<open>chunked\<close> is the grammar the client accepts, without buffers and
  cursors; the in-place decoder accepts exactly its words and leaves the decoded body at the start of
  the buffer.
\<close>

section \<open>Definitions\<close>

inductive trailer_part :: "bytes \<Rightarrow> bool" where
  trailer_end: "trailer_part (CH_CR # CH_LF # [])"
| trailer_line: "l \<noteq> [] \<Longrightarrow> unbroken l \<Longrightarrow> parse_header_view l = Inr h \<Longrightarrow> \<not> forbidden_trailer_name (hv_name h) \<Longrightarrow> trailer_part t
    \<Longrightarrow> trailer_part (l @ CH_CR # CH_LF # t)"

text \<open>\<open>chunked f e d\<close>: \<open>e\<close> encodes \<open>d\<close> with \<open>f\<close> bytes of framing before the trailers.\<close>

inductive chunked :: "nat \<Rightarrow> bytes \<Rightarrow> bytes \<Rightarrow> bool" where
  chunked_last: "unbroken l \<Longrightarrow> length l \<le> HTTP_CLIENT_MAX_CHUNK_LINE_BYTES \<Longrightarrow> parse_chunk_size_line l = Inr 0
    \<Longrightarrow> trailer_part t \<Longrightarrow> length t \<le> HTTP_CLIENT_MAX_TRAILER_BYTES \<Longrightarrow> chunked (length l + 2) (l @ CH_CR # CH_LF # t) []"
| chunked_next: "unbroken l \<Longrightarrow> length l \<le> HTTP_CLIENT_MAX_CHUNK_LINE_BYTES \<Longrightarrow> parse_chunk_size_line l = Inr (length d) \<Longrightarrow> d \<noteq> []
    \<Longrightarrow> chunked f e ds \<Longrightarrow> chunked (length l + 4 + f) (l @ CH_CR # CH_LF # d @ CH_CR # CH_LF # e) (d @ ds)"

definition walk_ok :: "chunk_walk \<Rightarrow> bytes \<Rightarrow> bool" where
  "walk_ok s b \<longleftrightarrow> cw_write s \<le> cw_read s \<and> cw_read s \<le> length b \<and> cw_framing s \<le> HTTP_CLIENT_MAX_CHUNK_FRAMING_BYTES"

section \<open>Trailers\<close>

lemma trailers_runs: "start \<le> cursor \<Longrightarrow> \<exists>r. validate_chunk_trailers b start cursor = Some r"
proof (induction b start cursor rule: validate_chunk_trailers.induct)
  case (1 b start cursor)
  let ?long = "length b - start > HTTP_CLIENT_MAX_TRAILER_BYTES"
  let ?limit = "if ?long then start + HTTP_CLIENT_MAX_TRAILER_BYTES else length b"
  show ?case
  proof (cases "cursor > length b \<or> cursor - start > HTTP_CLIENT_MAX_TRAILER_BYTES")
    case True
    then show ?thesis by (subst validate_chunk_trailers.simps) simp
  next
    case False
    then have lim: "?limit \<le> length b" by auto
    obtain found where f: "find_crlf b cursor ?limit = Some found" using find_crlf_runs[OF lim] by blast
    show ?thesis
    proof (cases found)
      case None
      then show ?thesis using False f by (subst validate_chunk_trailers.simps) (simp add: Let_def)
    next
      case (Some e)
      have e: "cursor \<le> e" "e + 2 \<le> length b" using find_crlf_found[of b cursor ?limit e] f Some lim by auto
      then have l: "load_bytes b cursor (e - cursor) = Some (take (e - cursor) (drop cursor b))" by (simp add: load_simps)
      have s: "start \<le> e + 2" using e 1(2) by simp
      show ?thesis
        using 1(1)[OF False refl refl f Some _ _ l _ _ s] False f Some l
        by (subst validate_chunk_trailers.simps) (auto simp: Let_def split: sum.splits)
    qed
  qed
qed

lemma trailers_sound:
  "validate_chunk_trailers b start cursor = Some (Inr (length b)) \<Longrightarrow> start \<le> cursor \<Longrightarrow>
   trailer_part (drop cursor b) \<and> length b - start \<le> HTTP_CLIENT_MAX_TRAILER_BYTES"
proof (induction b start cursor rule: validate_chunk_trailers.induct)
  case (1 b start cursor)
  let ?long = "length b - start > HTTP_CLIENT_MAX_TRAILER_BYTES"
  let ?limit = "if ?long then start + HTTP_CLIENT_MAX_TRAILER_BYTES else length b"
  have ok: "\<not> (cursor > length b \<or> cursor - start > HTTP_CLIENT_MAX_TRAILER_BYTES)"
    using 1(2) by (subst (asm) validate_chunk_trailers.simps) (auto split: if_splits)
  then have lim: "?limit \<le> length b" by auto
  obtain e where f: "find_crlf b cursor ?limit = Some (Some e)"
    using 1(2) ok by (subst (asm) validate_chunk_trailers.simps) (auto simp: Let_def split: if_splits option.splits)
  have short: "\<not> e + 2 - start > HTTP_CLIENT_MAX_TRAILER_BYTES"
    using 1(2) ok f by (subst (asm) validate_chunk_trailers.simps) (auto simp: Let_def split: if_splits)
  define l where "l = take (e - cursor) (drop cursor b)"
  have l: "unbroken l" "cursor \<le> e" "e + 2 \<le> length b" "drop cursor b = l @ CH_CR # CH_LF # drop (e + 2) b"
    using find_crlf_line[OF f lim] lim unfolding l_def by auto
  have ld: "load_bytes b cursor (e - cursor) = Some l" using l(2,3) by (simp add: load_simps l_def)
  show ?case
  proof (cases "e = cursor")
    case True
    then have "length b = e + 2" using 1(2) ok f short by (subst (asm) validate_chunk_trailers.simps) (simp add: Let_def)
    then show ?thesis using l(4) short True by (simp add: l_def trailer_end)
  next
    case False
    obtain h where h: "parse_header_view l = Inr h" "\<not> forbidden_trailer_name (hv_name h)"
      and rec: "validate_chunk_trailers b start (e + 2) = Some (Inr (length b))"
      using 1(2) ok f short False ld
      by (subst (asm) validate_chunk_trailers.simps) (auto simp: Let_def split: sum.splits if_splits)
    have "start \<le> e + 2" using 1(3) l(2) by simp
    from 1(1)[OF ok refl refl f refl short False ld h(1) h(2) rec this]
    have t: "trailer_part (drop (e + 2) b)" "length b - start \<le> HTTP_CLIENT_MAX_TRAILER_BYTES" by blast+
    have "l \<noteq> []" using False l(2,3) by (simp add: l_def)
    then have "trailer_part (drop cursor b)" unfolding l(4) by (rule trailer_line[OF _ l(1) h t(1)])
    then show ?thesis using t(2) by blast
  qed
qed

lemma trailers_complete:
  "trailer_part t \<Longrightarrow> drop cursor b = t \<Longrightarrow> start \<le> cursor \<Longrightarrow> length b - start \<le> HTTP_CLIENT_MAX_TRAILER_BYTES \<Longrightarrow>
   validate_chunk_trailers b start cursor = Some (Inr (length b))"
proof (induction t arbitrary: cursor rule: trailer_part.induct)
  case trailer_end
  have n: "length b = cursor + 2" using arg_cong[OF trailer_end(1), of length] by simp
  have "find_crlf b cursor (length b) = Some (Some (cursor + length ([] :: bytes)))"
    using find_crlf_at[of cursor b "[]" "[]"] trailer_end(1) n by (simp add: unbroken_def)
  then show ?case using trailer_end n by (subst validate_chunk_trailers.simps) (simp add: Let_def)
next
  case (trailer_line l h t)
  have n: "length b = cursor + length l + 2 + length t" using arg_cong[OF trailer_line.prems(1), of length] by simp
  have f: "find_crlf b cursor (length b) = Some (Some (cursor + length l))"
    using find_crlf_at[OF trailer_line.prems(1) trailer_line.hyps(2)] n by simp
  have ld: "load_bytes b cursor (length l) = Some l" using n trailer_line.prems(1) by (simp add: load_simps)
  have "drop (cursor + length l + 2) b = drop (length l + 2) (drop cursor b)" by (simp add: ac_simps)
  also have "\<dots> = t" unfolding trailer_line.prems(1) by simp
  finally have "validate_chunk_trailers b start (cursor + length l + 2) = Some (Inr (length b))"
    using trailer_line.IH[of "cursor + length l + 2"] trailer_line.prems by simp
  moreover have "cursor + length l + 2 - start \<le> HTTP_CLIENT_MAX_TRAILER_BYTES" "cursor - start \<le> HTTP_CLIENT_MAX_TRAILER_BYTES"
    using trailer_line.prems(3) n by linarith+
  ultimately show ?case using trailer_line.hyps trailer_line.prems f ld n
    by (subst validate_chunk_trailers.simps) (simp add: Let_def)
qed

section \<open>Chunks\<close>

lemma copy_forward_blit:
  "to \<le> from \<Longrightarrow> from + n \<le> length b \<Longrightarrow> copy_forward b to from n = Some (take to b @ take n (drop from b) @ drop (to + n) b)"
proof (induction n arbitrary: b to "from")
  case (Suc n)
  let ?b = "b[to := b ! from]"
  have d: "drop (from + 1) ?b = drop (from + 1) b" using Suc.prems by simp
  have t: "take (to + 1) ?b = take to b @ [b ! from]" using Suc.prems by (simp add: take_Suc_conv_app_nth)
  have r: "drop (to + 1 + n) ?b = drop (to + Suc n) b" using Suc.prems by simp
  have "take (Suc n) (drop from b) = b ! from # take n (drop (from + 1) b)"
    using Suc.prems by (metis Cons_nth_drop_Suc Suc_eq_plus1 add_Suc_right less_le_trans less_add_Suc1 take_Suc_Cons)
  then show ?case using Suc.IH[of "to + 1" "from + 1" ?b] Suc.prems d t r by (simp add: load_simps)
qed simp

lemma line_end_runs: "\<exists>r. find_chunk_line_end b start = Some r"
  using find_crlf_runs[of "start + (if length b - start > HTTP_CLIENT_MAX_CHUNK_LINE_BYTES + 2 then HTTP_CLIENT_MAX_CHUNK_LINE_BYTES + 2 else length b - start)" b start]
  by (fastforce simp: find_chunk_line_end_def Let_def)

lemma chunk_data_runs: "\<exists>r. walk_ok s b \<longrightarrow> chunk_data k n s b = Some r"
  by (auto simp: chunk_data_def walk_ok_def load_simps copy_forward_blit)

lemma line_end_line:
  "find_chunk_line_end b start = Some (Inr e) \<Longrightarrow>
   unbroken (take (e - start) (drop start b)) \<and> start \<le> e \<and> e + 2 \<le> length b \<and> e - start \<le> HTTP_CLIENT_MAX_CHUNK_LINE_BYTES
   \<and> drop start b = take (e - start) (drop start b) @ CH_CR # CH_LF # drop (e + 2) b"
proof -
  assume f: "find_chunk_line_end b start = Some (Inr e)"
  define lim where "lim = start + (if length b - start > HTTP_CLIENT_MAX_CHUNK_LINE_BYTES + 2 then HTTP_CLIENT_MAX_CHUNK_LINE_BYTES + 2 else length b - start)"
  have "start \<le> length b" using f by (auto simp: find_chunk_line_end_def split: if_splits)
  then have "lim \<le> length b" by (auto simp: lim_def)
  moreover have "find_crlf b start lim = Some (Some e)" "e - start \<le> HTTP_CLIENT_MAX_CHUNK_LINE_BYTES"
    using f \<open>start \<le> length b\<close> by (auto simp: find_chunk_line_end_def Let_def lim_def bind_eq_Some_conv split: option.splits if_splits)
  ultimately show ?thesis using find_crlf_line[of b start lim e] by auto
qed

lemma line_end_at:
  assumes d: "drop start b = l @ CH_CR # CH_LF # r" and l: "unbroken l" "length l \<le> HTTP_CLIENT_MAX_CHUNK_LINE_BYTES" and s: "start \<le> length b"
  shows "find_chunk_line_end b start = Some (Inr (start + length l))"
proof -
  define lim where "lim = start + (if length b - start > HTTP_CLIENT_MAX_CHUNK_LINE_BYTES + 2 then HTTP_CLIENT_MAX_CHUNK_LINE_BYTES + 2 else length b - start)"
  have "length b = start + length l + 2 + length r" using arg_cong[OF d, of length] s by simp
  then have "start + length l + 2 \<le> lim" "lim \<le> length b" using l by (auto simp: lim_def)
  then have "find_crlf b start lim = Some (Some (start + length l))" by (rule find_crlf_at[OF d l(1)])
  then show ?thesis using s l(2) by (simp add: find_chunk_line_end_def Let_def lim_def)
qed

text \<open>A pass over a chunk whose size line is \<open>l\<close>.\<close>

definition after_line :: "bytes \<Rightarrow> chunk_walk \<Rightarrow> chunk_walk" where
  "after_line l s = s\<lparr>cw_framing := cw_framing s + (length l + 2), cw_read := cw_read s + length l + 2\<rparr>"

lemma walk_chunk_line:
  assumes "find_chunk_line_end b (cw_read s) = Some (Inr (cw_read s + length l))" "load_bytes b (cw_read s) (length l) = Some l"
  shows "walk_chunk k s b = (if length l + 2 > HTTP_CLIENT_MAX_CHUNK_FRAMING_BYTES - cw_framing s
     then Some (ChunksEnd (Inl HTTP_CLIENT_ERROR_CHUNK_METADATA_TOO_LARGE))
     else case parse_chunk_size_line l of Inl e \<Rightarrow> Some (ChunksEnd (Inl e))
       | Inr n \<Rightarrow> if n = 0 then last_chunk (after_line l s) b else chunk_data k n (after_line l s) b)"
  using assms by (simp add: walk_chunk_def Let_def after_line_def split: sum.splits)

lemma line_end_cases:
  obtains e where "find_chunk_line_end b (cw_read s) = Some (Inl e)"
  | l where "find_chunk_line_end b (cw_read s) = Some (Inr (cw_read s + length l))" "load_bytes b (cw_read s) (length l) = Some l"
    "unbroken l" "length l \<le> HTTP_CLIENT_MAX_CHUNK_LINE_BYTES" "cw_read s + length l + 2 \<le> length b"
    "drop (cw_read s) b = l @ CH_CR # CH_LF # drop (cw_read s + length l + 2) b"
proof -
  obtain r where r: "find_chunk_line_end b (cw_read s) = Some r" using line_end_runs by blast
  show ?thesis
  proof (cases r)
    case (Inl e)
    then show ?thesis using that(1) r by simp
  next
    case (Inr e)
    note f = line_end_line[OF r[unfolded Inr]]
    define l where "l = take (e - cw_read s) (drop (cw_read s) b)"
    have "cw_read s \<le> e" "e + 2 \<le> length b" using f by blast+
    then have n: "cw_read s + length l = e" by (simp add: l_def)
    then have n': "length l = e - cw_read s" by simp
    show ?thesis
    proof (rule that(2)[of l])
      show "load_bytes b (cw_read s) (length l) = Some l" using \<open>e + 2 \<le> length b\<close> \<open>cw_read s \<le> e\<close> unfolding n' by (simp add: load_simps l_def)
    qed (use f r Inr n in \<open>auto simp: l_def[symmetric]\<close>)
  qed
qed

lemma walk_chunk_cases:
  obtains e where "walk_chunk k s b = Some (ChunksEnd (Inl e))"
  | l n where "unbroken l" "length l \<le> HTTP_CLIENT_MAX_CHUNK_LINE_BYTES" "cw_read s + length l + 2 \<le> length b"
    "drop (cw_read s) b = l @ CH_CR # CH_LF # drop (cw_read s + length l + 2) b"
    "length l + 2 \<le> HTTP_CLIENT_MAX_CHUNK_FRAMING_BYTES - cw_framing s" "parse_chunk_size_line l = Inr n"
    "walk_chunk k s b = (if n = 0 then last_chunk (after_line l s) b else chunk_data k n (after_line l s) b)"
proof (cases b s rule: line_end_cases)
  case (1 e)
  then show ?thesis using that(1)[of e] by (simp add: walk_chunk_def)
next
  case (2 l)
  note w = walk_chunk_line[OF 2(1,2), of k]
  show ?thesis
  proof (cases "length l + 2 > HTTP_CLIENT_MAX_CHUNK_FRAMING_BYTES - cw_framing s")
    case True
    then show ?thesis using that(1) w by simp
  next
    case False
    then show ?thesis using that 2 w by (cases "parse_chunk_size_line l") (simp_all add: not_less)
  qed
qed

lemma walk_ok_line: "walk_ok s b \<Longrightarrow> cw_read s + length l + 2 \<le> length b \<Longrightarrow> \<not> length l + 2 > HTTP_CLIENT_MAX_CHUNK_FRAMING_BYTES - cw_framing s
  \<Longrightarrow> walk_ok (after_line l s) b"
  by (auto simp: walk_ok_def after_line_def)

lemma chunk_data_cases:
  assumes "chunk_data k n s b = Some (ChunksNext b' s')" "walk_ok s b"
  shows "drop (cw_read s) b = take n (drop (cw_read s) b) @ CH_CR # CH_LF # drop (cw_read s') b \<and> length (take n (drop (cw_read s) b)) = n
    \<and> s' = \<lparr>cw_read = cw_read s + n + 2, cw_write = cw_write s + n, cw_framing = cw_framing s + 2\<rparr> \<and> walk_ok s' b'
    \<and> length b' = length b \<and> drop (cw_read s') b' = drop (cw_read s') b
    \<and> (if k then take (cw_write s') b' = take (cw_write s) b @ take n (drop (cw_read s) b) else b' = b)"
proof -
  have n: "cw_read s + n + 2 \<le> length b" "b ! (cw_read s + n) = CH_CR" "b ! (cw_read s + n + 1) = CH_LF" "cw_framing s \<le> 16382"
    "s' = \<lparr>cw_read = cw_read s + n + 2, cw_write = cw_write s + n, cw_framing = cw_framing s + 2\<rparr>"
    "b' = (if k then take (cw_write s) b @ take n (drop (cw_read s) b) @ drop (cw_write s + n) b else b)"
    using assms by (auto simp: chunk_data_def walk_ok_def load_simps copy_forward_blit split: if_splits)
  have w: "cw_write s \<le> cw_read s" "cw_read s \<le> length b" using assms(2) by (simp_all add: walk_ok_def)
  have "drop (cw_read s + n) b = CH_CR # CH_LF # drop (cw_read s + n + 2) b"
    using n(1-3) by (metis Cons_nth_drop_Suc Suc_eq_plus1 Suc_lessD add_2_eq_Suc' Suc_le_lessD)
  then have "drop (cw_read s) b = take n (drop (cw_read s) b) @ CH_CR # CH_LF # drop (cw_read s + n + 2) b"
    by (metis append_take_drop_id drop_drop add.commute)
  then show ?thesis using n w by (auto simp: walk_ok_def)
qed

lemma chunk_data_at:
  assumes "drop (cw_read s) b = d @ CH_CR # CH_LF # e" "walk_ok s b" "cw_framing s + 2 \<le> HTTP_CLIENT_MAX_CHUNK_FRAMING_BYTES"
  shows "\<exists>b' s'. chunk_data k (length d) s b = Some (ChunksNext b' s') \<and> drop (cw_read s') b = e"
proof -
  have n: "length b = cw_read s + length d + 2 + length e"
    using arg_cong[OF assms(1), of length] assms(2) by (simp add: walk_ok_def)
  have r: "drop (cw_read s + length d) b = CH_CR # CH_LF # e"
    using assms(1) by (metis add.commute append_eq_conv_conj drop_drop)
  have "b ! (cw_read s + length d) = CH_CR" "b ! (cw_read s + length d + 1) = CH_LF"
    using arg_cong[OF r, of "\<lambda>x. x ! 0"] arg_cong[OF r, of "\<lambda>x. x ! 1"] n by (simp_all add: add.assoc)
  moreover have "drop (cw_read s + length d + 2) b = e" using arg_cong[OF r, of "drop 2"] by (simp add: ac_simps)
  ultimately show ?thesis using n assms(2,3) by (auto simp: chunk_data_def walk_ok_def load_simps copy_forward_blit)
qed

lemma chunk_data_end: "chunk_data k n s b \<noteq> Some (ChunksEnd (Inr m))"
  by (auto simp: chunk_data_def bind_eq_Some_conv split: if_splits)

section \<open>The walk\<close>

lemma last_chunk_runs: "\<exists>r. last_chunk s b = Some (ChunksEnd r)"
  using trailers_runs[of "cw_read s" "cw_read s" b] by (auto simp: last_chunk_def)

lemma last_chunk_Inr: "last_chunk s b = Some (ChunksEnd (Inr n)) \<longleftrightarrow>
  n = cw_write s \<and> validate_chunk_trailers b (cw_read s) (cw_read s) = Some (Inr (length b))"
  using trailers_runs[of "cw_read s" "cw_read s" b] by (auto simp: last_chunk_def split: sum.splits if_splits)

lemma walk_runs: "walk_ok s b \<Longrightarrow> \<exists>r b'. walk_loop k s b = Some (r, b') \<and> length b' = length b"
proof (induction k s b rule: walk_loop.induct)
  case (1 k s b)
  obtain step where s: "walk_chunk k s b = Some step" "\<And>b' s'. step = ChunksNext b' s' \<Longrightarrow> walk_ok s' b' \<and> length b' = length b"
  proof (cases k s b rule: walk_chunk_cases)
    case (1 e)
    then show ?thesis using that by blast
  next
    case (2 l n)
    have w: "walk_ok (after_line l s) b" using walk_ok_line[OF \<open>walk_ok s b\<close> 2(3)] 2(5) by simp
    show ?thesis
    proof (cases "n = 0")
      case True
      then show ?thesis using that 2(7) last_chunk_runs[of "after_line l s" b] by auto
    next
      case False
      obtain step where "chunk_data k n (after_line l s) b = Some step" using chunk_data_runs w by blast
      then show ?thesis using that 2(7) False chunk_data_cases[OF _ w, of k n] by auto
    qed
  qed
  show ?case
  proof (cases step)
    case (ChunksEnd r)
    then show ?thesis using s(1) by (subst walk_loop.simps) simp
  next
    case (ChunksNext b' s')
    then show ?thesis using 1(1)[OF s(1) ChunksNext] s by (subst walk_loop.simps) simp
  qed
qed

text \<open>What a walk that succeeds has read and written.\<close>

definition walked :: "bool \<Rightarrow> chunk_walk \<Rightarrow> bytes \<Rightarrow> nat \<Rightarrow> bytes \<Rightarrow> nat \<Rightarrow> bytes \<Rightarrow> bool" where
  "walked k s b f d n b' \<longleftrightarrow> cw_framing s + f \<le> HTTP_CLIENT_MAX_CHUNK_FRAMING_BYTES \<and> n = cw_write s + length d
     \<and> (if k then take n b' = take (cw_write s) b @ d else b' = b)"

lemma walk_sound:
  "walk_loop k s b = Some (Inr n, b') \<Longrightarrow> walk_ok s b \<Longrightarrow> \<exists>f d. chunked f (drop (cw_read s) b) d \<and> walked k s b f d n b'"
proof (induction k s b rule: walk_loop.induct)
  case (1 k s b)
  show ?case
  proof (cases k s b rule: walk_chunk_cases)
    case (1 e)
    then show ?thesis using \<open>walk_loop k s b = _\<close> by (subst (asm) walk_loop.simps) simp
  next
    case (2 l m)
    have w: "walk_ok (after_line l s) b" using walk_ok_line[OF \<open>walk_ok s b\<close> 2(3)] 2(5) by simp
    show ?thesis
    proof (cases "m = 0")
      case True
      have "walk_chunk k s b = Some (ChunksEnd (Inr n)) \<and> b' = b"
        using \<open>walk_loop k s b = _\<close> 2(7) True last_chunk_runs[of "after_line l s" b] by (subst (asm) walk_loop.simps) auto
      then have v: "n = cw_write s" "validate_chunk_trailers b (cw_read s + length l + 2) (cw_read s + length l + 2) = Some (Inr (length b))" "b' = b"
        using 2(7) True by (auto simp: last_chunk_Inr after_line_def)
      from trailers_sound[OF v(2)] have "chunked (length l + 2) (drop (cw_read s) b) []"
        unfolding 2(4) using 2(1,2,3,6) True by (intro chunked_last) auto
      then show ?thesis using v(1,3) 2(5) \<open>walk_ok s b\<close> by (auto simp: walked_def walk_ok_def)
    next
      case False
      obtain b1 s1 where c: "chunk_data k m (after_line l s) b = Some (ChunksNext b1 s1)" "walk_loop k s1 b1 = Some (Inr n, b')"
        using \<open>walk_loop k s b = _\<close> 2(7) False chunk_data_end by (subst (asm) walk_loop.simps) (auto split: option.splits chunk_step.splits)
      have s: "walk_chunk k s b = Some (ChunksNext b1 s1)" using c(1) 2(7) False by simp
      note d = chunk_data_cases[OF c(1) w]
      obtain f e where r: "chunked f (drop (cw_read s1) b1) e" "walked k s1 b1 f e n b'"
        using "1.IH"[OF s refl c(2)] d by blast
      define x where "x = take m (drop (cw_read s + length l + 2) b)"
      have xt: "take m (drop (Suc (Suc (cw_read s + length l))) b) = x" by (simp add: x_def)
      have x: "length x = m" "x \<noteq> []" "drop (cw_read s + length l + 2) b = x @ CH_CR # CH_LF # drop (cw_read s1) b1"
        using d False by (auto simp: x_def after_line_def)
      have "chunked (length l + 4 + f) (drop (cw_read s) b) (x @ e)"
        unfolding 2(4) unfolding x(3) using 2(1,2,6) x r(1) by (intro chunked_next) auto
      moreover have "walked k s b (length l + 4 + f) (x @ e) n b'"
        using r(2) d x(1) xt by (auto simp: walked_def after_line_def split: if_splits)
      ultimately show ?thesis by blast
    qed
  qed
qed

lemma walk_complete:
  "chunked f e d \<Longrightarrow> drop (cw_read s) b = e \<Longrightarrow> walk_ok s b \<Longrightarrow> cw_framing s + f \<le> HTTP_CLIENT_MAX_CHUNK_FRAMING_BYTES \<Longrightarrow>
   \<exists>b'. walk_loop k s b = Some (Inr (cw_write s + length d), b') \<and> (if k then take (cw_write s + length d) b' = take (cw_write s) b @ d else b' = b)"
proof (induction f e d arbitrary: s b rule: chunked.induct)
  case (chunked_last l t)
  have n: "length b = cw_read s + length l + 2 + length t"
    using arg_cong[OF chunked_last.prems(1), of length] chunked_last.prems(2) by (simp add: walk_ok_def)
  have e: "find_chunk_line_end b (cw_read s) = Some (Inr (cw_read s + length l))"
    by (rule line_end_at[OF chunked_last.prems(1)]) (use chunked_last n in auto)
  have l: "load_bytes b (cw_read s) (length l) = Some l" using n chunked_last.prems(1) by (simp add: load_simps)
  have "drop (cw_read s + length l + 2) b = drop (length l + 2) (drop (cw_read s) b)" by (simp add: ac_simps)
  also have "\<dots> = t" unfolding chunked_last.prems(1) by simp
  finally have v: "validate_chunk_trailers b (cw_read s + length l + 2) (cw_read s + length l + 2) = Some (Inr (length b))"
    using trailers_complete[OF chunked_last.hyps(4)] n chunked_last.hyps(5) by simp
  then have "last_chunk (after_line l s) b = Some (ChunksEnd (Inr (cw_write s)))" by (simp add: last_chunk_Inr after_line_def)
  then have "walk_chunk k s b = Some (ChunksEnd (Inr (cw_write s)))"
    unfolding walk_chunk_line[OF e l] using chunked_last.hyps(3) chunked_last.prems(3) by auto
  then show ?case by (subst walk_loop.simps) simp
next
  case (chunked_next l d f e ds)
  have n: "length b = cw_read s + length l + 4 + length d + length e"
    using arg_cong[OF chunked_next.prems(1), of length] chunked_next.prems(2) by (simp add: walk_ok_def)
  have en: "find_chunk_line_end b (cw_read s) = Some (Inr (cw_read s + length l))"
    by (rule line_end_at[OF chunked_next.prems(1)]) (use chunked_next n in auto)
  have l: "load_bytes b (cw_read s) (length l) = Some l" using n chunked_next.prems(1) by (simp add: load_simps)
  have "drop (cw_read s + length l + 2) b = drop (length l + 2) (drop (cw_read s) b)" by (simp add: ac_simps)
  also have "\<dots> = d @ CH_CR # CH_LF # e" unfolding chunked_next.prems(1) by simp
  finally have dr: "drop (cw_read (after_line l s)) b = d @ CH_CR # CH_LF # e" by (simp add: after_line_def)
  have w: "walk_ok (after_line l s) b" by (rule walk_ok_line[OF chunked_next.prems(2)]) (use n chunked_next.prems(3) in auto)
  have fr: "cw_framing (after_line l s) + 2 \<le> HTTP_CLIENT_MAX_CHUNK_FRAMING_BYTES"
    using chunked_next.prems(3) by (simp add: after_line_def)
  obtain b1 s1 where c: "chunk_data k (length d) (after_line l s) b = Some (ChunksNext b1 s1)" "drop (cw_read s1) b = e"
    using chunk_data_at[OF dr w, of k] fr by blast
  note x = chunk_data_cases[OF c(1) w]
  have s: "walk_chunk k s b = Some (ChunksNext b1 s1)"
    unfolding walk_chunk_line[OF en l] using chunked_next.hyps(3,4) chunked_next.prems(3) c(1) by auto
  have "cw_framing s1 + f \<le> HTTP_CLIENT_MAX_CHUNK_FRAMING_BYTES" "cw_write s1 = cw_write s + length d"
    using x chunked_next.prems(3) by (auto simp: after_line_def)
  then obtain b2 where r: "walk_loop k s1 b1 = Some (Inr (cw_write s1 + length ds), b2)"
    "if k then take (cw_write s1 + length ds) b2 = take (cw_write s1) b1 @ ds else b2 = b1"
    using chunked_next.IH[of s1 b1] x c(2) by auto
  have "walk_loop k s b = walk_loop k s1 b1" using s by (subst walk_loop.simps) simp
  then show ?case using r x \<open>cw_write s1 = cw_write s + length d\<close> dr by (auto simp: after_line_def add.assoc split: if_splits)
qed

section \<open>Decoding\<close>

lemma walk_body_runs: "\<exists>r b'. walk_chunked_body k b = Some (r, b') \<and> length b' = length b"
  unfolding walk_chunked_body_def by (rule walk_runs) (simp add: walk_ok_def)

lemma walk_body_complete: "chunked f b d \<Longrightarrow> f \<le> HTTP_CLIENT_MAX_CHUNK_FRAMING_BYTES \<Longrightarrow>
  \<exists>b'. walk_chunked_body k b = Some (Inr (length d), b') \<and> (if k then take (length d) b' = d else b' = b)"
  using walk_complete[of f b d "\<lparr>cw_read = 0, cw_write = 0, cw_framing = 0\<rparr>" b k]
  by (cases k) (simp_all add: walk_chunked_body_def walk_ok_def)

lemma walk_body_sound: "walk_chunked_body k b = Some (Inr n, b') \<Longrightarrow>
  \<exists>f d. chunked f b d \<and> f \<le> HTTP_CLIENT_MAX_CHUNK_FRAMING_BYTES \<and> n = length d \<and> (if k then take n b' = d else b' = b)"
  using walk_sound[of k "\<lparr>cw_read = 0, cw_write = 0, cw_framing = 0\<rparr>" b n b']
  by (auto simp: walk_chunked_body_def walk_ok_def walked_def split: if_splits)

lemma decode_complete: "chunked f b d \<Longrightarrow> f \<le> HTTP_CLIENT_MAX_CHUNK_FRAMING_BYTES \<Longrightarrow>
  \<exists>b'. decode_chunked_body b = Some (Inr (length d), b') \<and> take (length d) b' = d"
  using walk_body_complete[of f b d False] walk_body_complete[of f b d True] by (auto simp: decode_chunked_body_def)

lemma walk_fails_unchanged: "walk_loop False s b = Some (r, b') \<Longrightarrow> walk_ok s b \<Longrightarrow> b' = b"
proof (induction "False" s b rule: walk_loop.induct)
  case (1 s b)
  show ?case
  proof (cases "walk_chunk False s b")
    case None
    then show ?thesis using 1(2) by (subst (asm) walk_loop.simps) simp
  next
    case (Some step)
    show ?thesis
    proof (cases step)
      case (ChunksEnd q)
      then show ?thesis using 1(2) Some by (subst (asm) walk_loop.simps) simp
    next
      case (ChunksNext b1 s1)
      have "b1 = b \<and> walk_ok s1 b1"
      proof (cases False s b rule: walk_chunk_cases)
        case (2 l n)
        have "walk_ok (after_line l s) b" using walk_ok_line[OF 1(3) 2(3)] 2(5) by simp
        then show ?thesis using chunk_data_cases[of False n "after_line l s" b b1 s1] 2(7) Some ChunksNext last_chunk_ends[of _ b b1 s1]
          by (cases "n = 0") auto
      qed (use Some ChunksNext in auto)
      moreover have "walk_loop False s1 b1 = Some (r, b')" using 1(2) Some ChunksNext by (subst (asm) walk_loop.simps) simp
      ultimately show ?thesis using 1(1)[OF Some ChunksNext] by blast
    qed
  qed
qed

lemma decode_cases:
  obtains (reject) e where "decode_chunked_body b = Some (Inl e, b)"
  | (accept) d f b' where "decode_chunked_body b = Some (Inr (length d), b')" "chunked f b d" "f \<le> HTTP_CLIENT_MAX_CHUNK_FRAMING_BYTES"
    "take (length d) b' = d" "length b' = length b"
proof -
  obtain r b1 where w: "walk_chunked_body False b = Some (r, b1)" using walk_body_runs by blast
  then have [simp]: "b1 = b" unfolding walk_chunked_body_def by (rule walk_fails_unchanged) (simp add: walk_ok_def)
  show ?thesis
  proof (cases r)
    case (Inl e)
    then show ?thesis using that(1) w by (simp add: decode_chunked_body_def)
  next
    case (Inr n)
    then obtain f d where d: "chunked f b d" "f \<le> HTTP_CLIENT_MAX_CHUNK_FRAMING_BYTES" "n = length d" using walk_body_sound w by blast
    obtain b' where b': "walk_chunked_body True b = Some (Inr (length d), b')" "take (length d) b' = d"
      using walk_body_complete[OF d(1,2), of True] by auto
    have "length b' = length b" using walk_body_runs[of True b] b'(1) by auto
    then show ?thesis using that(2)[of d b' f] w Inr b' d by (simp add: decode_chunked_body_def)
  qed
qed

lemma chunked_unique: "chunked f b d \<Longrightarrow> chunked f' b d' \<Longrightarrow> f \<le> HTTP_CLIENT_MAX_CHUNK_FRAMING_BYTES \<Longrightarrow> f' \<le> HTTP_CLIENT_MAX_CHUNK_FRAMING_BYTES \<Longrightarrow> d = d'"
  using walk_body_complete[of f b d True] walk_body_complete[of f' b d' True] by auto

end
