(* ===== verification/Http_Props.thy ===== *)
theory Http_Props
  imports Http_Chunks
begin

text \<open>
  The properties of the HTTP client: a response of any bytes is parsed without a read or a write
  outside its buffer, the chunked decoder is exact, and a request has exactly the lines it is meant
  to have.
\<close>

section \<open>Definitions\<close>



function crlf_lines :: "bytes \<Rightarrow> bytes list" where
  "crlf_lines b = (let l = line_of b in if length l + 1 < length b then l # crlf_lines (drop (length l + 2) b) else [b])"
  by pat_completeness auto

termination crlf_lines
  by (relation "measure length") auto

declare crlf_lines.simps [simp del]

definition request_lines :: "bytes \<Rightarrow> bytes \<Rightarrow> bytes list" where
  "request_lines host path = [chars ''GET '' @ path @ chars '' HTTP/1.1'', chars ''Host: '' @ host, chars ''Connection: close'',
     chars ''User-Agent: Nostalux/1.0'', chars ''Accept: */*'', [], []]"

definition request_text :: "bytes \<Rightarrow> bytes \<Rightarrow> bytes" where
  "request_text host path = request_prefix @ path @ host_prefix @ host @ request_suffix"

section \<open>Responses\<close>

lemma header_limit_le: "header_limit b \<le> length b"
  by (simp add: header_limit_def)

lemma head_ok_body [simp]: "head_ok n (r\<lparr>rsp_body := s\<rparr>) = head_ok n r"
  by (simp add: head_ok_def)




lemma parse_body_keeps: "parse_body b h k = Some (Inr r, b') \<Longrightarrow> \<exists>n. r = h\<lparr>rsp_body := (k, n)\<rparr>"
proof (cases "drop k b" rule: decode_cases)
  case (reject e)
  assume "parse_body b h k = Some (Inr r, b')"
  then show ?thesis using reject by (auto simp: parse_body_def Let_def split: if_splits option.splits)
next
  case (accept d f c)
  assume "parse_body b h k = Some (Inr r, b')"
  then show ?thesis using accept(1) by (auto simp: parse_body_def Let_def split: if_splits option.splits)
qed

lemma progress_of_body:
  assumes "http_client_parse_response (Some b) = Some (Inr r, b')" "\<not> rsp_chunked_transfer r" "0 < capacity"
  shows "http_client_response_body_progress (Some b) capacity = Some (min capacity (snd (rsp_body r)))"
proof -
  have b: "b \<noteq> []" using assms(1) by (auto simp: http_client_parse_response_def)
  obtain q where q: "final_head b (header_limit b) 0 0 = Some q" "\<And>r k. q = Inr (r, k) \<Longrightarrow> k \<le> length b"
    using final_head_runs[OF header_limit_le] by blast
  then obtain h k where h: "q = Inr (h, k)" using assms(1) b by (cases q) (auto simp: http_client_parse_response_def)
  have k: "k \<le> length b" using q(2) h by blast
  have p: "parse_body b h k = Some (Inr r, the b')" using assms(1) b q(1) h
    by (auto simp: http_client_parse_response_def bind_eq_Some_conv)
  then have "rsp_chunked_transfer h = rsp_chunked_transfer r" using parse_body_keeps by fastforce
  then show ?thesis using p q(1) h b k assms(2,3)
    by (auto simp: http_client_response_body_progress_def parse_body_def Let_def split: if_splits option.splits)
qed

section \<open>Requests\<close>

lemma append_bytes_next: "length (s @ u) \<le> length d \<Longrightarrow>
  append_bytes (length d) u (True, blit d 0 s, length s) = (True, blit d 0 (s @ u), length (s @ u))"
  using blit_blit_append[of 0 d s u] by (auto simp: append_bytes_def)

lemma append_bytes_fold: "length (s @ concat us) \<le> length d \<Longrightarrow>
  foldl (\<lambda>x u. append_bytes (length d) u x) (True, blit d 0 s, length s) us = (True, blit d 0 (s @ concat us), length (s @ concat us))"
proof (induction us arbitrary: s)
  case (Cons u us)
  then show ?case using Cons.IH[of "s @ u"] append_bytes_next[of s u d] by simp
qed simp

lemma append_bytes_ok: "append_bytes cap t s = (True, out, len) \<Longrightarrow> \<exists>o1 n. s = (True, o1, n) \<and> len = n + length t \<and> len \<le> cap"
  by (cases s) (auto simp: append_bytes_def split: if_splits)

lemma lines_of_crlf: "unbroken l \<Longrightarrow> crlf_lines (l @ CH_CR # CH_LF # r) = l # crlf_lines r"
  by (subst crlf_lines.simps) (simp add: line_of_crlf Let_def)

lemma unbroken_no_cr: "CH_CR \<notin> set l \<Longrightarrow> unbroken l"
  unfolding unbroken_def by (induction l rule: line_of.induct) auto

lemma request_text_lines:
  assumes "CH_CR \<notin> set host" "CH_CR \<notin> set path"
  shows "crlf_lines (request_text host path) = request_lines host path"
proof -
  have e: "request_text host path = (chars ''GET '' @ path @ chars '' HTTP/1.1'') @ CH_CR # CH_LF # (chars ''Host: '' @ host) @ CH_CR # CH_LF #
    chars ''Connection: close'' @ CH_CR # CH_LF # chars ''User-Agent: Nostalux/1.0'' @ CH_CR # CH_LF # chars ''Accept: */*'' @ CH_CR # CH_LF #
    [] @ CH_CR # CH_LF # []"
    by (simp add: request_text_def request_prefix_def host_prefix_def request_suffix_def crlf_def)
  have n: "crlf_lines [] = [[]]" by (subst crlf_lines.simps) simp
  have u: "unbroken (chars ''GET '' @ path @ chars '' HTTP/1.1'')" "unbroken (chars ''Host: '' @ host)" "unbroken (chars ''Connection: close'')"
    "unbroken (chars ''User-Agent: Nostalux/1.0'')" "unbroken (chars ''Accept: */*'')" "unbroken []"
    using assms by (auto intro!: unbroken_no_cr simp: chars_def)
  show ?thesis unfolding e by (simp only: lines_of_crlf u n) (simp add: request_lines_def)
qed

lemma valid_no_cr: "valid_host (Some h) \<Longrightarrow> CH_CR \<notin> set (cstr h)" "valid_path (Some p) \<Longrightarrow> CH_CR \<notin> set (cstr p)"
  by (auto simp: valid_host_def valid_path_def list_all_iff)

lemma build_request:
  fixes host path buf :: bytes
  defines "t \<equiv> request_text host path"
  assumes "append_bytes (length buf) request_suffix (append_bytes (length buf) host (append_bytes (length buf) host_prefix
     (append_bytes (length buf) path (append_bytes (length buf) request_prefix (True, buf, 0))))) = (ok, out, len)"
  shows "if length t \<le> length buf then ok \<and> out = blit buf 0 t \<and> len = length t else \<not> ok"
proof (cases "length t \<le> length buf")
  case True
  then have "(ok, out, len) = (True, blit buf 0 t, length t)" unfolding assms(2)[symmetric]
    using append_bytes_fold[of "[]" "[request_prefix, path, host_prefix, host, request_suffix]" buf] by (simp add: t_def request_text_def)
  then show ?thesis using True by simp
next
  case False
  have "length t \<le> length buf" if ok
    using assms(2) that by (auto dest!: append_bytes_ok simp: t_def request_text_def)
  then show ?thesis using False by auto
qed

text \<open>C37:
  A request that is built consists of exactly the intended lines, whatever host and path were asked
  for: the request line, the host line and three fixed header lines, and nothing the host or the path
  could have added.  It lies inside the buffer; and it is refused only when the host or the path is
  invalid or the request does not fit.\<close>

theorem http_request_lines:
  "case http_client_build_get (Some h) (Some p) (Some buf) (length buf) of
     Inr (len, out) \<Rightarrow> crlf_lines (take len out) = request_lines (cstr h) (cstr p) \<and> len \<le> length out \<and> length out = length buf
   | Inl e \<Rightarrow> if valid_host (Some h)
       then if valid_path (Some p) then e = HTTP_CLIENT_ERROR_REQUEST_TOO_LARGE \<and> length buf < length (request_text (cstr h) (cstr p))
         else e = HTTP_CLIENT_ERROR_INVALID_PATH
       else e = HTTP_CLIENT_ERROR_INVALID_HOST"
proof (cases "valid_host (Some h) \<and> valid_path (Some p)")
  case True
  let ?t = "request_text (cstr h) (cstr p)"
  obtain ok out len where a: "append_bytes (length buf) request_suffix (append_bytes (length buf) (cstr h) (append_bytes (length buf) host_prefix
     (append_bytes (length buf) (cstr p) (append_bytes (length buf) request_prefix (True, buf, 0))))) = (ok, out, len)"
    by (metis prod_cases3)
  have l: "crlf_lines ?t = request_lines (cstr h) (cstr p)" using True valid_no_cr by (intro request_text_lines) auto
  have f: "length ?t = length buf \<Longrightarrow> blit buf 0 ?t = ?t" by (simp add: blit_def)
  show ?thesis using build_request[OF a] True a l f
    by (cases "length ?t \<le> length buf") (auto simp: http_client_build_get_def Let_def buf_simps)
next
  case False
  then show ?thesis by (auto simp: http_client_build_get_def)
qed

end
