(* ===== verification/Spec2Isabelle.thy ===== *)
theory Spec2Isabelle
  imports Fs_Props Ata_Props Heap App_Process Irq_Registry User_Return Net_Props Http_Props
begin

text \<open>
  A verification library for the kernel of NostaluxOS.
\<close>

end
